(* ===== verification/NK_Prelude.thy ===== *)
theory NK_Prelude
  imports Main "HOL-Library.AList" "HOL-Library.Sublist"
begin

text \<open>
  What every component shares: times, the JavaScript \<open>Map\<close> as an association list in
  insertion order, the string operations of the language the code calls, and the
  collections of rewrite rules the component proofs use.

  Strings are lists of \<open>char\<close>, which stand for the UTF-16 code units 0 to 255. On that
  range \<open>String.prototype.trim\<close> and \<open>toLowerCase\<close> are defined below as
  ECMAScript defines them. Times are integers in milliseconds (what \<open>Date.now()\<close>
  returns) and are an argument of every operation that reads the clock.
\<close>

named_theorems op_defs \<open>definitions of the operations of a component\<close>
named_theorems inv_simps \<open>rewriting an invariant through an operation\<close>

type_synonym ms = int

section \<open>JavaScript maps\<close>

text \<open>
  \<open>Map\<close> iterates in insertion order; \<open>set\<close> on a key that is present keeps its
  position, on a new key it appends.
\<close>

type_synonym ('k, 'v) jsmap = "('k \<times> 'v) list"

abbreviation jm_get :: "('k, 'v) jsmap \<Rightarrow> 'k \<Rightarrow> 'v option" where
  "jm_get \<equiv> map_of"

abbreviation jm_set :: "'k \<Rightarrow> 'v \<Rightarrow> ('k, 'v) jsmap \<Rightarrow> ('k, 'v) jsmap" where
  "jm_set \<equiv> AList.update"

abbreviation jm_delete :: "'k \<Rightarrow> ('k, 'v) jsmap \<Rightarrow> ('k, 'v) jsmap" where
  "jm_delete \<equiv> AList.delete"

abbreviation jm_keys :: "('k, 'v) jsmap \<Rightarrow> 'k list" where
  "jm_keys m \<equiv> map fst m"

abbreviation jm_wf :: "('k, 'v) jsmap \<Rightarrow> bool" where
  "jm_wf m \<equiv> distinct (map fst m)"

lemma jm_set_new: "k \<notin> fst ` set m \<Longrightarrow> jm_set k v m = m @ [(k, v)]"
  by (induction m) auto

lemma jm_keys_delete: "jm_keys (jm_delete k m) = removeAll k (jm_keys m)"
  by (induction m) auto

lemma jm_set_after_delete: "jm_set k v (jm_delete k m) = jm_delete k m @ [(k, v)]"
proof -
  have "k \<notin> set (jm_keys (jm_delete k m))" by (simp only: jm_keys_delete set_removeAll) simp
  then show ?thesis by (intro jm_set_new) simp
qed

lemma jm_get_delete: "jm_get (jm_delete k m) = (jm_get m)(k := None)"
  by (simp add: delete_conv')

lemma jm_get_set: "jm_get (jm_set k v m) = (jm_get m)(k \<mapsto> v)"
  by (rule update_conv')

lemma jm_get_append_other [simp]:
  "k' \<noteq> k \<Longrightarrow> jm_get (m @ [(k, v)]) k' = jm_get m k'"
  by (simp add: map_add_def split: option.split)

lemma jm_wf_delete: "jm_wf m \<Longrightarrow> jm_wf (jm_delete k m)"
  by (simp add: distinct_delete)

lemma jm_wf_set: "jm_wf m \<Longrightarrow> jm_wf (jm_set k v m)"
  by (simp add: distinct_update)

lemma jm_set_delete_eq: "set (jm_delete k m) = {p \<in> set m. fst p \<noteq> k}"
  by (auto simp: AList.delete_eq)

lemma jm_wf_snoc: "jm_wf m \<Longrightarrow> k \<notin> set (jm_keys m) \<Longrightarrow> jm_wf (m @ [(k, v)])"
  by simp

lemma length_jm_set: "jm_wf m \<Longrightarrow> length (jm_set k v m) =
    (if k \<in> set (jm_keys m) then length m else Suc (length m))"
  by (induction m) auto

lemma length_jm_delete_le: "length (jm_delete k m) \<le> length m"
  by (rule length_delete_le)

lemma jm_delete_absent: "k \<notin> fst ` set m \<Longrightarrow> jm_delete k m = m"
  by (induction m) auto

lemma length_jm_delete_present:
  "jm_wf m \<Longrightarrow> k \<in> fst ` set m \<Longrightarrow> Suc (length (jm_delete k m)) = length m"
  by (induction m) (auto simp: jm_delete_absent)

section \<open>Strings\<close>

definition js_space :: "char \<Rightarrow> bool" where
  "js_space c = (let n = (of_char c :: nat) in n \<in> {9, 10, 11, 12, 13, 32, 160})"

definition js_trim :: "string \<Rightarrow> string" where
  "js_trim s = rev (dropWhile js_space (rev (dropWhile js_space s)))"

definition js_lower_char :: "char \<Rightarrow> char" where
  "js_lower_char c =
     (let n = (of_char c :: nat)
      in if 65 \<le> n \<and> n \<le> 90 \<or> 192 \<le> n \<and> n \<le> 222 \<and> n \<noteq> 215 then char_of (n + 32) else c)"

definition js_lower :: "string \<Rightarrow> string" where
  "js_lower s = map js_lower_char s"

lemma of_char_bound: "(of_char c :: nat) < 256"
  by (metis of_char_mod_256 mod_less_divisor zero_less_numeral)

lemma of_char_js_lower_char:
  "(of_char (js_lower_char c) :: nat) =
     (let n = of_char c
      in if 65 \<le> n \<and> n \<le> 90 \<or> 192 \<le> n \<and> n \<le> 222 \<and> n \<noteq> 215 then n + 32 else n)"
  by (auto simp: js_lower_char_def Let_def)

lemma js_lower_char_idem [simp]: "js_lower_char (js_lower_char c) = js_lower_char c"
proof -
  have "(of_char (js_lower_char (js_lower_char c)) :: nat) = of_char (js_lower_char c)"
    by (subst of_char_js_lower_char, simp only: of_char_js_lower_char [of c])
       (auto simp: Let_def)
  then show ?thesis by simp
qed

lemma js_space_lower [simp]: "js_space (js_lower_char c) = js_space c"
  by (auto simp: js_space_def of_char_js_lower_char Let_def)

lemma js_lower_char_at [simp]: "js_lower_char c = CHR ''@'' \<longleftrightarrow> c = CHR ''@''"
proof -
  have "js_lower_char c = CHR ''@'' \<longleftrightarrow> (of_char (js_lower_char c) :: nat) = of_char (CHR ''@'')"
    by (metis of_char_eq_iff)
  also have "\<dots> \<longleftrightarrow> (of_char c :: nat) = of_char (CHR ''@'')"
    by (auto simp: of_char_js_lower_char Let_def)
  finally show ?thesis by (metis of_char_eq_iff)
qed

lemma js_lower_idem [simp]: "js_lower (js_lower s) = js_lower s"
  by (simp add: js_lower_def comp_def)

lemma at_in_js_lower [simp]: "CHR ''@'' \<in> set (js_lower s) \<longleftrightarrow> CHR ''@'' \<in> set s"
  by (auto simp: js_lower_def image_iff) (metis js_lower_char_at)+

lemma dropWhile_space_lower:
  "dropWhile js_space (map js_lower_char s) = map js_lower_char (dropWhile js_space s)"
  by (induction s) auto

lemma js_trim_lower: "js_trim (js_lower s) = js_lower (js_trim s)"
  by (simp add: js_trim_def js_lower_def dropWhile_space_lower rev_map)

definition js_trimmed :: "string \<Rightarrow> bool" where
  "js_trimmed s \<longleftrightarrow> s = [] \<or> (\<not> js_space (hd s) \<and> \<not> js_space (last s))"

lemma js_trimmed_trim: "js_trimmed (js_trim s)"
proof -
  let ?t = "dropWhile js_space s"
  let ?u = "dropWhile js_space (rev ?t)"
  show ?thesis
  proof (cases "?u = []")
    case False
    then have last: "\<not> js_space (last (rev ?u))"
      by (simp add: last_rev hd_dropWhile)
    obtain p where p: "rev ?t = p @ ?u" using suffix_dropWhile unfolding suffix_def by blast
    then have "?t = rev ?u @ rev p" by (metis rev_append rev_rev_ident)
    moreover have "rev ?u \<noteq> []" using False by simp
    ultimately have "hd ?t = hd (rev ?u)" "?t \<noteq> []" by (metis hd_append2, fastforce)
    then have "\<not> js_space (hd (rev ?u))" by (metis hd_dropWhile)
    with last show ?thesis by (simp add: js_trim_def js_trimmed_def)
  qed (simp add: js_trim_def js_trimmed_def)
qed

lemma js_trim_trimmed: "js_trimmed s \<Longrightarrow> js_trim s = s"
  by (auto simp: js_trimmed_def js_trim_def dropWhile_eq_self_iff [THEN iffD2] hd_rev)

lemma js_trim_idem [simp]: "js_trim (js_trim s) = js_trim s"
  by (rule js_trim_trimmed) (rule js_trimmed_trim)

text \<open>\<open>s.includes(t)\<close> and \<open>s.startsWith(t)\<close>.\<close>

definition js_includes :: "string \<Rightarrow> string \<Rightarrow> bool" where
  "js_includes s t = list_ex (prefix t) (suffixes s)"

definition js_startsWith :: "string \<Rightarrow> string \<Rightarrow> bool" where
  "js_startsWith s t = prefix t s"

text \<open>\<open>String(n)\<close> of an integer.\<close>

fun show_nat :: "nat \<Rightarrow> string" where
  "show_nat n =
     (if n < 10 then [char_of (48 + n)] else show_nat (n div 10) @ [char_of (48 + n mod 10)])"

declare show_nat.simps [simp del]

definition show_int :: "int \<Rightarrow> string" where
  "show_int i = (if i < 0 then ''-'' @ show_nat (nat (- i)) else show_nat (nat i))"

section \<open>The most recent elements of a list\<close>

definition last_n :: "nat \<Rightarrow> 'a list \<Rightarrow> 'a list" where
  "last_n n xs = drop (length xs - n) xs"

lemma last_n_snoc:
  assumes "0 < n"
  shows "last_n n (xs @ [x]) =
    (if n \<le> length xs then tl (last_n n xs) else last_n n xs) @ [x]"
  using assms by (auto simp: last_n_def tl_drop drop_Suc [symmetric] Suc_diff_le)

lemma length_last_n: "length (last_n n xs) = min n (length xs)"
  by (auto simp: last_n_def)

lemma last_n_append: "n \<le> length ys \<Longrightarrow> last_n n (xs @ ys) = last_n n ys"
  by (simp add: last_n_def)

lemma last_n_all: "length xs \<le> n \<Longrightarrow> last_n n xs = xs"
  by (simp add: last_n_def)

lemma last_n_split: obtains ys where "xs = ys @ last_n n xs"
  by (metis append_take_drop_id last_n_def)

lemma remdups_snoc: "remdups (xs @ [x]) = removeAll x (remdups xs) @ [x]"
  by (induction xs) (auto simp: removeAll_filter_not_eq)

lemma last_n_promote:
  assumes "distinct xs" "0 < n"
  shows "last_n n (removeAll x xs @ [x]) =
    (if x \<in> set (last_n n xs) then removeAll x (last_n n xs)
     else if n \<le> length (last_n n xs) then tl (last_n n xs) else last_n n xs) @ [x]"
proof -
  obtain as where as: "xs = as @ last_n n xs" by (rule last_n_split)
  define bs where "bs = last_n n xs"
  have xs: "xs = as @ bs" and d: "distinct bs" "set as \<inter> set bs = {}"
    using as assms(1) unfolding bs_def [symmetric] by (metis, metis distinct_append, metis distinct_append)
  have len: "length bs = n \<or> as = [] \<and> length bs < n"
    using xs length_last_n [of n xs] unfolding bs_def [symmetric] by (cases as) auto
  show ?thesis
  proof (cases "x \<in> set bs")
    case True
    from True d(2) have "x \<notin> set as" by blast
    with True have "removeAll x as = as" "Suc (length (removeAll x bs)) = length bs"
      using d length_pos_if_in_set [OF True]
      by (simp_all add: distinct_remove1_removeAll [symmetric] length_remove1)
    then have "last_n n (removeAll x xs @ [x]) = removeAll x bs @ [x]"
      using len xs assms(2)
      by (auto simp: last_n_def)
    then show ?thesis using True by (simp add: bs_def)
  next
    case False
    then have "removeAll x bs = bs" by simp
    then have "last_n n (removeAll x xs @ [x]) = (if n \<le> length bs then tl bs else bs) @ [x]"
      using len xs assms(2) by (auto simp: last_n_def drop_Suc tl_drop Suc_diff_le)
    then show ?thesis using False by (simp add: bs_def)
  qed
qed

text \<open>The first element that a predicate holds of.\<close>

lemma find_update:
  assumes "\<And>x. P (f x) = P x"
  shows "find P (map f xs) = map_option f (find P xs)"
  using assms by (induction xs) auto

lemma find_append: "find P (xs @ ys) = (case find P xs of Some x \<Rightarrow> Some x | None \<Rightarrow> find P ys)"
  by (induction xs) auto

end
