(* ===== verification/Json_Codec.thy ===== *)
theory Json_Codec
  imports NK_Prelude
begin

text \<open>
  The language's codecs the program relies on: JSON values with \<open>JSON.stringify\<close> and
  \<open>JSON.parse\<close>, and \<open>Buffer\<close> with its utf-8 and base64url encodings. A Buffer is
  a list of \<open>char\<close>, each standing for a byte.

  Integral numbers are \<open>JInt\<close>; any other number is \<open>JFrac\<close> with its numeral. The
  parser runs on fuel; \<open>json_parse\<close> gives it twice the length of its input, which
  \<open>json_parse_stringify\<close> shows to be enough for every printed value. Code units above
  255 are outside the string model: an escape for one fails to parse, and a utf-8 sequence
  for one decodes to a question mark.
\<close>

section \<open>JSON values\<close>

datatype json =
    JNull
  | JBool bool
  | JInt int
  | JFrac string
  | JStr string
  | JArr "json list"
  | JObj "(string \<times> json) list"

definition hex_digit :: "nat \<Rightarrow> char" where
  "hex_digit n = (if n < 10 then char_of (48 + n) else char_of (87 + n))"

definition quote_char :: "char \<Rightarrow> string" where
  "quote_char c = (let n = (of_char c :: nat) in
     if n = 34 then [char_of (92::nat), char_of (34::nat)]
     else if n = 92 then [char_of (92::nat), char_of (92::nat)]
     else if n = 8 then [char_of (92::nat), CHR ''b'']
     else if n = 9 then [char_of (92::nat), CHR ''t'']
     else if n = 10 then [char_of (92::nat), CHR ''n'']
     else if n = 12 then [char_of (92::nat), CHR ''f'']
     else if n = 13 then [char_of (92::nat), CHR ''r'']
     else if n < 32 then [char_of (92::nat), CHR ''u'', CHR ''0'', CHR ''0'',
                          hex_digit (n div 16), hex_digit (n mod 16)]
     else [c])"

definition json_quote :: "string \<Rightarrow> string" where
  "json_quote s = CHR 0x22 # concat (map quote_char s) @ [CHR 0x22]"

fun join :: "string \<Rightarrow> string list \<Rightarrow> string" where
  "join sep [] = []"
| "join sep [x] = x"
| "join sep (x # y # xs) = x @ sep @ join sep (y # xs)"

fun json_stringify :: "json \<Rightarrow> string" where
  "json_stringify JNull = ''null''"
| "json_stringify (JBool b) = (if b then ''true'' else ''false'')"
| "json_stringify (JInt i) = show_int i"
| "json_stringify (JFrac s) = s"
| "json_stringify (JStr s) = json_quote s"
| "json_stringify (JArr xs) = ''['' @ join '','' (map json_stringify xs) @ '']''"
| "json_stringify (JObj kvs) =
     ''{'' @ join '','' (map (\<lambda>(k, v). json_quote k @ '':'' @ json_stringify v) kvs) @ ''}''"

text \<open>\<open>JSON.stringify(v, null, 2)\<close>, with the indentation of the enclosing value.\<close>

fun json_pretty :: "nat \<Rightarrow> json \<Rightarrow> string" where
  "json_pretty ind (JArr xs) =
     (if xs = [] then ''[]''
      else ''['' @ [CHR 0x0A] @ replicate (ind + 2) (CHR '' '') @
           join ('','' @ [CHR 0x0A] @ replicate (ind + 2) (CHR '' ''))
             (map (json_pretty (ind + 2)) xs) @
           [CHR 0x0A] @ replicate ind (CHR '' '') @ '']'')"
| "json_pretty ind (JObj kvs) =
     (if kvs = [] then ''{}''
      else ''{'' @ [CHR 0x0A] @ replicate (ind + 2) (CHR '' '') @
           join ('','' @ [CHR 0x0A] @ replicate (ind + 2) (CHR '' ''))
             (map (\<lambda>(k, v). json_quote k @ '': '' @ json_pretty (ind + 2) v) kvs) @
           [CHR 0x0A] @ replicate ind (CHR '' '') @ ''}'')"
| "json_pretty ind v = json_stringify v"

section \<open>Parsing\<close>

definition json_ws :: "char \<Rightarrow> bool" where
  "json_ws c = (let n = (of_char c :: nat) in n = 32 \<or> n = 9 \<or> n = 10 \<or> n = 13)"

definition js_digit :: "char \<Rightarrow> bool" where
  "js_digit c = (let n = (of_char c :: nat) in 48 \<le> n \<and> n \<le> 57)"

definition hex_val :: "char \<Rightarrow> nat option" where
  "hex_val c = (let n = (of_char c :: nat) in
     if 48 \<le> n \<and> n \<le> 57 then Some (n - 48)
     else if 97 \<le> n \<and> n \<le> 102 then Some (n - 87)
     else if 65 \<le> n \<and> n \<le> 70 then Some (n - 55) else None)"

definition unescape :: "char \<Rightarrow> char option" where
  "unescape c = (let n = (of_char c :: nat) in
     if n = 34 \<or> n = 92 \<or> n = 47 then Some c
     else if n = 98 then Some (char_of (8::nat))
     else if n = 116 then Some (char_of (9::nat))
     else if n = 110 then Some (char_of (10::nat))
     else if n = 102 then Some (char_of (12::nat))
     else if n = 114 then Some (char_of (13::nat)) else None)"

definition cons_fst :: "'a \<Rightarrow> ('a list \<times> 'b) option \<Rightarrow> ('a list \<times> 'b) option" where
  "cons_fst x r = map_option (\<lambda>(xs, b). (x # xs, b)) r"

fun parse_chars :: "string \<Rightarrow> (string \<times> string) option" where
  "parse_chars [] = None"
| "parse_chars (c # cs) =
     (if c = CHR 0x22 then Some ([], cs)
      else if c = CHR 0x5C then
        (case cs of
           [] \<Rightarrow> None
         | e # r \<Rightarrow>
             (if e = CHR ''u'' then
                (case r of
                   a # b # x # y # r' \<Rightarrow>
                     (case (hex_val a, hex_val b, hex_val x, hex_val y) of
                        (Some 0, Some 0, Some h, Some l) \<Rightarrow>
                          cons_fst (char_of (16 * h + l)) (parse_chars r')
                      | _ \<Rightarrow> None)
                 | _ \<Rightarrow> None)
              else (case unescape e of None \<Rightarrow> None | Some u \<Rightarrow> cons_fst u (parse_chars r))))
      else if (of_char c :: nat) < 32 then None
      else cons_fst c (parse_chars cs))"

fun digits_val :: "nat \<Rightarrow> string \<Rightarrow> nat" where
  "digits_val a [] = a"
| "digits_val a (c # cs) = digits_val (10 * a + (of_char c - 48)) cs"

text \<open>The part of a numeral after its integer digits: fraction, then exponent.\<close>

definition parse_frac :: "string \<Rightarrow> (string \<times> string) option" where
  "parse_frac s = (case s of
       c # r \<Rightarrow> if c = CHR ''.'' then
                 (if takeWhile js_digit r = [] then None
                  else Some (c # takeWhile js_digit r, dropWhile js_digit r))
               else Some ([], s)
     | [] \<Rightarrow> Some ([], s))"

definition parse_exp :: "string \<Rightarrow> (string \<times> string) option" where
  "parse_exp s = (case s of
       c # r \<Rightarrow>
         if c = CHR ''e'' \<or> c = CHR ''E'' then
           (let sg = (case r of x # _ \<Rightarrow> if x = CHR ''+'' \<or> x = CHR ''-'' then [x] else [] | [] \<Rightarrow> []);
                r' = drop (length sg) r
            in if takeWhile js_digit r' = [] then None
               else Some (c # sg @ takeWhile js_digit r', dropWhile js_digit r'))
         else Some ([], s)
     | [] \<Rightarrow> Some ([], s))"

definition parse_number :: "string \<Rightarrow> (json \<times> string) option" where
  "parse_number s =
     (let neg = (case s of c # _ \<Rightarrow> c = CHR ''-'' | [] \<Rightarrow> False);
          t = (if neg then tl s else s);
          ds = takeWhile js_digit t
      in if ds = [] \<or> (hd ds = CHR ''0'' \<and> tl ds \<noteq> []) then None
         else case parse_frac (dropWhile js_digit t) of
           None \<Rightarrow> None
         | Some (fr, r1) \<Rightarrow>
             (case parse_exp r1 of
                None \<Rightarrow> None
              | Some (ex, r2) \<Rightarrow>
                  Some (if fr = [] \<and> ex = []
                        then JInt (if neg then - int (digits_val 0 ds) else int (digits_val 0 ds))
                        else JFrac ((if neg then ''-'' else []) @ ds @ fr @ ex), r2)))"

definition parse_literal :: "string \<Rightarrow> json \<Rightarrow> string \<Rightarrow> (json \<times> string) option" where
  "parse_literal w v s = (if take (length w) s = w then Some (v, drop (length w) s) else None)"

fun parse_value :: "nat \<Rightarrow> string \<Rightarrow> (json \<times> string) option"
and parse_elems :: "nat \<Rightarrow> string \<Rightarrow> (json list \<times> string) option"
and parse_members :: "nat \<Rightarrow> string \<Rightarrow> ((string \<times> json) list \<times> string) option" where
  "parse_value 0 s = None"
| "parse_value (Suc n) s =
     (case dropWhile json_ws s of
        [] \<Rightarrow> None
      | c # cs \<Rightarrow>
          (if c = CHR 0x22 then map_option (\<lambda>(t, r). (JStr t, r)) (parse_chars cs)
           else if c = CHR ''['' then
             (case dropWhile json_ws cs of
                d # r \<Rightarrow> if d = CHR '']'' then Some (JArr [], r)
                        else map_option (\<lambda>(vs, r'). (JArr vs, r')) (parse_elems n (d # r))
              | [] \<Rightarrow> None)
           else if c = CHR ''{'' then
             (case dropWhile json_ws cs of
                d # r \<Rightarrow> if d = CHR ''}'' then Some (JObj [], r)
                        else map_option (\<lambda>(ms, r'). (JObj (foldl (\<lambda>m (k, v). jm_set k v m) [] ms), r'))
                               (parse_members n (d # r))
              | [] \<Rightarrow> None)
           else if c = CHR ''n'' then parse_literal ''null'' JNull (c # cs)
           else if c = CHR ''t'' then parse_literal ''true'' (JBool True) (c # cs)
           else if c = CHR ''f'' then parse_literal ''false'' (JBool False) (c # cs)
           else parse_number (c # cs)))"
| "parse_elems 0 s = None"
| "parse_elems (Suc n) s =
     (case parse_value n s of
        None \<Rightarrow> None
      | Some (v, r) \<Rightarrow>
          (case dropWhile json_ws r of
             c # r' \<Rightarrow> if c = CHR '','' then cons_fst v (parse_elems n r')
                      else if c = CHR '']'' then Some ([v], r') else None
           | [] \<Rightarrow> None))"
| "parse_members 0 s = None"
| "parse_members (Suc n) s =
     (case dropWhile json_ws s of
        [] \<Rightarrow> None
      | q # cs \<Rightarrow>
          if q \<noteq> CHR 0x22 then None
          else case parse_chars cs of
            None \<Rightarrow> None
          | Some (k, r) \<Rightarrow>
              (case dropWhile json_ws r of
                 [] \<Rightarrow> None
               | d # r1 \<Rightarrow>
                   if d \<noteq> CHR '':'' then None
                   else case parse_value n r1 of
                     None \<Rightarrow> None
                   | Some (v, r2) \<Rightarrow>
                       (case dropWhile json_ws r2 of
                          c # r3 \<Rightarrow> if c = CHR '','' then cons_fst (k, v) (parse_members n r3)
                                   else if c = CHR ''}'' then Some ([(k, v)], r3) else None
                        | [] \<Rightarrow> None)))"

text \<open>\<open>JSON.parse\<close>; \<open>None\<close> is the \<open>SyntaxError\<close>.\<close>

definition json_parse :: "string \<Rightarrow> json option" where
  "json_parse s =
     (case parse_value (2 * length s + 2) s of
        Some (v, r) \<Rightarrow> if dropWhile json_ws r = [] then Some v else None
      | None \<Rightarrow> None)"

section \<open>Round trip\<close>

lemma char_eq_code: "c = d \<longleftrightarrow> (of_char c :: nat) = of_char d"
  by simp

lemma of_char_char_of_small: "n < 256 \<Longrightarrow> (of_char (char_of n :: char) :: nat) = n"
  by simp

lemma hex_val_digit: "n < 16 \<Longrightarrow> hex_val (hex_digit n) = Some n"
  by (auto simp: hex_val_def hex_digit_def Let_def)

lemma hex_val_0: "hex_val (CHR ''0'') = Some 0"
  by code_simp

lemma parse_chars_quote:
  "parse_chars (quote_char c @ r) = cons_fst c (parse_chars r)"
proof -
  have b: "(of_char c :: nat) < 256" by (rule of_char_bound)
  let ?n = "of_char c :: nat"
  have c: "c = char_of ?n" by simp
  consider "?n \<in> {34, 92, 8, 9, 10, 12, 13}" | "?n < 32" "?n \<notin> {8, 9, 10, 12, 13}"
    | "32 \<le> ?n" "?n \<noteq> 34" "?n \<noteq> 92" by fastforce
  then show ?thesis
  proof cases
    case 1
    then show ?thesis
      by (subst (1 2) c) (elim insertE; simp add: quote_char_def unescape_def Let_def char_eq_code)
  next
    case 2
    then have "?n div 16 < 16" "?n mod 16 < 16" "16 * (?n div 16) + ?n mod 16 = ?n" by auto
    then show ?thesis using 2
      by (simp add: quote_char_def Let_def char_eq_code hex_val_digit hex_val_0)
  next
    case 3
    then show ?thesis by (simp add: quote_char_def Let_def char_eq_code)
  qed
qed

lemma parse_chars_quoted:
  "parse_chars (concat (map quote_char s) @ CHR 0x22 # r) = Some (s, r)"
proof (induction s)
  case (Cons c s)
  then show ?case using parse_chars_quote [of c "concat (map quote_char s) @ CHR 0x22 # r"]
    by (simp add: cons_fst_def del: parse_chars.simps)
qed simp


lemma js_digit_code: "n < 10 \<Longrightarrow> js_digit (char_of (48 + n :: nat))"
  by (simp add: js_digit_def)

lemma show_nat_digits: "list_all js_digit (show_nat n)"
proof (induction n rule: show_nat.induct)
  case (1 n)
  then show ?case by (subst show_nat.simps) (simp add: js_digit_code)
qed

lemma digits_val_snoc: "digits_val a (s @ [c]) = 10 * digits_val a s + (of_char c - 48)"
  by (induction s arbitrary: a) auto

lemma digits_val_show: "digits_val 0 (show_nat n) = n"
proof (induction n rule: show_nat.induct)
  case (1 n)
  then show ?case by (subst show_nat.simps) (auto simp: digits_val_snoc)
qed

lemma show_nat_ne [simp]: "show_nat n \<noteq> []"
  by (subst show_nat.simps) simp

lemma hd_show_nat: "0 < n \<Longrightarrow> hd (show_nat n) \<noteq> CHR ''0''"
proof (induction n rule: show_nat.induct)
  case (1 n)
  then show ?case
  proof (cases "n < 10")
    case True
    then show ?thesis using 1(2) by (subst show_nat.simps) (simp add: char_eq_code)
  next
    case False
    then show ?thesis using 1 by (subst show_nat.simps) (simp add: hd_append)
  qed
qed

lemma show_nat_no_leading_zero: "hd (show_nat n) = CHR ''0'' \<Longrightarrow> tl (show_nat n) = []"
  using hd_show_nat [of n] by (cases "n = 0") (simp_all add: show_nat.simps [of 0])

definition ends_number :: "string \<Rightarrow> bool" where
  "ends_number r = (case r of [] \<Rightarrow> True
     | c # _ \<Rightarrow> \<not> js_digit c \<and> c \<noteq> CHR ''.'' \<and> c \<noteq> CHR ''e'' \<and> c \<noteq> CHR ''E'')"

lemma takeWhile_digits:
  assumes "list_all js_digit d" "ends_number r"
  shows "takeWhile js_digit (d @ r) = d" "dropWhile js_digit (d @ r) = r"
  using assms by (induction d) (auto simp: ends_number_def split: list.splits)

lemma parse_number_show:
  assumes "ends_number r"
  shows "parse_number (show_int i @ r) = Some (JInt i, r)"
proof -
  let ?d = "show_nat (nat \<bar>i\<bar>)"
  have d: "list_all js_digit ?d" "\<not> (hd ?d = CHR ''0'' \<and> tl ?d \<noteq> [])"
    using show_nat_digits show_nat_no_leading_zero by blast+
  have neg: "(case ?d @ r of c # _ \<Rightarrow> c = CHR ''-'' | [] \<Rightarrow> False) = False"
    using d(1) by (cases ?d) (auto simp: js_digit_def Let_def split: list.splits)
  have f: "parse_frac r = Some ([], r)" and e: "parse_exp r = Some ([], r)"
    using assms by (auto simp: parse_frac_def parse_exp_def ends_number_def split: list.splits)
  show ?thesis
    using d neg f e takeWhile_digits [OF d(1) assms]
    by (cases "i < 0") (simp_all add: show_int_def parse_number_def Let_def digits_val_show)
qed

text \<open>The values whose text parses back: no fractions, and objects with distinct keys.\<close>

fun json_plain :: "json \<Rightarrow> bool" where
  "json_plain (JFrac s) = False"
| "json_plain (JArr xs) = list_all json_plain xs"
| "json_plain (JObj kvs) = (distinct (map fst kvs) \<and> list_all (\<lambda>(k, v). json_plain v) kvs)"
| "json_plain _ = True"

fun json_fuel :: "json \<Rightarrow> nat" where
  "json_fuel (JArr xs) = Suc (foldr (\<lambda>x n. Suc (max (json_fuel x) n)) xs 0)"
| "json_fuel (JObj kvs) = Suc (foldr (\<lambda>(k, x) n. Suc (max (json_fuel x) n)) kvs 0)"
| "json_fuel _ = 1"

definition value_start :: "char \<Rightarrow> bool" where
  "value_start c = (\<not> json_ws c \<and> c \<noteq> CHR '']'' \<and> c \<noteq> CHR ''}'' \<and> c \<noteq> CHR '','')"

lemma show_int_start: "value_start (hd (show_int i))" "show_int i \<noteq> []"
proof -
  have "js_digit (hd (show_nat n))" for n
    using show_nat_digits [of n] by (cases "show_nat n") auto
  from this [of "nat i"] show "value_start (hd (show_int i))"
    by (auto simp: show_int_def value_start_def json_ws_def js_digit_def Let_def char_eq_code)
qed (simp add: show_int_def)

lemma stringify_start:
  "json_plain v \<Longrightarrow> \<exists>c cs. json_stringify v = c # cs \<and> value_start c"
proof (cases v)
  case (JInt i)
  then show ?thesis using show_int_start [of i] by (cases "show_int i") auto
qed (auto simp: json_quote_def value_start_def json_ws_def)

lemma value_start_dropWhile [simp]: "value_start c \<Longrightarrow> dropWhile json_ws (c # cs) = c # cs"
  by (simp add: value_start_def)

lemma cons_fst_Some [simp]: "cons_fst x (Some (xs, b)) = Some (x # xs, b)"
  by (simp add: cons_fst_def)

lemma foldl_jm_set_fresh:
  "distinct (map fst m @ map fst kvs) \<Longrightarrow> foldl (\<lambda>m (k, v). jm_set k v m) m kvs = m @ kvs"
proof (induction kvs arbitrary: m)
  case (Cons p kvs)
  obtain k v where p: "p = (k, v)" by force
  with Cons.prems have "k \<notin> fst ` set m" by auto
  with Cons p show ?case by (simp add: jm_set_new)
qed simp

lemma ends_number_sep [simp]:
  "ends_number (CHR '','' # r)" "ends_number (CHR '']'' # r)" "ends_number (CHR ''}'' # r)"
  "ends_number []"
  by (simp_all add: ends_number_def js_digit_def)


lemma parse_elems_join:
  assumes "\<And>x r n. x \<in> set xs \<Longrightarrow> ends_number r \<Longrightarrow> json_fuel x \<le> n
             \<Longrightarrow> parse_value n (json_stringify x @ r) = Some (x, r)"
    and "xs \<noteq> []" "foldr (\<lambda>x n. Suc (max (json_fuel x) n)) xs 0 \<le> n"
  shows "parse_elems n (join '','' (map json_stringify xs) @ CHR '']'' # r) = Some (xs, r)"
  using assms
proof (induction xs arbitrary: n)
  case (Cons x xs)
  then obtain m where n: "n = Suc m" by (cases n) auto
  show ?case
  proof (cases xs)
    case Nil
    with Cons n show ?thesis by (simp add: json_ws_def)
  next
    case (Cons y ys)
    with Cons.prems n have "parse_elems m (join '','' (map json_stringify xs) @ CHR '']'' # r) = Some (xs, r)"
      by (intro Cons.IH) auto
    with Cons Cons.prems n show ?thesis by (simp add: json_ws_def)
  qed
qed simp

lemma parse_members_join:
  assumes "\<And>k x r n. (k, x) \<in> set xs \<Longrightarrow> ends_number r \<Longrightarrow> json_fuel x \<le> n
             \<Longrightarrow> parse_value n (json_stringify x @ r) = Some (x, r)"
    and "xs \<noteq> []" "foldr (\<lambda>(k, x) n. Suc (max (json_fuel x) n)) xs 0 \<le> n"
  shows "parse_members n
    (join '','' (map (\<lambda>(k, v). json_quote k @ '':'' @ json_stringify v) xs) @ CHR ''}'' # r) = Some (xs, r)"
  using assms
proof (induction xs arbitrary: n)
  case (Cons p xs)
  obtain k x where p: "p = (k, x)" by force
  obtain m where n: "n = Suc m" using Cons.prems p by (cases n) auto
  show ?case
  proof (cases xs)
    case Nil
    with Cons n p show ?thesis by (simp add: json_ws_def json_quote_def parse_chars_quoted)
  next
    case (Cons y ys)
    define J where "J = join '','' (map (\<lambda>(k, v). json_quote k @ '':'' @ json_stringify v) xs) @ CHR ''}'' # r"
    have "parse_members m J = Some (xs, r)"
      unfolding J_def using Cons Cons.prems n p by (intro Cons.IH) auto
    moreover have "parse_value m (json_stringify x @ CHR '','' # J) = Some (x, CHR '','' # J)"
      using Cons.prems n p by (intro Cons.prems(1)) auto
    moreover have "join '','' (map (\<lambda>(k, v). json_quote k @ '':'' @ json_stringify v) (p # xs)) @ CHR ''}'' # r
        = json_quote k @ '':'' @ json_stringify x @ CHR '','' # J"
      unfolding J_def Cons by (simp add: p)
    ultimately show ?thesis
      by (simp add: n p json_ws_def json_quote_def parse_chars_quoted del: join.simps)
  qed
qed simp

lemma number_first:
  obtains c cs where "show_int i = c # cs" "js_digit c \<or> c = CHR ''-''"
proof -
  have "js_digit (hd (show_nat n))" for n
    using show_nat_digits [of n] by (cases "show_nat n") auto
  then have "js_digit (hd (show_int i)) \<or> hd (show_int i) = CHR ''-''"
    by (auto simp: show_int_def)
  moreover have "show_int i \<noteq> []" by (simp add: show_int_def)
  ultimately show thesis using that by (cases "show_int i") auto
qed

lemma parse_value_number:
  "ends_number r \<Longrightarrow> parse_value (Suc n) (show_int i @ r) = Some (JInt i, r)"
proof -
  assume r: "ends_number r"
  obtain c cs where c: "show_int i = c # cs" "js_digit c \<or> c = CHR ''-''" by (rule number_first)
  then have "\<not> json_ws c" "c \<notin> {CHR 0x22, CHR ''['', CHR ''{'', CHR ''n'', CHR ''t'', CHR ''f''}"
    by (auto simp: js_digit_def json_ws_def Let_def)
  with c parse_number_show [OF r, of i] show ?thesis by simp
qed

lemma join_start:
  assumes "xs \<noteq> []" "list_all json_plain xs"
  shows "\<exists>c cs. join '','' (map json_stringify xs) @ r = c # cs \<and> value_start c"
proof -
  obtain x ys where x: "xs = x # ys" using assms(1) by (cases xs) auto
  obtain c cs where "json_stringify x = c # cs" "value_start c"
    using stringify_start [of x] assms(2) x by auto
  then show ?thesis using x by (cases ys) auto
qed

lemma join_quote_start:
  "xs \<noteq> [] \<Longrightarrow> \<exists>cs. join '','' (map (\<lambda>(k, v). json_quote k @ '':'' @ json_stringify v) xs) @ r = CHR 0x22 # cs"
  by (cases xs rule: remdups_adj.cases) (auto simp: json_quote_def)

lemma parse_value_stringify:
  "json_plain v \<Longrightarrow> ends_number r \<Longrightarrow> json_fuel v \<le> n
     \<Longrightarrow> parse_value n (json_stringify v @ r) = Some (v, r)"
proof (induction v arbitrary: n r)
  case (JInt i)
  then show ?case using parse_value_number by (cases n) auto
next
  case (JArr xs)
  then obtain m where n: "n = Suc m" by (cases n) auto
  show ?case
  proof (cases "xs = []")
    case False
    then obtain c cs where cc: "join '','' (map json_stringify xs) @ CHR '']'' # r = c # cs" "value_start c"
      using join_start [OF False, of "CHR '']'' # r"] JArr.prems(1) by auto
    have IH: "parse_value k (json_stringify x @ s) = Some (x, s)"
      if "x \<in> set xs" "ends_number s" "json_fuel x \<le> k" for x s k
      using JArr.IH [OF that(1), of s k] JArr.prems(1) that by (simp add: list_all_iff)
    have "parse_elems m (join '','' (map json_stringify xs) @ CHR '']'' # r) = Some (xs, r)"
      using JArr.prems(3) n False by (intro parse_elems_join IH) auto
    then have "parse_elems m (c # cs) = Some (xs, r)" by (simp only: cc)
    moreover have "json_stringify (JArr xs) @ r = CHR ''['' # c # cs" using cc by simp
    moreover have "\<not> json_ws c" "c \<noteq> CHR '']''" using cc(2) by (simp_all add: value_start_def)
    ultimately show ?thesis by (simp add: n json_ws_def del: json_stringify.simps)
  qed (simp add: n json_ws_def)
next
  case (JObj kvs)
  then obtain m where n: "n = Suc m" by (cases n) auto
  show ?case
  proof (cases "kvs = []")
    case False
    then obtain cs where cc: "join '','' (map (\<lambda>(k, v). json_quote k @ '':'' @ json_stringify v) kvs) @ CHR ''}'' # r
        = CHR 0x22 # cs"
      using join_quote_start by blast
    have IH: "parse_value k (json_stringify x @ s) = Some (x, s)"
      if "(a, x) \<in> set kvs" "ends_number s" "json_fuel x \<le> k" for a x s k
      using JObj.IH [OF that(1), of x s k] JObj.prems(1) that by (auto simp: list_all_iff)
    have "parse_members m (join '','' (map (\<lambda>(k, v). json_quote k @ '':'' @ json_stringify v) kvs) @ CHR ''}'' # r)
        = Some (kvs, r)"
      using JObj.prems(3) n False by (intro parse_members_join IH) auto
    then have "parse_members m (CHR 0x22 # cs) = Some (kvs, r)" by (simp only: cc)
    moreover have "foldl (\<lambda>m (k, v). jm_set k v m) [] kvs = kvs"
      using foldl_jm_set_fresh [of "[]" kvs] JObj.prems(1) by simp
    moreover have "json_stringify (JObj kvs) @ r = CHR ''{'' # CHR 0x22 # cs"
      using cc by simp
    ultimately show ?thesis by (simp add: n json_ws_def del: json_stringify.simps)
  qed (simp add: n json_ws_def)
next
  case (JStr s)
  then show ?case
    by (cases n) (auto simp: json_quote_def json_ws_def parse_chars_quoted)
qed (auto simp: json_ws_def parse_literal_def gr0_conv_Suc Suc_le_eq)

lemma length_join_Cons: "length (join '','' (x # xs)) = length x + (if xs = [] then 0 else Suc (length (join '','' xs)))"
  by (cases xs) auto

lemma stringify_pos: "json_plain v \<Longrightarrow> 0 < length (json_stringify v)"
  using stringify_start by fastforce

lemma json_fuel_bound: "json_plain v \<Longrightarrow> json_fuel v \<le> 2 * length (json_stringify v)"
proof (induction v)
  case (JArr xs)
  have "\<And>x. x \<in> set xs \<Longrightarrow> json_fuel x \<le> 2 * length (json_stringify x)"
    using JArr by (simp add: list_all_iff)
  then have "foldr (\<lambda>x n. Suc (max (json_fuel x) n)) xs 0 \<le> 2 * length (join '','' (map json_stringify xs)) + 1"
  proof (induction xs)
    case (Cons x xs)
    have "foldr (\<lambda>x n. Suc (max (json_fuel x) n)) xs 0 \<le> 2 * length (join '','' (map json_stringify xs)) + 1"
      "json_fuel x \<le> 2 * length (json_stringify x)"
      using Cons by auto
    then show ?case by (cases "xs = []") (auto simp: length_join_Cons)
  qed simp
  then show ?case by simp
next
  case (JObj kvs)
  have "\<And>k x. (k, x) \<in> set kvs \<Longrightarrow> json_fuel x \<le> 2 * length (json_stringify x)"
    using JObj by (fastforce simp: list_all_iff)
  then have "foldr (\<lambda>(k, x) n. Suc (max (json_fuel x) n)) kvs 0
      \<le> 2 * length (join '','' (map (\<lambda>(k, v). json_quote k @ '':'' @ json_stringify v) kvs)) + 1"
  proof (induction kvs)
    case (Cons p kvs)
    obtain k x where p: "p = (k, x)" by force
    have "foldr (\<lambda>(k, x) n. Suc (max (json_fuel x) n)) kvs 0
      \<le> 2 * length (join '','' (map (\<lambda>(k, v). json_quote k @ '':'' @ json_stringify v) kvs)) + 1"
      "json_fuel x \<le> 2 * length (json_stringify x)"
      using Cons p by auto
    then show ?case by (cases "kvs = []") (auto simp: p length_join_Cons)
  qed simp
  then show ?case by simp
next
  case (JInt i)
  then show ?case using stringify_pos [of "JInt i"] by (cases "show_int i") auto
qed (auto simp: json_quote_def)

theorem json_parse_stringify: "json_plain v \<Longrightarrow> json_parse (json_stringify v) = Some v"
  using parse_value_stringify [of v "[]" "2 * length (json_stringify v) + 2"] json_fuel_bound [of v]
  by (simp add: json_parse_def)

end
