(* ===== verification/Buffer_Codec.thy ===== *)
theory Buffer_Codec
  imports NK_Prelude
begin

text \<open>
  \<open>Buffer\<close>: the utf-8 and base64url encodings of the standard library, over lists of
  bytes (a \<open>char\<close> stands for a byte). The decoder of base64url takes both alphabets and
  skips other characters, as Node does; a utf-8 sequence for a code point above 255 decodes
  to question marks.
\<close>

fun utf8_encode :: "string \<Rightarrow> string" where
  "utf8_encode [] = []"
| "utf8_encode (c # cs) =
     (let n = (of_char c :: nat)
      in if n < 128 then c # utf8_encode cs
         else char_of (192 + n div 64) # char_of (128 + n mod 64) # utf8_encode cs)"

fun utf8_decode :: "string \<Rightarrow> string" where
  "utf8_decode [] = []"
| "utf8_decode [c] = (if (of_char c :: nat) < 128 then [c] else [CHR ''?''])"
| "utf8_decode (c # d # cs) =
     (let n = (of_char c :: nat); m = of_char d
      in if n < 128 then c # utf8_decode (d # cs)
         else if (n = 194 \<or> n = 195) \<and> 128 \<le> m \<and> m < 192
              then char_of ((n - 192) * 64 + (m - 128)) # utf8_decode cs
         else CHR ''?'' # utf8_decode (d # cs))"

definition b64_digit :: "nat \<Rightarrow> char" where
  "b64_digit n = (if n < 26 then char_of (65 + n) else if n < 52 then char_of (71 + n)
     else if n < 62 then char_of (n - 4) else if n = 62 then CHR ''-'' else CHR ''_'')"

definition b64_val :: "char \<Rightarrow> nat option" where
  "b64_val c = (let n = (of_char c :: nat) in
     if 65 \<le> n \<and> n \<le> 90 then Some (n - 65)
     else if 97 \<le> n \<and> n \<le> 122 then Some (n - 71)
     else if 48 \<le> n \<and> n \<le> 57 then Some (n + 4)
     else if n = 45 \<or> n = 43 then Some 62
     else if n = 95 \<or> n = 47 then Some 63 else None)"

fun sextets :: "nat list \<Rightarrow> nat list" where
  "sextets [] = []"
| "sextets [a] = [a div 4, (a mod 4) * 16]"
| "sextets [a, b] = [a div 4, (a mod 4) * 16 + b div 16, (b mod 16) * 4]"
| "sextets (a # b # c # r) =
     (a div 4) # ((a mod 4) * 16 + b div 16) # ((b mod 16) * 4 + c div 64) # (c mod 64) # sextets r"

fun octets :: "nat list \<Rightarrow> nat list" where
  "octets (x # y # z # w # r) =
     (x * 4 + y div 16) # ((y mod 16) * 16 + z div 4) # ((z mod 4) * 64 + w) # octets r"
| "octets [x, y, z] = [x * 4 + y div 16, (y mod 16) * 16 + z div 4]"
| "octets [x, y] = [x * 4 + y div 16]"
| "octets _ = []"

definition base64url_encode :: "string \<Rightarrow> string" where
  "base64url_encode b = map b64_digit (sextets (map of_char b))"

definition base64url_decode :: "string \<Rightarrow> string" where
  "base64url_decode s = map char_of (octets (List.map_filter b64_val s))"

lemma b64_val_digit: "n < 64 \<Longrightarrow> b64_val (b64_digit n) = Some n"
  by (auto simp: b64_val_def b64_digit_def Let_def)

lemma sextets_bound: "list_all (\<lambda>n. n < 256) bs \<Longrightarrow> list_all (\<lambda>n. n < 64) (sextets bs)"
  by (induction bs rule: sextets.induct) auto

lemma octets_sextets: "list_all (\<lambda>n. n < 256) bs \<Longrightarrow> octets (sextets bs) = bs"
  by (induction bs rule: sextets.induct) auto

lemma map_filter_b64: "list_all (\<lambda>n. n < 64) ns \<Longrightarrow> List.map_filter b64_val (map b64_digit ns) = ns"
  by (induction ns) (auto simp: List.map_filter_simps b64_val_digit)

lemma base64url_roundtrip [simp]: "base64url_decode (base64url_encode b) = b"
proof -
  have "list_all (\<lambda>n. n < 256) (map of_char b :: nat list)"
    by (simp add: list_all_iff of_char_bound)
  then show ?thesis
    by (simp add: base64url_decode_def base64url_encode_def map_filter_b64 sextets_bound
        octets_sextets comp_def)
qed

lemma utf8_decode_ascii: "(of_char c :: nat) < 128 \<Longrightarrow> utf8_decode (c # cs) = c # utf8_decode cs"
  by (cases cs) auto

lemma high_byte: "128 \<le> (n::nat) \<Longrightarrow> n < 256 \<Longrightarrow> n div 64 = 2 \<or> n div 64 = 3"
  using div_le_mono [of 128 n 64] div_le_mono [of n 255 64] by simp linarith

lemma utf8_roundtrip [simp]: "utf8_decode (utf8_encode s) = s"
proof (induction s)
  case (Cons c s)
  have "(of_char c :: nat) < 256" by (rule of_char_bound)
  show ?case
  proof (cases "(of_char c :: nat) < 128")
    case False
    let ?n = "of_char c :: nat"
    have n: "?n div 64 = 2 \<or> ?n div 64 = 3" using high_byte [of ?n] False \<open>?n < 256\<close> by simp
    have "(?n div 64) * 64 + ?n mod 64 = ?n" by simp
    then have "(192 + ?n div 64 - 192) * 64 + (128 + ?n mod 64 - 128) = ?n" by simp
    moreover have "192 + ?n div 64 < 256" "128 + ?n mod 64 < 256" using n by auto
    ultimately show ?thesis using Cons False n by (auto simp: Let_def)
  qed (simp add: Cons utf8_decode_ascii)
qed simp

definition b64_char :: "char \<Rightarrow> bool" where
  "b64_char c = (b64_val c \<noteq> None)"

lemma base64url_encode_chars: "list_all b64_char (base64url_encode b)"
proof -
  have "list_all (\<lambda>n. n < 64) (sextets (map of_char b))"
    by (intro sextets_bound) (simp add: list_all_iff of_char_bound)
  then show ?thesis
    by (auto simp: base64url_encode_def b64_char_def list_all_iff b64_val_digit)
qed

lemma base64url_encode_eq_Nil [simp]: "base64url_encode b = [] \<longleftrightarrow> b = []"
  by (cases "map of_char b :: nat list" rule: sextets.cases) (auto simp: base64url_encode_def)

lemma dot_not_b64 [simp]: "\<not> b64_char (CHR ''.'')"
  by (simp add: b64_char_def b64_val_def)

end
