(* ===== verification/Shared_Utils.thy ===== *)
theory Shared_Utils
  imports NK_Prelude
begin

text \<open>
  The helpers of \<open>src/src/shared/utils.ts\<close> every stage of the pipeline calls: the
  priority lane of a message and the canonical form of an address.
\<close>

datatype priority_bucket = Critical | Normal | Low

text \<open>\<open>undefined\<close> is \<open>None\<close>; the empty string is falsy, so it reads as ``normal''.\<close>

definition getPriorityBucket :: "string option \<Rightarrow> priority_bucket" where
  "getPriorityBucket priority =
     (let p = (case priority of None \<Rightarrow> ''normal'' | Some s \<Rightarrow> if s = [] then ''normal'' else s)
      in if p = ''critical'' then Critical else if p = ''low'' then Low else Normal)"

definition normaliseTarget :: "string \<Rightarrow> string" where
  "normaliseTarget target =
     (let trimmed = js_trim target
      in if CHR ''@'' \<in> set trimmed then js_lower trimmed else trimmed)"

lemma getPriorityBucket_Critical [simp]:
  "getPriorityBucket p = Critical \<longleftrightarrow> p = Some ''critical''"
  by (auto simp: getPriorityBucket_def Let_def split: option.splits if_splits)

lemma getPriorityBucket_Low [simp]:
  "getPriorityBucket p = Low \<longleftrightarrow> p = Some ''low''"
  by (auto simp: getPriorityBucket_def Let_def split: option.splits if_splits)

lemma js_trim_normaliseTarget: "js_trim (normaliseTarget t) = normaliseTarget t"
  by (simp add: normaliseTarget_def Let_def js_trim_lower)

lemma normaliseTarget_idem: "normaliseTarget (normaliseTarget t) = normaliseTarget t"
  using js_trim_normaliseTarget [of t]
  by (simp add: normaliseTarget_def Let_def js_trim_lower)

lemma normaliseTarget_trim: "normaliseTarget (js_trim t) = normaliseTarget t"
  by (simp add: normaliseTarget_def)

lemma normaliseTarget_email_case:
  "CHR ''@'' \<in> set (js_trim t) \<Longrightarrow> normaliseTarget (js_lower t) = normaliseTarget t"
  by (simp add: normaliseTarget_def Let_def js_trim_lower)

lemma normaliseTarget_other:
  "CHR ''@'' \<notin> set (js_trim t) \<Longrightarrow> normaliseTarget t = js_trim t"
  by (simp add: normaliseTarget_def Let_def)

end
