(* ===== verification/LRU_Cache.thy ===== *)
theory LRU_Cache
  imports NK_Prelude
begin

text \<open>
  \<open>LRUCache\<close> of \<open>src/src/shared/cache.ts\<close>: a map with an expiry per entry, bounded
  in size, that evicts the entry used longest ago. The record keeps the JavaScript
  \<open>Map\<close> in insertion order, which is the order of last use because a hit re-inserts.
  The locale \<open>ttl_cache\<close> is the contract the clients of the cache rely on.
\<close>

section \<open>The cache\<close>

record ('k, 'v) lru =
  cache :: "('k, 'v \<times> ms) jsmap"
  maxSize :: nat
  defaultTtlMs :: ms

definition lru_new :: "nat \<Rightarrow> ms \<Rightarrow> ('k, 'v) lru" where
  "lru_new n ttl = \<lparr>cache = [], maxSize = n, defaultTtlMs = ttl\<rparr>"

definition lru_get :: "ms \<Rightarrow> 'k \<Rightarrow> ('k, 'v) lru \<Rightarrow> 'v option \<times> ('k, 'v) lru" where
  "lru_get now key c =
     (case jm_get (cache c) key of
        None \<Rightarrow> (None, c)
      | Some (v, expiresAt) \<Rightarrow>
          if now > expiresAt then (None, c\<lparr>cache := jm_delete key (cache c)\<rparr>)
          else (Some v, c\<lparr>cache := jm_set key (v, expiresAt) (jm_delete key (cache c))\<rparr>))"

definition lru_make_room :: "'k \<Rightarrow> ('k, 'v) lru \<Rightarrow> ('k, 'v \<times> ms) jsmap" where
  "lru_make_room key c =
     (if key \<in> fst ` set (cache c) then jm_delete key (cache c)
      else if length (cache c) \<ge> maxSize c
           then (case cache c of [] \<Rightarrow> [] | (oldestKey, _) # _ \<Rightarrow> jm_delete oldestKey (cache c))
           else cache c)"

definition lru_set :: "ms \<Rightarrow> 'k \<Rightarrow> 'v \<Rightarrow> ms option \<Rightarrow> ('k, 'v) lru \<Rightarrow> ('k, 'v) lru" where
  "lru_set now key value ttlMs c =
     (let ttl = (case ttlMs of None \<Rightarrow> defaultTtlMs c | Some t \<Rightarrow> t)
      in c\<lparr>cache := jm_set key (value, now + ttl) (lru_make_room key c)\<rparr>)"

definition lru_delete :: "'k \<Rightarrow> ('k, 'v) lru \<Rightarrow> ('k, 'v) lru" where
  "lru_delete key c = c\<lparr>cache := jm_delete key (cache c)\<rparr>"

definition lru_clear :: "('k, 'v) lru \<Rightarrow> ('k, 'v) lru" where
  "lru_clear c = c\<lparr>cache := []\<rparr>"

section \<open>The invariant\<close>

definition lru_ok :: "('k, 'v) lru \<Rightarrow> bool" where
  "lru_ok c \<longleftrightarrow> jm_wf (cache c) \<and> length (cache c) \<le> max 1 (maxSize c)"

abbreviation lru_stored :: "('k, 'v) lru \<Rightarrow> 'k \<Rightarrow> ('v \<times> ms) option" where
  "lru_stored c \<equiv> jm_get (cache c)"

lemma lru_ok_new: "lru_ok (lru_new n ttl)"
  by (simp add: lru_ok_def lru_new_def)

lemma lru_ok_get:
  assumes "lru_ok c" shows "lru_ok (snd (lru_get now k c))"
proof (cases "jm_get (cache c) k")
  case None
  then show ?thesis using assms by (simp add: lru_get_def)
next
  case (Some p)
  then have k: "k \<in> fst ` set (cache c)" by (force dest: map_of_SomeD)
  obtain v e where p: "p = (v, e)" by (cases p)
  have "Suc (length (jm_delete k (cache c))) = length (cache c)"
    using assms k by (simp add: lru_ok_def length_jm_delete_present)
  with assms Some p show ?thesis
    by (auto simp: lru_get_def lru_ok_def jm_wf_delete jm_wf_set length_jm_set)
qed

lemma lru_make_room_wf: "lru_ok c \<Longrightarrow> jm_wf (lru_make_room k c)"
  by (auto simp: lru_make_room_def lru_ok_def jm_wf_delete split: list.split)

lemma lru_make_room_absent: "k \<notin> fst ` set (lru_make_room k c)"
  using delete_notin_dom [of k "cache c"] dom_delete_subset [of _ "cache c"]
  by (auto simp: lru_make_room_def split: list.splits)

lemma lru_make_room_length:
  assumes "lru_ok c" shows "length (lru_make_room k c) < max 1 (maxSize c)"
proof (cases "k \<in> fst ` set (cache c)")
  case True
  with assms have "Suc (length (jm_delete k (cache c))) = length (cache c)"
    by (simp add: lru_ok_def length_jm_delete_present)
  with assms True show ?thesis by (simp add: lru_make_room_def lru_ok_def)
next
  case False
  with assms show ?thesis
    by (cases "cache c") (auto simp: lru_make_room_def lru_ok_def jm_delete_absent)
qed

lemma lru_make_room_stored:
  "lru_ok c \<Longrightarrow> jm_get (lru_make_room k c) k' = Some x \<Longrightarrow> lru_stored c k' = Some x"
  by (cases "cache c")
     (auto simp: lru_make_room_def lru_ok_def jm_get_delete simp del: delete_simps
       split: if_splits)

lemma lru_set_cache:
  "lru_ok c \<Longrightarrow> cache (lru_set now k v t c) =
     lru_make_room k c @ [(k, v, now + (case t of None \<Rightarrow> defaultTtlMs c | Some t \<Rightarrow> t))]"
  by (simp add: lru_set_def Let_def jm_set_new lru_make_room_absent)

lemma lru_set_stored:
  "lru_stored (lru_set now k v t c) = (jm_get (lru_make_room k c))
     (k \<mapsto> (v, now + (case t of None \<Rightarrow> defaultTtlMs c | Some t \<Rightarrow> t)))"
  by (simp add: lru_set_def Let_def jm_get_set)

lemma lru_config [simp]:
  "maxSize (lru_set now k v t c) = maxSize c" "defaultTtlMs (lru_set now k v t c) = defaultTtlMs c"
  "maxSize (snd (lru_get now k c)) = maxSize c"
  "defaultTtlMs (snd (lru_get now k c)) = defaultTtlMs c"
  "maxSize (lru_delete k c) = maxSize c" "defaultTtlMs (lru_delete k c) = defaultTtlMs c"
  "maxSize (lru_clear c) = maxSize c" "defaultTtlMs (lru_clear c) = defaultTtlMs c"
  "maxSize (lru_new n ttl) = n" "defaultTtlMs (lru_new n ttl) = ttl"
  by (auto simp: lru_set_def lru_get_def lru_delete_def lru_clear_def lru_new_def Let_def
      split: option.splits)

lemma lru_ok_set:
  assumes "lru_ok c" shows "lru_ok (lru_set now k v t c)"
  using lru_make_room_wf [OF assms] lru_make_room_absent [of k c]
    lru_make_room_length [OF assms, of k]
  by (simp add: lru_ok_def lru_set_cache [OF assms])

lemma lru_ok_delete: "lru_ok c \<Longrightarrow> lru_ok (lru_delete k c)"
  using length_jm_delete_le [of k "cache c"]
  by (auto simp: lru_ok_def lru_delete_def jm_wf_delete simp del: length_delete_le)

lemma lru_ok_clear: "lru_ok (lru_clear c)"
  by (simp add: lru_ok_def lru_clear_def)

section \<open>The contract of a cache with expiry\<close>

text \<open>
  What a client may rely on: a hit is the value stored last and not expired; entries may
  disappear at any time (eviction, expiry), but nothing else appears.
\<close>

locale ttl_cache =
  fixes get :: "ms \<Rightarrow> 'k \<Rightarrow> 'c \<Rightarrow> 'v option \<times> 'c"
    and put :: "ms \<Rightarrow> 'k \<Rightarrow> 'v \<Rightarrow> 'c \<Rightarrow> 'c"
    and del :: "'k \<Rightarrow> 'c \<Rightarrow> 'c"
    and clr :: "'c \<Rightarrow> 'c"
    and ok :: "'c \<Rightarrow> bool"
    and stored :: "'c \<Rightarrow> 'k \<Rightarrow> ('v \<times> ms) option"
    and ttl :: "'c \<Rightarrow> ms"
  assumes ok_get: "ok c \<Longrightarrow> ok (snd (get now k c))"
    and ok_put: "ok c \<Longrightarrow> ok (put now k v c)"
    and ok_del: "ok c \<Longrightarrow> ok (del k c)"
    and ok_clr: "ok c \<Longrightarrow> ok (clr c)"
    and get_result: "ok c \<Longrightarrow> fst (get now k c) =
          (case stored c k of None \<Rightarrow> None | Some (v, e) \<Rightarrow> if now > e then None else Some v)"
    and stored_get: "ok c \<Longrightarrow> stored (snd (get now k c)) \<subseteq>\<^sub>m stored c"
    and stored_put: "ok c \<Longrightarrow> stored (put now k v c) k = Some (v, now + ttl c)"
    and stored_put_le: "ok c \<Longrightarrow> stored (put now k v c) \<subseteq>\<^sub>m (stored c)(k \<mapsto> (v, now + ttl c))"
    and stored_del: "ok c \<Longrightarrow> stored (del k c) = (stored c)(k := None)"
    and stored_clr: "ok c \<Longrightarrow> stored (clr c) = (\<lambda>_. None)"
    and ttl_get: "ttl (snd (get now k c)) = ttl c"
    and ttl_put: "ttl (put now k v c) = ttl c"
    and ttl_del: "ttl (del k c) = ttl c"
    and ttl_clr: "ttl (clr c) = ttl c"
begin

lemma put_get:
  assumes "ok c" and "now' \<le> now + ttl c"
  shows "fst (get now' k (put now k v c)) = Some v"
  using assms by (simp add: get_result ok_put stored_put)

lemma del_get: "ok c \<Longrightarrow> fst (get now k (del k c)) = None"
  by (simp add: get_result ok_del stored_del)

lemma hit_stored:
  "ok c \<Longrightarrow> fst (get now k c) = Some v \<Longrightarrow> \<exists>e. stored c k = Some (v, e) \<and> now \<le> e"
  by (auto simp: get_result split: option.splits if_splits)

end

interpretation lru: ttl_cache lru_get "\<lambda>now k v. lru_set now k v None" lru_delete lru_clear
  lru_ok lru_stored defaultTtlMs
proof (unfold_locales, goal_cases)
  case (5 c now k)
  then show ?case by (auto simp: lru_get_def split: option.splits)
next
  case (6 c now k)
  then show ?case
    by (auto simp: lru_get_def map_le_def jm_get_delete jm_get_set split: option.splits if_splits)
next
  case (7 c now k v)
  then show ?case by (simp add: lru_set_stored)
next
  case (8 c now k v)
  then show ?case
    by (auto simp: lru_set_stored map_le_def lru_make_room_stored split: if_splits)
qed (simp_all add: lru_ok_get lru_ok_set lru_ok_delete lru_ok_clear, 
     simp_all add: lru_delete_def lru_clear_def jm_get_delete)

section \<open>Whole histories\<close>

datatype ('k, 'v) cache_op =
    OpGet ms 'k
  | OpSet ms 'k 'v "ms option"
  | OpDelete 'k
  | OpClear

fun lru_step :: "('k, 'v) cache_op \<Rightarrow> ('k, 'v) lru \<Rightarrow> ('k, 'v) lru" where
  "lru_step (OpGet now k) c = snd (lru_get now k c)"
| "lru_step (OpSet now k v t) c = lru_set now k v t c"
| "lru_step (OpDelete k) c = lru_delete k c"
| "lru_step OpClear c = lru_clear c"

definition lru_run :: "('k, 'v) cache_op list \<Rightarrow> ('k, 'v) lru \<Rightarrow> ('k, 'v) lru" where
  "lru_run ops c = fold lru_step ops c"

text \<open>
  The abstract cache: an unbounded map of the values set last with their expiry, which no
  read changes.
\<close>

fun ttl_map_step :: "ms \<Rightarrow> ('k, 'v) cache_op \<Rightarrow> ('k \<rightharpoonup> 'v \<times> ms) \<Rightarrow> ('k \<rightharpoonup> 'v \<times> ms)" where
  "ttl_map_step ttl (OpGet now k) m = m"
| "ttl_map_step ttl (OpSet now k v t) m =
     m(k \<mapsto> (v, now + (case t of None \<Rightarrow> ttl | Some t \<Rightarrow> t)))"
| "ttl_map_step ttl (OpDelete k) m = m(k := None)"
| "ttl_map_step ttl OpClear m = (\<lambda>_. None)"

definition ttl_map_run ::
  "ms \<Rightarrow> ('k, 'v) cache_op list \<Rightarrow> ('k \<rightharpoonup> 'v \<times> ms) \<Rightarrow> ('k \<rightharpoonup> 'v \<times> ms)" where
  "ttl_map_run ttl ops m = fold (ttl_map_step ttl) ops m"

lemma lru_step_config [simp]:
  "maxSize (lru_step op c) = maxSize c" "defaultTtlMs (lru_step op c) = defaultTtlMs c"
  by (cases op; simp)+

lemma lru_step_ok: "lru_ok c \<Longrightarrow> lru_ok (lru_step op c)"
  by (cases op) (simp_all add: lru_ok_get lru_ok_set lru_ok_delete lru_ok_clear)

lemma lru_run_config [simp]:
  "maxSize (lru_run ops c) = maxSize c" "defaultTtlMs (lru_run ops c) = defaultTtlMs c"
  by (induction ops arbitrary: c) (simp_all add: lru_run_def)

lemma lru_run_ok: "lru_ok c \<Longrightarrow> lru_ok (lru_run ops c)"
  by (induction ops arbitrary: c) (simp_all add: lru_run_def lru_step_ok)

lemma map_le_update: "m \<subseteq>\<^sub>m m' \<Longrightarrow> m(k := x) \<subseteq>\<^sub>m m'(k := x)"
  by (auto simp: map_le_def)

lemma lru_step_refines:
  assumes ok: "lru_ok c" and le: "lru_stored c \<subseteq>\<^sub>m m"
  shows "lru_stored (lru_step op c) \<subseteq>\<^sub>m ttl_map_step (defaultTtlMs c) op m"
proof (cases op)
  case (OpGet now k)
  then show ?thesis using map_le_trans [OF lru.stored_get [OF ok] le] by simp
next
  case (OpSet now k v t)
  have "jm_get (lru_make_room k c) \<subseteq>\<^sub>m m"
    using le lru_make_room_stored [OF ok] by (fastforce simp: map_le_def dom_def)
  then show ?thesis by (simp add: OpSet lru_set_stored map_le_update)
next
  case (OpDelete k)
  then show ?thesis by (simp add: lru.stored_del [OF ok] map_le_update le)
next
  case OpClear
  then show ?thesis by (simp add: lru.stored_clr [OF ok])
qed

lemma lru_run_refines:
  "lru_ok c \<Longrightarrow> lru_stored c \<subseteq>\<^sub>m m \<Longrightarrow>
    lru_stored (lru_run ops c) \<subseteq>\<^sub>m ttl_map_run (defaultTtlMs c) ops m"
proof (induction ops arbitrary: c m)
  case (Cons op ops)
  from Cons.IH [OF lru_step_ok [OF Cons.prems(1)] lru_step_refines [OF Cons.prems]]
  show ?case by (simp add: lru_run_def ttl_map_run_def)
qed (simp add: lru_run_def ttl_map_run_def)

section \<open>Recency\<close>

lemma lru_set_keys:
  assumes "lru_ok c"
  shows "jm_keys (cache (lru_set now k v t c)) =
    (if k \<in> set (jm_keys (cache c)) then removeAll k (jm_keys (cache c))
     else if maxSize c \<le> length (jm_keys (cache c)) then tl (jm_keys (cache c))
     else jm_keys (cache c)) @ [k]"
  using assms
  by (cases "cache c")
     (auto simp: lru_set_cache lru_make_room_def delete_keys lru_ok_def jm_delete_absent)

lemma lru_hit_moves_to_end:
  "fst (lru_get now k c) = Some v \<Longrightarrow>
    jm_keys (cache (snd (lru_get now k c))) = removeAll k (jm_keys (cache c)) @ [k]"
  by (auto simp: lru_get_def jm_set_after_delete delete_keys split: option.splits if_splits)

lemma lru_sets_keys:
  assumes "0 < n"
  shows "jm_keys (cache (lru_run (map (\<lambda>(now, k, v). OpSet now k v None) us) (lru_new n ttl))) =
    last_n n (remdups (map (\<lambda>u. fst (snd u)) us))"
proof (induction us rule: rev_induct)
  case Nil
  then show ?case by (simp add: lru_run_def lru_new_def last_n_def)
next
  case (snoc u us)
  obtain now k v where u: "u = (now, k, v)" by (cases u)
  let ?c = "lru_run (map (\<lambda>(now, k, v). OpSet now k v None) us) (lru_new n ttl)"
  have "jm_keys (cache (lru_run (map (\<lambda>(now, k, v). OpSet now k v None) (us @ [u])) (lru_new n ttl)))
      = jm_keys (cache (lru_set now k v None ?c))"
    by (simp add: u lru_run_def)
  also have "\<dots> = last_n n (removeAll k (remdups (map (\<lambda>u. fst (snd u)) us)) @ [k])"
    using assms
    by (simp add: lru_set_keys lru_run_ok lru_ok_new snoc.IH last_n_promote)
  finally show ?case by (simp add: u remdups_snoc)
qed

section \<open>Properties\<close>

text \<open>
  However the cache is used, it holds at most \<open>maxSize\<close> entries (one when
  \<open>maxSize\<close> is 0) and never two under one key.
\<close>

theorem lru_never_exceeds_max_size:
  "length (cache (lru_run ops (lru_new n ttl))) \<le> max 1 n
   \<and> distinct (jm_keys (cache (lru_run ops (lru_new n ttl))))"
  using lru_run_ok [OF lru_ok_new, of ops n ttl] by (simp add: lru_ok_def)

text \<open>
  C36: A hit is never stale. Whatever history of reads, writes with either time to live,
  deletions and clears the cache has been through, a value it returns for a key is the value
  written last to that key, not deleted since and not past its expiry, as an unbounded map
  with the same history would say.
\<close>

theorem lru_refines_ttl_map:
  assumes "fst (lru_get now k (lru_run ops (lru_new n ttl))) = Some v"
  shows "\<exists>expiresAt. ttl_map_run ttl ops (\<lambda>_. None) k = Some (v, expiresAt) \<and> now \<le> expiresAt"
proof -
  let ?c = "lru_run ops (lru_new n ttl)"
  obtain e where e: "lru_stored ?c k = Some (v, e)" "now \<le> e"
    using lru.hit_stored [OF lru_run_ok [OF lru_ok_new] assms] by blast
  have "lru_stored ?c \<subseteq>\<^sub>m ttl_map_run ttl ops (\<lambda>_. None)"
    using lru_run_refines [of "lru_new n ttl" "\<lambda>_. None" ops]
    by (simp add: lru_ok_new) (simp add: lru_new_def)
  with e show ?thesis by (metis domI map_le_def)
qed

theorem lru_refines_ttl_map_witness:
  "\<exists>expiresAt. ttl_map_run 10 [OpSet 0 ''a'' (1::nat) None, OpSet 1 ''b'' 2 None, OpGet 2 ''a'']
      (\<lambda>_. None) ''a'' = Some (1, expiresAt) \<and> 5 \<le> expiresAt"
  by (rule lru_refines_ttl_map [of 5 "''a''" _ 2 10 1])
     (simp add: lru_run_def lru_new_def lru_get_def lru_set_def lru_make_room_def)

text \<open>
  After any sequence of writes the cache holds exactly the keys written most recently,
  as many as fit, from the one written longest ago to the one written last.
\<close>

theorem lru_keeps_most_recent:
  assumes "0 < n"
  shows "jm_keys (cache (lru_run (map (\<lambda>(now, k, v). OpSet now k v None) us) (lru_new n ttl))) =
    last_n n (remdups (map (\<lambda>u. fst (snd u)) us))"
  using assms by (rule lru_sets_keys)

theorem lru_keeps_most_recent_witness:
  "jm_keys (cache (lru_run (map (\<lambda>(now, k, v). OpSet now k v None)
      [(0, ''a'', 1::nat), (1, ''b'', 2), (2, ''a'', 3), (3, ''c'', 4)]) (lru_new 2 10)))
   = [''a'', ''c'']"
  using lru_keeps_most_recent [of 2 "[(0, ''a'', 1::nat), (1, ''b'', 2), (2, ''a'', 3), (3, ''c'', 4)]" 10]
  by (simp add: last_n_def)

end
