(* ===== verification/Cache_Clients.thy ===== *)
theory Cache_Clients
  imports LRU_Cache
begin

text \<open>
  The two read-through caches built on \<open>LRUCache\<close>: \<open>TemplateCache\<close>
  (\<open>src/src/templates/cache.ts\<close>) and \<open>ProjectSettingsCache\<close>
  (\<open>src/src/rate-limiter/project-settings-cache.ts\<close>). The database lookup is an
  argument; a lookup that is still on the wire is a promise, known by a number.
\<close>

section \<open>Template cache\<close>

definition template_key :: "string \<Rightarrow> string \<Rightarrow> string" where
  "template_key projectId tid = projectId @ '':'' @ tid"

definition template_cache_new :: "(string, 't) lru" where
  "template_cache_new = lru_new 1000 (5 * 60 * 1000)"

text \<open>
  \<open>now\<close> is the time of the cache read, \<open>now'\<close> the time the repository answered.
\<close>

definition getCachedTemplate ::
  "(string \<Rightarrow> string \<Rightarrow> 't option) \<Rightarrow> ms \<Rightarrow> ms \<Rightarrow> string \<Rightarrow> string \<Rightarrow> (string, 't) lru
    \<Rightarrow> 't option \<times> (string, 't) lru" where
  "getCachedTemplate findById now now' projectId tid c =
     (let key = template_key projectId tid
      in case lru_get now key c of
           (Some cached, c') \<Rightarrow> (Some cached, c')
         | (None, c') \<Rightarrow>
             (case findById projectId tid of
                Some dbTemplate \<Rightarrow> (Some dbTemplate, lru_set now' key dbTemplate None c')
              | None \<Rightarrow> (None, c')))"

definition template_invalidate :: "string \<Rightarrow> string \<Rightarrow> (string, 't) lru \<Rightarrow> (string, 't) lru" where
  "template_invalidate projectId tid c = lru_delete (template_key projectId tid) c"

definition template_invalidateKey :: "string \<Rightarrow> (string, 't) lru \<Rightarrow> (string, 't) lru" where
  "template_invalidateKey key c = lru_delete key c"

definition template_clear :: "(string, 't) lru \<Rightarrow> (string, 't) lru" where
  "template_clear c = lru_clear c"

text \<open>Two templates share an entry only if a project id contains a colon.\<close>

lemma template_key_inj:
  assumes "template_key p i = template_key q j" "CHR '':'' \<notin> set p" "CHR '':'' \<notin> set q"
  shows "p = q \<and> i = j"
proof -
  have "takeWhile (\<lambda>c. c \<noteq> CHR '':'') (p @ '':'' @ i) = p"
    "takeWhile (\<lambda>c. c \<noteq> CHR '':'') (q @ '':'' @ j) = q"
    using assms(2,3) by (auto simp: takeWhile_append takeWhile_eq_all_conv)
  with assms(1) show ?thesis by (metis same_append_eq template_key_def)
qed

lemma getCachedTemplate_ok:
  "lru_ok c \<Longrightarrow> lru_ok (snd (getCachedTemplate f now now' p i c))"
  using lru.ok_get [of c now "template_key p i"]
  by (auto simp: getCachedTemplate_def Let_def lru_ok_set split: prod.splits option.splits)

lemma getCachedTemplate_answer:
  assumes "lru_ok c"
  shows "fst (getCachedTemplate f now now' p i c) =
    (case lru_stored c (template_key p i) of
       Some (t, e) \<Rightarrow> if now > e then f p i else Some t
     | None \<Rightarrow> f p i)"
  using lru.get_result [OF assms, of now "template_key p i"]
  by (auto simp: getCachedTemplate_def Let_def split: prod.splits option.splits if_splits)

lemma getCachedTemplate_miss_stores:
  assumes ok: "lru_ok c" and miss: "lru_stored c (template_key p i) = None" and f: "f p i = Some t"
  shows "lru_stored (snd (getCachedTemplate f now now' p i c)) (template_key p i) =
    Some (t, now' + defaultTtlMs c)"
  using miss f by (simp add: getCachedTemplate_def Let_def lru_get_def lru_set_stored)

text \<open>
  Read-through. After \<open>invalidate\<close> the next read asks the repository, and what it
  found is then served without asking again until the time to live has passed, whatever the
  repository would answer meanwhile.
\<close>

theorem template_cache_read_through:
  assumes ok: "lru_ok c" and found: "findById p i = Some t"
    and fresh: "now'' \<le> now' + defaultTtlMs c"
  shows "case getCachedTemplate findById now now' p i (template_invalidate p i c) of
      (answer, c') \<Rightarrow>
        answer = Some t \<and> fst (getCachedTemplate other now'' now3 p i c') = Some t"
proof -
  let ?c = "template_invalidate p i c"
  let ?read = "getCachedTemplate findById now now' p i ?c"
  have ok': "lru_ok ?c" and miss: "lru_stored ?c (template_key p i) = None"
    and ttl: "defaultTtlMs ?c = defaultTtlMs c"
    by (simp_all add: template_invalidate_def lru.ok_del [OF ok] lru.stored_del [OF ok])
  have "fst ?read = Some t"
    by (simp add: getCachedTemplate_answer [OF ok'] miss found)
  moreover have "lru_stored (snd ?read) (template_key p i) = Some (t, now' + defaultTtlMs c)"
    using getCachedTemplate_miss_stores [where f = findById, OF ok' miss found] by (simp add: ttl)
  moreover have "lru_ok (snd ?read)" by (rule getCachedTemplate_ok [OF ok'])
  ultimately show ?thesis using fresh by (simp add: getCachedTemplate_answer split_beta)
qed

theorem template_cache_read_through_witness:
  "fst (getCachedTemplate (\<lambda>_ _. None) 300002 300003 ''p'' ''t''
     (snd (getCachedTemplate (\<lambda>_ _. Some ''hello'') 0 2 ''p'' ''t''
       (template_invalidate ''p'' ''t'' template_cache_new)))) = Some ''hello''"
  using template_cache_read_through [of template_cache_new "\<lambda>_ _. Some ''hello''" "''p''" "''t''"
      "''hello''" 300002 2 "\<lambda>_ _. None" 300003 0]
  by (simp add: template_cache_new_def lru_ok_new split_beta)

section \<open>Project settings cache\<close>

record project_throttle_settings =
  throttleLimit :: "int option"
  throttleWindowHours :: "int option"

definition NO_OVERRIDES :: project_throttle_settings where
  "NO_OVERRIDES = \<lparr>throttleLimit = None, throttleWindowHours = None\<rparr>"

text \<open>
  \<open>sc_next\<close> numbers the promises, so that \<open>=== pending\<close> is equality of numbers.
\<close>

record settings_cache =
  sc_cache :: "(string, project_throttle_settings) lru"
  sc_inFlight :: "(string, nat) jsmap"
  sc_next :: nat

definition settings_cache_new :: "nat \<Rightarrow> ms \<Rightarrow> settings_cache" where
  "settings_cache_new n ttl = \<lparr>sc_cache = lru_new n ttl, sc_inFlight = [], sc_next = 0\<rparr>"

datatype settings_answer = Cached project_throttle_settings | Pending nat

definition sc_get :: "ms \<Rightarrow> string \<Rightarrow> settings_cache \<Rightarrow> settings_answer \<times> settings_cache" where
  "sc_get now projectId s =
     (case lru_get now projectId (sc_cache s) of
        (Some cached, c) \<Rightarrow> (Cached cached, s\<lparr>sc_cache := c\<rparr>)
      | (None, c) \<Rightarrow>
          (case jm_get (sc_inFlight s) projectId of
             Some existing \<Rightarrow> (Pending existing, s\<lparr>sc_cache := c\<rparr>)
           | None \<Rightarrow>
               (Pending (sc_next s),
                s\<lparr>sc_cache := c, sc_inFlight := jm_set projectId (sc_next s) (sc_inFlight s),
                  sc_next := Suc (sc_next s)\<rparr>)))"

text \<open>The \<open>then\<close> callback of the lookup, and its \<open>finally\<close> callback.\<close>

definition sc_loaded ::
  "ms \<Rightarrow> string \<Rightarrow> nat \<Rightarrow> project_throttle_settings option \<Rightarrow> settings_cache
    \<Rightarrow> project_throttle_settings \<times> settings_cache" where
  "sc_loaded now projectId pending settings s =
     (let resolved = (case settings of None \<Rightarrow> NO_OVERRIDES | Some v \<Rightarrow> v)
      in (resolved,
          if jm_get (sc_inFlight s) projectId = Some pending
          then s\<lparr>sc_cache := lru_set now projectId resolved None (sc_cache s)\<rparr> else s))"

definition sc_settled :: "string \<Rightarrow> nat \<Rightarrow> settings_cache \<Rightarrow> settings_cache" where
  "sc_settled projectId pending s =
     (if jm_get (sc_inFlight s) projectId = Some pending
      then s\<lparr>sc_inFlight := jm_delete projectId (sc_inFlight s)\<rparr> else s)"

definition sc_invalidate :: "string \<Rightarrow> settings_cache \<Rightarrow> settings_cache" where
  "sc_invalidate projectId s =
     s\<lparr>sc_cache := lru_delete projectId (sc_cache s),
       sc_inFlight := jm_delete projectId (sc_inFlight s)\<rparr>"

definition sc_clear :: "settings_cache \<Rightarrow> settings_cache" where
  "sc_clear s = s\<lparr>sc_cache := lru_clear (sc_cache s), sc_inFlight := []\<rparr>"

text \<open>One event per synchronous segment; a lookup that fails has only its \<open>finally\<close>.\<close>

datatype sc_event =
    ScGet ms string
  | ScLoaded ms string nat "project_throttle_settings option"
  | ScSettled string nat
  | ScInvalidate string
  | ScClear

fun sc_step :: "sc_event \<Rightarrow> settings_cache \<Rightarrow> settings_cache" where
  "sc_step (ScGet now p) s = snd (sc_get now p s)"
| "sc_step (ScLoaded now p q r) s = snd (sc_loaded now p q r s)"
| "sc_step (ScSettled p q) s = sc_settled p q s"
| "sc_step (ScInvalidate p) s = sc_invalidate p s"
| "sc_step ScClear s = sc_clear s"

lemmas sc_defs = sc_get_def sc_loaded_def sc_settled_def sc_invalidate_def sc_clear_def

lemma lru_get_ok: "lru_ok c \<Longrightarrow> lru_get now k c = (x, c') \<Longrightarrow> lru_ok c'"
  using lru_ok_get [of c now k] by simp

lemma sc_step_ok: "lru_ok (sc_cache s) \<Longrightarrow> lru_ok (sc_cache (sc_step e s))"
  by (cases e)
     (auto simp: sc_defs Let_def lru_ok_set lru_ok_delete lru_ok_clear
       split: prod.splits option.splits dest: lru_get_ok)

text \<open>
  What holds after an \<open>invalidate\<close> of project \<open>p\<close> when \<open>n\<close> lookups had
  been started: the lookup in flight, and the value cached, are of a later one.
\<close>

definition sc_fresh :: "string \<Rightarrow> nat \<Rightarrow> sc_event list \<Rightarrow> settings_cache \<Rightarrow> bool" where
  "sc_fresh p n es s \<longleftrightarrow>
     lru_ok (sc_cache s) \<and> n \<le> sc_next s
     \<and> (\<forall>q. jm_get (sc_inFlight s) p = Some q \<longrightarrow> n \<le> q)
     \<and> (\<forall>v e. lru_stored (sc_cache s) p = Some (v, e) \<longrightarrow>
          (\<exists>now q r. ScLoaded now p q r \<in> set es \<and> n \<le> q \<and> v = fst (sc_loaded now p q r s)))"

lemma sc_loaded_value: "fst (sc_loaded now p q r s) = (case r of None \<Rightarrow> NO_OVERRIDES | Some v \<Rightarrow> v)"
  by (simp add: sc_loaded_def Let_def)

lemma sc_fresh_more:
  assumes "sc_fresh p n es s"
    and "lru_ok (sc_cache s')" "n \<le> sc_next s'"
    and "\<And>q. jm_get (sc_inFlight s') p = Some q \<Longrightarrow> jm_get (sc_inFlight s) p = Some q \<or> n \<le> q"
    and "\<And>v e. lru_stored (sc_cache s') p = Some (v, e) \<Longrightarrow> lru_stored (sc_cache s) p = Some (v, e)"
  shows "sc_fresh p n (es @ [ev]) s'"
  using assms unfolding sc_fresh_def sc_loaded_value by (simp, meson)

lemma lru_get_stored_le:
  "lru_ok c \<Longrightarrow> lru_get now k c = (x, c') \<Longrightarrow> lru_stored c' p = Some y \<Longrightarrow> lru_stored c p = Some y"
  using lru.stored_get [of c now k] by (force simp: map_le_def dom_def)

lemma sc_fresh_get:
  assumes "sc_fresh p n es s" shows "sc_fresh p n (es @ [ScGet now k]) (snd (sc_get now k s))"
proof (rule sc_fresh_more [OF assms])
  have ok: "lru_ok (sc_cache s)" and n: "n \<le> sc_next s" using assms by (simp_all add: sc_fresh_def)
  show "lru_ok (sc_cache (snd (sc_get now k s)))" using sc_step_ok [OF ok, of "ScGet now k"] by simp
  show "n \<le> sc_next (snd (sc_get now k s))"
    using n by (auto simp: sc_get_def split: prod.splits option.splits)
  show "jm_get (sc_inFlight s) p = Some q \<or> n \<le> q"
    if "jm_get (sc_inFlight (snd (sc_get now k s))) p = Some q" for q
    using that n by (auto simp: sc_get_def jm_get_set split: prod.splits option.splits if_splits)
  show "lru_stored (sc_cache s) p = Some (v, e)"
    if "lru_stored (sc_cache (snd (sc_get now k s))) p = Some (v, e)" for v e
    using that lru_get_stored_le [OF ok]
    by (auto simp: sc_get_def split: prod.splits option.splits)
qed

lemma sc_fresh_loaded:
  assumes "sc_fresh p n es s"
  shows "sc_fresh p n (es @ [ScLoaded now k q r]) (snd (sc_loaded now k q r s))"
proof (cases "jm_get (sc_inFlight s) k = Some q \<and> k = p")
  case True
  then show ?thesis
    using assms sc_step_ok [of s "ScLoaded now k q r"]
    by (auto simp: sc_fresh_def sc_loaded_def Let_def lru_set_stored)
next
  case False
  have ok: "lru_ok (sc_cache s)" using assms by (simp add: sc_fresh_def)
  show ?thesis
  proof (rule sc_fresh_more [OF assms])
    show "lru_ok (sc_cache (snd (sc_loaded now k q r s)))"
      using sc_step_ok [OF ok, of "ScLoaded now k q r"] by simp
    show "n \<le> sc_next (snd (sc_loaded now k q r s))"
      using assms by (simp add: sc_fresh_def sc_loaded_def Let_def)
  qed (use False lru_make_room_stored [OF ok] in
        \<open>auto simp: sc_loaded_def Let_def lru_set_stored split: if_splits\<close>)
qed

lemma sc_fresh_step:
  assumes "sc_fresh p n es s" shows "sc_fresh p n (es @ [ev]) (sc_step ev s)"
proof (cases ev)
  case (ScGet now k)
  then show ?thesis using sc_fresh_get [OF assms] by simp
next
  case (ScLoaded now k q r)
  then show ?thesis using sc_fresh_loaded [OF assms] by simp
next
  case (ScSettled k q)
  show ?thesis
    by (rule sc_fresh_more [OF assms])
       (use assms in \<open>auto simp: ScSettled sc_settled_def sc_fresh_def jm_get_delete split: if_splits\<close>)
next
  case (ScInvalidate k)
  have ok: "lru_ok (sc_cache s)" using assms by (simp add: sc_fresh_def)
  show ?thesis
    by (rule sc_fresh_more [OF assms])
       (use assms in \<open>auto simp: ScInvalidate sc_invalidate_def sc_fresh_def jm_get_delete
          lru.ok_del lru.stored_del [OF ok] split: if_splits\<close>)
next
  case ScClear
  have ok: "lru_ok (sc_cache s)" using assms by (simp add: sc_fresh_def)
  show ?thesis
    by (rule sc_fresh_more [OF assms])
       (use assms in \<open>auto simp: ScClear sc_clear_def sc_fresh_def lru.ok_clr lru.stored_clr [OF ok]\<close>)
qed

lemma sc_fresh_run:
  "sc_fresh p n es s \<Longrightarrow> sc_fresh p n (es @ es') (fold sc_step es' s)"
proof (induction es' arbitrary: es s)
  case (Cons e es')
  from Cons.IH [OF sc_fresh_step [OF Cons.prems, of e]] show ?case by simp
qed simp

text \<open>
  A settings change applies at once. After \<open>invalidate(p)\<close>, whatever gets, lookups
  that come back, failures and invalidations follow in whatever order, any settings cached for
  \<open>p\<close> are the answer of a lookup started after the \<open>invalidate\<close>; a lookup that was on
  the wire can no longer write its stale answer.
\<close>

theorem settings_cache_never_stale:
  assumes "lru_ok (sc_cache s)"
    and "lru_stored (sc_cache (fold sc_step es (sc_invalidate p s))) p = Some (v, e)"
  shows "\<exists>now q r. ScLoaded now p q r \<in> set es \<and> sc_next s \<le> q
           \<and> v = (case r of None \<Rightarrow> NO_OVERRIDES | Some w \<Rightarrow> w)"
proof -
  have "sc_fresh p (sc_next s) [] (sc_invalidate p s)"
    using assms(1) by (simp add: sc_fresh_def sc_invalidate_def jm_get_delete lru.ok_del lru.stored_del)
  from sc_fresh_run [OF this, of es] assms(2) show ?thesis
    unfolding sc_fresh_def sc_loaded_value by auto
qed

theorem settings_cache_never_stale_witness:
  "\<exists>now q r. ScLoaded now ''p'' q r \<in> set [ScLoaded 1 ''p'' 0 None, ScGet 2 ''p'',
        ScLoaded 3 ''p'' 1 (Some \<lparr>throttleLimit = Some 5, throttleWindowHours = None\<rparr>)]
     \<and> 1 \<le> q \<and> \<lparr>throttleLimit = Some 5, throttleWindowHours = None\<rparr>
         = (case r of None \<Rightarrow> NO_OVERRIDES | Some w \<Rightarrow> w)"
proof -
  let ?s = "snd (sc_get 0 ''p'' (settings_cache_new 1000 60000))"
  have s: "lru_ok (sc_cache ?s)" "sc_next ?s = 1"
    by (simp_all add: sc_get_def settings_cache_new_def lru_get_def lru_ok_def lru_new_def)
  have "lru_stored (sc_cache (fold sc_step [ScLoaded 1 ''p'' 0 None, ScGet 2 ''p'',
        ScLoaded 3 ''p'' 1 (Some \<lparr>throttleLimit = Some 5, throttleWindowHours = None\<rparr>)]
       (sc_invalidate ''p'' ?s))) ''p''
     = Some (\<lparr>throttleLimit = Some 5, throttleWindowHours = None\<rparr>, 60003)"
    by (simp add: sc_defs settings_cache_new_def lru_get_def lru_new_def lru_set_def lru_make_room_def
        lru_delete_def Let_def)
  from settings_cache_never_stale [OF s(1) this] show ?thesis by (simp add: s(2))
qed

end
