(* ===== verification/Circuit_Breaker.thy ===== *)
theory Circuit_Breaker
  imports NK_Prelude
begin

text \<open>
  \<open>CircuitBreaker\<close> of \<open>src/src/shared/circuit-breaker.ts\<close>. \<open>execute\<close> runs in two
  synchronous segments with the awaited action between them: \<open>cb_enter\<close> decides whether
  the call may proceed and whether it is the probe, \<open>cb_exit\<close> records the outcome. Any
  number of calls may be between the two segments; \<open>cb_sys\<close> keeps one flag per such call.
\<close>

datatype cb_state = CLOSED | OPEN | HALF_OPEN

record breaker =
  cb_state :: cb_state
  failures :: int
  nextAttemptAt :: ms
  probeInFlight :: bool
  threshold :: int
  cb_timeout :: ms

definition breaker_new :: "int \<Rightarrow> ms \<Rightarrow> breaker" where
  "breaker_new failureThreshold resetTimeoutMs =
     \<lparr>cb_state = CLOSED, failures = 0, nextAttemptAt = 0, probeInFlight = False,
      threshold = failureThreshold, cb_timeout = resetTimeoutMs\<rparr>"

text \<open>\<open>Refused\<close> is the error ``Circuit breaker is OPEN''; \<open>Admitted isProbe\<close> runs the action.\<close>

datatype admission = Refused | Admitted bool

definition cb_enter :: "ms \<Rightarrow> breaker \<Rightarrow> admission \<times> breaker" where
  "cb_enter now b =
     (case cb_state b of
        OPEN \<Rightarrow>
          if now > nextAttemptAt b \<and> \<not> probeInFlight b
          then (Admitted True, b\<lparr>cb_state := HALF_OPEN, probeInFlight := True\<rparr>)
          else (Refused, b)
      | HALF_OPEN \<Rightarrow>
          if probeInFlight b then (Refused, b)
          else (Admitted True, b\<lparr>probeInFlight := True\<rparr>)
      | CLOSED \<Rightarrow> (Admitted False, b))"

definition onSuccess :: "breaker \<Rightarrow> breaker" where
  "onSuccess b = b\<lparr>failures := 0, cb_state := CLOSED\<rparr>"

definition onFailure :: "ms \<Rightarrow> breaker \<Rightarrow> breaker" where
  "onFailure now b =
     (let b = b\<lparr>failures := failures b + 1\<rparr>
      in if failures b \<ge> threshold b
         then b\<lparr>cb_state := OPEN, nextAttemptAt := now + cb_timeout b\<rparr> else b)"

definition cb_exit :: "ms \<Rightarrow> bool \<Rightarrow> bool \<Rightarrow> breaker \<Rightarrow> breaker" where
  "cb_exit now isProbe success b =
     (let b = (if success then onSuccess b else onFailure now b)
      in if isProbe then b\<lparr>probeInFlight := False\<rparr> else b)"

text \<open>One call with nothing interleaved: the action's result or error comes back unchanged.\<close>

datatype 'e cb_error = Breaker_Open | Action_Error 'e

definition cb_execute ::
  "ms \<Rightarrow> ms \<Rightarrow> 'e + 'a \<Rightarrow> breaker \<Rightarrow> ('e cb_error + 'a) \<times> breaker" where
  "cb_execute now now' action b =
     (case cb_enter now b of
        (Refused, b) \<Rightarrow> (Inl Breaker_Open, b)
      | (Admitted isProbe, b) \<Rightarrow>
          (case action of
             Inr result \<Rightarrow> (Inr result, cb_exit now' isProbe True b)
           | Inl err \<Rightarrow> (Inl (Action_Error err), cb_exit now' isProbe False b)))"

lemmas cb_defs [op_defs] = cb_enter_def cb_exit_def onSuccess_def onFailure_def Let_def

section \<open>Concurrent calls\<close>

record cb_sys =
  brk :: breaker
  calls :: "bool list"

inductive cb_step :: "cb_sys \<Rightarrow> cb_sys \<Rightarrow> bool" where
  refuse: "cb_enter now (brk s) = (Refused, b) \<Longrightarrow> cb_step s (s\<lparr>brk := b\<rparr>)"
| admit: "cb_enter now (brk s) = (Admitted p, b) \<Longrightarrow>
     cb_step s (s\<lparr>brk := b, calls := p # calls s\<rparr>)"
| finish: "calls s = xs @ p # ys \<Longrightarrow>
     cb_step s (s\<lparr>brk := cb_exit now p success (brk s), calls := xs @ ys\<rparr>)"

inductive cb_reachable :: "int \<Rightarrow> ms \<Rightarrow> cb_sys \<Rightarrow> bool" for n t where
  start: "cb_reachable n t \<lparr>brk = breaker_new n t, calls = []\<rparr>"
| step: "cb_reachable n t s \<Longrightarrow> cb_step s s' \<Longrightarrow> cb_reachable n t s'"

definition cb_inv :: "cb_sys \<Rightarrow> bool" where
  "cb_inv s \<longleftrightarrow>
     count_list (calls s) True = (if probeInFlight (brk s) then 1 else 0)
     \<and> (cb_state (brk s) = HALF_OPEN \<longrightarrow> probeInFlight (brk s))
     \<and> (cb_state (brk s) \<noteq> CLOSED \<longrightarrow> threshold (brk s) \<le> failures (brk s))"

lemma count_list_split:
  "count_list (xs @ p # ys) q = (if p = q then 1 else 0) + count_list (xs @ ys) q"
  by simp

lemma cb_step_inv: "cb_step s s' \<Longrightarrow> cb_inv s \<Longrightarrow> cb_inv s'"
proof (induction rule: cb_step.induct)
  case (refuse now s b)
  then show ?case by (auto simp: cb_inv_def op_defs split: cb_state.splits if_splits)
next
  case (admit now s p b)
  then show ?case by (auto simp: cb_inv_def op_defs split: cb_state.splits if_splits)
next
  case (finish s xs p ys now success)
  then show ?case
    by (cases p; cases success) (auto simp: cb_inv_def op_defs split: if_splits)
qed

lemma cb_reachable_inv: "cb_reachable n t s \<Longrightarrow> cb_inv s"
proof (induction rule: cb_reachable.induct)
  case start
  show ?case by (simp add: cb_inv_def breaker_new_def)
next
  case (step s s')
  then show ?case by (blast intro: cb_step_inv)
qed

section \<open>A crowd of callers\<close>

fun cb_crowd :: "ms list \<Rightarrow> breaker \<Rightarrow> admission list \<times> breaker" where
  "cb_crowd [] b = ([], b)"
| "cb_crowd (now # ts) b =
     (let (a, b') = cb_enter now b; (as, b'') = cb_crowd ts b' in (a # as, b''))"

lemma cb_crowd_half_open:
  "cb_state b = HALF_OPEN \<Longrightarrow> probeInFlight b \<Longrightarrow>
    cb_crowd ts b = (replicate (length ts) Refused, b)"
  by (induction ts) (simp_all add: op_defs)

lemma cb_crowd_open_early:
  "cb_state b = OPEN \<Longrightarrow> \<forall>now \<in> set ts. now \<le> nextAttemptAt b \<Longrightarrow>
    cb_crowd ts b = (replicate (length ts) Refused, b)"
  by (induction ts) (simp_all add: op_defs)

section \<open>Consecutive failures\<close>

lemma cb_execute_fails:
  assumes "cb_state b = CLOSED" "failures b + 1 < threshold b"
  shows "cb_execute now now' (Inl e) b = (Inl (Action_Error e), b\<lparr>failures := failures b + 1\<rparr>)"
  using assms by (simp add: cb_execute_def op_defs)

definition cb_fail_run :: "(ms \<times> ms \<times> 'e) list \<Rightarrow> breaker \<Rightarrow> breaker" where
  "cb_fail_run es b =
     fold (\<lambda>(now, now', e) b. snd (cb_execute now now' (Inl e :: 'e + unit) b)) es b"

lemma cb_fail_run_below:
  "cb_state b = CLOSED \<Longrightarrow> failures b + int (length es) < threshold b \<Longrightarrow>
    cb_fail_run es b = b\<lparr>failures := failures b + int (length es)\<rparr>"
proof (induction es arbitrary: b)
  case (Cons x es)
  obtain now now' e where x: "x = (now, now', e)" by (cases x)
  from Cons.prems have "cb_fail_run (x # es) b = cb_fail_run es (b\<lparr>failures := failures b + 1\<rparr>)"
    by (simp add: cb_fail_run_def x cb_execute_fails)
  with Cons.prems show ?case by (subst (asm) Cons.IH) (simp_all add: algebra_simps)
qed (simp add: cb_fail_run_def)

section \<open>Properties\<close>

text \<open>
  However calls interleave, at most one of the calls in flight is a probe, and the breaker
  is half-open only while that probe is running (so the branch of \<open>execute\<close> that admits a
  probe in state HALF\_OPEN is never taken).
\<close>

theorem circuit_breaker_single_probe:
  assumes "cb_reachable failureThreshold resetTimeoutMs s"
  shows "count_list (calls s) True \<le> 1
    \<and> (cb_state (brk s) = HALF_OPEN \<longrightarrow> count_list (calls s) True = 1 \<and> fst (cb_enter now (brk s)) = Refused)"
  using cb_reachable_inv [OF assms] by (auto simp: cb_inv_def cb_enter_def)

theorem circuit_breaker_single_probe_witness:
  "count_list (calls \<lparr>brk = breaker_new 5 30000, calls = [False]\<rparr>) True \<le> 1"
proof -
  have "cb_reachable 5 30000
      (\<lparr>brk = breaker_new 5 30000, calls = []\<rparr>\<lparr>brk := breaker_new 5 30000, calls := [False]\<rparr>)"
    using cb_reachable.step [OF cb_reachable.start cb_step.admit
        [where now = 0 and s = "\<lparr>brk = breaker_new 5 30000, calls = []\<rparr>" and p = False
          and b = "breaker_new 5 30000"]]
    by (simp add: cb_enter_def breaker_new_def)
  from circuit_breaker_single_probe [OF this] show ?thesis by simp
qed

text \<open>
  An open breaker refuses every caller until its timeout has passed, and when a crowd
  arrives after it, the first caller alone is let through as the probe and all the others are
  refused while the probe runs.
\<close>

theorem circuit_breaker_admits_one_of_a_crowd:
  assumes "cb_state b = OPEN" "\<not> probeInFlight b"
    and "\<forall>now \<in> set early. now \<le> nextAttemptAt b" and "now > nextAttemptAt b"
  shows "fst (cb_crowd early b) = replicate (length early) Refused
    \<and> fst (cb_crowd (now # late) (snd (cb_crowd early b)))
        = Admitted True # replicate (length late) Refused"
  using assms by (simp add: cb_crowd_open_early cb_enter_def cb_crowd_half_open)

theorem circuit_breaker_admits_one_of_a_crowd_witness:
  "fst (cb_crowd [10, 30000] (breaker_new 5 30000\<lparr>cb_state := OPEN, nextAttemptAt := 30000\<rparr>))
     = [Refused, Refused]
   \<and> fst (cb_crowd [30001, 30002, 30003]
          (breaker_new 5 30000\<lparr>cb_state := OPEN, nextAttemptAt := 30000\<rparr>))
     = [Admitted True, Refused, Refused]"
  using circuit_breaker_admits_one_of_a_crowd
    [of "breaker_new 5 30000\<lparr>cb_state := OPEN, nextAttemptAt := 30000\<rparr>" "[10, 30000]" 30001
        "[30002, 30003]"]
  by (simp add: breaker_new_def cb_enter_def)

text \<open>
  From a fresh (or recovered) breaker, fewer failures in a row than the threshold leave it
  closed, and the failure that reaches the threshold opens it for exactly one timeout counted
  from that failure; a success in between starts the count again.
\<close>

theorem circuit_breaker_opens_at_threshold:
  fixes es :: "(ms \<times> ms \<times> 'e) list"
  assumes "cb_state b = CLOSED" "failures b = 0" "threshold b = int (Suc (length es))"
  shows "cb_state (cb_fail_run es b) = CLOSED
    \<and> cb_state (cb_fail_run (es @ [(now, now', e)]) b) = OPEN
    \<and> nextAttemptAt (cb_fail_run (es @ [(now, now', e)]) b) = now' + cb_timeout b
    \<and> (\<forall>t t' r. fst (cb_execute t t' (Inr r :: 'e + unit) (cb_fail_run es b)) = Inr r
        \<and> failures (snd (cb_execute t t' (Inr r :: 'e + unit) (cb_fail_run es b))) = 0)"
proof -
  have run: "cb_fail_run es b = b\<lparr>failures := int (length es)\<rparr>"
    using cb_fail_run_below [of b es] assms by simp
  have "cb_fail_run (es @ [(now, now', e)]) b
      = snd (cb_execute now now' (Inl e :: 'e + unit) (b\<lparr>failures := int (length es)\<rparr>))"
    by (simp add: cb_fail_run_def run [unfolded cb_fail_run_def])
  then show ?thesis using assms by (simp add: run cb_execute_def op_defs)
qed

theorem circuit_breaker_opens_at_threshold_witness:
  "cb_state (cb_fail_run [(0, 1, ''e''), (2, 3, ''e'')] (breaker_new 3 30000)) = CLOSED
   \<and> cb_state (cb_fail_run [(0, 1, ''e''), (2, 3, ''e''), (4, 5, ''e'')] (breaker_new 3 30000)) = OPEN"
  using circuit_breaker_opens_at_threshold
    [of "breaker_new 3 30000" "[(0, 1, ''e''), (2, 3, ''e'')]" 4 5 "''e''"]
  by (simp only: list.size append.simps) (simp add: breaker_new_def)

end
