(* ===== verification/Semaphore.thy ===== *)
theory Semaphore
  imports NK_Prelude
begin

text \<open>
  \<open>AsyncSemaphore\<close> of \<open>src/src/shared/semaphore.ts\<close>: a counter and a queue of waiting
  callers, known by a number each (the code keeps their \<open>resolve\<close> functions). The locale
  \<open>permit_pool\<close> is what a client (\<open>BaseWorker\<close>) relies on.
\<close>

record semaphore =
  sem_count :: nat
  sem_queue :: "nat list"
  sem_max :: nat

definition sem_new :: "nat \<Rightarrow> semaphore" where
  "sem_new n = \<lparr>sem_count = 0, sem_queue = [], sem_max = n\<rparr>"

text \<open>\<open>True\<close>: the permit is granted at once; \<open>False\<close>: the caller waits in the queue.\<close>

definition sem_acquire :: "nat \<Rightarrow> semaphore \<Rightarrow> bool \<times> semaphore" where
  "sem_acquire caller s =
     (if sem_count s < sem_max s then (True, s\<lparr>sem_count := Suc (sem_count s)\<rparr>)
      else (False, s\<lparr>sem_queue := sem_queue s @ [caller]\<rparr>))"

text \<open>The caller woken up, if any.\<close>

definition sem_release :: "semaphore \<Rightarrow> nat option \<times> semaphore" where
  "sem_release s =
     (case sem_queue s of
        next # rest \<Rightarrow> (Some next, s\<lparr>sem_queue := rest\<rparr>)
      | [] \<Rightarrow> if sem_count s > 0 then (None, s\<lparr>sem_count := sem_count s - 1\<rparr>) else (None, s))"

definition activeCount :: "semaphore \<Rightarrow> nat" where
  "activeCount s = sem_count s"

lemmas sem_defs [op_defs] = sem_acquire_def sem_release_def activeCount_def

definition sem_ok :: "semaphore \<Rightarrow> bool" where
  "sem_ok s \<longleftrightarrow> sem_count s \<le> sem_max s \<and> (sem_queue s \<noteq> [] \<longrightarrow> sem_count s = sem_max s)"

section \<open>The contract of a pool of permits\<close>

text \<open>
  A pool hands out at most \<open>cap\<close> permits; a caller that gets none waits its turn, and a
  release either wakes the first one waiting (its permit passes on) or gives the permit back.
\<close>

locale permit_pool =
  fixes acq :: "nat \<Rightarrow> 's \<Rightarrow> bool \<times> 's"
    and rel :: "'s \<Rightarrow> nat option \<times> 's"
    and ok :: "'s \<Rightarrow> bool"
    and held :: "'s \<Rightarrow> nat"
    and waiting :: "'s \<Rightarrow> nat list"
    and cap :: "'s \<Rightarrow> nat"
  assumes held_le: "ok s \<Longrightarrow> held s \<le> cap s"
    and ok_acq: "ok s \<Longrightarrow> ok (snd (acq w s))"
    and ok_rel: "ok s \<Longrightarrow> ok (snd (rel s))"
    and cap_acq: "cap (snd (acq w s)) = cap s"
    and cap_rel: "cap (snd (rel s)) = cap s"
    and acq_granted: "ok s \<Longrightarrow> fst (acq w s) \<Longrightarrow>
          held (snd (acq w s)) = Suc (held s) \<and> waiting (snd (acq w s)) = waiting s"
    and acq_waits: "ok s \<Longrightarrow> \<not> fst (acq w s) \<Longrightarrow>
          held s = cap s \<and> held (snd (acq w s)) = held s \<and> waiting (snd (acq w s)) = waiting s @ [w]"
    and rel_wakes: "ok s \<Longrightarrow> waiting s = w # ws \<Longrightarrow>
          fst (rel s) = Some w \<and> held (snd (rel s)) = held s \<and> waiting (snd (rel s)) = ws"
    and rel_returns: "ok s \<Longrightarrow> waiting s = [] \<Longrightarrow>
          fst (rel s) = None \<and> held (snd (rel s)) = held s - 1 \<and> waiting (snd (rel s)) = []"
begin

text \<open>
  A client: callers that ask for a permit and callers that hold one, each releasing once.
  The state is the pool and the callers that hold a permit.
\<close>

lemma client_acquire:
  assumes "ok s" "length hs = held s"
  shows "length (if fst (acq w s) then w # hs else hs) = held (snd (acq w s))"
  using assms acq_granted acq_waits by auto

lemma client_release:
  assumes "ok s" "length (xs @ h # ys) = held s"
  shows "length ((case fst (rel s) of Some w \<Rightarrow> [w] | None \<Rightarrow> []) @ xs @ ys) = held (snd (rel s))"
proof (cases "waiting s")
  case Nil
  then show ?thesis using rel_returns [OF assms(1)] assms(2) by simp
next
  case (Cons w ws)
  then show ?thesis using rel_wakes [OF assms(1)] assms(2) by simp
qed

end

interpretation sem: permit_pool sem_acquire sem_release sem_ok sem_count sem_queue sem_max
  by unfold_locales (auto simp: sem_ok_def op_defs split: list.splits if_splits)

section \<open>Callers\<close>

datatype sem_event = Acquire nat | Release nat

record sem_sys =
  sem :: semaphore
  holders :: "nat list"
  granted :: "nat list"

text \<open>
  \<open>granted\<close> is the history of grants. A caller releases only a permit it holds, as
  \<open>finally\<close> does after \<open>await acquire()\<close>.
\<close>

definition sem_grant :: "nat list \<Rightarrow> semaphore \<Rightarrow> sem_sys \<Rightarrow> sem_sys" where
  "sem_grant ws m s = s\<lparr>sem := m, holders := ws @ holders s, granted := granted s @ ws\<rparr>"

fun sem_event_step :: "sem_event \<Rightarrow> sem_sys \<Rightarrow> sem_sys" where
  "sem_event_step (Acquire w) s =
     (case sem_acquire w (sem s) of (ok, m) \<Rightarrow> sem_grant (if ok then [w] else []) m s)"
| "sem_event_step (Release h) s =
     (if h \<in> set (holders s)
      then (case sem_release (sem s) of
              (w, m) \<Rightarrow> sem_grant (case w of Some w \<Rightarrow> [w] | None \<Rightarrow> []) m
                          (s\<lparr>holders := remove1 h (holders s)\<rparr>))
      else s)"

definition sem_run :: "nat \<Rightarrow> sem_event list \<Rightarrow> sem_sys" where
  "sem_run n es = fold sem_event_step es \<lparr>sem = sem_new n, holders = [], granted = []\<rparr>"

definition asked :: "sem_event list \<Rightarrow> nat list" where
  "asked es = concat (map (\<lambda>e. case e of Acquire w \<Rightarrow> [w] | Release _ \<Rightarrow> []) es)"

definition sem_inv :: "nat \<Rightarrow> sem_event list \<Rightarrow> sem_sys \<Rightarrow> bool" where
  "sem_inv n es s \<longleftrightarrow>
     sem_ok (sem s) \<and> sem_max (sem s) = n \<and> length (holders s) = sem_count (sem s)
     \<and> granted s @ sem_queue (sem s) = asked es"

lemma sem_inv_acquire:
  assumes "sem_inv n es s"
  shows "sem_inv n (es @ [Acquire w]) (sem_event_step (Acquire w) s)"
  using assms sem.client_acquire [of "sem s" "holders s" w]
  by (auto simp: sem_inv_def sem_grant_def asked_def sem.ok_acq sem.cap_acq sem_acquire_def sem_ok_def)

lemma sem_inv_release:
  assumes inv: "sem_inv n es s"
  shows "sem_inv n (es @ [Release h]) (sem_event_step (Release h) s)"
proof (cases "h \<in> set (holders s)")
  case True
  then obtain xs ys where "holders s = xs @ h # ys" "h \<notin> set xs" by (metis split_list_first)
  then have hs: "holders s = xs @ h # ys" "remove1 h (holders s) = xs @ ys"
    by (simp_all add: remove1_append)
  have "sem_ok (snd (sem_release (sem s)))" "sem_max (snd (sem_release (sem s))) = n"
    using inv by (simp_all add: sem_inv_def sem.ok_rel sem.cap_rel)
  moreover have "length ((case fst (sem_release (sem s)) of Some w \<Rightarrow> [w] | None \<Rightarrow> []) @ xs @ ys)
      = sem_count (snd (sem_release (sem s)))"
    using inv hs by (intro sem.client_release) (simp_all add: sem_inv_def)
  ultimately show ?thesis
    using inv True hs(2)
    by (auto simp: sem_inv_def sem_grant_def asked_def sem_release_def split: list.splits if_splits)
qed (use inv in \<open>simp add: sem_inv_def asked_def\<close>)

lemma sem_inv_run: "sem_inv n es (sem_run n es)"
proof (induction es rule: rev_induct)
  case Nil
  show ?case by (simp add: sem_inv_def sem_run_def sem_new_def sem_ok_def asked_def)
next
  case (snoc e es)
  then show ?case
    using sem_inv_acquire sem_inv_release by (cases e) (simp_all add: sem_run_def)
qed

text \<open>
  However callers come and go, at most \<open>max\<close> of them hold a permit at any time (the
  count is exact), permits are granted in the order they were asked for, and nobody waits while
  a permit is free.
\<close>

theorem semaphore_bounds_and_fifo:
  "length (holders (sem_run n es)) = activeCount (sem (sem_run n es))
   \<and> activeCount (sem (sem_run n es)) \<le> n
   \<and> granted (sem_run n es) @ sem_queue (sem (sem_run n es)) = asked es
   \<and> (sem_queue (sem (sem_run n es)) = [] \<or> activeCount (sem (sem_run n es)) = n)"
  using sem_inv_run [of n es] by (auto simp: sem_inv_def sem_ok_def activeCount_def)

end
