(* ===== verification/Batch_Processor.thy ===== *)
theory Batch_Processor
  imports NK_Prelude
begin

text \<open>
  \<open>BatchProcessor\<close> of \<open>src/src/shared/batch-processor.ts\<close>. The state is the buffer,
  whether the timer is armed, and the flushes that occupy a slot; a flush keeps its slot
  from \<open>flushOnce\<close> until the \<open>finally\<close> callback of its promise. Each synchronous segment
  is one event. The operations also return the batches handed to \<open>flushFn\<close> and the
  outcomes delivered to the callers of \<open>add\<close>.
\<close>

record 'a batcher =
  bp_buffer :: "'a list"
  bp_timer :: bool
  bp_inFlight :: "(nat \<times> 'a list) list"
  bp_next :: nat
  bp_maxSize :: nat
  bp_maxConcurrent :: nat

definition bp_new :: "nat \<Rightarrow> nat \<Rightarrow> 'a batcher" where
  "bp_new size_limit concurrent =
     \<lparr>bp_buffer = [], bp_timer = False, bp_inFlight = [], bp_next = 0,
      bp_maxSize = size_limit, bp_maxConcurrent = concurrent\<rparr>"

text \<open>\<open>None\<close> when \<open>flushOnce\<close> returns at once, otherwise the batch given to \<open>flushFn\<close>.\<close>

definition bp_flushOnce :: "'a batcher \<Rightarrow> 'a list option \<times> 'a batcher" where
  "bp_flushOnce b =
     (if bp_buffer b = [] \<or> length (bp_inFlight b) \<ge> bp_maxConcurrent b then (None, b)
      else (Some (bp_buffer b),
            b\<lparr>bp_buffer := [], bp_inFlight := bp_inFlight b @ [(bp_next b, bp_buffer b)],
              bp_next := Suc (bp_next b)\<rparr>))"

definition bp_add :: "'a \<Rightarrow> 'a batcher \<Rightarrow> 'a list option \<times> 'a batcher" where
  "bp_add item b =
     (let b = b\<lparr>bp_buffer := bp_buffer b @ [item]\<rparr>
      in if length (bp_buffer b) \<ge> bp_maxSize b \<and> length (bp_inFlight b) < bp_maxConcurrent b
         then bp_flushOnce (b\<lparr>bp_timer := False\<rparr>)
         else if \<not> bp_timer b \<and> length (bp_inFlight b) < bp_maxConcurrent b
         then (None, b\<lparr>bp_timer := True\<rparr>)
         else (None, b))"

text \<open>The callback of \<open>setTimeout\<close>.\<close>

definition bp_timer_fires :: "'a batcher \<Rightarrow> 'a list option \<times> 'a batcher" where
  "bp_timer_fires b = bp_flushOnce (b\<lparr>bp_timer := False\<rparr>)"

text \<open>
  \<open>flushFn\<close> settles: with an array of results item \<open>i\<close> is resolved with
  \<open>results[i]\<close> (\<open>undefined\<close>, here \<open>None\<close>, past the end), with an error every
  item of the batch is rejected.
\<close>

datatype ('r, 'e) bp_outcome = Resolved "'r option" | Rejected 'e

definition bp_outcomes :: "'a list \<Rightarrow> 'e + 'r list \<Rightarrow> ('a \<times> ('r, 'e) bp_outcome) list" where
  "bp_outcomes batch settled =
     (case settled of
        Inr results \<Rightarrow>
          map (\<lambda>i. (batch ! i, Resolved (if i < length results then Some (results ! i) else None)))
            [0..<length batch]
      | Inl err \<Rightarrow> map (\<lambda>item. (item, Rejected err)) batch)"

text \<open>The \<open>finally\<close> callback: the slot is free again.\<close>

definition bp_finish :: "nat \<Rightarrow> 'a batcher \<Rightarrow> 'a list option \<times> 'a batcher" where
  "bp_finish run b =
     (let b = b\<lparr>bp_inFlight := filter (\<lambda>(r, _). r \<noteq> run) (bp_inFlight b)\<rparr>
      in if bp_buffer b = [] \<or> bp_timer b then (None, b)
         else if length (bp_buffer b) \<ge> bp_maxSize b then bp_flushOnce b
         else (None, b\<lparr>bp_timer := True\<rparr>))"

text \<open>
  One turn of the loop of \<open>flush()\<close>, once a slot is free; while none is, or when the buffer
  is empty, it changes nothing.
\<close>

definition bp_flush_turn :: "'a batcher \<Rightarrow> 'a list option \<times> 'a batcher" where
  "bp_flush_turn b =
     (if bp_buffer b \<noteq> [] \<and> length (bp_inFlight b) < bp_maxConcurrent b
      then bp_flushOnce (b\<lparr>bp_timer := False\<rparr>) else (None, b))"

lemmas bp_defs [op_defs] =
  bp_add_def bp_flushOnce_def bp_timer_fires_def bp_finish_def bp_flush_turn_def

section \<open>Runs\<close>

datatype 'a bp_event = BpAdd 'a | BpTimer | BpFinish nat | BpFlush

fun bp_step :: "'a bp_event \<Rightarrow> 'a batcher \<Rightarrow> 'a list option \<times> 'a batcher" where
  "bp_step (BpAdd x) b = bp_add x b"
| "bp_step BpTimer b = (if bp_timer b then bp_timer_fires b else (None, b))"
| "bp_step (BpFinish r) b = bp_finish r b"
| "bp_step BpFlush b = bp_flush_turn b"

text \<open>The batches handed to \<open>flushFn\<close> so far, in order, and the state.\<close>

definition bp_collect :: "'a bp_event \<Rightarrow> 'a list list \<times> 'a batcher \<Rightarrow> 'a list list \<times> 'a batcher" where
  "bp_collect e s =
     (case bp_step e (snd s) of
        (None, b) \<Rightarrow> (fst s, b)
      | (Some batch, b) \<Rightarrow> (fst s @ [batch], b))"

definition bp_run :: "nat \<Rightarrow> nat \<Rightarrow> 'a bp_event list \<Rightarrow> 'a list list \<times> 'a batcher" where
  "bp_run size_limit concurrent es = fold bp_collect es ([], bp_new size_limit concurrent)"

definition added :: "'a bp_event list \<Rightarrow> 'a list" where
  "added es = concat (map (\<lambda>e. case e of BpAdd x \<Rightarrow> [x] | _ \<Rightarrow> []) es)"

definition bp_ok :: "'a batcher \<Rightarrow> bool" where
  "bp_ok b \<longleftrightarrow>
     length (bp_inFlight b) \<le> bp_maxConcurrent b
     \<and> (bp_buffer b \<noteq> [] \<longrightarrow> bp_timer b \<or> length (bp_inFlight b) = bp_maxConcurrent b)
     \<and> (\<forall>(r, batch) \<in> set (bp_inFlight b). r < bp_next b \<and> batch \<noteq> [])"

lemma bp_step_config [simp]:
  "bp_maxSize (snd (bp_step e b)) = bp_maxSize b"
  "bp_maxConcurrent (snd (bp_step e b)) = bp_maxConcurrent b"
  by (cases e; auto simp: op_defs Let_def)+

lemma bp_step_ok: "bp_ok b \<Longrightarrow> bp_ok (snd (bp_step e b))"
proof (cases e)
  case (BpFinish r)
  assume ok: "bp_ok b"
  have "length (filter (\<lambda>(r', _). r' \<noteq> r) (bp_inFlight b)) \<le> length (bp_inFlight b)" by simp
  with ok show ?thesis
    by (auto simp: BpFinish bp_ok_def op_defs Let_def simp del: length_filter_le)
qed (auto simp: bp_ok_def op_defs Let_def)

lemma bp_step_conserves:
  "(case fst (bp_step e b) of None \<Rightarrow> [] | Some batch \<Rightarrow> batch) @ bp_buffer (snd (bp_step e b)) =
    bp_buffer b @ added [e]"
  by (cases e) (auto simp: op_defs added_def Let_def)

lemma bp_run_snoc: "bp_run m n (es @ [e]) = bp_collect e (bp_run m n es)"
  by (simp add: bp_run_def)

lemma bp_run_inv:
  "bp_ok (snd (bp_run m n es)) \<and> bp_maxConcurrent (snd (bp_run m n es)) = n
   \<and> bp_maxSize (snd (bp_run m n es)) = m
   \<and> concat (fst (bp_run m n es)) @ bp_buffer (snd (bp_run m n es)) = added es"
proof (induction es rule: rev_induct)
  case Nil
  show ?case by (simp add: bp_run_def bp_new_def bp_ok_def added_def)
next
  case (snoc e es)
  obtain bs b where run: "bp_run m n es = (bs, b)" by (cases "bp_run m n es")
  obtain f b' where step: "bp_step e b = (f, b')" by (cases "bp_step e b")
  have ok: "bp_ok b'" "bp_maxConcurrent b' = n" "bp_maxSize b' = m"
    using snoc bp_step_ok [of b e] bp_step_config [of e b] by (simp_all add: run step)
  have "(case f of None \<Rightarrow> [] | Some batch \<Rightarrow> batch) @ bp_buffer b' = bp_buffer b @ added [e]"
    using bp_step_conserves [of e b] by (simp add: step)
  moreover have "added (es @ [e]) = added es @ added [e]" by (simp add: added_def)
  ultimately have "concat (case f of None \<Rightarrow> bs | Some batch \<Rightarrow> bs @ [batch]) @ bp_buffer b'
      = added (es @ [e])"
    using snoc by (cases f) (auto simp: run)
  with ok show ?case by (cases f) (auto simp: bp_run_snoc bp_collect_def run step)
qed

lemma bp_finish_restarts:
  assumes "bp_ok b" "(run, batch) \<in> set (bp_inFlight b)" "bp_buffer b \<noteq> []" "\<not> bp_timer b"
  shows "fst (bp_finish run b) = Some (bp_buffer b) \<or> bp_timer (snd (bp_finish run b))"
proof -
  have "length (filter (\<lambda>(r, _). r \<noteq> run) (bp_inFlight b)) < length (bp_inFlight b)"
    using assms(2) by (intro length_filter_less [of "(run, batch)"]) auto
  with assms show ?thesis by (auto simp: bp_ok_def op_defs Let_def)
qed

section \<open>Properties\<close>

text \<open>
  Nothing is lost, duplicated or reordered: whatever adds, timer ticks, finished flushes
  and explicit flushes have happened, the batches handed to \<open>flushFn\<close> so far, followed by
  the buffer, are exactly the items added, in the order they were added.
\<close>

theorem batch_processor_conserves_items:
  "concat (fst (bp_run size_limit concurrent es)) @ bp_buffer (snd (bp_run size_limit concurrent es))
    = added es"
  using bp_run_inv by blast

text \<open>
  No item is stranded and the concurrency limit holds: at most \<open>maxConcurrent\<close> flushes
  are in flight, and when items wait in the buffer either the timer is armed or every slot is
  busy, and then whichever flush finishes first starts the next one or arms the timer.
\<close>

theorem batch_processor_never_strands:
  "let b = snd (bp_run size_limit concurrent es)
   in length (bp_inFlight b) \<le> concurrent
      \<and> (bp_buffer b = [] \<or> bp_timer b
          \<or> (length (bp_inFlight b) = concurrent
             \<and> list_all (\<lambda>(run, batch). fst (bp_finish run b) = Some (bp_buffer b)
                   \<or> bp_timer (snd (bp_finish run b))) (bp_inFlight b)))"
proof -
  define b where "b = snd (bp_run size_limit concurrent es)"
  have ok: "bp_ok b" and n: "bp_maxConcurrent b = concurrent"
    using bp_run_inv [of size_limit concurrent es] by (simp_all add: b_def)
  have "fst (bp_finish run b) = Some (bp_buffer b) \<or> bp_timer (snd (bp_finish run b))"
    if "(run, batch) \<in> set (bp_inFlight b)" "bp_buffer b \<noteq> []" "\<not> bp_timer b" for run batch
    using that bp_finish_restarts [OF ok that(1)] by blast
  then show ?thesis
    using ok n unfolding b_def [symmetric] Let_def bp_ok_def list_all_iff by blast
qed

end
