(* ===== verification/Data_Loader.thy ===== *)
theory Data_Loader
  imports NK_Prelude
begin

text \<open>
  \<open>DataLoader\<close> of \<open>src/src/shared/dataloader.ts\<close>. The keys asked for and the promises
  to settle (known by a number each) are two arrays filled together; \<open>dispatch\<close> takes both.
  \<open>dl_timer\<close> is an armed \<open>setTimeout\<close>, \<open>dl_microtasks\<close> the number of queued
  \<open>Promise.resolve().then\<close> callbacks, which are never cancelled. A \<open>maxBatchSize\<close> of
  \<open>None\<close> is \<open>Infinity\<close>.
\<close>

record 'k loader =
  dl_keys :: "'k list"
  dl_promises :: "nat list"
  dl_scheduled :: bool
  dl_timer :: bool
  dl_microtasks :: nat
  dl_batchDelayMs :: nat
  dl_maxBatchSize :: "nat option"

definition dl_new :: "nat \<Rightarrow> nat option \<Rightarrow> 'k loader" where
  "dl_new delay batch =
     \<lparr>dl_keys = [], dl_promises = [], dl_scheduled = False, dl_timer = False, dl_microtasks = 0,
      dl_batchDelayMs = delay, dl_maxBatchSize = batch\<rparr>"

text \<open>The call of \<open>batchLoadFn\<close>, if there is one: the keys and the promises waiting.\<close>

definition dl_dispatch :: "'k loader \<Rightarrow> ('k list \<times> nat list) option \<times> 'k loader" where
  "dl_dispatch d =
     (let d = d\<lparr>dl_timer := False, dl_scheduled := False\<rparr>
      in if dl_keys d = [] then (None, d)
         else (Some (dl_keys d, dl_promises d), d\<lparr>dl_keys := [], dl_promises := []\<rparr>))"

definition dl_full :: "'k loader \<Rightarrow> bool" where
  "dl_full d = (case dl_maxBatchSize d of None \<Rightarrow> False | Some m \<Rightarrow> length (dl_keys d) \<ge> m)"

definition dl_load :: "'k \<Rightarrow> nat \<Rightarrow> 'k loader \<Rightarrow> ('k list \<times> nat list) option \<times> 'k loader" where
  "dl_load key promise d =
     (let d = d\<lparr>dl_keys := dl_keys d @ [key], dl_promises := dl_promises d @ [promise]\<rparr>
      in if dl_full d then dl_dispatch d
         else if \<not> dl_scheduled d
         then (if dl_batchDelayMs d > 0
               then (None, d\<lparr>dl_scheduled := True, dl_timer := True\<rparr>)
               else (None, d\<lparr>dl_scheduled := True, dl_microtasks := Suc (dl_microtasks d)\<rparr>))
         else (None, d))"

text \<open>
  \<open>batchLoadFn\<close> settles. A result that is an \<open>Error\<close> (\<open>Inl\<close>) rejects its promise; a
  missing one resolves it with \<open>undefined\<close>; a failed load rejects them all.
\<close>

datatype ('v, 'e) dl_outcome = Loaded "'v option" | Load_Error 'e

definition dl_settle ::
  "nat list \<Rightarrow> 'e + ('e + 'v) list \<Rightarrow> (nat \<times> ('v, 'e) dl_outcome) list" where
  "dl_settle currentPromises settled =
     (case settled of
        Inr results \<Rightarrow>
          map (\<lambda>i. (currentPromises ! i,
                 if i < length results
                 then (case results ! i of Inl err \<Rightarrow> Load_Error err | Inr v \<Rightarrow> Loaded (Some v))
                 else Loaded None)) [0..<length currentPromises]
      | Inl err \<Rightarrow> map (\<lambda>p. (p, Load_Error err)) currentPromises)"

lemmas dl_defs [op_defs] = dl_load_def dl_dispatch_def dl_full_def

datatype 'k dl_event = DlLoad 'k nat | DlTimer | DlMicrotask

fun dl_step :: "'k dl_event \<Rightarrow> 'k loader \<Rightarrow> ('k list \<times> nat list) option \<times> 'k loader" where
  "dl_step (DlLoad k p) d = dl_load k p d"
| "dl_step DlTimer d = (if dl_timer d then dl_dispatch d else (None, d))"
| "dl_step DlMicrotask d =
     (if dl_microtasks d > 0 then dl_dispatch (d\<lparr>dl_microtasks := dl_microtasks d - 1\<rparr>) else (None, d))"

definition dl_collect ::
  "'k dl_event \<Rightarrow> ('k list \<times> nat list) list \<times> 'k loader \<Rightarrow> ('k list \<times> nat list) list \<times> 'k loader" where
  "dl_collect e s =
     (case dl_step e (snd s) of
        (None, d) \<Rightarrow> (fst s, d)
      | (Some call, d) \<Rightarrow> (fst s @ [call], d))"

definition dl_run ::
  "nat \<Rightarrow> nat option \<Rightarrow> 'k dl_event list \<Rightarrow> ('k list \<times> nat list) list \<times> 'k loader" where
  "dl_run delay batch es = fold dl_collect es ([], dl_new delay batch)"

definition loads :: "'k dl_event list \<Rightarrow> ('k \<times> nat) list" where
  "loads es = concat (map (\<lambda>e. case e of DlLoad k p \<Rightarrow> [(k, p)] | _ \<Rightarrow> []) es)"

definition dl_ok :: "'k loader \<Rightarrow> bool" where
  "dl_ok d \<longleftrightarrow>
     length (dl_promises d) = length (dl_keys d)
     \<and> (dl_keys d \<noteq> [] \<longrightarrow> dl_scheduled d)
     \<and> (dl_scheduled d \<longrightarrow> dl_timer d \<or> dl_microtasks d > 0)
     \<and> (case dl_maxBatchSize d of None \<Rightarrow> True | Some m \<Rightarrow> dl_keys d = [] \<or> length (dl_keys d) < m)"

definition dl_pairs :: "('k list \<times> nat list) list \<Rightarrow> ('k \<times> nat) list" where
  "dl_pairs calls = concat (map (\<lambda>(ks, ps). zip ks ps) calls)"

lemma dl_step_ok: "dl_ok d \<Longrightarrow> dl_ok (snd (dl_step e d))"
  by (cases e) (auto simp: dl_ok_def op_defs Let_def split: option.splits)

lemma dl_step_call:
  "dl_ok d \<Longrightarrow> fst (dl_step e d) = Some (ks, ps) \<Longrightarrow> length ps = length ks"
  by (cases e) (auto simp: dl_ok_def op_defs Let_def split: option.splits if_splits)

lemma dl_step_config [simp]: "dl_maxBatchSize (snd (dl_step e d)) = dl_maxBatchSize d"
  by (cases e) (auto simp: op_defs Let_def)

lemma dl_step_conserves:
  "dl_ok d \<Longrightarrow>
    (case fst (dl_step e d) of None \<Rightarrow> [] | Some (ks, ps) \<Rightarrow> zip ks ps)
      @ zip (dl_keys (snd (dl_step e d))) (dl_promises (snd (dl_step e d)))
    = zip (dl_keys d) (dl_promises d) @ loads [e]"
  by (cases e) (auto simp: dl_ok_def op_defs loads_def Let_def split: option.splits)

lemma dl_run_snoc: "dl_run w m (es @ [e]) = dl_collect e (dl_run w m es)"
  by (simp add: dl_run_def)

lemma dl_run_inv:
  "dl_ok (snd (dl_run w m es))
   \<and> list_all (\<lambda>(ks, ps). length ps = length ks) (fst (dl_run w m es))
   \<and> dl_pairs (fst (dl_run w m es))
      @ zip (dl_keys (snd (dl_run w m es))) (dl_promises (snd (dl_run w m es))) = loads es"
proof (induction es rule: rev_induct)
  case Nil
  show ?case by (simp add: dl_run_def dl_new_def dl_ok_def loads_def dl_pairs_def split: option.split)
next
  case (snoc e es)
  obtain cs d where run: "dl_run w m es = (cs, d)" by (cases "dl_run w m es")
  obtain f d' where step: "dl_step e d = (f, d')" by (cases "dl_step e d")
  have ok: "dl_ok d" "dl_ok d'" using snoc dl_step_ok [of d e] by (simp_all add: run step)
  have "loads (es @ [e]) = loads es @ loads [e]" by (simp add: loads_def)
  with snoc dl_step_conserves [OF ok(1), of e] dl_step_call [OF ok(1), of e] ok(2) show ?case
    by (cases f) (auto simp: dl_run_snoc dl_collect_def run step dl_pairs_def)
qed

section \<open>Properties\<close>

text \<open>
  Every \<open>load\<close> is served once and in order: the (key, promise) pairs of the calls made
  to \<open>batchLoadFn\<close>, followed by those still collected, are exactly the loads asked for, and
  keys are collected only while a dispatch is scheduled that a timer or a microtask will run.
\<close>

theorem data_loader_serves_every_load:
  "let (calls, d) = dl_run delay batch es
   in dl_pairs calls @ zip (dl_keys d) (dl_promises d) = loads es
      \<and> (dl_keys d = [] \<or> (dl_scheduled d \<and> (dl_timer d \<or> dl_microtasks d > 0)))"
  using dl_run_inv [of delay batch es] by (auto simp: dl_ok_def)

text \<open>
  Each promise gets the answer to its own key. If \<open>batchLoadFn\<close> answers position by
  position (the results are \<open>f\<close> of the keys it was given), then every load of the run whose
  batch has been dispatched is settled with \<open>f\<close> of the key it asked for.
\<close>

theorem data_loader_answers_own_key:
  assumes "(ks, ps) \<in> set (fst (dl_run delay batch es))"
    and "(p, outcome) \<in> set (dl_settle ps (Inr (map f ks)))"
  shows "\<exists>k. (k, p) \<in> set (loads es) \<and>
    outcome = (case f k of Inl err \<Rightarrow> Load_Error err | Inr v \<Rightarrow> Loaded (Some v))"
proof -
  have len: "length ps = length ks"
    and sub: "set (dl_pairs (fst (dl_run delay batch es))) \<subseteq> set (loads es)"
    using dl_run_inv [of delay batch es] assms(1) by (auto simp: list_all_iff simp del: set_append
        dest!: arg_cong [of _ "loads es" set] simp add: set_append)
  obtain i where i: "i < length ps" "p = ps ! i"
    "outcome = (case f (ks ! i) of Inl err \<Rightarrow> Load_Error err | Inr v \<Rightarrow> Loaded (Some v))"
    using assms(2) len by (auto simp: dl_settle_def)
  have "(ks ! i, p) \<in> set (zip ks ps)" using i len by (auto simp: set_zip)
  then have "(ks ! i, p) \<in> set (dl_pairs (fst (dl_run delay batch es)))"
    using assms(1) by (force simp: dl_pairs_def)
  with sub i(3) show ?thesis by blast
qed

theorem data_loader_answers_own_key_witness:
  "\<exists>k. (k, 7) \<in> set (loads [DlLoad ''a'' 7, DlLoad ''b'' 8]) \<and>
    Loaded (Some 1) = (case (if k = ''a'' then Inr (1::nat) else Inl ''no'') of
        Inl err \<Rightarrow> Load_Error err | Inr v \<Rightarrow> Loaded (Some v))"
  by (rule data_loader_answers_own_key [of "[''a'', ''b'']" "[7, 8]" 0 "Some 2"])
     (simp_all add: dl_run_def dl_collect_def dl_new_def op_defs dl_settle_def Let_def)

end
