(* ===== verification/Redis_Scripts.thy ===== *)
theory Redis_Scripts
  imports NK_Prelude "HOL-Library.Multiset"
begin

text \<open>
  The Lua scripts of \<open>src/src/redis/index.ts\<close>. Redis itself is not part of the program:
  the commands a script calls are the fields of the record \<open>'s redis\<close>, functions on an
  unknown store \<open>'s\<close>, and what the code relies on is stated as laws over them (the
  behaviour the Redis manual documents). Scripts run atomically, so each is one function of
  the store. Expiry is an effect of the store; a key that has expired is absent.

  \<open>mem_redis\<close> at the end is a store that satisfies the laws, for the witnesses only.
\<close>

section \<open>The commands\<close>

type_synonym zset = "(string \<times> int) list"

record 's redis =
  GET :: "string \<Rightarrow> 's \<Rightarrow> string option"
  SET_EX :: "string \<Rightarrow> string \<Rightarrow> int \<Rightarrow> 's \<Rightarrow> 's"
  SET_EX_NX :: "string \<Rightarrow> string \<Rightarrow> int \<Rightarrow> 's \<Rightarrow> bool \<times> 's"
  DEL :: "string \<Rightarrow> 's \<Rightarrow> int \<times> 's"
  EXPIRE :: "string \<Rightarrow> int \<Rightarrow> 's \<Rightarrow> int \<times> 's"
  TTL :: "string \<Rightarrow> 's \<Rightarrow> int"
  NUMBER :: "string \<Rightarrow> 's \<Rightarrow> int"
  INCRBY :: "string \<Rightarrow> int \<Rightarrow> 's \<Rightarrow> int \<times> 's"
  ZADD :: "string \<Rightarrow> int \<Rightarrow> string \<Rightarrow> 's \<Rightarrow> 's"
  ZSCORE :: "string \<Rightarrow> string \<Rightarrow> 's \<Rightarrow> int option"
  ZCOUNT :: "string \<Rightarrow> int \<Rightarrow> int \<Rightarrow> 's \<Rightarrow> int"
  ZREMRANGE :: "string \<Rightarrow> int \<Rightarrow> 's \<Rightarrow> 's"
  ZRANGE :: "string \<Rightarrow> int \<Rightarrow> nat \<Rightarrow> 's \<Rightarrow> string list"
  SET :: "string \<Rightarrow> string \<Rightarrow> 's \<Rightarrow> 's"
  ZREM :: "string \<Rightarrow> string \<Rightarrow> 's \<Rightarrow> 's"
  ZADD_NX :: "string \<Rightarrow> int \<Rightarrow> string \<Rightarrow> 's \<Rightarrow> 's"

text \<open>
  \<open>NUMBER k\<close> is \<open>tonumber(GET k or "0")\<close>; \<open>ZCOUNT k lo hi\<close> counts the scores
  in \<open>(lo, hi]\<close>; \<open>ZREMRANGE k hi\<close> removes the scores up to \<open>hi\<close>;
  \<open>ZRANGE k hi n\<close> lists the members with score up to \<open>hi\<close> by score, at most
  \<open>n\<close> of them.
\<close>

definition redis_string_laws :: "'s redis \<Rightarrow> bool" where
  "redis_string_laws r \<longleftrightarrow>
     (\<forall>k v t s. 0 < t \<longrightarrow> GET r k (SET_EX r k v t s) = Some v)
     \<and> (\<forall>k k' v t s. k' \<noteq> k \<longrightarrow> GET r k' (SET_EX r k v t s) = GET r k' s)
     \<and> (\<forall>k v t s. 0 < t \<longrightarrow> SET_EX_NX r k v t s =
          (if GET r k s = None then (True, SET_EX r k v t s) else (False, s)))
     \<and> (\<forall>k s. GET r k (snd (DEL r k s)) = None)
     \<and> (\<forall>k k' s. k' \<noteq> k \<longrightarrow> GET r k' (snd (DEL r k s)) = GET r k' s)
     \<and> (\<forall>k k' t s. 0 < t \<longrightarrow> GET r k' (snd (EXPIRE r k t s)) = GET r k' s)"

definition redis_counter_laws :: "'s redis \<Rightarrow> bool" where
  "redis_counter_laws r \<longleftrightarrow>
     (\<forall>k n s. fst (INCRBY r k n s) = NUMBER r k s + n)
     \<and> (\<forall>k n s. NUMBER r k (snd (INCRBY r k n s)) = NUMBER r k s + n)
     \<and> (\<forall>k k' n s. k' \<noteq> k \<longrightarrow> NUMBER r k' (snd (INCRBY r k n s)) = NUMBER r k' s)
     \<and> (\<forall>k k' t s. 0 < t \<longrightarrow> NUMBER r k' (snd (EXPIRE r k t s)) = NUMBER r k' s)"

text \<open>
  The sorted set of a key is read through \<open>view\<close>: its members with their scores, each
  member once, in the order of their scores.
\<close>

definition redis_zset_laws :: "'s redis \<Rightarrow> (string \<Rightarrow> 's \<Rightarrow> zset) \<Rightarrow> bool" where
  "redis_zset_laws r view \<longleftrightarrow>
     (\<forall>k s. distinct (map fst (view k s)) \<and> sorted (map snd (view k s)))
     \<and> (\<forall>k m s. ZSCORE r k m s = map_of (view k s) m)
     \<and> (\<forall>k lo hi s. ZCOUNT r k lo hi s =
          int (length (filter (\<lambda>(m, x). lo < x \<and> x \<le> hi) (view k s))))
     \<and> (\<forall>k x m s. set (view k (ZADD r k x m s)) = insert (m, x) (set (AList.delete m (view k s))))
     \<and> (\<forall>k k' x m s. k' \<noteq> k \<longrightarrow> view k' (ZADD r k x m s) = view k' s)
     \<and> (\<forall>k hi s. set (view k (ZREMRANGE r k hi s)) = set (filter (\<lambda>(m, x). hi < x) (view k s)))
     \<and> (\<forall>k k' hi s. k' \<noteq> k \<longrightarrow> view k' (ZREMRANGE r k hi s) = view k' s)
     \<and> (\<forall>k hi n s. ZRANGE r k hi n s = take n (map fst (filter (\<lambda>(m, x). x \<le> hi) (view k s))))
     \<and> (\<forall>k k' t s. 0 < t \<longrightarrow> view k' (snd (EXPIRE r k t s)) = view k' s)"

text \<open>A sorted-set command, and the expiry of one key, leave the string at another key alone.\<close>

definition redis_separate_laws :: "'s redis \<Rightarrow> bool" where
  "redis_separate_laws r \<longleftrightarrow>
     (\<forall>k k' x m s. k' \<noteq> k \<longrightarrow> GET r k' (ZADD r k x m s) = GET r k' s)
     \<and> (\<forall>k k' hi s. k' \<noteq> k \<longrightarrow> GET r k' (ZREMRANGE r k hi s) = GET r k' s)
     \<and> (\<forall>k k' t s. k' \<noteq> k \<longrightarrow> GET r k' (snd (EXPIRE r k t s)) = GET r k' s)"

text \<open>Removing a member, adding one unless it is there, and a string set without expiry.\<close>

definition redis_member_laws :: "'s redis \<Rightarrow> (string \<Rightarrow> 's \<Rightarrow> zset) \<Rightarrow> bool" where
  "redis_member_laws r view \<longleftrightarrow>
     (\<forall>k m s. set (view k (ZREM r k m s)) = set (AList.delete m (view k s)))
     \<and> (\<forall>k k' m s. k' \<noteq> k \<longrightarrow> view k' (ZREM r k m s) = view k' s)
     \<and> (\<forall>k x m s. set (view k (ZADD_NX r k x m s)) =
          (if m \<in> fst ` set (view k s) then set (view k s) else insert (m, x) (set (view k s))))
     \<and> (\<forall>k k' x m s. k' \<noteq> k \<longrightarrow> view k' (ZADD_NX r k x m s) = view k' s)
     \<and> (\<forall>k k' v s. view k' (SET r k v s) = view k' s)
     \<and> (\<forall>k v s. GET r k (SET r k v s) = Some v)"

section \<open>The scripts\<close>

text \<open>
  \<open>LUA_LEASE_API_RATE_LIMIT\<close>. The arguments are numbers and \<open>requested\<close> and both keys are
  given, as \<open>leaseApiRateLimit\<close> declares; \<open>ttl\<close> may be missing. The estimate is computed
  exactly here (the script computes it in doubles).
\<close>

definition lua_lease_api_rate_limit ::
  "'s redis \<Rightarrow> string \<Rightarrow> string \<Rightarrow> int \<Rightarrow> int \<Rightarrow> int \<Rightarrow> int \<Rightarrow> int option \<Rightarrow> 's \<Rightarrow> int \<times> 's" where
  "lua_lease_api_rate_limit r currentKey prevKey now window maxReqs requested ttl_arg s =
     (let ttl = (case ttl_arg of Some t \<Rightarrow> t | None \<Rightarrow> (window * 2 + 999) div 1000 + 60)
      in if window \<le> 0 then (-1, s)
         else if maxReqs \<le> 0 then (0, s)
         else
           let currentCount = NUMBER r currentKey s;
               prevCount = NUMBER r prevKey s;
               timeIntoCurrent = now mod window;
               estimated = (prevCount * (window - timeIntoCurrent)) div window + currentCount;
               available = maxReqs - estimated
           in if available \<le> 0 then (0, s)
              else
                let toGrant = min requested available;
                    (newCount, s) = INCRBY r currentKey toGrant s
                in if newCount = toGrant then (toGrant, snd (EXPIRE r currentKey ttl s))
                   else (toGrant, s))"

definition lua_release_lock :: "'s redis \<Rightarrow> string \<Rightarrow> string \<Rightarrow> 's \<Rightarrow> int \<times> 's" where
  "lua_release_lock r key token s = (if GET r key s = Some token then DEL r key s else (0, s))"

definition lua_renew_lock :: "'s redis \<Rightarrow> string \<Rightarrow> string \<Rightarrow> int \<Rightarrow> 's \<Rightarrow> int \<times> 's" where
  "lua_renew_lock r key token ttl s =
     (if GET r key s = Some token then EXPIRE r key ttl s else (0, s))"

definition lua_user_throttle ::
  "'s redis \<Rightarrow> string \<Rightarrow> int \<Rightarrow> int \<Rightarrow> int \<Rightarrow> string \<Rightarrow> int \<Rightarrow> int option \<Rightarrow> 's \<Rightarrow> int \<times> 's" where
  "lua_user_throttle r key windowStart limit targetTime member ttl pruneBefore s =
     (let s = ZREMRANGE r key (case pruneBefore of Some p \<Rightarrow> p | None \<Rightarrow> windowStart) s
      in if ZSCORE r key member s \<noteq> None then (0, s)
         else
           let count = ZCOUNT r key windowStart targetTime s
           in if count < limit
              then let s = ZADD r key targetTime member s
                   in (count + 1, if TTL r key s < ttl then snd (EXPIRE r key ttl s) else s)
              else (count + 1, s))"

definition lua_scheduler_poll ::
  "'s redis \<Rightarrow> string \<Rightarrow> int \<Rightarrow> nat \<Rightarrow> int \<Rightarrow> 's \<Rightarrow> string list \<times> 's" where
  "lua_scheduler_poll r key maxScore limit visibilityTimeout s =
     (let tasks = ZRANGE r key maxScore limit s
      in (tasks, fold (\<lambda>task s. ZADD r key (maxScore + visibilityTimeout) task s) tasks s))"

definition lua_count_request :: "'s redis \<Rightarrow> string \<Rightarrow> int \<Rightarrow> 's \<Rightarrow> int \<times> 's" where
  "lua_count_request r key ttl s =
     (let (count, s) = INCRBY r key 1 s
      in (count, if TTL r key s < 0 then snd (EXPIRE r key ttl s) else s))"

section \<open>The lease script\<close>

lemma lease_zero_or_grant:
  assumes laws: "redis_counter_laws r" and ttl: "0 < (case t of Some t \<Rightarrow> t | None \<Rightarrow> 1)"
    and "0 < window"
  shows "let (granted, s') = lua_lease_api_rate_limit r cur prev now window limit req t s
    in granted = (if limit \<le> 0 then 0 else
          let available = limit -
            ((NUMBER r prev s * (window - now mod window)) div window + NUMBER r cur s)
          in if available \<le> 0 then 0 else min req available)
       \<and> NUMBER r cur s' = NUMBER r cur s + granted
       \<and> (\<forall>k. k \<noteq> cur \<longrightarrow> NUMBER r k s' = NUMBER r k s)"
proof -
  have "0 < (case t of Some t \<Rightarrow> t | None \<Rightarrow> (window * 2 + 999) div 1000 + 60)"
    using ttl assms(3) by (cases t) (simp_all add: pos_imp_zdiv_nonneg_iff add_nonneg_pos)
  with laws assms(3) show ?thesis
    by (auto simp: lua_lease_api_rate_limit_def redis_counter_laws_def Let_def split: prod.splits)
       (metis fst_conv snd_conv)+
qed

lemma lease_bound:
  assumes "redis_counter_laws r" "0 < (case t of Some t \<Rightarrow> t | None \<Rightarrow> 1)" "0 < window"
    and "0 \<le> NUMBER r prev s" "0 \<le> req"
  shows "0 \<le> fst (lua_lease_api_rate_limit r cur prev now window limit req t s)"
    and "NUMBER r cur (snd (lua_lease_api_rate_limit r cur prev now window limit req t s))
      \<le> max (NUMBER r cur s) limit"
proof -
  have "0 \<le> (NUMBER r prev s * (window - now mod window)) div window"
    using assms(3,4) pos_mod_bound [of window now]
    by (intro iffD2 [OF pos_imp_zdiv_nonneg_iff] mult_nonneg_nonneg) (simp_all add: less_imp_le)
  then show "0 \<le> fst (lua_lease_api_rate_limit r cur prev now window limit req t s)"
    and "NUMBER r cur (snd (lua_lease_api_rate_limit r cur prev now window limit req t s))
      \<le> max (NUMBER r cur s) limit"
    using lease_zero_or_grant [OF assms(1-3), of cur prev now limit req s] assms(5)
    by (auto simp: Let_def split: prod.splits if_splits)
qed

section \<open>A store for the witnesses\<close>

record mem_store =
  mem_strings :: "string \<Rightarrow> string option"
  mem_numbers :: "string \<Rightarrow> int"
  mem_zsets :: "string \<Rightarrow> zset"

definition mem_empty :: mem_store where
  "mem_empty = \<lparr>mem_strings = (\<lambda>_. None), mem_numbers = (\<lambda>_. 0), mem_zsets = (\<lambda>_. [])\<rparr>"

definition mem_set :: "string \<Rightarrow> string \<Rightarrow> mem_store \<Rightarrow> mem_store" where
  "mem_set k v s = s\<lparr>mem_strings := (mem_strings s)(k \<mapsto> v)\<rparr>"

definition mem_zset :: "string \<Rightarrow> (zset \<Rightarrow> zset) \<Rightarrow> mem_store \<Rightarrow> mem_store" where
  "mem_zset k f s = s\<lparr>mem_zsets := (mem_zsets s)(k := f (mem_zsets s k))\<rparr>"

definition mem_view :: "string \<Rightarrow> mem_store \<Rightarrow> zset" where
  "mem_view k s = sort_key snd (AList.clearjunk (mem_zsets s k))"

text \<open>Keys never expire in this store, which the laws allow (a positive time to live).\<close>

definition mem_redis :: "mem_store redis" where
  "mem_redis =
     \<lparr>GET = (\<lambda>k s. mem_strings s k),
      SET_EX = (\<lambda>k v t s. mem_set k v s),
      SET_EX_NX = (\<lambda>k v t s. if mem_strings s k = None then (True, mem_set k v s) else (False, s)),
      DEL = (\<lambda>k s. (if mem_strings s k = None then 0 else 1,
               s\<lparr>mem_strings := (mem_strings s)(k := None)\<rparr>)),
      EXPIRE = (\<lambda>k t s. (1, s)),
      TTL = (\<lambda>k s. -1),
      NUMBER = (\<lambda>k s. mem_numbers s k),
      INCRBY = (\<lambda>k n s. (mem_numbers s k + n,
               s\<lparr>mem_numbers := (mem_numbers s)(k := mem_numbers s k + n)\<rparr>)),
      ZADD = (\<lambda>k x m s. mem_zset k (\<lambda>z. (m, x) # z) s),
      ZSCORE = (\<lambda>k m s. map_of (mem_view k s) m),
      ZCOUNT = (\<lambda>k lo hi s.
               int (length (filter (\<lambda>(m, x). lo < x \<and> x \<le> hi) (mem_view k s)))),
      ZREMRANGE = (\<lambda>k hi s. mem_zset k (\<lambda>z. filter (\<lambda>(m, x). hi < x) (AList.clearjunk z)) s),
      ZRANGE = (\<lambda>k hi n s. take n (map fst (filter (\<lambda>(m, x). x \<le> hi) (mem_view k s)))),
      SET = mem_set,
      ZREM = (\<lambda>k m s. mem_zset k (\<lambda>z. AList.delete m (AList.clearjunk z)) s),
      ZADD_NX = (\<lambda>k x m s. mem_zset k (\<lambda>z. if m \<in> fst ` set z then z else (m, x) # z) s)\<rparr>"

lemma mem_string_laws: "redis_string_laws mem_redis"
  by (simp add: redis_string_laws_def mem_redis_def mem_set_def)

lemma mem_separate_laws: "redis_separate_laws mem_redis"
  by (simp add: redis_separate_laws_def mem_redis_def mem_zset_def)

lemma mem_counter_laws: "redis_counter_laws mem_redis"
  by (simp add: redis_counter_laws_def mem_redis_def)

lemma clearjunk_filter_wf: "distinct (map fst z) \<Longrightarrow> AList.clearjunk (filter P z) = filter P z"
  by (rule distinct_clearjunk_id) (rule distinct_map_filter)

lemma mem_zset_laws: "redis_zset_laws mem_redis mem_view"
proof -
  have mset: "mset (map fst (mem_view k s)) = mset (map fst (AList.clearjunk (mem_zsets s k)))" for k s
    by (simp only: mem_view_def mset_map mset_sort)
  have [simp]: "distinct (map fst (mem_view k s))" for k s
    using mset [of k s] distinct_clearjunk [of "mem_zsets s k"] by (metis mset_eq_imp_distinct_iff)
  have [simp]: "sorted (map snd (mem_view k s))" for k s by (simp add: mem_view_def)
  have [simp]: "mem_zsets (mem_zset k f s) = (mem_zsets s)(k := f (mem_zsets s k))" for k f s
    by (simp add: mem_zset_def)
  have [simp]: "k' \<noteq> k \<Longrightarrow> mem_view k' (mem_zset k f s) = mem_view k' s" for k k' f s
    by (simp add: mem_view_def mem_zset_def)
  have [simp]: "set (mem_view k s) = set (AList.clearjunk (mem_zsets s k))" for k s
    by (simp add: mem_view_def)
  show ?thesis
    by (auto simp: redis_zset_laws_def mem_redis_def clearjunk_filter_wf distinct_clearjunk
        clearjunk_delete jm_set_delete_eq)
qed

lemma set_mem_view: "set (mem_view k s) = set (AList.clearjunk (mem_zsets s k))"
  by (simp add: mem_view_def)

lemma mem_member_laws: "redis_member_laws mem_redis mem_view"
proof -
  have zs: "mem_zsets (mem_zset k f s) = (mem_zsets s)(k := f (mem_zsets s k))" for k f s
    by (simp add: mem_zset_def)
  have other: "k' \<noteq> k \<Longrightarrow> mem_view k' (mem_zset k f s) = mem_view k' s" for k k' f s
    by (simp add: mem_view_def mem_zset_def)
  have del: "AList.clearjunk (AList.delete m (AList.clearjunk z)) = AList.delete m (AList.clearjunk z)" for m z
    by (simp add: distinct_clearjunk clearjunk_delete [symmetric])
  have dom: "fst ` set (AList.clearjunk z) = fst ` set z" for z
    using dom_clearjunk [of z] by simp
  have fresh: "AList.clearjunk ((m, x) # z) = (m, x) # AList.clearjunk z" if "m \<notin> fst ` set z" for m x z
    using that by (simp add: jm_delete_absent)
  have "mem_view k' (mem_set k v s) = mem_view k' s" for k k' v s
    by (simp add: mem_view_def mem_set_def)
  then show ?thesis
    by (auto simp: redis_member_laws_def mem_redis_def set_mem_view zs other del dom fresh jm_set_delete_eq mem_set_def
        image_iff split: if_splits)
qed

end
