(* ===== verification/Rate_Limiter.thy ===== *)
theory Rate_Limiter
  imports Redis_Scripts Complex_Main
begin

text \<open>
  \<open>ApiRateLimiter\<close> of \<open>src/src/rate-limiter/api-rate-limiter.ts\<close> and
  \<open>ProviderThrottle\<close> of \<open>src/src/services/delivery/throttle.ts\<close>. The lease states are
  objects shared between the map of the limiter and the callers that wait on a lease, so they
  live in a heap and the map holds addresses. A call of \<open>leaseApiRateLimit\<close> is a
  \<open>lease_request\<close> that an operation hands out; its answer comes back in \<open>rl_settle\<close>. Numbers
  the code keeps integral (limits, batch sizes, window lengths) are \<open>int\<close>.
\<close>

section \<open>Operations\<close>

text \<open>\<open>Math.ceil(limitRpm / 60 * 5)\<close> is the ceiling of a twelfth.\<close>

definition calculateTokenBatchSize :: "int \<Rightarrow> int \<Rightarrow> int" where
  "calculateTokenBatchSize limitRpm maxBatchSize =
     (if limitRpm \<le> 0 then 0
      else if limitRpm \<le> 10 then 1
      else if limitRpm \<le> 60 then 5
      else min (max ((limitRpm + 11) div 12) 10) maxBatchSize)"

record lease_state =
  bucketIndex :: int
  tokens :: int
  batchSize :: int
  inFlightLease :: "nat option"

record lease_request =
  lq_promise :: nat
  lq_state :: nat
  lq_bucket :: int
  lq_currentKey :: string
  lq_prevKey :: string
  lq_now :: ms
  lq_limit :: int
  lq_requested :: int

record limiter =
  rl_heap :: "nat \<Rightarrow> lease_state"
  rl_leases :: "(string, nat) jsmap"
  rl_nextState :: nat
  rl_nextPromise :: nat
  rl_windowMs :: ms
  rl_maxBatchSize :: int
  rl_keyPrefix :: string

definition limiter_new :: "ms \<Rightarrow> int \<Rightarrow> string \<Rightarrow> limiter" where
  "limiter_new windowMs maxBatchSize keyPrefix =
     \<lparr>rl_heap = (\<lambda>_. \<lparr>bucketIndex = 0, tokens = 0, batchSize = 0, inFlightLease = None\<rparr>),
      rl_leases = [], rl_nextState = 0, rl_nextPromise = 0, rl_windowMs = windowMs,
      rl_maxBatchSize = maxBatchSize, rl_keyPrefix = keyPrefix\<rparr>"

definition rl_put :: "nat \<Rightarrow> lease_state \<Rightarrow> limiter \<Rightarrow> limiter" where
  "rl_put a st L = L\<lparr>rl_heap := (rl_heap L)(a := st)\<rparr>"

definition rl_tag :: "string \<Rightarrow> limiter \<Rightarrow> string" where
  "rl_tag projectId L =
     ''{'' @ rl_keyPrefix L @ '':'' @ (if projectId = [] then ''global'' else projectId) @ ''}''"

text \<open>\<open>refill\<close> up to the Redis call: nothing when a lease is in flight already.\<close>

definition rl_refill ::
  "string \<Rightarrow> nat \<Rightarrow> int \<Rightarrow> ms \<Rightarrow> int \<Rightarrow> limiter \<Rightarrow> lease_request list \<times> limiter" where
  "rl_refill projectId a limitRpm now bucket L =
     (let st = rl_heap L a
      in if inFlightLease st \<noteq> None then ([], L)
         else
           ([\<lparr>lq_promise = rl_nextPromise L, lq_state = a, lq_bucket = bucket,
              lq_currentKey = rl_tag projectId L @ '':'' @ show_int bucket,
              lq_prevKey = rl_tag projectId L @ '':'' @ show_int (bucket - 1),
              lq_now = now, lq_limit = limitRpm, lq_requested = batchSize st\<rparr>],
            rl_put a (st\<lparr>inFlightLease := Some (rl_nextPromise L)\<rparr>)
              (L\<lparr>rl_nextPromise := Suc (rl_nextPromise L)\<rparr>)))"

text \<open>
  The rest of \<open>refill\<close>, when the lease comes back: \<open>None\<close> is a rejected promise or an
  answer that is no number. The value is what the promise \<open>inFlightLease\<close> resolves to.
\<close>

definition rl_settle :: "lease_request \<Rightarrow> int option \<Rightarrow> limiter \<Rightarrow> int \<times> limiter" where
  "rl_settle q reply L =
     (let granted = (case reply of
                       Some g \<Rightarrow> if g < 0 then lq_requested q else g
                     | None \<Rightarrow> lq_requested q);
          st = rl_heap L (lq_state q);
          st = (if bucketIndex st = lq_bucket q then st\<lparr>tokens := tokens st + granted\<rparr> else st);
          st = (if inFlightLease st = Some (lq_promise q) then st\<lparr>inFlightLease := None\<rparr> else st)
      in (granted, rl_put (lq_state q) st L))"

definition rl_maybePrune :: "int \<Rightarrow> limiter \<Rightarrow> limiter" where
  "rl_maybePrune currentBucket L =
     (if length (rl_leases L) > 2000
      then L\<lparr>rl_leases :=
               filter (\<lambda>(_, a). \<not> currentBucket - bucketIndex (rl_heap L a) > 1) (rl_leases L)\<rparr>
      else L)"

text \<open>The answers carry the address of the lease state that served the call.\<close>

datatype rl_answer = RlAllowed nat | RlDenied | RlWaiting nat nat

text \<open>Claiming a token after a wait; \<open>None\<close> when there is none.\<close>

definition rl_claim :: "nat \<Rightarrow> int \<Rightarrow> limiter \<Rightarrow> (rl_answer \<times> limiter) option" where
  "rl_claim a currentBucket L =
     (let st = rl_heap L a
      in if bucketIndex st \<noteq> currentBucket then Some (RlDenied, L)
         else if tokens st > 0 then Some (RlAllowed a, rl_put a (st\<lparr>tokens := tokens st - 1\<rparr>) L)
         else None)"

text \<open>
  One turn of the loop at the end of \<open>check\<close>, up to its \<open>await\<close>; with no lease to wait
  for, \<open>granted\<close> is 0.
\<close>

definition rl_wait ::
  "string \<Rightarrow> nat \<Rightarrow> int \<Rightarrow> ms \<Rightarrow> int \<Rightarrow> limiter \<Rightarrow> rl_answer \<times> lease_request list \<times> limiter" where
  "rl_wait projectId a limitRpm now currentBucket L =
     (let (qs, L) = rl_refill projectId a limitRpm now currentBucket L
      in case inFlightLease (rl_heap L a) of
           Some promise \<Rightarrow> (RlWaiting a promise, qs, L)
         | None \<Rightarrow>
             (case rl_claim a currentBucket L of
                Some (answer, L) \<Rightarrow> (answer, qs, L)
              | None \<Rightarrow> (RlDenied, qs, L)))"

text \<open>The turn continues after its \<open>await\<close> gave \<open>granted\<close>.\<close>

definition rl_resume ::
  "string \<Rightarrow> nat \<Rightarrow> int \<Rightarrow> ms \<Rightarrow> int \<Rightarrow> int \<Rightarrow> limiter \<Rightarrow> rl_answer \<times> lease_request list \<times> limiter"
where
  "rl_resume projectId a limitRpm now currentBucket granted L =
     (case rl_claim a currentBucket L of
        Some (answer, L) \<Rightarrow> (answer, [], L)
      | None \<Rightarrow>
          if granted \<le> 0 then (RlDenied, [], L)
          else rl_wait projectId a limitRpm now currentBucket L)"

definition rl_lookup :: "string \<Rightarrow> int \<Rightarrow> int \<Rightarrow> limiter \<Rightarrow> nat \<times> limiter" where
  "rl_lookup projectId limitRpm currentBucket L =
     (case jm_get (rl_leases L) projectId of
        Some a \<Rightarrow> (a, L)
      | None \<Rightarrow>
          let a = rl_nextState L
          in (a, rl_maybePrune currentBucket
                   (rl_put a \<lparr>bucketIndex = currentBucket, tokens = 0,
                              batchSize = calculateTokenBatchSize limitRpm (rl_maxBatchSize L),
                              inFlightLease = None\<rparr>
                     (L\<lparr>rl_leases := jm_set projectId a (rl_leases L), rl_nextState := Suc a\<rparr>))))"

definition rl_roll ::
  "string \<Rightarrow> nat \<Rightarrow> int \<Rightarrow> ms \<Rightarrow> int \<Rightarrow> limiter \<Rightarrow> lease_request list \<times> limiter" where
  "rl_roll projectId a limitRpm now currentBucket L =
     (if bucketIndex (rl_heap L a) \<noteq> currentBucket
      then rl_refill projectId a limitRpm now currentBucket
             (rl_put a \<lparr>bucketIndex = currentBucket, tokens = 0,
                        batchSize = calculateTokenBatchSize limitRpm (rl_maxBatchSize L),
                        inFlightLease = None\<rparr> L)
      else ([], L))"

text \<open>\<open>check\<close> up to its first \<open>await\<close>.\<close>

definition rl_check ::
  "string \<Rightarrow> int \<Rightarrow> ms \<Rightarrow> limiter \<Rightarrow> rl_answer \<times> lease_request list \<times> limiter" where
  "rl_check projectId limitRpm now L =
     (if limitRpm \<le> 0 then (RlDenied, [], L)
      else
        let currentBucket = now div rl_windowMs L;
            (a, L) = rl_lookup projectId limitRpm currentBucket L;
            (qs, L) = rl_roll projectId a limitRpm now currentBucket L;
            st = rl_heap L a
        in if tokens st > 0
           then
             let st = st\<lparr>tokens := tokens st - 1\<rparr>;
                 L = rl_put a st L;
                 refillThreshold = max 1 (batchSize st div 4);
                 (qs', L) = (if tokens st \<le> refillThreshold \<and> inFlightLease st = None
                             then rl_refill projectId a limitRpm now currentBucket L else ([], L))
             in (RlAllowed a, qs @ qs', L)
           else
             let (answer, qs', L) = rl_wait projectId a limitRpm now currentBucket L
             in (answer, qs @ qs', L))"

definition rl_clear :: "limiter \<Rightarrow> limiter" where
  "rl_clear L = L\<lparr>rl_leases := []\<rparr>"

definition rl_invalidate :: "string \<Rightarrow> limiter \<Rightarrow> limiter" where
  "rl_invalidate projectId L = L\<lparr>rl_leases := jm_delete projectId (rl_leases L)\<rparr>"

lemmas rl_defs = rl_check_def rl_lookup_def rl_roll_def rl_wait_def rl_resume_def rl_refill_def
  rl_settle_def rl_maybePrune_def rl_put_def

section \<open>The ledger of a process\<close>

text \<open>
  What a run credits to and spends from the lease state at each address in each window. The
  state of a run is the limiter, the lease requests on the wire and the ledger.
\<close>

datatype ledger_entry = Credit nat int int | Admit nat int

fun entry_value :: "nat \<Rightarrow> int \<Rightarrow> ledger_entry \<Rightarrow> int" where
  "entry_value a b (Credit a' b' n) = (if a' = a \<and> b' = b then n else 0)"
| "entry_value a b (Admit a' b') = (if a' = a \<and> b' = b then -1 else 0)"

definition balance :: "nat \<Rightarrow> int \<Rightarrow> ledger_entry list \<Rightarrow> int" where
  "balance a b led = sum_list (map (entry_value a b) led)"

definition credited :: "nat \<Rightarrow> int \<Rightarrow> ledger_entry list \<Rightarrow> int" where
  "credited a b led =
     sum_list (map (\<lambda>e. case e of Credit a' b' n \<Rightarrow> if a' = a \<and> b' = b then n else 0 | _ \<Rightarrow> 0) led)"

definition admitted :: "nat \<Rightarrow> int \<Rightarrow> ledger_entry list \<Rightarrow> int" where
  "admitted a b led = int (length (filter (\<lambda>e. e = Admit a b) led))"

lemma balance_credited_admitted: "balance a b led = credited a b led - admitted a b led"
  by (induction led)
     (auto simp: balance_def credited_def admitted_def split: ledger_entry.split)

lemma balance_snoc [simp]: "balance a b (led @ [e]) = balance a b led + entry_value a b e"
  by (simp add: balance_def)

datatype rl_event =
    RlCheck string int ms
  | RlSettle lease_request "int option"
  | RlResume string nat int ms int int
  | RlInvalidate string
  | RlClear

record rl_sys =
  rls :: limiter
  wire :: "lease_request list"
  ledger :: "ledger_entry list"

definition rl_book :: "rl_answer \<times> lease_request list \<times> limiter \<Rightarrow> rl_sys \<Rightarrow> rl_sys" where
  "rl_book res s =
     (case res of (answer, qs, L) \<Rightarrow>
        \<lparr>rls = L, wire = wire s @ qs,
         ledger = ledger s @ (case answer of
            RlAllowed a \<Rightarrow> [Admit a (bucketIndex (rl_heap L a))] | _ \<Rightarrow> [])\<rparr>)"

fun rl_step :: "rl_event \<Rightarrow> rl_sys \<Rightarrow> rl_sys" where
  "rl_step (RlCheck p limit now) s = rl_book (rl_check p limit now (rls s)) s"
| "rl_step (RlResume p a limit now b granted) s = rl_book (rl_resume p a limit now b granted (rls s)) s"
| "rl_step (RlSettle q reply) s =
     (if q \<in> set (wire s)
      then (let (granted, L) = rl_settle q reply (rls s)
            in \<lparr>rls = L, wire = remove1 q (wire s),
                ledger = ledger s @
                  (if bucketIndex (rl_heap (rls s) (lq_state q)) = lq_bucket q
                   then [Credit (lq_state q) (lq_bucket q) granted] else [])\<rparr>)
      else s)"
| "rl_step (RlInvalidate p) s = s\<lparr>rls := rl_invalidate p (rls s)\<rparr>"
| "rl_step RlClear s = s\<lparr>rls := rl_clear (rls s)\<rparr>"

definition rl_run :: "ms \<Rightarrow> int \<Rightarrow> string \<Rightarrow> rl_event list \<Rightarrow> rl_sys" where
  "rl_run windowMs maxBatch pre es =
     fold rl_step es \<lparr>rls = limiter_new windowMs maxBatch pre, wire = [], ledger = []\<rparr>"

definition rl_covered :: "limiter \<Rightarrow> ledger_entry list \<Rightarrow> bool" where
  "rl_covered L led \<longleftrightarrow>
     (\<forall>a. 0 \<le> batchSize (rl_heap L a) \<and> 0 \<le> tokens (rl_heap L a)
        \<and> tokens (rl_heap L a) \<le> balance a (bucketIndex (rl_heap L a)) led)
     \<and> (\<forall>a b. 0 \<le> balance a b led)"

lemma calculateTokenBatchSize_nonneg: "0 \<le> m \<Longrightarrow> 0 \<le> calculateTokenBatchSize limit m"
  by (simp add: calculateTokenBatchSize_def le_max_iff_disj)

lemma rl_covered_put:
  assumes "rl_covered L led" "0 \<le> batchSize st" "0 \<le> tokens st"
    and "tokens st = 0 \<or> tokens st \<le> tokens (rl_heap L a) \<and> bucketIndex st = bucketIndex (rl_heap L a)"
  shows "rl_covered (rl_put a st L) led"
  using assms unfolding rl_covered_def rl_put_def by (auto intro: order_trans)

lemma rl_covered_frame [simp]:
  "rl_covered (L\<lparr>rl_leases := ls\<rparr>) led = rl_covered L led"
  "rl_covered (L\<lparr>rl_nextState := n\<rparr>) led = rl_covered L led"
  by (simp_all add: rl_covered_def)

lemma rl_covered_admit:
  assumes "rl_covered L led" "0 < tokens (rl_heap L a)"
  shows "rl_covered (rl_put a ((rl_heap L a)\<lparr>tokens := tokens (rl_heap L a) - 1\<rparr>) L)
    (led @ [Admit a (bucketIndex (rl_heap L a))])"
proof -
  let ?st = "rl_heap L a" and ?e = "Admit a (bucketIndex (rl_heap L a))"
  let ?L = "rl_put a (?st\<lparr>tokens := tokens ?st - 1\<rparr>) L"
  have old: "\<And>x. 0 \<le> batchSize (rl_heap L x)" "\<And>x. 0 \<le> tokens (rl_heap L x)"
    "\<And>x. tokens (rl_heap L x) \<le> balance x (bucketIndex (rl_heap L x)) led"
    "\<And>x b. 0 \<le> balance x b led"
    using assms(1) by (simp_all add: rl_covered_def)
  have "0 \<le> balance x b (led @ [?e])" for x b
    using old(3) [of a] old(4) [of x b] assms(2) by auto
  moreover have "tokens (rl_heap ?L x) \<le> balance x (bucketIndex (rl_heap ?L x)) (led @ [?e])" for x
    using old(3) [of x] by (auto simp: rl_put_def)
  moreover have "0 \<le> batchSize (rl_heap ?L x) \<and> 0 \<le> tokens (rl_heap ?L x)" for x
    using old(1,2) [of x] assms(2) by (auto simp: rl_put_def)
  ultimately show ?thesis by (simp add: rl_covered_def)
qed

lemma rl_covered_credit:
  assumes "rl_covered L led" "0 \<le> g"
  shows "rl_covered (rl_put a ((rl_heap L a)\<lparr>tokens := tokens (rl_heap L a) + g\<rparr>) L)
    (led @ [Credit a (bucketIndex (rl_heap L a)) g])"
  using assms unfolding rl_covered_def rl_put_def by (auto intro: add_nonneg_nonneg)

lemma rl_covered_cong:
  assumes "rl_covered L led" and "\<And>a. bucketIndex (rl_heap L' a) = bucketIndex (rl_heap L a)"
    and "\<And>a. tokens (rl_heap L' a) = tokens (rl_heap L a)"
    and "\<And>a. batchSize (rl_heap L' a) = batchSize (rl_heap L a)"
  shows "rl_covered L' led"
  using assms by (simp add: rl_covered_def)

text \<open>What holds of a limiter, the requests it hands out and the ledger.\<close>

definition rl_good :: "limiter \<Rightarrow> lease_request list \<Rightarrow> ledger_entry list \<Rightarrow> bool" where
  "rl_good L qs led \<longleftrightarrow>
     rl_covered L led \<and> list_all (\<lambda>q. 0 \<le> lq_requested q) qs \<and> 0 \<le> rl_maxBatchSize L"

lemma rl_put_config [simp]: "rl_maxBatchSize (rl_put a st L) = rl_maxBatchSize L"
  "rl_heap (rl_put a st L) = (rl_heap L)(a := st)" "rl_windowMs (rl_put a st L) = rl_windowMs L"
  by (simp_all add: rl_put_def)

lemma rl_refill_good:
  assumes "rl_good L qs led" "rl_refill p a limit now b L = (qs', L')"
  shows "rl_good L' (qs @ qs') led \<and> tokens (rl_heap L' a) = tokens (rl_heap L a)
    \<and> bucketIndex (rl_heap L' a) = bucketIndex (rl_heap L a)"
  using assms
  by (auto simp: rl_refill_def rl_good_def Let_def rl_covered_def split: if_splits)

lemma rl_claim_good:
  assumes "rl_good L qs led" "rl_claim a b L = Some (ans, L')"
  shows "rl_good L' qs (led @ (case ans of RlAllowed a \<Rightarrow> [Admit a (bucketIndex (rl_heap L' a))] | _ \<Rightarrow> []))"
  using assms rl_covered_admit [of L led a]
  by (auto simp: rl_claim_def rl_good_def Let_def split: if_splits)

lemma rl_wait_good:
  assumes "rl_good L qs led" "rl_wait p a limit now b L = (ans, qs', L')"
  shows "rl_good L' (qs @ qs')
    (led @ (case ans of RlAllowed a \<Rightarrow> [Admit a (bucketIndex (rl_heap L' a))] | _ \<Rightarrow> []))"
proof -
  obtain q1 L1 where r: "rl_refill p a limit now b L = (q1, L1)" by (cases "rl_refill p a limit now b L")
  from rl_refill_good [OF assms(1) r] have good: "rl_good L1 (qs @ q1) led" by simp
  with assms(2) r rl_claim_good [OF good] show ?thesis
    by (auto simp: rl_wait_def split: option.splits)
qed

lemma rl_resume_good:
  assumes "rl_good L qs led" "rl_resume p a limit now b g L = (ans, qs', L')"
  shows "rl_good L' (qs @ qs')
    (led @ (case ans of RlAllowed a \<Rightarrow> [Admit a (bucketIndex (rl_heap L' a))] | _ \<Rightarrow> []))"
  using assms(2) rl_claim_good [OF assms(1)] rl_wait_good [OF assms(1)] assms(1)
  by (auto simp: rl_resume_def split: option.splits if_splits)

lemma rl_lookup_good:
  assumes "rl_good L qs led" "rl_lookup p limit b L = (a, L')"
  shows "rl_good L' qs led"
proof -
  have cong: "rl_covered L1 led" if "rl_heap L1 = rl_heap L" for L1
    using assms(1) that by (simp add: rl_good_def rl_covered_def)
  have "rl_covered (rl_put a' \<lparr>bucketIndex = b, tokens = 0,
      batchSize = calculateTokenBatchSize limit (rl_maxBatchSize L), inFlightLease = None\<rparr>
      (L\<lparr>rl_leases := ls, rl_nextState := n\<rparr>)) led" for a' ls n
    using assms(1) by (intro rl_covered_put cong) (simp_all add: rl_good_def calculateTokenBatchSize_nonneg)
  then show ?thesis
    using assms
    by (auto simp: rl_lookup_def Let_def rl_maybePrune_def rl_good_def split: option.splits if_splits
        elim!: rl_covered_cong [rotated])
qed

lemma rl_roll_good:
  assumes "rl_good L qs led" "rl_roll p a limit now b L = (qs', L')"
  shows "rl_good L' (qs @ qs') led"
proof -
  have "rl_good (rl_put a \<lparr>bucketIndex = b, tokens = 0,
      batchSize = calculateTokenBatchSize limit (rl_maxBatchSize L), inFlightLease = None\<rparr> L) qs led"
    using assms(1) by (simp add: rl_good_def rl_covered_put calculateTokenBatchSize_nonneg)
  from rl_refill_good [OF this] assms show ?thesis by (auto simp: rl_roll_def split: if_splits)
qed

lemma rl_check_good:
  assumes good: "rl_good L qs led" and res: "rl_check p limit now L = (ans, qs', L')"
  shows "rl_good L' (qs @ qs')
    (led @ (case ans of RlAllowed a \<Rightarrow> [Admit a (bucketIndex (rl_heap L' a))] | _ \<Rightarrow> []))"
proof (cases "limit \<le> 0")
  case True
  with good res show ?thesis by (auto simp: rl_check_def)
next
  case False
  define b where "b = now div rl_windowMs L"
  obtain a L1 where l: "rl_lookup p limit b L = (a, L1)" by (cases "rl_lookup p limit b L")
  obtain q2 L2 where r: "rl_roll p a limit now b L1 = (q2, L2)" by (cases "rl_roll p a limit now b L1")
  have good2: "rl_good L2 (qs @ q2) led" by (rule rl_roll_good [OF rl_lookup_good [OF good l] r])
  show ?thesis
  proof (cases "tokens (rl_heap L2 a) > 0")
    case True
    let ?st = "(rl_heap L2 a)\<lparr>tokens := tokens (rl_heap L2 a) - 1\<rparr>"
    have good3: "rl_good (rl_put a ?st L2) (qs @ q2) (led @ [Admit a (bucketIndex (rl_heap L2 a))])"
      using good2 rl_covered_admit [OF _ True] by (simp add: rl_good_def)
    show ?thesis
      using False True res good3 rl_refill_good [OF good3]
      by (force simp: rl_check_def b_def [symmetric] l r Let_def split: prod.splits if_splits)
  next
    case False': False
    show ?thesis
      using False False' res rl_wait_good [OF good2]
      by (auto simp: rl_check_def b_def [symmetric] l r Let_def split: prod.splits)
  qed
qed

lemma rl_settle_good:
  assumes "rl_good L (q # qs) led" "rl_settle q reply L = (g, L')"
  shows "rl_good L' qs (led @ (if bucketIndex (rl_heap L (lq_state q)) = lq_bucket q
      then [Credit (lq_state q) (lq_bucket q) g] else []))"
proof -
  let ?L1 = "if bucketIndex (rl_heap L (lq_state q)) = lq_bucket q
    then rl_put (lq_state q) ((rl_heap L (lq_state q))\<lparr>tokens := tokens (rl_heap L (lq_state q)) + g\<rparr>) L
    else L"
  have g: "0 \<le> g" using assms by (auto simp: rl_settle_def rl_good_def Let_def split: option.splits if_splits)
  have L': "rl_maxBatchSize L' = rl_maxBatchSize L"
    "\<And>a. bucketIndex (rl_heap L' a) = bucketIndex (rl_heap ?L1 a)"
    "\<And>a. tokens (rl_heap L' a) = tokens (rl_heap ?L1 a)"
    "\<And>a. batchSize (rl_heap L' a) = batchSize (rl_heap ?L1 a)"
    using assms(2) by (auto simp: rl_settle_def Let_def)
  have "rl_covered ?L1 (led @ (if bucketIndex (rl_heap L (lq_state q)) = lq_bucket q
      then [Credit (lq_state q) (lq_bucket q) g] else []))"
    using assms(1) rl_covered_credit [OF _ g, of L led "lq_state q"] by (auto simp: rl_good_def)
  then have "rl_covered L' (led @ (if bucketIndex (rl_heap L (lq_state q)) = lq_bucket q
      then [Credit (lq_state q) (lq_bucket q) g] else []))"
    by (rule rl_covered_cong) (fact L')+
  then show ?thesis using assms(1) L'(1) by (simp add: rl_good_def)
qed

lemma rl_good_wire: "q \<in> set qs \<Longrightarrow> rl_good L qs led \<Longrightarrow> rl_good L (q # remove1 q qs) led"
  by (auto simp: rl_good_def list_all_iff dest: notin_set_remove1)

lemma rl_step_good:
  "rl_good (rls s) (wire s) (ledger s) \<Longrightarrow>
    rl_good (rls (rl_step e s)) (wire (rl_step e s)) (ledger (rl_step e s))"
proof (cases e)
  case (RlCheck p limit now)
  assume "rl_good (rls s) (wire s) (ledger s)"
  then show ?thesis
    using rl_check_good by (cases "rl_check p limit now (rls s)") (auto simp: RlCheck rl_book_def)
next
  case (RlResume p a limit now b g)
  assume "rl_good (rls s) (wire s) (ledger s)"
  then show ?thesis
    using rl_resume_good
    by (cases "rl_resume p a limit now b g (rls s)") (auto simp: RlResume rl_book_def)
next
  case (RlSettle q reply)
  assume "rl_good (rls s) (wire s) (ledger s)"
  then show ?thesis
    using rl_settle_good [OF rl_good_wire]
    by (cases "rl_settle q reply (rls s)") (auto simp: RlSettle Let_def)
qed (auto simp: rl_good_def rl_invalidate_def rl_clear_def elim: rl_covered_cong)

lemma rl_run_good:
  assumes "0 \<le> maxBatch"
  shows "rl_good (rls (rl_run w maxBatch pre es)) (wire (rl_run w maxBatch pre es))
    (ledger (rl_run w maxBatch pre es))"
proof (induction es rule: rev_induct)
  case Nil
  show ?case
    using assms by (simp add: rl_run_def rl_good_def rl_covered_def limiter_new_def balance_def)
next
  case (snoc e es)
  then show ?case using rl_step_good by (simp add: rl_run_def)
qed

section \<open>Leases across the cluster\<close>

text \<open>
  All processes lease from the same two counters. A run of the script is a list of its calls
  on one window: the time, the limit and the number of tokens asked for.
\<close>

fun lease_run ::
  "'s redis \<Rightarrow> string \<Rightarrow> string \<Rightarrow> int \<Rightarrow> (ms \<times> int \<times> int) list \<Rightarrow> 's \<Rightarrow> int list \<times> 's" where
  "lease_run r cur prev window [] s = ([], s)"
| "lease_run r cur prev window ((now, limit, req) # qs) s =
     (let (g, s) = lua_lease_api_rate_limit r cur prev now window limit req None s;
          (gs, s) = lease_run r cur prev window qs s
      in (g # gs, s))"

lemma lease_run_bound:
  assumes laws: "redis_counter_laws r" "0 < window" and "cur \<noteq> prev"
  shows "0 \<le> NUMBER r prev s \<Longrightarrow>
    \<forall>(now, limit, req) \<in> set qs. limit \<le> maxReqs \<and> 0 \<le> req \<Longrightarrow>
    NUMBER r cur s \<le> maxReqs \<Longrightarrow>
    NUMBER r cur s + sum_list (fst (lease_run r cur prev window qs s)) \<le> maxReqs
    \<and> list_all (\<lambda>g. 0 \<le> g) (fst (lease_run r cur prev window qs s))"
proof (induction qs arbitrary: s)
  case (Cons q qs)
  obtain now limit req where q: "q = (now, limit, req)" by (cases q)
  obtain g s' where step: "lua_lease_api_rate_limit r cur prev now window limit req None s = (g, s')"
    by (cases "lua_lease_api_rate_limit r cur prev now window limit req None s")
  have prev: "NUMBER r prev s' = NUMBER r prev s" and cur: "NUMBER r cur s' = NUMBER r cur s + g"
    using lease_zero_or_grant [OF laws(1) _ laws(2), where t = None and cur = cur and prev = prev
        and now = now and limit = limit and req = req and s = s] assms(3)
    by (auto simp: step)
  have "0 \<le> g" "NUMBER r cur s' \<le> maxReqs"
    using lease_bound [OF laws(1) _ laws(2) Cons.prems(1), where t = None and req = req and cur = cur
        and now = now and limit = limit] Cons.prems(2,3) by (auto simp: step q)
  with Cons.IH [of s'] Cons.prems prev cur show ?case by (auto simp: q step split: prod.splits)
qed simp

section \<open>Provider throttle\<close>

text \<open>
  \<open>ProviderThrottle\<close> keeps one limiter per window length. \<open>Math.round\<close> rounds halves up.
\<close>

record provider_throttle_config =
  pc_limit :: int
  pc_windowSeconds :: rat

definition throttle_windowMs :: "provider_throttle_config \<Rightarrow> ms" where
  "throttle_windowMs config = max 1 (\<lfloor>pc_windowSeconds config * 1000 + 1 / 2\<rfloor>)"

definition throttle_limiter :: "ms \<Rightarrow> (ms, limiter) jsmap \<Rightarrow> limiter" where
  "throttle_limiter windowMs limiters =
     (case jm_get limiters windowMs of
        Some L \<Rightarrow> L
      | None \<Rightarrow> limiter_new windowMs 500 ''rate-limit:provider'')"

definition provider_check ::
  "string \<Rightarrow> provider_throttle_config \<Rightarrow> ms \<Rightarrow> (ms, limiter) jsmap
    \<Rightarrow> rl_answer \<times> lease_request list \<times> (ms, limiter) jsmap" where
  "provider_check channel config now limiters =
     (let windowMs = throttle_windowMs config;
          (answer, qs, L) = rl_check channel (pc_limit config) now (throttle_limiter windowMs limiters)
      in (answer, qs, jm_set windowMs L limiters))"

text \<open>What the caller of \<open>check\<close> sees once the limiter has answered at time \<open>now\<close>.\<close>

record throttle_result =
  tr_allowed :: bool
  tr_retryAfterMs :: ms

definition provider_result :: "provider_throttle_config \<Rightarrow> bool \<Rightarrow> ms \<Rightarrow> throttle_result" where
  "provider_result config granted now =
     (if granted then \<lparr>tr_allowed = True, tr_retryAfterMs = 0\<rparr>
      else \<lparr>tr_allowed = False,
            tr_retryAfterMs = throttle_windowMs config - now mod throttle_windowMs config\<rparr>)"

section \<open>Properties\<close>

text \<open>
  C37: Across all processes, the tokens leased in one window never add up to more than the limit:
  however many lease calls the script serves for a window, in whatever order and for whatever
  batch sizes, as long as none asks with a limit above \<open>maxReqs\<close> their grants sum to at most
  \<open>maxReqs\<close>, and none is negative.
\<close>

theorem leases_never_exceed_limit:
  assumes "redis_counter_laws r" "0 < window" "cur \<noteq> prev"
    and "NUMBER r cur s = 0" "0 \<le> NUMBER r prev s" "0 \<le> maxReqs"
    and "\<forall>(now, limit, req) \<in> set qs. limit \<le> maxReqs \<and> 0 \<le> req"
  shows "sum_list (fst (lease_run r cur prev window qs s)) \<le> maxReqs
    \<and> list_all (\<lambda>g. 0 \<le> g) (fst (lease_run r cur prev window qs s))"
  using lease_run_bound [OF assms(1-3,5,7)] assms(4,6) by simp

theorem leases_never_exceed_limit_witness:
  "fst (lease_run mem_redis ''c'' ''p'' 60000 [(0, 100, 60), (1, 100, 60), (2, 100, 60)] mem_empty)
     = [60, 40, 0]
   \<and> sum_list (fst (lease_run mem_redis ''c'' ''p'' 60000
        [(0, 100, 60), (1, 100, 60), (2, 100, 60)] mem_empty)) \<le> 100"
proof -
  have "sum_list (fst (lease_run mem_redis ''c'' ''p'' 60000
        [(0, 100, 60), (1, 100, 60), (2, 100, 60)] mem_empty)) \<le> 100"
    using leases_never_exceed_limit [OF mem_counter_laws, of 60000 "''c''" "''p''" mem_empty 100
        "[(0, 100, 60), (1, 100, 60), (2, 100, 60)]"]
    by (simp add: mem_redis_def mem_empty_def)
  then show ?thesis
    by (simp add: lua_lease_api_rate_limit_def mem_redis_def mem_empty_def)
qed

text \<open>
  A process never admits more requests than it was leased. In any interleaving of checks,
  leases that return (with an answer, an invalid one, or an error, which counts as the batch asked
  for), waiters that resume, invalidations and clears, for every lease state and every window the
  requests admitted are at most the tokens credited, and the tokens left are never negative and
  covered by the difference.
\<close>

theorem limiter_admits_at_most_leased:
  assumes "0 \<le> maxBatch"
  shows "admitted a b (ledger (rl_run windowMs maxBatch pre es))
      \<le> credited a b (ledger (rl_run windowMs maxBatch pre es))
    \<and> 0 \<le> tokens (rl_heap (rls (rl_run windowMs maxBatch pre es)) a)
    \<and> admitted a (bucketIndex (rl_heap (rls (rl_run windowMs maxBatch pre es)) a))
          (ledger (rl_run windowMs maxBatch pre es))
        + tokens (rl_heap (rls (rl_run windowMs maxBatch pre es)) a)
      \<le> credited a (bucketIndex (rl_heap (rls (rl_run windowMs maxBatch pre es)) a))
          (ledger (rl_run windowMs maxBatch pre es))"
  using rl_run_good [OF assms, of windowMs pre es]
  by (simp add: rl_good_def rl_covered_def balance_credited_admitted)
     (metis add.commute le_diff_eq)

theorem limiter_admits_at_most_leased_witness:
  "let led = ledger (rl_run 60000 500 ''k'' [RlCheck ''p'' 60 5,
      RlSettle \<lparr>lq_promise = 0, lq_state = 0, lq_bucket = 0, lq_currentKey = ''{k:p}:0'',
        lq_prevKey = ''{k:p}:-1'', lq_now = 5, lq_limit = 60, lq_requested = 5\<rparr> (Some 5),
      RlResume ''p'' 0 60 5 0 5])
   in admitted 0 0 led = 1 \<and> credited 0 0 led = 5 \<and> admitted 0 0 led \<le> credited 0 0 led"
proof -
  define es where "es = [RlCheck ''p'' 60 5,
      RlSettle \<lparr>lq_promise = 0, lq_state = 0, lq_bucket = 0, lq_currentKey = ''{k:p}:0'',
        lq_prevKey = ''{k:p}:-1'', lq_now = 5, lq_limit = 60, lq_requested = 5\<rparr> (Some 5),
      RlResume ''p'' 0 60 5 0 5]"
  have digits: "(char_of (48::nat) :: char) = CHR ''0''" "(char_of (49::nat) :: char) = CHR ''1''"
    by code_simp+
  have "ledger (rl_run 60000 500 ''k'' es) = [Credit 0 0 5, Admit 0 0]"
    by (simp add: es_def rl_run_def limiter_new_def rl_defs rl_claim_def rl_book_def rl_tag_def
        calculateTokenBatchSize_def show_int_def show_nat.simps digits Let_def)
  then show ?thesis
    using limiter_admits_at_most_leased [of 500 0 0 60000 "''k''" es]
    by (simp add: admitted_def credited_def es_def)
qed

text \<open>
  A refused provider task is told to come back exactly when the next rate window starts:
  after at least one millisecond, at most one window, at a multiple of the window length.
\<close>

theorem provider_retry_hits_next_window:
  "let r = provider_result config False now; w = throttle_windowMs config
   in \<not> tr_allowed r \<and> 1 \<le> tr_retryAfterMs r \<and> tr_retryAfterMs r \<le> w
      \<and> (now + tr_retryAfterMs r) mod w = 0 \<and> (now + tr_retryAfterMs r) div w = now div w + 1"
proof -
  define w where "w = throttle_windowMs config"
  have w: "0 < w" by (simp add: w_def throttle_windowMs_def)
  have next_window: "now + (w - now mod w) = (now div w + 1) * w"
    by (simp add: algebra_simps minus_mod_eq_mult_div [symmetric])
  have "0 \<le> now mod w" "now mod w < w" using w by simp_all
  moreover have "(now div w + 1) * w mod w = 0" "(now div w + 1) * w div w = now div w + 1"
    using w by simp_all
  ultimately show ?thesis
    unfolding provider_result_def w_def [symmetric] Let_def
    by (simp add: next_window)
qed

end
