(* ===== verification/Throttle_Idempotency.thy ===== *)
theory Throttle_Idempotency
  imports Redis_Scripts
begin

text \<open>
  \<open>UserThrottle\<close> (\<open>src/src/rate-limiter/user-throttle.ts\<close>), a sliding window of sends per
  user kept in a sorted set, and \<open>IdempotencyGuard\<close> (\<open>src/src/idempotency/index.ts\<close>), one
  key per message that is \<open>L\<close> while a worker holds it and \<open>1\<close> once it is processed. Both
  use Redis through the commands of \<open>Redis_Scripts\<close>.
\<close>

section \<open>User throttle\<close>

record user_throttle =
  ut_maxPerHour :: int
  ut_windowHours :: int

record throttle_options =
  to_limit :: "int option"
  to_windowHours :: "int option"
  to_scheduledAt :: "ms option"
  to_messageId :: "string option"

record user_throttle_result =
  ut_allowed :: bool
  ut_count :: int
  ut_limit :: int

definition user_throttle_new :: "int option \<Rightarrow> int option \<Rightarrow> user_throttle" where
  "user_throttle_new maxPerHour windowHours =
     \<lparr>ut_maxPerHour = (case maxPerHour of Some m \<Rightarrow> m | None \<Rightarrow> 3),
      ut_windowHours = (case windowHours of Some w \<Rightarrow> w | None \<Rightarrow> 1)\<rparr>"

definition positiveOrNull :: "int option \<Rightarrow> int option" where
  "positiveOrNull v = (case v of Some n \<Rightarrow> if n > 0 then Some n else None | None \<Rightarrow> None)"

definition nonNegativeOrNull :: "int option \<Rightarrow> int option" where
  "nonNegativeOrNull v = (case v of Some n \<Rightarrow> if n \<ge> 0 then Some n else None | None \<Rightarrow> None)"

definition throttle_key :: "string \<Rightarrow> string \<Rightarrow> string" where
  "throttle_key projectId userId = ''throttle:'' @ projectId @ '':user:'' @ userId"

text \<open>
  \<open>scheduledAt\<close> is the instant its string denotes, \<open>uuid\<close> the random id drawn when no
  message id is given, \<open>now\<close> the clock. \<open>Math.ceil\<close> of thousandths is written as integer
  division.
\<close>

definition throttle_check ::
  "'s redis \<Rightarrow> user_throttle \<Rightarrow> string \<Rightarrow> string \<Rightarrow> string option \<Rightarrow> throttle_options \<Rightarrow> string \<Rightarrow> ms
    \<Rightarrow> 's \<Rightarrow> user_throttle_result \<times> 's" where
  "throttle_check r u projectId userId priority options uuid now s =
     (let limit = (case nonNegativeOrNull (to_limit options) of
                     Some l \<Rightarrow> l | None \<Rightarrow> ut_maxPerHour u);
          windowHours = (case positiveOrNull (to_windowHours options) of
                     Some w \<Rightarrow> w | None \<Rightarrow> ut_windowHours u)
      in if priority = Some ''critical''
         then (\<lparr>ut_allowed = True, ut_count = 0, ut_limit = limit\<rparr>, s)
         else
           let windowMs = windowHours * 3600000;
               targetTime = (case to_scheduledAt options of Some t \<Rightarrow> t | None \<Rightarrow> now);
               windowStart = targetTime - windowMs;
               memberId = (case to_messageId options of Some m \<Rightarrow> m | None \<Rightarrow> uuid);
               windowSeconds = (windowMs + 999) div 1000;
               ttlSeconds = max windowSeconds ((targetTime - now + 999) div 1000 + windowSeconds);
               (count, s) = lua_user_throttle r (throttle_key projectId userId) windowStart limit
                 targetTime memberId ttlSeconds (Some (now - windowMs)) s
           in (\<lparr>ut_allowed = count \<le> limit, ut_count = count, ut_limit = limit\<rparr>, s))"

subsection \<open>Counting in a window\<close>

definition in_window :: "int \<Rightarrow> int \<Rightarrow> zset \<Rightarrow> nat" where
  "in_window lo hi z = length (filter (\<lambda>(m, x). lo < x \<and> x \<le> hi) z)"

lemma in_window_card:
  assumes "distinct (map fst z)"
  shows "in_window lo hi z = card {p \<in> set z. lo < snd p \<and> snd p \<le> hi}"
proof -
  have "distinct (filter (\<lambda>(m, x). lo < x \<and> x \<le> hi) z)"
    using assms by (simp add: distinct_map)
  then show ?thesis
    unfolding in_window_def
    by (subst distinct_card [symmetric]) (auto intro!: arg_cong [where f = card])
qed

lemma in_window_mono:
  assumes "distinct (map fst z)" "distinct (map fst z')"
    and "{p \<in> set z'. lo' < snd p \<and> snd p \<le> hi'} \<subseteq> {p \<in> set z. lo < snd p \<and> snd p \<le> hi}"
  shows "in_window lo' hi' z' \<le> in_window lo hi z"
  using assms by (simp add: in_window_card card_mono)

lemma in_window_insert:
  assumes "distinct (map fst z)" "distinct (map fst z')" "set z' \<subseteq> insert p (set z)"
  shows "in_window lo hi z' \<le> Suc (in_window lo hi z)"
proof -
  have "card {q \<in> set z'. lo < snd q \<and> snd q \<le> hi}
      \<le> card (insert p {q \<in> set z. lo < snd q \<and> snd q \<le> hi})"
    using assms(3) by (intro card_mono) auto
  also have "\<dots> \<le> Suc (card {q \<in> set z. lo < snd q \<and> snd q \<le> hi})" by (simp add: card_insert_if)
  finally show ?thesis using assms(1,2) by (simp add: in_window_card)
qed

text \<open>What one run of the script does to the sorted set, read through \<open>view\<close>.\<close>

lemma user_throttle_effect:
  assumes laws: "redis_zset_laws r view" and ttl: "0 < ttl"
    and res: "res = lua_user_throttle r k lo limit t m ttl (Some p) s"
    and kept_def: "kept = {q \<in> set (view k s). p < snd q}"
  shows "if m \<in> fst ` kept then fst res = 0 \<and> set (view k (snd res)) = kept
    else \<exists>z1. set z1 = kept \<and> distinct (map fst z1) \<and> fst res = int (in_window lo t z1) + 1
      \<and> set (view k (snd res)) = (if fst res \<le> limit then insert (m, t) kept else kept)"
proof -
  let ?s1 = "ZREMRANGE r k p s"
  have z1: "set (view k ?s1) = kept" "distinct (map fst (view k ?s1))"
    using laws by (auto simp: redis_zset_laws_def kept_def)
  have score: "(ZSCORE r k m ?s1 \<noteq> None) = (m \<in> fst ` kept)"
    using laws z1 by (simp add: redis_zset_laws_def map_of_eq_None_iff)
  have count: "ZCOUNT r k lo t ?s1 = int (in_window lo t (view k ?s1))"
    using laws by (simp add: redis_zset_laws_def in_window_def)
  have add: "set (view k (ZADD r k t m ?s1)) = insert (m, t) {q \<in> kept. fst q \<noteq> m}"
    using laws z1 by (simp add: redis_zset_laws_def jm_set_delete_eq)
  have keep: "view k (snd (EXPIRE r k ttl s')) = view k s'" for s'
    using laws ttl by (simp add: redis_zset_laws_def)
  show ?thesis
  proof (cases "m \<in> fst ` kept")
    case True
    with score z1 show ?thesis by (simp add: res lua_user_throttle_def Let_def)
  next
    case False
    then have "{q \<in> kept. fst q \<noteq> m} = kept" by auto
    with False score z1 count add keep show ?thesis
      by (auto simp: res lua_user_throttle_def Let_def intro!: exI [of _ "view k ?s1"])
  qed
qed

subsection \<open>Runs\<close>

text \<open>
  A run of checks of one user with one limit and window: for each the message, the instant the
  message goes out and the clock.
\<close>

definition throttle_call ::
  "'s redis \<Rightarrow> user_throttle \<Rightarrow> string \<Rightarrow> string \<Rightarrow> string \<times> ms \<times> ms \<Rightarrow> 's \<Rightarrow> user_throttle_result \<times> 's"
where
  "throttle_call r u p user c s =
     (case c of (msg, target, now) \<Rightarrow>
        throttle_check r u p user None
          \<lparr>to_limit = None, to_windowHours = None, to_scheduledAt = Some target, to_messageId = Some msg\<rparr>
          [] now s)"

definition throttle_run ::
  "'s redis \<Rightarrow> user_throttle \<Rightarrow> string \<Rightarrow> string \<Rightarrow> (string \<times> ms \<times> ms) list \<Rightarrow> 's \<Rightarrow> 's" where
  "throttle_run r u p user cs s = fold (\<lambda>c s. snd (throttle_call r u p user c s)) cs s"

lemma throttle_call_script:
  assumes "0 < ut_windowHours u"
  shows "\<exists>ttl > 0. throttle_call r u p user (msg, target, now) s =
    (let w = ut_windowHours u * 3600000;
         (count, s') = lua_user_throttle r (throttle_key p user) (target - w) (ut_maxPerHour u) target msg
           ttl (Some (now - w)) s
     in (\<lparr>ut_allowed = count \<le> ut_maxPerHour u, ut_count = count, ut_limit = ut_maxPerHour u\<rparr>, s'))"
  using assms
  by (intro exI [of _ "max ((ut_windowHours u * 3600000 + 999) div 1000)
        ((target - now + 999) div 1000 + (ut_windowHours u * 3600000 + 999) div 1000)"])
     (auto simp: throttle_call_def throttle_check_def nonNegativeOrNull_def positiveOrNull_def Let_def
       less_max_iff_disj)

definition throttle_ok :: "int \<Rightarrow> int \<Rightarrow> ms \<Rightarrow> zset \<Rightarrow> bool" where
  "throttle_ok w limit newest z \<longleftrightarrow>
     distinct (map fst z) \<and> (\<forall>q \<in> set z. snd q \<le> newest) \<and> (\<forall>t. int (in_window (t - w) t z) \<le> limit)"

lemma throttle_ok_subset:
  assumes "throttle_ok w limit newest z" "distinct (map fst z')" "set z' \<subseteq> set z" "newest \<le> newest'"
  shows "throttle_ok w limit newest' z'"
proof -
  have "int (in_window (t - w) t z') \<le> limit" for t
  proof -
    have "in_window (t - w) t z' \<le> in_window (t - w) t z"
      using assms by (intro in_window_mono) (auto simp: throttle_ok_def)
    moreover have "int (in_window (t - w) t z) \<le> limit" using assms(1) by (simp add: throttle_ok_def)
    ultimately show ?thesis by linarith
  qed
  with assms show ?thesis by (auto simp: throttle_ok_def intro: order_trans)
qed

lemma throttle_ok_insert:
  assumes ok: "throttle_ok w limit newest z" and z': "distinct (map fst z')" "set z' \<subseteq> insert (m, t) (set z)"
    and t: "newest \<le> t" and room: "int (in_window (t - w) t z) + 1 \<le> limit"
  shows "throttle_ok w limit t z'"
proof -
  have d: "distinct (map fst z)" and le: "\<forall>q \<in> set z. snd q \<le> t" using ok t by (auto simp: throttle_ok_def)
  have "int (in_window (x - w) x z') \<le> limit" for x
  proof (cases "x < t")
    case True
    have "in_window (x - w) x z' \<le> in_window (x - w) x z"
      using d z' True by (intro in_window_mono) auto
    moreover have "int (in_window (x - w) x z) \<le> limit" using ok by (simp add: throttle_ok_def)
    ultimately show ?thesis by linarith
  next
    case False
    have "in_window (x - w) x z' \<le> Suc (in_window (x - w) x z)" by (rule in_window_insert [OF d z'])
    also have "in_window (x - w) x z \<le> in_window (t - w) t z"
      using d le False by (intro in_window_mono) auto
    finally show ?thesis using room by linarith
  qed
  with z' le show ?thesis by (auto simp: throttle_ok_def)
qed

lemma throttle_call_ok:
  assumes laws: "redis_zset_laws r view" and w: "0 < ut_windowHours u"
    and ok: "throttle_ok (ut_windowHours u * 3600000) (ut_maxPerHour u) newest (view (throttle_key p user) s)"
    and t: "newest \<le> target"
  shows "throttle_ok (ut_windowHours u * 3600000) (ut_maxPerHour u) target
    (view (throttle_key p user) (snd (throttle_call r u p user (msg, target, now) s)))"
proof -
  let ?w = "ut_windowHours u * 3600000" and ?k = "throttle_key p user" and ?z = "view (throttle_key p user) s"
  obtain ttl where ttl: "0 < ttl" and call: "throttle_call r u p user (msg, target, now) s =
    (let (count, s') = lua_user_throttle r ?k (target - ?w) (ut_maxPerHour u) target msg ttl (Some (now - ?w)) s
     in (\<lparr>ut_allowed = count \<le> ut_maxPerHour u, ut_count = count, ut_limit = ut_maxPerHour u\<rparr>, s'))"
    using throttle_call_script [OF w, of r p user msg target now s] by (auto simp: Let_def)
  let ?res = "lua_user_throttle r ?k (target - ?w) (ut_maxPerHour u) target msg ttl (Some (now - ?w)) s"
  let ?kept = "{q \<in> set ?z. now - ?w < snd q}"
  have s': "snd (throttle_call r u p user (msg, target, now) s) = snd ?res"
    by (simp add: call split_beta)
  have d: "distinct (map fst (view ?k s'))" for s' using laws by (simp add: redis_zset_laws_def)
  note eff = user_throttle_effect [OF laws ttl refl refl, where m = msg and k = ?k and p = "now - ?w"
      and s = s and lo = "target - ?w" and limit = "ut_maxPerHour u" and t = target]
  show ?thesis
  proof (cases "msg \<in> fst ` ?kept \<or> \<not> fst ?res \<le> ut_maxPerHour u")
    case True
    with eff have "set (view ?k (snd ?res)) = ?kept" by (auto split: if_splits)
    then show ?thesis unfolding s' using throttle_ok_subset [OF ok d _ t] by auto
  next
    case False
    with eff obtain z1 where z1: "set z1 = ?kept" "distinct (map fst z1)"
      "fst ?res = int (in_window (target - ?w) target z1) + 1"
      "set (view ?k (snd ?res)) = insert (msg, target) ?kept"
      by (auto split: if_splits)
    have "throttle_ok ?w (ut_maxPerHour u) newest z1"
      using throttle_ok_subset [OF ok z1(2), of newest] z1(1) by auto
    then show ?thesis
      unfolding s'
      by (rule throttle_ok_insert [where m = msg, OF _ d _ t]) (use z1 False in auto)
  qed
qed

section \<open>Idempotency guard\<close>

record idempotency_guard =
  ig_keyPrefix :: string
  ig_ttlSeconds :: int

definition idempotency_guard_new :: "string \<Rightarrow> int option \<Rightarrow> idempotency_guard" where
  "idempotency_guard_new keyPrefix ttlSeconds =
     \<lparr>ig_keyPrefix = keyPrefix, ig_ttlSeconds = (case ttlSeconds of Some t \<Rightarrow> t | None \<Rightarrow> 86400)\<rparr>"

definition ig_key :: "idempotency_guard \<Rightarrow> string \<Rightarrow> string" where
  "ig_key g mid = ig_keyPrefix g @ '':'' @ mid"

datatype lease_result = Acquired | Locked | Completed

text \<open>
  Between two awaits other processes may run: \<open>env1\<close> and \<open>env2\<close> are what they do to the
  store there.
\<close>

definition acquireLease ::
  "'s redis \<Rightarrow> idempotency_guard \<Rightarrow> string \<Rightarrow> int \<Rightarrow> ('s \<Rightarrow> 's) \<Rightarrow> ('s \<Rightarrow> 's) \<Rightarrow> 's \<Rightarrow> lease_result \<times> 's" where
  "acquireLease r g mid lockTtlSeconds env1 env2 s =
     (let key = ig_key g mid;
          (ok, s) = SET_EX_NX r key ''L'' lockTtlSeconds s
      in if ok then (Acquired, s)
         else
           let s = env1 s; val = GET r key s
           in if val = Some ''1'' then (Completed, s)
              else if val = Some ''L'' then (Locked, s)
              else
                let (retry, s) = SET_EX_NX r key ''L'' lockTtlSeconds (env2 s)
                in (if retry then Acquired else Locked, s))"

definition ig_ttl :: "idempotency_guard \<Rightarrow> int option \<Rightarrow> int" where
  "ig_ttl g custom = (case custom of Some t \<Rightarrow> t | None \<Rightarrow> ig_ttlSeconds g)"

definition checkAndMark ::
  "'s redis \<Rightarrow> idempotency_guard \<Rightarrow> string \<Rightarrow> int option \<Rightarrow> 's \<Rightarrow> bool \<times> 's" where
  "checkAndMark r g mid customTtlSeconds s = SET_EX_NX r (ig_key g mid) ''1'' (ig_ttl g customTtlSeconds) s"

definition markProcessed ::
  "'s redis \<Rightarrow> idempotency_guard \<Rightarrow> string \<Rightarrow> int option \<Rightarrow> 's \<Rightarrow> 's" where
  "markProcessed r g mid customTtlSeconds s = SET_EX r (ig_key g mid) ''1'' (ig_ttl g customTtlSeconds) s"

definition isProcessed :: "'s redis \<Rightarrow> idempotency_guard \<Rightarrow> string \<Rightarrow> 's \<Rightarrow> bool" where
  "isProcessed r g mid s = (GET r (ig_key g mid) s \<noteq> None)"

definition unmark :: "'s redis \<Rightarrow> idempotency_guard \<Rightarrow> string \<Rightarrow> 's \<Rightarrow> 's" where
  "unmark r g mid s = snd (DEL r (ig_key g mid) s)"

lemmas ig_defs = acquireLease_def checkAndMark_def markProcessed_def isProcessed_def unmark_def ig_ttl_def

lemma set_nx_cases:
  assumes "redis_string_laws r" "0 < ttl"
  shows "SET_EX_NX r k v ttl s = (if GET r k s = None then (True, SET_EX r k v ttl s) else (False, s))"
  using assms by (simp add: redis_string_laws_def)

lemma get_set:
  assumes "redis_string_laws r" "0 < ttl"
  shows "GET r k (SET_EX r k' v ttl s) = (if k = k' then Some v else GET r k s)"
  using assms by (simp add: redis_string_laws_def)

lemma get_del: "redis_string_laws r \<Longrightarrow> GET r k (snd (DEL r k' s)) = (if k = k' then None else GET r k s)"
  by (simp add: redis_string_laws_def)

text \<open>What \<open>acquireLease\<close> says about the value of the key, when nobody else touches it.\<close>

lemma acquireLease_result:
  assumes "redis_string_laws r" "0 < ttl"
    and "\<And>s. GET r (ig_key g mid) (env1 s) = GET r (ig_key g mid) s"
    and "\<And>s. GET r (ig_key g mid) (env2 s) = GET r (ig_key g mid) s"
  shows "fst (acquireLease r g mid ttl env1 env2 s) =
    (case GET r (ig_key g mid) s of None \<Rightarrow> Acquired
     | Some v \<Rightarrow> if v = ''1'' then Completed else Locked)"
    and "GET r (ig_key g mid) (snd (acquireLease r g mid ttl env1 env2 s)) =
    (case GET r (ig_key g mid) s of None \<Rightarrow> Some ''L'' | Some v \<Rightarrow> Some v)"
  using assms(3,4)
  by (auto simp: acquireLease_def set_nx_cases [OF assms(1,2)] get_set [OF assms(1,2)] Let_def
      split: option.split)

section \<open>Properties\<close>





end
