(* ===== verification/Template_Render.thy ===== *)
theory Template_Render
  imports Json_Codec
begin

text \<open>
  Rendering of a stored template (\<open>src/src/templates/render.ts\<close>): the escapers, the
  placeholder substitution in one leaf string, and the walk over the parsed content tree
  that picks the escape mode by the name of the field. Variables are the own properties of
  the caller's object; an absent one is \<open>undefined\<close>.
\<close>

type_synonym variables = "(string \<times> json) list"

definition replace_char :: "char \<Rightarrow> string \<Rightarrow> string \<Rightarrow> string" where
  "replace_char c w s = concat (map (\<lambda>x. if x = c then w else [x]) s)"

definition escapeHtml :: "string \<Rightarrow> string" where
  "escapeHtml unsafe =
     replace_char (CHR 0x27) ''&#039;''
       (replace_char (CHR 0x22) ''&quot;''
         (replace_char (CHR ''>'') ''&gt;''
           (replace_char (CHR ''<'') ''&lt;''
             (replace_char (CHR ''&'') ''&amp;'' unsafe))))"

definition crlf :: "char \<Rightarrow> bool" where
  "crlf c = (c = CHR 0x0D \<or> c = CHR 0x0A)"

text \<open>\<open>replace(/[\r\n]+/g, " ")\<close>; the flag says the previous character was replaced.\<close>

fun squeeze_crlf :: "bool \<Rightarrow> string \<Rightarrow> string" where
  "squeeze_crlf b [] = []"
| "squeeze_crlf b (c # cs) =
     (if crlf c then (if b then [] else [CHR '' '']) @ squeeze_crlf True cs
      else c # squeeze_crlf False cs)"

definition escapeHeader :: "string \<Rightarrow> string" where
  "escapeHeader unsafe = js_trim (squeeze_crlf False unsafe)"

definition word_char :: "char \<Rightarrow> bool" where
  "word_char c = (let n = (of_char c :: nat) in
     48 \<le> n \<and> n \<le> 57 \<or> 65 \<le> n \<and> n \<le> 90 \<or> 97 \<le> n \<and> n \<le> 122 \<or> n = 95)"

text \<open>
  \<open>replace(/\{\{(\w+)\}\}/g, f)\<close> with \<open>n\<close> braces: the placeholder at the head of
  a string, and the left-to-right scan.
\<close>

definition placeholder :: "nat \<Rightarrow> string \<Rightarrow> (string \<times> string) option" where
  "placeholder n s =
     (let k = takeWhile word_char (drop n s); r = dropWhile word_char (drop n s)
      in if take n s = replicate n (CHR ''{'') \<and> k \<noteq> [] \<and> take n r = replicate n (CHR ''}'')
         then Some (k, drop n r) else None)"

lemma placeholder_split:
  "placeholder n s = Some (k, r) \<Longrightarrow>
     s = replicate n (CHR ''{'') @ k @ replicate n (CHR ''}'') @ r \<and> k \<noteq> [] \<and> list_all word_char k"
  by (auto simp: placeholder_def Let_def list_all_iff split: if_splits dest: set_takeWhileD)
     (metis append_take_drop_id takeWhile_dropWhile_id)

function replace_placeholders :: "nat \<Rightarrow> (string \<Rightarrow> string) \<Rightarrow> string \<Rightarrow> string" where
  "replace_placeholders n f [] = []"
| "replace_placeholders n f (c # cs) =
     (case placeholder n (c # cs) of
        Some (k, r) \<Rightarrow> f k @ replace_placeholders n f r
      | None \<Rightarrow> c # replace_placeholders n f cs)"
  by pat_completeness auto

termination
  by (relation "measure (\<lambda>(n, f, s). length s)")
     (auto dest!: placeholder_split dest: arg_cong [of _ _ length] simp: neq_Nil_conv)

text \<open>\<open>String(v)\<close> of a JSON value, and \<open>typeof raw === "string" ? raw : JSON.stringify(raw)\<close>.\<close>

fun js_String :: "json \<Rightarrow> string" where
  "js_String (JStr s) = s"
| "js_String (JArr xs) = join '','' (map (\<lambda>x. if x = JNull then [] else js_String x) xs)"
| "js_String (JObj kvs) = ''[object Object]''"
| "js_String v = json_stringify v"

definition text_of :: "json \<Rightarrow> string" where
  "text_of raw = (case raw of JStr s \<Rightarrow> s | _ \<Rightarrow> json_stringify raw)"

definition interpolate :: "string \<Rightarrow> variables \<Rightarrow> bool \<Rightarrow> string" where
  "interpolate tmpl vars sanitize =
     (let val = (\<lambda>k. case jm_get vars k of None \<Rightarrow> [] | Some JNull \<Rightarrow> [] | Some v \<Rightarrow> js_String v)
      in replace_placeholders 2 (\<lambda>k. if sanitize then escapeHtml (val k) else val k)
           (replace_placeholders 3 val tmpl))"

datatype EscapeMode = Html | Header | Text

definition HTML_FIELDS :: "string list" where
  "HTML_FIELDS = [''html'', ''htmlbody'', ''bodyhtml'', ''htmlcontent'']"

definition HEADER_FIELDS :: "string list" where
  "HEADER_FIELDS = [''subject'', ''title'', ''from'', ''replyto'', ''cc'', ''bcc'', ''preheader'', ''preview'']"

definition escapeModeFor :: "string \<Rightarrow> EscapeMode \<Rightarrow> EscapeMode" where
  "escapeModeFor key inherited =
     (let k = filter (\<lambda>c. c \<noteq> CHR ''-'' \<and> c \<noteq> CHR ''_'') (js_lower key)
      in if k \<in> set HTML_FIELDS then Html
         else if k \<in> set HEADER_FIELDS then Header else inherited)"

definition applyEscape :: "string \<Rightarrow> EscapeMode \<Rightarrow> string" where
  "applyEscape v mode = (if mode = Html then escapeHtml v
     else if mode = Header then escapeHeader v else v)"

definition raw_value :: "variables \<Rightarrow> string \<Rightarrow> string" where
  "raw_value vars k = (case jm_get vars k of None \<Rightarrow> [] | Some JNull \<Rightarrow> [] | Some raw \<Rightarrow> text_of raw)"

definition escaped_value :: "variables \<Rightarrow> EscapeMode \<Rightarrow> string \<Rightarrow> string" where
  "escaped_value vars mode k = (case jm_get vars k of None \<Rightarrow> [] | Some JNull \<Rightarrow> []
     | Some raw \<Rightarrow> applyEscape (text_of raw) mode)"

definition interpolateLeaf :: "string \<Rightarrow> variables \<Rightarrow> EscapeMode \<Rightarrow> string" where
  "interpolateLeaf tmpl vars mode =
     replace_placeholders 2 (escaped_value vars mode)
       (replace_placeholders 3 (raw_value vars) tmpl)"

fun renderNode :: "json \<Rightarrow> variables \<Rightarrow> EscapeMode \<Rightarrow> json" where
  "renderNode (JStr s) vars mode = JStr (interpolateLeaf s vars mode)"
| "renderNode (JArr xs) vars mode = JArr (map (\<lambda>item. renderNode item vars mode) xs)"
| "renderNode (JObj kvs) vars mode =
     JObj (map (\<lambda>(key, value). (key, renderNode value vars (escapeModeFor key mode))) kvs)"
| "renderNode node vars mode = node"

text \<open>A template row is its \<open>content\<close>, when it has one.\<close>

definition renderWithTemplate :: "json option option \<Rightarrow> variables \<Rightarrow> json" where
  "renderWithTemplate dbTemplate vars =
     (case dbTemplate of
        Some content \<Rightarrow>
          renderNode (case content of None \<Rightarrow> JObj [] | Some JNull \<Rightarrow> JObj [] | Some c \<Rightarrow> c) vars Text
      | None \<Rightarrow> JObj [(''subject'', JStr ''Notification''), (''body'', JStr (json_pretty 0 (JObj vars)))])"

section \<open>What a value can bring into a leaf\<close>

text \<open>The characters that would change what the field means: markup in html, line breaks in a header.\<close>

definition significant :: "EscapeMode \<Rightarrow> char \<Rightarrow> bool" where
  "significant mode c = (case mode of
       Html \<Rightarrow> c \<in> {CHR ''<'', CHR ''>'', CHR 0x22, CHR 0x27}
     | Header \<Rightarrow> crlf c
     | Text \<Rightarrow> False)"

fun leaves :: "EscapeMode \<Rightarrow> json \<Rightarrow> (EscapeMode \<times> string) list" where
  "leaves mode (JStr s) = [(mode, s)]"
| "leaves mode (JArr xs) = concat (map (leaves mode) xs)"
| "leaves mode (JObj kvs) = concat (map (\<lambda>(k, v). leaves (escapeModeFor k mode) v) kvs)"
| "leaves mode v = []"

fun skeleton :: "json \<Rightarrow> json" where
  "skeleton (JStr s) = JStr []"
| "skeleton (JArr xs) = JArr (map skeleton xs)"
| "skeleton (JObj kvs) = JObj (map (\<lambda>(k, v). (k, skeleton v)) kvs)"
| "skeleton v = v"

lemma set_replace_char:
  "set (replace_char c w s) = (if c \<in> set s then set w \<union> (set s - {c}) else set s)"
  by (auto simp: replace_char_def split: if_splits)

lemma escapeHtml_clean: "list_all (\<lambda>c. \<not> significant Html c) (escapeHtml s)"
  by (auto simp: escapeHtml_def list_all_iff significant_def set_replace_char)

lemma set_js_trim: "set (js_trim s) \<subseteq> set s"
  by (auto simp: js_trim_def dest!: set_dropWhileD)

lemma squeeze_crlf_clean: "list_all (\<lambda>c. \<not> crlf c) (squeeze_crlf b s)"
  by (induction b s rule: squeeze_crlf.induct) (auto simp: crlf_def)

lemma escapeHeader_clean: "list_all (\<lambda>c. \<not> significant Header c) (escapeHeader s)"
  using squeeze_crlf_clean [of False s] set_js_trim
  by (fastforce simp: escapeHeader_def significant_def list_all_iff)

lemma escaped_value_clean: "list_all (\<lambda>c. \<not> significant mode c) (escaped_value vars mode k)"
proof -
  have "list_all (\<lambda>c. \<not> significant mode c) (applyEscape v mode)" for v
    using escapeHtml_clean [of v] escapeHeader_clean [of v]
    by (cases mode) (simp_all add: applyEscape_def, simp add: significant_def list_all_iff)
  then show ?thesis by (simp add: escaped_value_def split: option.split json.split)
qed

lemma word_char_not_significant: "word_char c \<Longrightarrow> \<not> significant mode c"
  by (cases mode) (auto simp: word_char_def significant_def crlf_def)

lemma filter_none: "list_all (\<lambda>c. \<not> P c) s \<Longrightarrow> filter P s = []"
  by (simp add: list_all_iff filter_empty_conv)

lemma replace_placeholders_significant:
  assumes "\<And>k. list_all (\<lambda>c. \<not> significant mode c) (f k)"
  shows "filter (significant mode) (replace_placeholders n f s) = filter (significant mode) s"
  using assms
proof (induction n f s rule: replace_placeholders.induct [case_names Nil Cons])
  case (Cons n f c cs)
  show ?case
  proof (cases "placeholder n (c # cs)")
    case None
    with Cons show ?thesis by simp
  next
    case (Some p)
    then obtain k r where p: "placeholder n (c # cs) = Some (k, r)" by (cases p) auto
    note s = placeholder_split [OF p]
    have "\<not> significant mode (CHR ''{'')" "\<not> significant mode (CHR ''}'')"
      by (cases mode; simp add: significant_def crlf_def)+
    then have "filter (significant mode) (c # cs) = filter (significant mode) r"
      using s by (simp add: filter_none list_all_iff word_char_not_significant filter_replicate)
    then show ?thesis
      using p Cons.IH(2) [OF p refl] Cons.prems by (simp add: filter_none)
  qed
qed simp

lemma leaves_renderNode:
  "leaves mode (renderNode node vars mode) =
     map (\<lambda>(m, s). (m, interpolateLeaf s vars m)) (leaves mode node)"
proof (induction node vars mode rule: renderNode.induct)
  case (2 xs vars mode)
  then show ?case by (simp add: map_concat comp_def cong: map_cong)
next
  case (3 kvs vars mode)
  then have "map (\<lambda>(k, v). leaves (escapeModeFor k mode) (renderNode v vars (escapeModeFor k mode))) kvs =
    map (\<lambda>(k, v). map (\<lambda>(m, s). (m, interpolateLeaf s vars m)) (leaves (escapeModeFor k mode) v)) kvs"
    by (intro map_cong) auto
  then show ?case
    by (simp add: map_concat comp_def split_beta) (rule arg_cong [where f = concat], simp add: split_beta)
qed auto

lemmas escaped_values_add_nothing = replace_placeholders_significant [OF escaped_value_clean]

text \<open>
  Rendering a template keeps its tree (the same keys, arrays and non-string values), and
  in every leaf the characters that matter for the field it lands in, markup and quotes in an
  html field, line breaks in a header field, are those of the template text after its triple
  brace placeholders: no escaped value contributes one, so a variable can neither add a field
  nor inject markup or a header line.
\<close>
theorem render_confines_values:
  "skeleton (renderNode node vars mode) = skeleton node \<and>
   map (\<lambda>(m, s). (m, filter (significant m) s)) (leaves mode (renderNode node vars mode)) =
   map (\<lambda>(m, s). (m, filter (significant m) (replace_placeholders 3 (raw_value vars) s)))
     (leaves mode node)"
proof (intro conjI)
  show "skeleton (renderNode node vars mode) = skeleton node"
    by (induction node vars mode rule: renderNode.induct) auto
  show "map (\<lambda>(m, s). (m, filter (significant m) s)) (leaves mode (renderNode node vars mode)) =
   map (\<lambda>(m, s). (m, filter (significant m) (replace_placeholders 3 (raw_value vars) s)))
     (leaves mode node)"
    unfolding leaves_renderNode by (auto simp: interpolateLeaf_def escaped_values_add_nothing)
qed

end
