(* ===== verification/Unsubscribe.thy ===== *)
theory Unsubscribe
  imports Json_Codec Buffer_Codec
begin

text \<open>
  One-click unsubscribe tokens (\<open>src/src/unsubscribe/index.ts\<close>). The MAC of
  \<open>node:crypto\<close> is the parameter \<open>hmac\<close> (secret, then data, giving the digest
  bytes); that a SHA-256 digest has 32 bytes is the hypothesis \<open>digest_length\<close>.
\<close>

type_synonym mac = "string \<Rightarrow> string \<Rightarrow> string"

definition digest_length :: "mac \<Rightarrow> bool" where
  "digest_length hmac = (\<forall>k d. length (hmac k d) = 32)"

record UnsubscribeClaim =
  uc_projectId :: string
  uc_userId :: string
  uc_channel :: string
  uc_target :: string
  uc_topics :: "string list"

definition WireClaim :: "UnsubscribeClaim \<Rightarrow> json" where
  "WireClaim claim = JObj [
     (''p'', JStr (uc_projectId claim)), (''u'', JStr (uc_userId claim)),
     (''c'', JStr (uc_channel claim)), (''t'', JStr (uc_target claim)),
     (''k'', JArr (map JStr (uc_topics claim)))]"

definition b64url :: "string \<Rightarrow> string" where
  "b64url input = base64url_encode input"

definition signUnsubscribeToken :: "mac \<Rightarrow> UnsubscribeClaim \<Rightarrow> string \<Rightarrow> string" where
  "signUnsubscribeToken hmac claim secret =
     (let payload = b64url (utf8_encode (json_stringify (WireClaim claim)));
          mac = b64url (hmac secret payload)
      in payload @ ''.'' @ mac)"

text \<open>Reading a field of a parsed value; a field of a non-object is \<open>undefined\<close>.\<close>

definition wire_field :: "json \<Rightarrow> string \<Rightarrow> json option" where
  "wire_field w k = (case w of JObj kvs \<Rightarrow> jm_get kvs k | _ \<Rightarrow> None)"

definition only_strings :: "json list \<Rightarrow> string list" where
  "only_strings xs = List.map_filter (\<lambda>j. case j of JStr s \<Rightarrow> Some s | _ \<Rightarrow> None) xs"

definition read_wire :: "json \<Rightarrow> UnsubscribeClaim option" where
  "read_wire wire =
     (case (wire_field wire ''p'', wire_field wire ''u'', wire_field wire ''c'',
            wire_field wire ''t'', wire_field wire ''k'') of
        (Some (JStr p), Some (JStr u), Some (JStr c), Some (JStr t), Some (JArr k)) \<Rightarrow>
          Some \<lparr>uc_projectId = p, uc_userId = u, uc_channel = c, uc_target = t,
                uc_topics = only_strings k\<rparr>
      | _ \<Rightarrow> None)"

text \<open>
  \<open>indexOf(".")\<close> is the length of the part before the first dot, or -1.
\<close>

definition indexOf_char :: "char \<Rightarrow> string \<Rightarrow> int" where
  "indexOf_char c s = (if c \<in> set s then int (length (takeWhile ((\<noteq>) c) s)) else -1)"

definition verifyUnsubscribeToken :: "mac \<Rightarrow> string \<Rightarrow> string \<Rightarrow> UnsubscribeClaim option" where
  "verifyUnsubscribeToken hmac token secret =
     (let dot = indexOf_char (CHR ''.'') token in
      if dot \<le> 0 \<or> dot = int (length token) - 1 then None
      else
        let payload = take (nat dot) token;
            provided = base64url_decode (drop (nat dot + 1) token);
            expected = hmac secret payload
        in if length provided \<noteq> length expected then None
           else if provided \<noteq> expected then None
           else case json_parse (utf8_decode (base64url_decode payload)) of
                  None \<Rightarrow> None
                | Some wire \<Rightarrow> read_wire wire)"

text \<open>\<open>encodeURIComponent\<close>: the unreserved characters as they are, any other byte as \<open>%XX\<close>.\<close>

definition uri_unreserved :: "char \<Rightarrow> bool" where
  "uri_unreserved c = (let n = (of_char c :: nat) in
     48 \<le> n \<and> n \<le> 57 \<or> 65 \<le> n \<and> n \<le> 90 \<or> 97 \<le> n \<and> n \<le> 122
       \<or> n \<in> {45, 95, 46, 33, 126, 42, 39, 40, 41})"

definition upper_hex :: "nat \<Rightarrow> char" where
  "upper_hex n = (if n < 10 then char_of (48 + n) else char_of (55 + n))"

definition encodeURIComponent :: "string \<Rightarrow> string" where
  "encodeURIComponent s =
     concat (map (\<lambda>c. if uri_unreserved c then [c]
                      else concat (map (\<lambda>b. let n = (of_char b :: nat)
                                            in [CHR ''%'', upper_hex (n div 16), upper_hex (n mod 16)])
                             (utf8_encode [c]))) s)"

record UnsubscribeHeaderOptions =
  uho_claim :: UnsubscribeClaim
  uho_secret :: string
  uho_publicUrl :: string

definition strip_slash :: "string \<Rightarrow> string" where
  "strip_slash u = (if u \<noteq> [] \<and> last u = CHR ''/'' then butlast u else u)"

definition buildUnsubscribeHeaders :: "mac \<Rightarrow> UnsubscribeHeaderOptions \<Rightarrow> (string \<times> string) list" where
  "buildUnsubscribeHeaders hmac options =
     (let token = signUnsubscribeToken hmac (uho_claim options) (uho_secret options);
          base = strip_slash (uho_publicUrl options);
          url = base @ ''/v1/unsubscribe?token='' @ encodeURIComponent token
      in [(''List-Unsubscribe'', ''<'' @ url @ ''>''),
          (''List-Unsubscribe-Post'', ''List-Unsubscribe=One-Click'')])"

section \<open>Properties\<close>

lemma read_wire_claim [simp]: "read_wire (WireClaim claim) = Some claim"
proof -
  have "only_strings (map JStr ts) = ts" for ts
    by (induction ts) (simp_all add: only_strings_def List.map_filter_simps)
  then show ?thesis by (simp add: read_wire_def WireClaim_def wire_field_def)
qed

lemma WireClaim_plain: "json_plain (WireClaim claim)"
  by (simp add: WireClaim_def list_all_iff)

lemma json_parse_wire [simp]: "json_parse (json_stringify (WireClaim claim)) = Some (WireClaim claim)"
  by (rule json_parse_stringify) (rule WireClaim_plain)

lemma dot_not_in_b64url [simp]: "CHR ''.'' \<notin> set (base64url_encode b)"
  using base64url_encode_chars [of b] dot_not_b64 by (auto simp: list_all_iff)

lemma indexOf_split:
  assumes "CHR ''.'' \<notin> set p"
  shows "indexOf_char (CHR ''.'') (p @ CHR ''.'' # m) = int (length p)"
proof -
  have "takeWhile ((\<noteq>) CHR ''.'') (p @ CHR ''.'' # m) = p"
    using assms by (subst takeWhile_append2) auto
  then show ?thesis by (simp add: indexOf_char_def)
qed

lemma utf8_encode_eq_Nil [simp]: "utf8_encode s = [] \<longleftrightarrow> s = []"
  by (cases s) (auto simp: Let_def)

lemma stringify_wire_ne [simp]: "json_stringify (WireClaim claim) \<noteq> []"
  by (simp add: WireClaim_def)

lemma verify_signed:
  assumes "digest_length hmac"
  shows "verifyUnsubscribeToken hmac (signUnsubscribeToken hmac claim secret) secret = Some claim"
proof -
  define p where "p = base64url_encode (utf8_encode (json_stringify (WireClaim claim)))"
  have "p \<noteq> []" "CHR ''.'' \<notin> set p" by (simp_all add: p_def)
  moreover have "base64url_decode p = utf8_encode (json_stringify (WireClaim claim))"
    by (simp add: p_def)
  moreover have "hmac secret p \<noteq> []"
    using assms unfolding digest_length_def by (metis list.size(3) zero_neq_numeral)
  ultimately show ?thesis
    by (simp add: signUnsubscribeToken_def verifyUnsubscribeToken_def b64url_def Let_def
        indexOf_split p_def [symmetric])
qed

text \<open>
  A signed token verifies under the same secret and gives back exactly the claim that
  was signed, whatever characters its fields contain.
\<close>
theorem unsubscribe_token_roundtrip:
  assumes "digest_length hmac"
  shows "verifyUnsubscribeToken hmac (signUnsubscribeToken hmac claim secret) secret = Some claim"
  using assms by (rule verify_signed)

lemma unsubscribe_token_roundtrip_witness:
  "verifyUnsubscribeToken (\<lambda>k d. replicate 32 (CHR ''m''))
     (signUnsubscribeToken (\<lambda>k d. replicate 32 (CHR ''m''))
        \<lparr>uc_projectId = ''p'', uc_userId = ''u'', uc_channel = ''email'', uc_target = ''a@b'',
         uc_topics = [''news'']\<rparr> ''s'') ''s''
   = Some \<lparr>uc_projectId = ''p'', uc_userId = ''u'', uc_channel = ''email'', uc_target = ''a@b'',
         uc_topics = [''news'']\<rparr>"
  by (rule unsubscribe_token_roundtrip) (simp add: digest_length_def)

text \<open>
  C40: A token is accepted only if its second part decodes to the MAC, under the server's
  secret, of its first part, the whole text before the first dot; the claim returned is what
  that authenticated text encodes. Nothing outside the authenticated text reaches the claim.
\<close>
theorem unsubscribe_token_authenticated:
  assumes "verifyUnsubscribeToken hmac token secret = Some claim"
  shows "\<exists>payload mac wire. token = payload @ ''.'' @ mac \<and> CHR ''.'' \<notin> set payload
    \<and> base64url_decode mac = hmac secret payload
    \<and> json_parse (utf8_decode (base64url_decode payload)) = Some wire
    \<and> read_wire wire = Some claim"
proof -
  have "CHR ''.'' \<in> set token"
    using assms by (auto simp: verifyUnsubscribeToken_def indexOf_char_def Let_def split: if_splits)
  then obtain p m where tok: "token = p @ CHR ''.'' # m" and "CHR ''.'' \<notin> set p"
    by (metis split_list_first)
  with assms tok show ?thesis
    by (intro exI [of _ p] exI [of _ m])
       (auto simp: verifyUnsubscribeToken_def indexOf_split Let_def split: if_splits option.splits)
qed

lemma unsubscribe_token_authenticated_witness:
  "\<exists>payload mac wire.
     signUnsubscribeToken (\<lambda>k d. replicate 32 (CHR ''m''))
        \<lparr>uc_projectId = ''p'', uc_userId = ''u'', uc_channel = ''sms'', uc_target = ''1'',
         uc_topics = []\<rparr> ''s'' = payload @ ''.'' @ mac
    \<and> CHR ''.'' \<notin> set payload \<and> base64url_decode mac = replicate 32 (CHR ''m'')
    \<and> json_parse (utf8_decode (base64url_decode payload)) = Some wire
    \<and> read_wire wire = Some \<lparr>uc_projectId = ''p'', uc_userId = ''u'', uc_channel = ''sms'',
         uc_target = ''1'', uc_topics = []\<rparr>"
proof (rule unsubscribe_token_authenticated [where hmac = "\<lambda>k d. replicate 32 (CHR ''m'')" and secret = "''s''"])
qed (rule verify_signed, simp add: digest_length_def)

text \<open>The token needs no escaping in the header's URL.\<close>

lemma b64_digit_unreserved: "n < 64 \<Longrightarrow> uri_unreserved (b64_digit n)"
  by (auto simp: uri_unreserved_def b64_digit_def Let_def)

lemma encode_unreserved: "list_all uri_unreserved s \<Longrightarrow> encodeURIComponent s = s"
  by (induction s) (simp_all add: encodeURIComponent_def)

lemma encode_signed_token:
  "encodeURIComponent (signUnsubscribeToken hmac claim secret) = signUnsubscribeToken hmac claim secret"
proof -
  have "list_all uri_unreserved (base64url_encode b)" for b
    using sextets_bound [of "map of_char b"]
    by (simp add: base64url_encode_def list_all_iff of_char_bound b64_digit_unreserved)
  then show ?thesis
    by (intro encode_unreserved) (simp add: signUnsubscribeToken_def Let_def b64url_def,
       simp add: uri_unreserved_def)
qed

end
