(* ===== verification/Calendar.thy ===== *)
theory Calendar
  imports NK_Prelude
begin

text \<open>
  The calendar of ECMAScript's \<open>Date\<close>: \<open>Date.UTC\<close> and the UTC fields of a time,
  on the proleptic Gregorian calendar. Years run from March, so that the leap day is the last
  one. The special reading \<open>Date.UTC\<close> has of the years 0 to 99 is left out: every year
  here comes from a wall clock.
\<close>

definition days_from_civil :: "int \<Rightarrow> int \<Rightarrow> int \<Rightarrow> int" where
  "days_from_civil y m d =
     (let yy = (if m \<le> 2 then y - 1 else y);
          mp = (if m > 2 then m - 3 else m + 9)
      in 365 * yy + yy div 4 - yy div 100 + yy div 400 + (153 * mp + 2) div 5 + d - 1 - 719468)"

definition civil_from_days :: "int \<Rightarrow> int \<times> int \<times> int" where
  "civil_from_days n =
     (let z = n + 719468;
          era = z div 146097; r = z mod 146097;
          c = min 3 (r div 36524); r1 = r - 36524 * c;
          q = r1 div 1461; r2 = r1 mod 1461;
          y = min 3 (r2 div 365); doy = r2 - 365 * y;
          mp = (5 * doy + 2) div 153;
          d = doy - (153 * mp + 2) div 5 + 1;
          m = (if mp < 10 then mp + 3 else mp - 9);
          yy = 400 * era + 100 * c + 4 * q + y
      in (if m \<le> 2 then yy + 1 else yy, m, d))"

abbreviation ms_per_day :: int where "ms_per_day \<equiv> 86400000"

text \<open>\<open>Date.UTC(y, m - 1, d, h, mi, s)\<close>; the day, hour, minute and second may overflow.\<close>

definition Date_UTC :: "int \<Rightarrow> int \<Rightarrow> int \<Rightarrow> int \<Rightarrow> int \<Rightarrow> int \<Rightarrow> ms" where
  "Date_UTC y m d h mi s =
     days_from_civil y m d * ms_per_day + h * 3600000 + mi * 60000 + s * 1000"

definition utc_date :: "ms \<Rightarrow> int \<times> int \<times> int" where
  "utc_date t = civil_from_days (t div ms_per_day)"

lemma days_in_cycles:
  fixes e c q y :: int
  assumes "0 \<le> c" "c \<le> 3" "0 \<le> q" "q \<le> 24" "0 \<le> y" "y \<le> 3"
  defines "Y \<equiv> 400 * e + 100 * c + 4 * q + y"
  shows "365 * Y + Y div 4 - Y div 100 + Y div 400 = 146097 * e + 36524 * c + 1461 * q + 365 * y"
proof -
  have "Y div 4 = 100 * e + 25 * c + q"
    by (rule int_div_pos_eq [where r = y]) (use assms in \<open>simp_all add: Y_def\<close>)
  moreover have "Y div 100 = 4 * e + c"
    by (rule int_div_pos_eq [where r = "4 * q + y"]) (use assms in \<open>simp_all add: Y_def\<close>)
  moreover have "Y div 400 = e"
    by (rule int_div_pos_eq [where r = "100 * c + 4 * q + y"]) (use assms in \<open>simp_all add: Y_def\<close>)
  ultimately have "Y div 4 = 100 * e + 25 * c + q" "Y div 100 = 4 * e + c" "Y div 400 = e"
    by simp_all
  then show ?thesis unfolding Y_def by simp
qed

lemma clamped_div:
  fixes a b :: int
  assumes "0 < b" "0 \<le> a" "a \<le> 4 * b"
  shows "0 \<le> a - b * min 3 (a div b)" "a - b * min 3 (a div b) \<le> b"
proof -
  have m: "a = b * (a div b) + a mod b" "0 \<le> a mod b" "a mod b < b" using assms by simp_all
  show "0 \<le> a - b * min 3 (a div b)"
  proof (cases "a div b \<le> 3")
    case True
    then have "min 3 (a div b) = a div b" by simp
    then show ?thesis using m by (simp only: minus_mod_eq_mult_div [symmetric])
  next
    case False
    then have "3 * b \<le> a div b * b" using assms by (intro mult_right_mono) auto
    moreover have "a div b * b \<le> a"
      using m(2) by (simp only: minus_mod_eq_div_mult [symmetric])
    ultimately have "3 * b \<le> a" by linarith
    with False show ?thesis by (simp add: min_def mult.commute)
  qed
  show "a - b * min 3 (a div b) \<le> b"
  proof (cases "a div b \<le> 3")
    case True
    then have "min 3 (a div b) = a div b" by simp
    then show ?thesis using m by (simp only: minus_mod_eq_mult_div [symmetric])
  qed (use assms in simp)
qed

lemma days_from_march:
  assumes "0 \<le> mp" "mp \<le> 11" and "m = (if mp < 10 then mp + 3 else mp - 9)"
  shows "days_from_civil (if m \<le> 2 then Y + 1 else Y) m d =
    365 * Y + Y div 4 - Y div 100 + Y div 400 + (153 * mp + 2) div 5 + d - 1 - 719468"
  using assms by (cases "mp < 10") (simp_all add: days_from_civil_def Let_def)

theorem days_civil_inverse:
  "(case civil_from_days n of (y, m, d) \<Rightarrow> days_from_civil y m d) = n"
proof -
  define z where "z = n + 719468"
  define e r where "e = z div 146097" and "r = z mod 146097"
  define c where "c = min 3 (r div 36524)"
  define r1 where "r1 = r - 36524 * c"
  define q r2 where "q = r1 div 1461" and "r2 = r1 mod 1461"
  define y where "y = min 3 (r2 div 365)"
  define doy where "doy = r2 - 365 * y"
  define mp where "mp = (5 * doy + 2) div 153"
  define Y where "Y = 400 * e + 100 * c + 4 * q + y"
  have r: "0 \<le> r" "r < 146097" by (simp_all add: r_def)
  have c: "0 \<le> c" "c \<le> 3" using r by (auto simp: c_def)
  have r1: "0 \<le> r1" "r1 \<le> 36524"
    using clamped_div [of 36524 r] r by (simp_all add: r1_def c_def)
  have q: "0 \<le> q" "q \<le> 24"
    using r1 zdiv_mono1 [of r1 36524 1461] by (simp_all add: q_def pos_imp_zdiv_nonneg_iff)
  have r2: "0 \<le> r2" "r2 < 1461" by (simp_all add: r2_def)
  have y: "0 \<le> y" "y \<le> 3" using r2 by (auto simp: y_def)
  have doy: "0 \<le> doy" "doy \<le> 365"
    using clamped_div [of 365 r2] r2 by (simp_all add: doy_def y_def)
  have mp: "0 \<le> mp" "mp \<le> 11"
    using doy zdiv_mono1 [of "5 * doy + 2" 1827 153]
    by (simp_all add: mp_def pos_imp_zdiv_nonneg_iff)
  have "146097 * e + 36524 * c + 1461 * q + 365 * y + doy = z"
    using minus_mod_eq_mult_div [of r1 1461] minus_mod_eq_mult_div [of z 146097]
    unfolding doy_def q_def r2_def r1_def e_def r_def by simp
  moreover have "365 * Y + Y div 4 - Y div 100 + Y div 400
      = 146097 * e + 36524 * c + 1461 * q + 365 * y"
    unfolding Y_def using c q y by (rule days_in_cycles)
  ultimately have main: "365 * Y + Y div 4 - Y div 100 + Y div 400 + doy = z" by simp
  have "civil_from_days n = (let m = (if mp < 10 then mp + 3 else mp - 9)
      in (if m \<le> 2 then Y + 1 else Y, m, doy - (153 * mp + 2) div 5 + 1))"
    by (simp only: civil_from_days_def Let_def z_def [symmetric] e_def [symmetric] r_def [symmetric]
        c_def [symmetric] r1_def [symmetric] q_def [symmetric] r2_def [symmetric] y_def [symmetric]
        doy_def [symmetric] mp_def [symmetric] Y_def [symmetric])
  then show ?thesis
    using main days_from_march [OF mp refl, of Y "doy - (153 * mp + 2) div 5 + 1"]
    by (simp only: Let_def prod.case z_def)
qed

lemma Date_UTC_utc_date:
  assumes "utc_date t = (y, m, d)"
  shows "Date_UTC y m d h mi s = t div ms_per_day * ms_per_day + h * 3600000 + mi * 60000 + s * 1000"
  using days_civil_inverse [of "t div ms_per_day"] assms by (simp add: Date_UTC_def utc_date_def)

lemma Date_UTC_next_day: "Date_UTC y m (d + 1) h mi s = Date_UTC y m d h mi s + ms_per_day"
  by (simp add: Date_UTC_def days_from_civil_def Let_def)

end
