(* ===== verification/Quiet_Hours.thy ===== *)
theory Quiet_Hours
  imports Calendar Json_Codec
begin

text \<open>
  Quiet hours (\<open>src/src/services/engine/quiet-hours.ts\<close>). What
  \<open>Intl.DateTimeFormat\<close> prints for a time in a zone is the parameter \<open>fmt\<close>:
  the wall clock fields, or \<open>None\<close> for a zone it refuses (its RangeError). The time zone
  database behind it is data outside the repository. The window bounds are the strings
  \<open>HH:MM\<close> the contract admits.
\<close>

record wall =
  w_year :: int
  w_month :: int
  w_day :: int
  w_hour :: int
  w_min :: int
  w_sec :: int

type_synonym formatter = "string \<Rightarrow> ms \<Rightarrow> wall option"

record quiet_window =
  qw_start :: string
  qw_end :: string

text \<open>A parsed clock reading sent through \<open>Date.UTC\<close>.\<close>

definition wall_utc :: "wall \<Rightarrow> ms" where
  "wall_utc p = Date_UTC (w_year p) (w_month p) (w_day p) (w_hour p) (w_min p) (w_sec p)"

text \<open>The loop of \<open>localTimeToUtc\<close>, \<open>n\<close> iterations of at most 3.\<close>

fun localTimeToUtc_loop :: "nat \<Rightarrow> (ms \<Rightarrow> wall) \<Rightarrow> ms \<Rightarrow> ms \<Rightarrow> ms" where
  "localTimeToUtc_loop 0 formatter targetMs utcMs = utcMs"
| "localTimeToUtc_loop (Suc n) formatter targetMs utcMs =
     (let actualMs = wall_utc (formatter utcMs);
          diff = targetMs - actualMs
      in if diff = 0 then utcMs
         else localTimeToUtc_loop n formatter targetMs (utcMs + diff))"

definition localTimeToUtc :: "(ms \<Rightarrow> wall) \<Rightarrow> int \<Rightarrow> int \<Rightarrow> int \<Rightarrow> int \<Rightarrow> int \<Rightarrow> int \<Rightarrow> ms" where
  "localTimeToUtc formatter year month day hour minute second =
     (let targetMs = Date_UTC year month day hour minute second
      in localTimeToUtc_loop 3 formatter targetMs targetMs)"

text \<open>\<open>s.split(":").map(Number)\<close>, destructured to its first two parts.\<close>

fun split_colon :: "string \<Rightarrow> string list" where
  "split_colon [] = [[]]"
| "split_colon (c # cs) =
     (if c = CHR '':'' then [] # split_colon cs
      else case split_colon cs of p # ps \<Rightarrow> (c # p) # ps | [] \<Rightarrow> [[c]])"

definition hhmm :: "string \<Rightarrow> (int \<times> int) option" where
  "hhmm s = (case split_colon s of
       h # m # _ \<Rightarrow> Some (int (digits_val 0 h), int (digits_val 0 m))
     | _ \<Rightarrow> None)"

definition in_quiet_window :: "int \<Rightarrow> int \<Rightarrow> int \<Rightarrow> bool" where
  "in_quiet_window startMinutes endMinutes currentMinutes =
     (if startMinutes \<le> endMinutes then currentMinutes \<ge> startMinutes \<and> currentMinutes < endMinutes
      else currentMinutes \<ge> startMinutes \<or> currentMinutes < endMinutes)"

text \<open>The release time of the window ending at \<open>endH:endM\<close>, from inside it.\<close>

definition window_release :: "(ms \<Rightarrow> wall) \<Rightarrow> ms \<Rightarrow> int \<Rightarrow> int \<Rightarrow> ms" where
  "window_release formatter date endH endM =
     (let p = formatter date;
          currentMinutes = w_hour p * 60 + w_min p;
          endMinutes = endH * 60 + endM;
          (targetYear, targetMonth, targetDay) =
            (if currentMinutes \<ge> endMinutes
             then utc_date (Date_UTC (w_year p) (w_month p) (w_day p + 1) 0 0 0)
             else (w_year p, w_month p, w_day p));
          nextActive = localTimeToUtc formatter targetYear targetMonth targetDay endH endM 0
      in if nextActive \<le> date
         then let offsetMs = wall_utc p - date div 1000 * 1000
              in Date_UTC targetYear targetMonth targetDay endH endM 0 - offsetMs
         else nextActive)"

datatype quiet_result = NotQuiet | Quiet ms

fun check_windows :: "(ms \<Rightarrow> wall) \<Rightarrow> ms \<Rightarrow> quiet_window list \<Rightarrow> quiet_result" where
  "check_windows formatter date [] = NotQuiet"
| "check_windows formatter date (window # rest) =
     (case (hhmm (qw_start window), hhmm (qw_end window)) of
        (Some (startH, startM), Some (endH, endM)) \<Rightarrow>
          (if in_quiet_window (startH * 60 + startM) (endH * 60 + endM)
                (w_hour (formatter date) * 60 + w_min (formatter date))
           then Quiet (window_release formatter date endH endM)
           else check_windows formatter date rest)
      | _ \<Rightarrow> check_windows formatter date rest)"

text \<open>\<open>checkWindowAt\<close>; the zone is refused for every time or for none.\<close>

definition zone_clock :: "formatter \<Rightarrow> string \<Rightarrow> ms \<Rightarrow> wall" where
  "zone_clock fmt timezone t = the (fmt timezone t)"

definition checkWindowAt :: "formatter \<Rightarrow> string \<Rightarrow> quiet_window list \<Rightarrow> ms \<Rightarrow> quiet_result option" where
  "checkWindowAt fmt timezone quietHours date =
     (case fmt timezone date of
        None \<Rightarrow> None
      | Some _ \<Rightarrow> Some (check_windows (zone_clock fmt timezone) date quietHours))"

fun chain_windows :: "nat \<Rightarrow> formatter \<Rightarrow> string \<Rightarrow> quiet_window list \<Rightarrow> ms \<Rightarrow> ms" where
  "chain_windows 0 fmt timezone quietHours candidateTime = candidateTime"
| "chain_windows (Suc i) fmt timezone quietHours candidateTime =
     (case checkWindowAt fmt timezone quietHours candidateTime of
        Some (Quiet nextActiveTime) \<Rightarrow>
          (if nextActiveTime \<le> candidateTime then candidateTime
           else chain_windows i fmt timezone quietHours nextActiveTime)
      | _ \<Rightarrow> candidateTime)"

definition isInQuietHours :: "formatter \<Rightarrow> string \<Rightarrow> quiet_window list \<Rightarrow> ms \<Rightarrow> quiet_result" where
  "isInQuietHours fmt timezone quietHours fromDate =
     (if quietHours = [] then NotQuiet
      else case checkWindowAt fmt timezone quietHours fromDate of
        Some (Quiet t) \<Rightarrow> Quiet (chain_windows 10 fmt timezone quietHours t)
      | _ \<Rightarrow> NotQuiet)"

section \<open>The release time lies ahead\<close>

text \<open>The fields of a 24 hour wall clock: hours 0 to 23, and midnight is 0.\<close>

definition h23_clock :: "formatter \<Rightarrow> bool" where
  "h23_clock fmt = (\<forall>z t p. fmt z t = Some p \<longrightarrow>
     0 \<le> w_hour p \<and> w_hour p < 24 \<and> 0 \<le> w_min p \<and> w_min p < 60 \<and> 0 \<le> w_sec p \<and> w_sec p < 60)"

lemma Date_UTC_midnight: "Date_UTC y m d 0 0 0 div ms_per_day * ms_per_day = Date_UTC y m d 0 0 0"
  by (simp add: Date_UTC_def)

lemma Date_UTC_split: "Date_UTC y m d h mi s = Date_UTC y m d 0 0 0 + h * 3600000 + mi * 60000 + s * 1000"
  by (simp add: Date_UTC_def)

lemma Date_UTC_of_next_day:
  "utc_date (Date_UTC y m (d + 1) 0 0 0) = (ty, tm, td) \<Longrightarrow>
   Date_UTC ty tm td h mi s = Date_UTC y m d h mi s + ms_per_day"
  using Date_UTC_utc_date [of "Date_UTC y m (d + 1) 0 0 0" ty tm td h mi s]
  by (simp only: Date_UTC_midnight Date_UTC_split [of y m d h] Date_UTC_next_day) (simp add: Date_UTC_def)

lemma window_release_ahead:
  assumes "w_hour (f t) < 24" "0 \<le> w_min (f t)" "w_min (f t) < 60" "0 \<le> w_sec (f t)" "w_sec (f t) < 60"
    and "0 \<le> eH" "0 \<le> eM" "0 \<le> w_hour (f t)"
  shows "t < window_release f t eH eM"
proof -
  let ?p = "f t"
  have t: "t div 1000 * 1000 \<le> t" "t < t div 1000 * 1000 + 1000"
    by (simp_all add: minus_mod_eq_div_mult [symmetric])
  show ?thesis
  proof (cases "w_hour ?p * 60 + w_min ?p \<ge> eH * 60 + eM")
    case True
    obtain ty tm td where n: "utc_date (Date_UTC (w_year ?p) (w_month ?p) (w_day ?p + 1) 0 0 0) = (ty, tm, td)"
      by (metis prod_cases3)
    have "Date_UTC ty tm td eH eM 0 = Date_UTC (w_year ?p) (w_month ?p) (w_day ?p) eH eM 0 + ms_per_day"
      using n by (rule Date_UTC_of_next_day)
    then have "wall_utc ?p + 1000 \<le> Date_UTC ty tm td eH eM 0"
      using assms by (simp add: wall_utc_def Date_UTC_def)
    then show ?thesis using True n t by (simp add: window_release_def Let_def)
  next
    case False
    then have "wall_utc ?p + 1000 \<le> Date_UTC (w_year ?p) (w_month ?p) (w_day ?p) eH eM 0"
      using assms by (simp add: wall_utc_def Date_UTC_def)
    then show ?thesis using False t by (simp add: window_release_def Let_def)
  qed
qed

lemma hhmm_nonneg: "hhmm s = Some (h, m) \<Longrightarrow> 0 \<le> h \<and> 0 \<le> m"
  by (auto simp: hhmm_def split: list.splits)

lemma check_windows_ahead:
  assumes "h23_clock fmt" "fmt z t = Some p" "check_windows (zone_clock fmt z) t ws = Quiet n"
  shows "t < n"
  using assms(3)
proof (induction ws)
  case (Cons w ws)
  have p: "zone_clock fmt z t = p" using assms(2) by (simp add: zone_clock_def)
  have c: "0 \<le> w_hour p" "w_hour p < 24" "0 \<le> w_min p" "w_min p < 60" "0 \<le> w_sec p" "w_sec p < 60"
    using assms(1,2) unfolding h23_clock_def by blast+
  show ?case
    using Cons hhmm_nonneg [of "qw_end w"] window_release_ahead [of "zone_clock fmt z" t] c
    by (auto simp: p split: option.splits prod.splits if_splits)
qed simp

lemma chain_windows_ahead: "t \<le> chain_windows i fmt z ws t"
proof (induction i arbitrary: t)
  case (Suc i)
  show ?case using Suc
    by (auto split: option.split quiet_result.split) (meson linear order_trans)
qed simp

lemma quiet_release_after:
  assumes "h23_clock fmt" "isInQuietHours fmt timezone quietHours fromDate = Quiet nextActiveTime"
  shows "fromDate < nextActiveTime"
proof -
  obtain p t where "fmt timezone fromDate = Some p"
    "check_windows (zone_clock fmt timezone) fromDate quietHours = Quiet t"
    "nextActiveTime = chain_windows 10 fmt timezone quietHours t"
    using assms(2)
    by (auto simp: isInQuietHours_def checkWindowAt_def split: if_splits option.splits quiet_result.splits)
  with check_windows_ahead [OF assms(1)] chain_windows_ahead show ?thesis
    by (metis order_less_le_trans)
qed


text \<open>
  In any time zone, daylight saving included, and for any list of windows, chained or
  overlapping, the time quiet hours hold a message until is strictly after the time it was
  judged at: a held message is never released into the past.
\<close>
theorem quiet_hours_release_ahead:
  assumes "h23_clock fmt" "isInQuietHours fmt timezone quietHours fromDate = Quiet nextActiveTime"
  shows "fromDate < nextActiveTime"
  using assms by (rule quiet_release_after)

section \<open>A zone of fixed offset\<close>

text \<open>The clock of a zone \<open>off\<close> milliseconds ahead of UTC, and its minute of the day.\<close>

definition fixed_zone :: "ms \<Rightarrow> formatter" where
  "fixed_zone off z t =
     (let l = t + off; (y, m, d) = utc_date l; r = l mod ms_per_day
      in Some \<lparr>w_year = y, w_month = m, w_day = d, w_hour = r div 3600000,
               w_min = r mod 3600000 div 60000, w_sec = r mod 60000 div 1000\<rparr>)"

definition day_minute :: "ms \<Rightarrow> ms \<Rightarrow> int" where
  "day_minute off t = (t + off) mod ms_per_day div 60000"

lemma fixed_zone_h23: "h23_clock (fixed_zone off)"
proof -
  have "0 \<le> r div 3600000 \<and> r div 3600000 < 24" if "0 \<le> r" "r < ms_per_day" for r :: int
    using that zdiv_mono1 [of r 86399999 3600000] by (simp add: pos_imp_zdiv_nonneg_iff)
  moreover have "0 \<le> r mod 3600000 div 60000 \<and> r mod 3600000 div 60000 < 60" for r :: int
    using zdiv_mono1 [of "r mod 3600000" 3599999 60000] pos_mod_bound [of 3600000 r]
    by (simp add: pos_imp_zdiv_nonneg_iff)
  moreover have "0 \<le> r mod 60000 div 1000 \<and> r mod 60000 div 1000 < 60" for r :: int
    using zdiv_mono1 [of "r mod 60000" 59999 1000] pos_mod_bound [of 60000 r]
    by (simp add: pos_imp_zdiv_nonneg_iff)
  ultimately show ?thesis
    by (auto simp: h23_clock_def fixed_zone_def Let_def split: prod.splits)
qed

lemma mod_split_clock:
  fixes r :: int
  shows "r div 3600000 * 3600000 + r mod 3600000 div 60000 * 60000 + r mod 60000 div 1000 * 1000
         = r div 1000 * 1000"
    and "r div 3600000 * 60 + r mod 3600000 div 60000 = r div 60000"
proof -
  define h a where "h = r div 3600000" and "a = r mod 3600000"
  define mi b where "mi = a div 60000" and "b = a mod 60000"
  define s c where "s = b div 1000" and "c = b mod 1000"
  have r: "r = h * 3600000 + (mi * 60000 + (s * 1000 + c))" and c: "0 \<le> c" "c < 1000"
    unfolding h_def a_def mi_def b_def s_def c_def by simp_all
  have b: "r mod 60000 = b" unfolding b_def a_def by (simp add: mod_mod_cancel)
  have "r div 1000 = h * 3600 + mi * 60 + s"
    by (rule int_div_pos_eq [where r = c]) (use r c in simp_all)
  then show "r div 3600000 * 3600000 + r mod 3600000 div 60000 * 60000 + r mod 60000 div 1000 * 1000
         = r div 1000 * 1000"
    unfolding b a_def [symmetric] h_def [symmetric] mi_def [symmetric] s_def [symmetric] by simp
  have "0 \<le> b" "b < 60000" by (simp_all add: b_def)
  moreover have "r = h * 3600000 + mi * 60000 + b" unfolding h_def a_def mi_def b_def by simp
  ultimately have "r div 60000 = h * 60 + mi"
    by (intro int_div_pos_eq [where r = b]) simp_all
  then show "r div 3600000 * 60 + r mod 3600000 div 60000 = r div 60000"
    unfolding a_def [symmetric] h_def [symmetric] mi_def [symmetric] by simp
qed

lemma fixed_zone_wall:
  "wall_utc (the (fixed_zone off z t)) = (t + off) div 1000 * 1000"
  "w_hour (the (fixed_zone off z t)) * 60 + w_min (the (fixed_zone off z t)) = day_minute off t"
  "Date_UTC (w_year (the (fixed_zone off z t))) (w_month (the (fixed_zone off z t)))
     (w_day (the (fixed_zone off z t))) h mi 0 = (t + off) div ms_per_day * ms_per_day + h * 3600000 + mi * 60000"
proof -
  obtain y m d where ymd: "utc_date (t + off) = (y, m, d)" by (metis prod_cases3)
  define r where "r = (t + off) mod ms_per_day"
  have "(t + off) div 1000 * 1000 = (t + off) div ms_per_day * ms_per_day + r div 1000 * 1000"
  proof -
    have "t + off = r + 1000 * (86400 * ((t + off) div ms_per_day))"
      unfolding r_def using mod_mult_div_eq [of "t + off" ms_per_day] by linarith
    then have "(t + off) div 1000 = 86400 * ((t + off) div ms_per_day) + r div 1000"
      by (metis div_mult_self2 zero_neq_numeral)
    then show ?thesis by simp
  qed
  note conv = this
  note fz = fixed_zone_def Let_def ymd prod.case option.sel wall_utc_def wall.simps r_def [symmetric]
    Date_UTC_utc_date [OF ymd]
  show "wall_utc (the (fixed_zone off z t)) = (t + off) div 1000 * 1000"
    unfolding fz conv using mod_split_clock(1) [of r] by linarith
  show "w_hour (the (fixed_zone off z t)) * 60 + w_min (the (fixed_zone off z t)) = day_minute off t"
    unfolding fz day_minute_def by (rule mod_split_clock)
  show "Date_UTC (w_year (the (fixed_zone off z t))) (w_month (the (fixed_zone off z t)))
     (w_day (the (fixed_zone off z t))) h mi 0 = (t + off) div ms_per_day * ms_per_day + h * 3600000 + mi * 60000"
    unfolding fz by simp
qed


lemma localTimeToUtc_fixed:
  assumes "off mod 1000 = 0"
  shows "localTimeToUtc (zone_clock (fixed_zone off) z) y m d h mi 0 = Date_UTC y m d h mi 0 - off"
proof -
  define T where "T = Date_UTC y m d h mi 0"
  have T: "T = 1000 * (86400 * days_from_civil y m d + 3600 * h + 60 * mi)"
    by (simp add: T_def Date_UTC_def)
  have whole: "wall_utc (zone_clock (fixed_zone off) z u) = u + off" if "(u + off) mod 1000 = 0" for u
    using that fixed_zone_wall(1) [of off z u] div_mult_mod_eq [of "u + off" 1000]
    by (simp add: zone_clock_def)
  have "(T + off) mod 1000 = 0" "T mod 1000 = 0"
    using assms by (simp_all only: T mod_mult_self4 mod_mult_self1_is_0)
  then have "wall_utc (zone_clock (fixed_zone off) z T) = T + off"
    "wall_utc (zone_clock (fixed_zone off) z (T - off)) = T"
    using whole [of T] whole [of "T - off"] by simp_all
  then have "localTimeToUtc_loop 3 (zone_clock (fixed_zone off) z) T T = T - off"
    by (simp add: numeral_3_eq_3)
  then show ?thesis by (simp add: localTimeToUtc_def T_def Let_def)
qed

lemma div_minute_less: "(x::int) < e * 60000 \<Longrightarrow> x div 60000 < e"
proof (rule ccontr)
  assume a: "x < e * 60000" "\<not> x div 60000 < e"
  then have "e * 60000 \<le> x div 60000 * 60000" by simp
  also have "\<dots> \<le> x" by (simp add: minus_mod_eq_div_mult [symmetric])
  finally show False using a by simp
qed

lemma minute_less_div: "(x::int) div 60000 < e \<Longrightarrow> x < e * 60000"
  using div_mult_mod_eq [of x 60000] pos_mod_bound [of "60000::int" x] by simp

text \<open>Minutes of the day across one day and the next.\<close>

lemma day_minute_in_day:
  assumes "D * ms_per_day \<le> v" "v < (D + 1) * ms_per_day"
  shows "v div ms_per_day = D" "v mod ms_per_day div 60000 = (v - D * ms_per_day) div 60000"
proof -
  show d: "v div ms_per_day = D"
    by (rule int_div_pos_eq [where r = "v - D * ms_per_day"]) (use assms in \<open>simp_all add: algebra_simps\<close>)
  show "v mod ms_per_day div 60000 = (v - D * ms_per_day) div 60000"
    unfolding minus_div_mult_eq_mod [symmetric] d ..
qed

lemma day_bounds: "l div ms_per_day * ms_per_day \<le> (l::int)" "l < (l div ms_per_day + 1) * ms_per_day"
  using mod_mult_div_eq [of l ms_per_day] pos_mod_bound [of ms_per_day l] pos_mod_sign [of ms_per_day l]
  by (simp_all only: distrib_right mult.commute) simp_all

text \<open>The next time after \<open>l\<close> at which the clock shows \<open>e\<close> minutes.\<close>

definition next_clock :: "int \<Rightarrow> int \<Rightarrow> int" where
  "next_clock e l = (if l mod ms_per_day div 60000 \<ge> e then l div ms_per_day + 1 else l div ms_per_day)
     * ms_per_day + e * 60000"

lemma next_clock_window:
  assumes e: "0 \<le> e" "e < 1440"
    and inw: "in_quiet_window s e (l mod ms_per_day div 60000)"
    and v: "l \<le> v" "v < next_clock e l"
  shows "in_quiet_window s e (v mod ms_per_day div 60000)"
proof -
  define D where "D = l div ms_per_day"
  have D: "D * ms_per_day \<le> l" "l < (D + 1) * ms_per_day" using day_bounds [of l] by (simp_all add: D_def)
  define ml where "ml = (l - D * ms_per_day) div 60000"
  have ml: "l mod ms_per_day div 60000 = ml"
    using day_minute_in_day(2) [OF D] by (simp only: ml_def)
  show ?thesis
  proof (cases "v < (D + 1) * ms_per_day")
    case True
    have mv: "v mod ms_per_day div 60000 = (v - D * ms_per_day) div 60000"
      using day_minute_in_day(2) [of D v] True D v by linarith
    have le: "ml \<le> (v - D * ms_per_day) div 60000"
      unfolding ml_def by (rule zdiv_mono1) (use v in simp_all)
    show ?thesis
    proof (cases "ml \<ge> e")
      case True
      then show ?thesis using inw le unfolding mv ml by (auto simp: in_quiet_window_def split: if_splits)
    next
      case False
      then have "v - D * ms_per_day < e * 60000"
        using v unfolding next_clock_def ml D_def [symmetric] by simp
      then have "(v - D * ms_per_day) div 60000 < e" by (rule div_minute_less)
      with inw le show ?thesis unfolding mv ml by (auto simp: in_quiet_window_def split: if_splits)
    qed
  next
    case False
    then have ge: "ml \<ge> e" and vb: "v - (D + 1) * ms_per_day < e * 60000"
      using v e unfolding next_clock_def ml D_def [symmetric] by (auto simp: algebra_simps split: if_splits)
    have mv: "v mod ms_per_day div 60000 = (v - (D + 1) * ms_per_day) div 60000"
      using day_minute_in_day(2) [of "D + 1" v] False vb e by (simp add: algebra_simps)
    have "(v - (D + 1) * ms_per_day) div 60000 < e" using vb by (rule div_minute_less)
    with inw ge show ?thesis unfolding mv ml by (auto simp: in_quiet_window_def split: if_splits)
  qed
qed

lemma next_clock_minute:
  assumes "0 \<le> e" "e < 1440"
  shows "next_clock e l mod ms_per_day div 60000 = e"
  using assms unfolding next_clock_def
  by (subst day_minute_in_day(2) [where D = "if l mod ms_per_day div 60000 \<ge> e
        then l div ms_per_day + 1 else l div ms_per_day"]) (simp_all add: algebra_simps)


lemma window_release_fixed:
  assumes "off mod 1000 = 0" "0 \<le> eh" "0 \<le> em"
  shows "window_release (zone_clock (fixed_zone off) z) t eh em
         = next_clock (eh * 60 + em) (t + off) - off"
proof -
  let ?p = "zone_clock (fixed_zone off) z t"
  let ?r = "window_release (zone_clock (fixed_zone off) z) t eh em"
  have m: "w_hour ?p * 60 + w_min ?p = (t + off) mod ms_per_day div 60000"
    using fixed_zone_wall(2) [of off z t] by (simp only: zone_clock_def day_minute_def)
  have d: "Date_UTC (w_year ?p) (w_month ?p) (w_day ?p) eh em 0
      = (t + off) div ms_per_day * ms_per_day + eh * 3600000 + em * 60000"
    unfolding zone_clock_def by (rule fixed_zone_wall)
  obtain ty tm td where n: "utc_date (Date_UTC (w_year ?p) (w_month ?p) (w_day ?p + 1) 0 0 0) = (ty, tm, td)"
    by (metis prod_cases3)
  have ahead: "t < next_clock (eh * 60 + em) (t + off) - off"
  proof (cases "(t + off) mod ms_per_day div 60000 \<ge> eh * 60 + em")
    case True
    then show ?thesis using day_bounds [of "t + off"] assms by (simp add: next_clock_def algebra_simps)
  next
    case False
    then have "(t + off) mod ms_per_day < (eh * 60 + em) * 60000"
      by (intro minute_less_div) simp
    moreover have "(t + off) div ms_per_day * ms_per_day + (t + off) mod ms_per_day = t + off"
      by (rule div_mult_mod_eq)
    moreover have "next_clock (eh * 60 + em) (t + off)
        = (t + off) div ms_per_day * ms_per_day + (eh * 60 + em) * 60000"
      using False by (simp add: next_clock_def)
    ultimately show ?thesis by linarith
  qed
  show ?thesis
  proof (cases "(t + off) mod ms_per_day div 60000 \<ge> eh * 60 + em")
    case True
    then show ?thesis using ahead n d m Date_UTC_of_next_day [OF n, of eh em 0]
      by (simp add: window_release_def Let_def localTimeToUtc_fixed [OF assms(1)] next_clock_def)
  next
    case False
    then show ?thesis using ahead d m
      by (simp add: window_release_def Let_def localTimeToUtc_fixed [OF assms(1)] next_clock_def)
  qed
qed

lemma isInQuietHours_fixed:
  assumes "off mod 1000 = 0" "hhmm (qw_start w) = Some (sh, sm)" "hhmm (qw_end w) = Some (eh, em)"
    and "eh * 60 + em < 1440"
  shows "isInQuietHours (fixed_zone off) z [w] t =
    (if in_quiet_window (sh * 60 + sm) (eh * 60 + em) (day_minute off t)
     then Quiet (next_clock (eh * 60 + em) (t + off) - off) else NotQuiet)"
proof -
  let ?n = "next_clock (eh * 60 + em) (t + off) - off"
  have e: "0 \<le> eh" "0 \<le> em" using hhmm_nonneg [OF assms(3)] by auto
  have chk: "checkWindowAt (fixed_zone off) z [w] u =
      Some (if in_quiet_window (sh * 60 + sm) (eh * 60 + em) (day_minute off u)
            then Quiet (next_clock (eh * 60 + em) (u + off) - off) else NotQuiet)" for u
  proof -
    obtain p where p: "fixed_zone off z u = Some p"
      by (cases "utc_date (u + off)") (simp add: fixed_zone_def Let_def)
    have "w_hour p * 60 + w_min p = day_minute off u"
      using fixed_zone_wall(2) [of off z u] by (simp add: p)
    then show ?thesis
      using window_release_fixed [OF assms(1) e, of z u] assms(2,3)
      by (simp add: checkWindowAt_def zone_clock_def p)
  qed
  have "day_minute off ?n = eh * 60 + em"
    using next_clock_minute [of "eh * 60 + em" "t + off"] e assms(4) by (simp add: day_minute_def)
  then have "\<not> in_quiet_window (sh * 60 + sm) (eh * 60 + em) (day_minute off ?n)"
    by (simp add: in_quiet_window_def)
  then have "chain_windows 10 (fixed_zone off) z [w] ?n = ?n"
    by (simp add: chk numeral_eq_Suc)
  then show ?thesis by (simp add: isInQuietHours_def chk)
qed

lemma quiet_hours_release_ahead_witness:
  "isInQuietHours (fixed_zone 3600000) ''Europe/Paris'' [\<lparr>qw_start = ''22:00'', qw_end = ''07:30''\<rparr>]
     1700000000000 = Quiet 1700029800000 \<and> (1700000000000 :: ms) < 1700029800000"
proof -
  have q: "isInQuietHours (fixed_zone 3600000) ''Europe/Paris'' [\<lparr>qw_start = ''22:00'', qw_end = ''07:30''\<rparr>]
     1700000000000 = Quiet 1700029800000"
    by (subst isInQuietHours_fixed [where sh = 22 and sm = 0 and eh = 7 and em = 30]) code_simp+
  show ?thesis using q quiet_hours_release_ahead [OF fixed_zone_h23 q] by simp
qed

text \<open>
  In a zone of constant offset with one window, overnight or not, a message is held
  exactly when the user's clock is inside the window, and the time it is held until is the
  first moment the clock leaves the window: every moment from the judged time up to it lies
  inside, and it lies outside.
\<close>
theorem quiet_hours_end_at_window_end:
  assumes "off mod 1000 = 0" "hhmm (qw_start w) = Some (sh, sm)" "hhmm (qw_end w) = Some (eh, em)"
    and "eh * 60 + em < 1440"
  shows "case isInQuietHours (fixed_zone off) z [w] t of
      NotQuiet \<Rightarrow> \<not> in_quiet_window (sh * 60 + sm) (eh * 60 + em) (day_minute off t)
    | Quiet n \<Rightarrow> t < n \<and> \<not> in_quiet_window (sh * 60 + sm) (eh * 60 + em) (day_minute off n)
        \<and> (\<forall>u. t \<le> u \<and> u < n \<longrightarrow> in_quiet_window (sh * 60 + sm) (eh * 60 + em) (day_minute off u))"
proof (cases "in_quiet_window (sh * 60 + sm) (eh * 60 + em) (day_minute off t)")
  case True
  let ?e = "eh * 60 + em" and ?n = "next_clock (eh * 60 + em) (t + off) - off"
  have e: "0 \<le> eh" "0 \<le> em" using hhmm_nonneg [OF assms(3)] by auto
  have q: "isInQuietHours (fixed_zone off) z [w] t = Quiet ?n"
    using True by (simp add: isInQuietHours_fixed [OF assms])
  have "day_minute off ?n = ?e"
    using next_clock_minute [of ?e "t + off"] e assms(4) by (simp add: day_minute_def)
  then have "\<not> in_quiet_window (sh * 60 + sm) ?e (day_minute off ?n)" by (simp add: in_quiet_window_def)
  moreover have "in_quiet_window (sh * 60 + sm) ?e (day_minute off u)" if "t \<le> u" "u < ?n" for u
    unfolding day_minute_def
    by (rule next_clock_window [where l = "t + off"])
       (use True that e assms(4) in \<open>simp_all add: day_minute_def\<close>)
  moreover have "t < ?n" using fixed_zone_h23 q
    by (rule quiet_release_after)
  ultimately show ?thesis using q by simp
qed (simp add: isInQuietHours_fixed [OF assms])

lemma quiet_hours_end_at_window_end_witness:
  "case isInQuietHours (fixed_zone 3600000) ''Europe/Paris''
      [\<lparr>qw_start = ''22:00'', qw_end = ''07:30''\<rparr>] 1700000000000 of
      NotQuiet \<Rightarrow> \<not> in_quiet_window (22 * 60 + 0) (7 * 60 + 30) (day_minute 3600000 1700000000000)
    | Quiet n \<Rightarrow> 1700000000000 < n \<and> \<not> in_quiet_window (22 * 60 + 0) (7 * 60 + 30) (day_minute 3600000 n)
        \<and> (\<forall>u. 1700000000000 \<le> u \<and> u < n
              \<longrightarrow> in_quiet_window (22 * 60 + 0) (7 * 60 + 30) (day_minute 3600000 u))"
  by (rule quiet_hours_end_at_window_end) (simp, code_simp, code_simp, simp)

section \<open>Midnight printed as 24\<close>

text \<open>A clock whose hour after midnight is 24.\<close>

definition h24_utc :: "formatter" where
  "h24_utc z t = map_option (\<lambda>p. if w_hour p = 0 then p\<lparr>w_hour := 24\<rparr> else p) (fixed_zone 0 z t)"

text \<open>
  \<open>hour12: false\<close> in the en-US locale lets the formatter print the hour after midnight
  as 24 instead of 00. With such a clock the code counts 1440 minutes and more, takes the end
  of the window to be on the following day, and holds the message a day too long.
\<close>

theorem midnight_as_24_holds_a_day_longer:
  "isInQuietHours (fixed_zone 0) z [\<lparr>qw_start = ''22:00'', qw_end = ''07:00''\<rparr>]
     (Date_UTC 2026 1 10 0 30 0) = Quiet (Date_UTC 2026 1 10 7 0 0) \<and>
   isInQuietHours h24_utc z [\<lparr>qw_start = ''22:00'', qw_end = ''07:00''\<rparr>]
     (Date_UTC 2026 1 10 0 30 0) = Quiet (Date_UTC 2026 1 11 7 0 0)"
proof
  have hm: "hhmm ''22:00'' = Some (22, 0)" "hhmm ''07:00'' = Some (7, 0)" by code_simp+
  show "isInQuietHours (fixed_zone 0) z [\<lparr>qw_start = ''22:00'', qw_end = ''07:00''\<rparr>]
     (Date_UTC 2026 1 10 0 30 0) = Quiet (Date_UTC 2026 1 10 7 0 0)"
    by (subst isInQuietHours_fixed [where sh = 22 and sm = 0 and eh = 7 and em = 0])
       (simp_all add: hm, code_simp)
  have t: "Date_UTC 2026 1 10 0 30 0 = 1768005000000" "Date_UTC 2026 1 11 7 0 0 = 1768114800000"
    "Date_UTC 2026 1 10 24 30 0 = 1768091400000" "utc_date (Date_UTC 2026 1 11 0 0 0) = (2026, 1, 11)"
    by code_simp+
  have f: "h24_utc z 1768005000000 =
      Some \<lparr>w_year = 2026, w_month = 1, w_day = 10, w_hour = 24, w_min = 30, w_sec = 0\<rparr>"
    "h24_utc z 1768114800000 =
      Some \<lparr>w_year = 2026, w_month = 1, w_day = 11, w_hour = 7, w_min = 0, w_sec = 0\<rparr>"
    unfolding h24_utc_def fixed_zone_def by code_simp+
  have l: "localTimeToUtc (zone_clock h24_utc z) 2026 1 11 7 0 0 = 1768114800000"
    by (simp add: localTimeToUtc_def numeral_3_eq_3 t f zone_clock_def wall_utc_def)
  have r: "window_release (zone_clock h24_utc z) 1768005000000 7 0 = 1768114800000"
    using l by (simp add: window_release_def f t zone_clock_def)
  have c: "checkWindowAt h24_utc z [\<lparr>qw_start = ''22:00'', qw_end = ''07:00''\<rparr>] 1768005000000
      = Some (Quiet 1768114800000)"
    "checkWindowAt h24_utc z [\<lparr>qw_start = ''22:00'', qw_end = ''07:00''\<rparr>] 1768114800000 = Some NotQuiet"
    using r by (simp_all add: checkWindowAt_def hm f zone_clock_def in_quiet_window_def)
  show "isInQuietHours h24_utc z [\<lparr>qw_start = ''22:00'', qw_end = ''07:00''\<rparr>]
     (Date_UTC 2026 1 10 0 30 0) = Quiet (Date_UTC 2026 1 11 7 0 0)"
    by (simp add: isInQuietHours_def t c numeral_eq_Suc)
qed

end
