(* ===== verification/Effects.thy ===== *)
theory Effects
  imports NK_Prelude
begin

text \<open>
  The sequential composition of the asynchronous handlers: an action takes the world, and
  gives a value or the error it threw, with the world it leaves. Every \<open>await\<close> of an
  outside service is an \<open>attempt\<close>: the world's fault schedule decides, call by call,
  whether it rejects, and then nothing happened. A call that is not awaited and cannot throw
  (an event emitter) is an \<open>emit\<close>. Logging and metrics are left out.

  \<open>keeps P m\<close> says that \<open>m\<close> preserves \<open>P\<close> on every path, errors included;
  the rules for the combinators are the collection \<open>keep_intros\<close>.
\<close>

named_theorems keep_intros \<open>preservation through the action combinators\<close>

text \<open>The errors handlers throw, by the class the worker tells apart.\<close>

datatype exn = Error string | NonRetryableError string | LockHeldError

record ('r, 'e) world =
  w_redis :: 'r
  w_log :: "'e list"
  w_step :: nat
  w_faults :: "nat \<Rightarrow> exn option"

type_synonym ('w, 'a) act = "'w \<Rightarrow> (exn + 'a) \<times> 'w"

definition ret :: "'a \<Rightarrow> ('w, 'a) act" where
  "ret a w = (Inr a, w)"

definition throw :: "exn \<Rightarrow> ('w, 'a) act" where
  "throw x w = (Inl x, w)"

definition bindA :: "('w, 'a) act \<Rightarrow> ('a \<Rightarrow> ('w, 'b) act) \<Rightarrow> ('w, 'b) act" where
  "bindA m f w = (case m w of (Inl x, w') \<Rightarrow> (Inl x, w') | (Inr a, w') \<Rightarrow> f a w')"

definition thenA :: "('w, 'a) act \<Rightarrow> ('w, 'b) act \<Rightarrow> ('w, 'b) act" where
  "thenA m n = bindA m (\<lambda>_. n)"

definition catchA :: "('w, 'a) act \<Rightarrow> (exn \<Rightarrow> ('w, 'a) act) \<Rightarrow> ('w, 'a) act" where
  "catchA m h w = (case m w of (Inl x, w') \<Rightarrow> h x w' | (Inr a, w') \<Rightarrow> (Inr a, w'))"

text \<open>\<open>p.catch(() => {})\<close>\<close>

definition ignore_errors :: "('w, unit) act \<Rightarrow> ('w, unit) act" where
  "ignore_errors m = catchA m (\<lambda>_. ret ())"

fun for_each :: "'x list \<Rightarrow> ('x \<Rightarrow> ('w, unit) act) \<Rightarrow> ('w, unit) act" where
  "for_each [] f = ret ()"
| "for_each (x # xs) f = thenA (f x) (for_each xs f)"

definition attempt ::
  "(('r, 'e, 'z) world_scheme \<Rightarrow> 'a \<times> ('r, 'e, 'z) world_scheme) \<Rightarrow> (('r, 'e, 'z) world_scheme, 'a) act" where
  "attempt f w =
     (let w1 = w\<lparr>w_step := Suc (w_step w)\<rparr>
      in case w_faults w (w_step w) of
           Some x \<Rightarrow> (Inl x, w1)
         | None \<Rightarrow> (case f w1 of (a, w2) \<Rightarrow> (Inr a, w2)))"

definition record_effect :: "'e \<Rightarrow> ('r, 'e, 'z) world_scheme \<Rightarrow> ('r, 'e, 'z) world_scheme" where
  "record_effect e w = w\<lparr>w_log := w_log w @ [e]\<rparr>"

definition emit :: "'e \<Rightarrow> (('r, 'e, 'z) world_scheme, unit) act" where
  "emit e w = (Inr (), record_effect e w)"

definition perform :: "'e \<Rightarrow> (('r, 'e, 'z) world_scheme, unit) act" where
  "perform e = attempt (\<lambda>w. ((), record_effect e w))"

text \<open>A command on the Redis store.\<close>

definition on_redis :: "('r \<Rightarrow> 'a \<times> 'r) \<Rightarrow> (('r, 'e, 'z) world_scheme, 'a) act" where
  "on_redis f = attempt (\<lambda>w. case f (w_redis w) of (a, s) \<Rightarrow> (a, w\<lparr>w_redis := s\<rparr>))"

text \<open>An awaited lookup that gave \<open>r\<close>, or rejected.\<close>

definition awaited :: "exn + 'a \<Rightarrow> ('w, 'a) act" where
  "awaited r w = (r, w)"

text \<open>
  Reading and writing state of the process itself, which cannot fail; and two calls that are
  both issued before either is awaited (\<open>Promise.all([m, n])\<close>).
\<close>

definition gets :: "('w \<Rightarrow> 'a) \<Rightarrow> ('w, 'a) act" where
  "gets f w = (Inr (f w), w)"

definition modify :: "('w \<Rightarrow> 'w) \<Rightarrow> ('w, unit) act" where
  "modify f w = (Inr (), f w)"

definition both :: "('w, unit) act \<Rightarrow> ('w, unit) act \<Rightarrow> ('w, unit) act" where
  "both m n w = (case m w of (r1, w1) \<Rightarrow> case n w1 of (r2, w2) \<Rightarrow>
     ((case r1 of Inl x \<Rightarrow> Inl x | Inr _ \<Rightarrow> r2), w2))"

text \<open>\<open>try { return await m } finally { n }\<close>\<close>

definition finallyA :: "('w, 'a) act \<Rightarrow> ('w, unit) act \<Rightarrow> ('w, 'a) act" where
  "finallyA m n w = (case m w of (r, w1) \<Rightarrow> case n w1 of (Inl x, w2) \<Rightarrow> (Inl x, w2) | (Inr _, w2) \<Rightarrow> (r, w2))"

text \<open>The message of a lock error has a dash that is outside the string model.\<close>

fun exn_message :: "exn \<Rightarrow> string" where
  "exn_message (Error m) = m"
| "exn_message (NonRetryableError m) = m"
| "exn_message LockHeldError = ''Idempotency lock held - leaving message pending''"

lemmas action_defs = gets_def modify_def both_def finallyA_def ret_def throw_def bindA_def thenA_def catchA_def ignore_errors_def
  attempt_def record_effect_def emit_def perform_def on_redis_def awaited_def

section \<open>Preservation\<close>

definition keeps :: "('w \<Rightarrow> bool) \<Rightarrow> ('w, 'a) act \<Rightarrow> bool" where
  "keeps P m \<longleftrightarrow> (\<forall>w. P w \<longrightarrow> P (snd (m w)))"

lemma keepsI: "(\<And>w. P w \<Longrightarrow> P (snd (m w))) \<Longrightarrow> keeps P m"
  by (simp add: keeps_def)

lemma keepsD: "keeps P m \<Longrightarrow> P w \<Longrightarrow> P (snd (m w))"
  by (simp add: keeps_def)

lemma keeps_run: "keeps P m \<Longrightarrow> P w \<Longrightarrow> m w = (r, w') \<Longrightarrow> P w'"
  using keepsD [of P m w] by simp

lemma keep_ret [keep_intros]: "keeps P (ret a)"
  by (simp add: keeps_def ret_def)

lemma keep_throw [keep_intros]: "keeps P (throw x)"
  by (simp add: keeps_def throw_def)

lemma keep_awaited [keep_intros]: "keeps P (awaited r)"
  by (simp add: keeps_def awaited_def)

lemma keep_bind [keep_intros]: "keeps P m \<Longrightarrow> (\<And>a. keeps P (f a)) \<Longrightarrow> keeps P (bindA m f)"
  by (auto simp: keeps_def bindA_def split: prod.split sum.split)

lemma keep_then [keep_intros]: "keeps P m \<Longrightarrow> keeps P n \<Longrightarrow> keeps P (thenA m n)"
  by (simp add: thenA_def keep_bind)

lemma keep_catch [keep_intros]: "keeps P m \<Longrightarrow> (\<And>x. keeps P (h x)) \<Longrightarrow> keeps P (catchA m h)"
  by (auto simp: keeps_def catchA_def split: prod.split sum.split)

lemma keep_ignore [keep_intros]: "keeps P m \<Longrightarrow> keeps P (ignore_errors m)"
  by (simp add: ignore_errors_def keep_catch keep_ret)

lemma keep_for_each [keep_intros]: "(\<And>x. x \<in> set xs \<Longrightarrow> keeps P (f x)) \<Longrightarrow> keeps P (for_each xs f)"
  by (induction xs) (auto intro: keep_intros)

lemma keep_gets [keep_intros]: "keeps P (gets f)"
  by (simp add: keeps_def gets_def)

lemma keep_modify: "(\<And>w. P w \<Longrightarrow> P (f w)) \<Longrightarrow> keeps P (modify f)"
  by (simp add: keeps_def modify_def)

lemma keep_both [keep_intros]: "keeps P m \<Longrightarrow> keeps P n \<Longrightarrow> keeps P (both m n)"
  by (auto simp: keeps_def both_def split: prod.split)

lemma keep_finally [keep_intros]: "keeps P m \<Longrightarrow> keeps P n \<Longrightarrow> keeps P (finallyA m n)"
  by (auto simp: keeps_def finallyA_def split: prod.split sum.split)

lemma keep_on_redis:
  assumes "\<And>w. P w \<Longrightarrow> P (w\<lparr>w_step := Suc (w_step w)\<rparr>)"
    and "\<And>w. P w \<Longrightarrow> P (w\<lparr>w_redis := snd (f (w_redis w))\<rparr>)"
  shows "keeps P (on_redis f)"
proof (rule keepsI)
  fix w assume w: "P w"
  from assms(1) [OF w] assms(2) [OF assms(1) [OF w]] show "P (snd (on_redis f w))"
    by (auto simp: on_redis_def attempt_def Let_def split: option.split prod.split)
qed

lemma keep_attempt:
  assumes "\<And>w. P w \<Longrightarrow> P (w\<lparr>w_step := Suc (w_step w)\<rparr>)" "\<And>w. P w \<Longrightarrow> P (snd (f w))"
  shows "keeps P (attempt f)"
proof (rule keepsI)
  fix w assume "P w"
  from assms(1) [OF this] assms(2) [OF assms(1) [OF this]]
  show "P (snd (attempt f w))" by (auto simp: attempt_def Let_def split: option.split prod.split)
qed

lemma keep_if [keep_intros]: "(b \<Longrightarrow> keeps P m) \<Longrightarrow> (\<not> b \<Longrightarrow> keeps P n) \<Longrightarrow> keeps P (if b then m else n)"
  by simp

lemma keep_option [keep_intros]:
  "(r = None \<Longrightarrow> keeps P m) \<Longrightarrow> (\<And>a. r = Some a \<Longrightarrow> keeps P (f a))
     \<Longrightarrow> keeps P (case r of None \<Rightarrow> m | Some a \<Rightarrow> f a)"
  by (simp split: option.split)

lemma bind_ret [simp]: "bindA (ret a) f = f a"
  by (rule ext) (simp add: bindA_def ret_def)

lemma keep_bind_awaited [keep_intros]:
  "(\<And>a. r = Inr a \<Longrightarrow> keeps P (f a)) \<Longrightarrow> keeps P (bindA (awaited r) f)"
  by (cases r) (simp_all add: keeps_def bindA_def awaited_def)

text \<open>Predicates on the log alone.\<close>

definition logged :: "('e \<Rightarrow> bool) \<Rightarrow> ('r, 'e, 'z) world_scheme \<Rightarrow> bool" where
  "logged Q w \<longleftrightarrow> list_all Q (w_log w)"

lemma keep_logged_emit [keep_intros]: "Q e \<Longrightarrow> keeps (logged Q) (emit e)"
  by (simp add: keeps_def logged_def emit_def record_effect_def)

lemma keep_logged_perform [keep_intros]: "Q e \<Longrightarrow> keeps (logged Q) (perform e)"
  by (simp add: keeps_def logged_def perform_def attempt_def record_effect_def Let_def split: option.split)

lemma keep_logged_redis [keep_intros]: "keeps (logged Q) (on_redis f)"
  by (simp add: keeps_def logged_def on_redis_def attempt_def Let_def split: option.split prod.split)

text \<open>The fault schedule is never changed, so a world without faults stays one.\<close>

definition no_faults :: "('r, 'e, 'z) world_scheme \<Rightarrow> bool" where
  "no_faults w \<longleftrightarrow> w_faults w = (\<lambda>_. None)"

lemma keep_no_faults [keep_intros]:
  "keeps no_faults (emit e)" "keeps no_faults (perform e)" "keeps no_faults (on_redis f)"
  by (simp_all add: keeps_def no_faults_def action_defs Let_def split: option.split prod.split)

text \<open>What an attempt gives when nothing fails.\<close>

lemma attempt_ok: "no_faults w \<Longrightarrow> attempt f w =
     (Inr (fst (f (w\<lparr>w_step := Suc (w_step w)\<rparr>))), snd (f (w\<lparr>w_step := Suc (w_step w)\<rparr>)))"
  by (simp add: no_faults_def attempt_def Let_def split: prod.split)

lemma on_redis_ok:
  "no_faults w \<Longrightarrow> on_redis f w =
     (Inr (fst (f (w_redis w))), w\<lparr>w_step := Suc (w_step w), w_redis := snd (f (w_redis w))\<rparr>)"
  by (simp add: no_faults_def on_redis_def attempt_def Let_def split: prod.split)

section \<open>From one predicate to a weaker one\<close>

definition leads :: "('w \<Rightarrow> bool) \<Rightarrow> ('w, 'a) act \<Rightarrow> ('w \<Rightarrow> bool) \<Rightarrow> bool" where
  "leads P m Q \<longleftrightarrow> (\<forall>w. P w \<longrightarrow> Q (snd (m w)))"

lemma leadsI: "(\<And>w. P w \<Longrightarrow> Q (snd (m w))) \<Longrightarrow> leads P m Q"
  by (simp add: leads_def)

lemma leadsD: "leads P m Q \<Longrightarrow> P w \<Longrightarrow> Q (snd (m w))"
  by (simp add: leads_def)

lemma leads_keep: "keeps P m \<Longrightarrow> (\<And>w. P w \<Longrightarrow> Q w) \<Longrightarrow> leads P m Q"
  by (auto simp: leads_def keeps_def)

lemma leads_bind:
  "keeps P m \<Longrightarrow> (\<And>w. P w \<Longrightarrow> Q w) \<Longrightarrow> (\<And>a. leads P (f a) Q) \<Longrightarrow> leads P (bindA m f) Q"
  by (fastforce simp: leads_def keeps_def bindA_def split: prod.split sum.split)

lemma leads_then: "leads P m Q \<Longrightarrow> keeps Q n \<Longrightarrow> leads P (thenA m n) Q"
  by (fastforce simp: leads_def keeps_def thenA_def bindA_def split: prod.split sum.split)

lemma leads_catch: "leads P m Q \<Longrightarrow> (\<And>x. keeps Q (h x)) \<Longrightarrow> leads P (catchA m h) Q"
  by (fastforce simp: leads_def keeps_def catchA_def split: prod.split sum.split)

lemma leads_finally: "leads P m Q \<Longrightarrow> keeps Q n \<Longrightarrow> leads P (finallyA m n) Q"
  by (fastforce simp: leads_def keeps_def finallyA_def split: prod.split sum.split)

lemma leads_if: "(b \<Longrightarrow> leads P m Q) \<Longrightarrow> (\<not> b \<Longrightarrow> leads P n Q) \<Longrightarrow> leads P (if b then m else n) Q"
  by simp

end
