(* ===== verification/Contracts.thy ===== *)
theory Contracts
  imports Effects Shared_Utils Quiet_Hours
begin

text \<open>
  The messages of the pipeline (\<open>src/src/contracts/\<close>): the enumerations, the payload of
  every event type, the envelope, the streams, and the registry that parses payloads. An ISO
  8601 date-time string is represented by the instant it denotes; a field that may be absent
  is an \<open>option\<close>. The schemas are of a third-party library, so a schema of the registry
  is a function from JSON to a list of issues or the value it parsed.
\<close>

section \<open>Enumerations and streams\<close>

datatype NotificationChannel = Email | Sms | Push | Webhook | InApp | Telegram | Discord | Whatsapp | Slack

datatype NotificationPriority = PLow | PNormal | PHigh | PCritical

fun channel_text :: "NotificationChannel \<Rightarrow> string" where
  "channel_text Email = ''email''"
| "channel_text Sms = ''sms''"
| "channel_text Push = ''push''"
| "channel_text Webhook = ''webhook''"
| "channel_text InApp = ''in-app''"
| "channel_text Telegram = ''telegram''"
| "channel_text Discord = ''discord''"
| "channel_text Whatsapp = ''whatsapp''"
| "channel_text Slack = ''slack''"

fun priority_text :: "NotificationPriority \<Rightarrow> string" where
  "priority_text PLow = ''low''"
| "priority_text PNormal = ''normal''"
| "priority_text PHigh = ''high''"
| "priority_text PCritical = ''critical''"

datatype StreamName =
    INBOUND priority_bucket
  | ENRICHED priority_bucket
  | AI_PENDING
  | SCHEDULED
  | OUTBOUND priority_bucket
  | DEAD_LETTER
  | WORKFLOW_INBOUND
  | EVENTS_INBOUND

fun bucket_text :: "priority_bucket \<Rightarrow> string" where
  "bucket_text Critical = ''critical''"
| "bucket_text Normal = ''normal''"
| "bucket_text Low = ''low''"

fun STREAMS :: "StreamName \<Rightarrow> string" where
  "STREAMS (INBOUND b) = ''notifkit:stream:inbound:'' @ bucket_text b"
| "STREAMS (ENRICHED b) = ''notifkit:stream:enriched:'' @ bucket_text b"
| "STREAMS AI_PENDING = ''notifkit:stream:ai:pending''"
| "STREAMS SCHEDULED = ''notifkit:stream:scheduled''"
| "STREAMS (OUTBOUND b) = ''notifkit:stream:outbound:'' @ bucket_text b"
| "STREAMS DEAD_LETTER = ''notifkit:stream:dlq''"
| "STREAMS WORKFLOW_INBOUND = ''notifkit:stream:workflow:inbound''"
| "STREAMS EVENTS_INBOUND = ''notifkit:stream:events:inbound''"

section \<open>Payloads\<close>

text \<open>\<open>preferences.channels\<close> of a profile lists the channels the user switched off.\<close>

record RecipientProfile =
  rp_id :: string
  rp_email :: "string option"
  rp_phone :: "string option"
  rp_webhook :: "string option"
  rp_pushTokens :: "string list option"
  rp_pushToken :: "string option"
  rp_telegram :: "string option"
  rp_discord :: "string option"
  rp_slack :: "string option"
  rp_locale :: string
  rp_timezone :: string
  rp_optedOut :: bool
  rp_channels :: "NotificationChannel list"
  rp_quietHours :: "quiet_window list option"

datatype NotificationTarget = TUser string | TSegment string | TTopic string

record NotificationRequestedPayload =
  nr_projectId :: string
  nr_target :: NotificationTarget
  nr_templateId :: string
  nr_priority :: NotificationPriority
  nr_channels :: "NotificationChannel list option"
  nr_data :: "(string \<times> json) list"
  nr_fallback :: bool
  nr_aiPrompts :: "(string \<times> string) list option"
  nr_scheduledAt :: "ms option"
  nr_idempotencyKey :: "string option"
  nr_campaignId :: "string option"
  nr_workflowInstanceId :: "string option"

record NotificationEnrichedPayload =
  en_projectId :: string
  en_rawEventId :: string
  en_recipientId :: string
  en_channel :: NotificationChannel
  en_priority :: NotificationPriority
  en_templateId :: "string option"
  en_templateVariables :: "(string \<times> json) list"
  en_recipient :: RecipientProfile
  en_aiPrompts :: "(string \<times> string) list option"
  en_scheduledAt :: "ms option"
  en_fallbackChain :: "NotificationChannel list option"
  en_contactId :: "string option"
  en_destination :: "string option"
  en_campaignId :: "string option"
  en_workflowInstanceId :: "string option"
  en_throttleCounted :: "bool option"

record attachment =
  at_name :: string
  at_contentType :: string
  at_url :: string

record RenderedContent =
  rc_content :: json
  rc_attachments :: "attachment list option"

record DeliveryOptions =
  do_maxAttempts :: nat
  do_timeoutMs :: int
  do_headers :: "(string \<times> string) list option"

record DispatchedTaskPayload =
  dt_projectId :: string
  dt_taskId :: string
  dt_enrichedEventId :: string
  dt_recipientId :: string
  dt_channel :: NotificationChannel
  dt_priority :: NotificationPriority
  dt_templateId :: "string option"
  dt_templateVariables :: "(string \<times> json) list"
  dt_aiPrompts :: "(string \<times> string) list option"
  dt_recipient :: "RecipientProfile option"
  dt_renderedContent :: "RenderedContent option"
  dt_destination :: "string option"
  dt_deliveryOptions :: DeliveryOptions
  dt_fallbackChain :: "NotificationChannel list option"
  dt_throttleAttemptCount :: "nat option"
  dt_deliveryAttemptCount :: "nat option"
  dt_campaignId :: "string option"
  dt_workflowInstanceId :: "string option"

record NotificationScheduledPayload =
  ns_projectId :: string
  ns_enrichedEventId :: string
  ns_taskId :: string
  ns_scheduledAt :: ms

record NotificationSkippedPayload =
  nk_projectId :: string
  nk_eventId :: string
  nk_recipientId :: string
  nk_reason :: string

record NotificationDeliveredPayload =
  nd_projectId :: string
  nd_taskId :: string
  nd_enrichedEventId :: string
  nd_channel :: NotificationChannel
  nd_deliveredAt :: ms
  nd_providerMessageId :: "string option"
  nd_templateId :: "string option"
  nd_workflowInstanceId :: "string option"
  nd_campaignId :: "string option"
  nd_attempt :: "nat option"
  nd_dispatchedAt :: "ms option"

record NotificationFailedPayload =
  nf_projectId :: string
  nf_taskId :: string
  nf_enrichedEventId :: string
  nf_recipientId :: "string option"
  nf_channel :: NotificationChannel
  nf_failureReason :: string
  nf_failureCode :: string
  nf_retryable :: bool
  nf_attempt :: nat
  nf_templateId :: "string option"
  nf_workflowInstanceId :: "string option"
  nf_campaignId :: "string option"
  nf_dispatchedAt :: "ms option"

record NotificationAiPendingPayload =
  ap_projectId :: string
  ap_enrichedEventId :: string
  ap_recipientId :: string
  ap_channel :: NotificationChannel
  ap_priority :: NotificationPriority
  ap_templateId :: "string option"
  ap_templateVariables :: "(string \<times> json) list"
  ap_recipient :: RecipientProfile
  ap_aiPrompts :: "(string \<times> string) list"
  ap_scheduledAt :: "ms option"
  ap_fallbackChain :: "NotificationChannel list option"
  ap_taskId :: "string option"
  ap_destination :: "string option"
  ap_deliveryHeaders :: "(string \<times> string) list option"
  ap_campaignId :: "string option"
  ap_workflowInstanceId :: "string option"

record NotificationCreatedPayload =
  nc_projectId :: string
  nc_recipientId :: string
  nc_channel :: NotificationChannel
  nc_priority :: NotificationPriority
  nc_templateId :: "string option"
  nc_payload :: "(string \<times> json) list"
  nc_scheduledAt :: "ms option"
  nc_idempotencyKey :: "string option"

record NotificationCanceledPayload =
  nl_projectId :: string
  nl_taskId :: string

text \<open>The entry delivery writes to the event log when a send is slow to finish.\<close>

record dispatched_log =
  dl_projectId :: string
  dl_taskId :: string
  dl_enrichedEventId :: string
  dl_recipientId :: string
  dl_channel :: NotificationChannel
  dl_templateId :: "string option"
  dl_attempt :: nat
  dl_workflowInstanceId :: "string option"
  dl_campaignId :: "string option"

datatype EventPayload =
    Requested NotificationRequestedPayload
  | Created NotificationCreatedPayload
  | Enriched NotificationEnrichedPayload
  | Scheduled NotificationScheduledPayload
  | Dispatched DispatchedTaskPayload
  | DispatchedLog dispatched_log
  | Delivered NotificationDeliveredPayload
  | Failed NotificationFailedPayload
  | Skipped NotificationSkippedPayload
  | Canceled NotificationCanceledPayload
  | AiPending NotificationAiPendingPayload

fun event_type :: "EventPayload \<Rightarrow> string" where
  "event_type (Requested _) = ''notification.requested''"
| "event_type (Created _) = ''notification.created''"
| "event_type (Enriched _) = ''notification.enriched''"
| "event_type (Scheduled _) = ''notification.scheduled''"
| "event_type (Dispatched _) = ''notification.dispatched''"
| "event_type (DispatchedLog _) = ''notification.dispatched''"
| "event_type (Delivered _) = ''notification.delivered''"
| "event_type (Failed _) = ''notification.failed''"
| "event_type (Skipped _) = ''notification.skipped''"
| "event_type (Canceled _) = ''notification.canceled''"
| "event_type (AiPending _) = ''notification.ai_pending''"

section \<open>Envelopes\<close>

record EventMetadata =
  em_traceId :: string
  em_source :: string
  em_retryCount :: nat
  em_correlationId :: "string option"
  em_causationId :: "string option"

record new_event =
  ne_type :: string
  ne_payload :: EventPayload
  ne_metadata :: EventMetadata

record EventEnvelope = new_event +
  ee_id :: string
  ee_timestamp :: ms

text \<open>\<open>uuid\<close> is what \<open>randomUUID()\<close> drew.\<close>

definition buildStreamEvent :: "EventPayload \<Rightarrow> string \<Rightarrow> string option \<Rightarrow> string \<Rightarrow> new_event" where
  "buildStreamEvent payload source traceId uuid =
     \<lparr>ne_type = event_type payload, ne_payload = payload,
      ne_metadata = \<lparr>em_traceId = (case traceId of Some t \<Rightarrow> t | None \<Rightarrow> uuid), em_source = source,
                     em_retryCount = 0, em_correlationId = None, em_causationId = None\<rparr>\<rparr>"

text \<open>The envelope an event travels in, once it has an id and a time.\<close>

definition with_envelope :: "new_event \<Rightarrow> string \<Rightarrow> ms \<Rightarrow> EventEnvelope" where
  "with_envelope e eid timestamp =
     \<lparr>ne_type = ne_type e, ne_payload = ne_payload e, ne_metadata = ne_metadata e,
      ee_id = eid, ee_timestamp = timestamp\<rparr>"

lemma with_envelope_sel [simp]: "ne_payload (with_envelope e i t) = ne_payload e"
  by (simp add: with_envelope_def)

section \<open>The event registry\<close>

type_synonym 'v schema = "json \<Rightarrow> string list + 'v"

record 'v EventRegistry =
  er_schemas :: "(string, 'v schema) jsmap"

definition registry_new :: "'v EventRegistry" where
  "registry_new = \<lparr>er_schemas = []\<rparr>"

definition registry_define :: "string \<Rightarrow> 'v schema \<Rightarrow> 'v EventRegistry \<Rightarrow> exn + 'v EventRegistry" where
  "registry_define type schema reg =
     (if jm_get (er_schemas reg) type \<noteq> None
      then Inl (Error (''Event type '' @ json_quote type @ '' is already registered''))
      else Inr (reg\<lparr>er_schemas := jm_set type schema (er_schemas reg)\<rparr>))"

definition registry_getSchema :: "string \<Rightarrow> 'v EventRegistry \<Rightarrow> 'v schema option" where
  "registry_getSchema type reg = jm_get (er_schemas reg) type"

definition registry_has :: "string \<Rightarrow> 'v EventRegistry \<Rightarrow> bool" where
  "registry_has type reg = (jm_get (er_schemas reg) type \<noteq> None)"

definition registry_types :: "'v EventRegistry \<Rightarrow> string list" where
  "registry_types reg = jm_keys (er_schemas reg)"

text \<open>\<open>parsePayload\<close> throws what the schema found; the issues stand for the ZodError.\<close>

definition registry_parsePayload :: "string \<Rightarrow> json \<Rightarrow> 'v EventRegistry \<Rightarrow> (exn + string list) + 'v" where
  "registry_parsePayload type payload reg =
     (case jm_get (er_schemas reg) type of
        None \<Rightarrow> Inl (Inl (Error (''Unknown event type: '' @ json_quote type)))
      | Some schema \<Rightarrow> (case schema payload of Inl issues \<Rightarrow> Inl (Inr issues) | Inr v \<Rightarrow> Inr v))"

definition registry_safeParsePayload :: "string \<Rightarrow> json \<Rightarrow> 'v EventRegistry \<Rightarrow> string list + 'v" where
  "registry_safeParsePayload type payload reg =
     (case jm_get (er_schemas reg) type of
        None \<Rightarrow> Inl [''Unknown event type: '' @ json_quote type]
      | Some schema \<Rightarrow> schema payload)"

lemmas registry_defs [op_defs] = registry_define_def registry_getSchema_def registry_has_def
  registry_types_def registry_parsePayload_def registry_safeParsePayload_def

text \<open>A type can be defined once, and its schema is then the one that parses its payloads.\<close>

lemma registry_define_once:
  assumes "registry_define t s reg = Inr reg'"
  shows "\<not> registry_has t reg" "registry_has t reg'"
    "registry_define t s' reg' = Inl (Error (''Event type '' @ json_quote t @ '' is already registered''))"
    "registry_safeParsePayload t p reg' = s p"
    "t' \<noteq> t \<Longrightarrow> registry_safeParsePayload t' p reg' = registry_safeParsePayload t' p reg"
  using assms by (auto simp: registry_defs jm_get_set split: if_splits)

lemma registry_parse_agree:
  "registry_has t reg \<Longrightarrow> registry_parsePayload t p reg =
     (case registry_safeParsePayload t p reg of Inl issues \<Rightarrow> Inl (Inr issues) | Inr v \<Rightarrow> Inr v)"
  by (auto simp: registry_defs)

end
