(* ===== verification/Task_Dispatch.thy ===== *)
theory Task_Dispatch
  imports Contracts Redis_Scripts Circuit_Breaker
begin

text \<open>
  The world of the pipeline's handlers and \<open>scheduleOrDispatch\<close>
  (\<open>src/src/services/engine/schedule-or-dispatch.ts\<close>), the last step of the engine and of
  the AI worker. The table \<open>scheduled_payloads\<close> is \<open>w_parked\<close>, by task id; the circuit breakers of a delivery
  process are \<open>w_breakers\<close>, by provider; what goes out
  to streams, to the fused next stage and to the event emitter is the log.
\<close>

text \<open>A row's payload: the task and the send time that rides in it.\<close>

record parked_payload =
  pk_task :: DispatchedTaskPayload
  pk_scheduledAt :: "ms option"

datatype effect =
    Publish StreamName new_event
  | HandInline EventEnvelope
  | EmitSkipped NotificationSkippedPayload
  | EmitThrottled string int
  | EmitDelivered string string NotificationChannel string
  | EmitDeliveryFailed string string NotificationChannel string
  | AddEvent new_event
  | AddOutboxUpdate string NotificationChannel "string option" "string option"
  | DeactivateContact string string NotificationChannel "string option"
  | SendTo nat DispatchedTaskPayload
  | ModelCall string
  | EmitAiFailed string string NotificationChannel
  | Park DispatchedTaskPayload

record 'r pipe_world = "('r, effect) world" +
  w_parked :: "(string, parked_payload) jsmap"
  w_breakers :: "(string, breaker) jsmap"

type_synonym ('r, 'a) pipe_act = "('r pipe_world, 'a) act"

text \<open>
  \<open>insert \<dots> onConflictDoNothing()\<close> and \<open>insert \<dots> onConflictDoUpdate\<close> on the table;
  a row written is also an entry of the log.
\<close>

definition park_if_absent :: "string \<Rightarrow> parked_payload \<Rightarrow> ('r, unit) pipe_act" where
  "park_if_absent taskId row = attempt (\<lambda>w.
     ((), if jm_get (w_parked w) taskId = None
          then record_effect (Park (pk_task row)) (w\<lparr>w_parked := jm_set taskId row (w_parked w)\<rparr>) else w))"

definition park_upsert :: "string \<Rightarrow> parked_payload \<Rightarrow> ('r, unit) pipe_act" where
  "park_upsert taskId row = attempt (\<lambda>w.
     ((), record_effect (Park (pk_task row)) (w\<lparr>w_parked := jm_set taskId row (w_parked w)\<rparr>)))"

text \<open>
  \<open>dd_outbound\<close> is the partial map of producers by lane; \<open>dd_inlineNext\<close> the fused
  delivery stage, when there is one.
\<close>

record 'r ScheduleOrDispatchDeps =
  dd_outbound :: "priority_bucket \<Rightarrow> StreamName option"
  dd_inlineNext :: "(EventEnvelope \<Rightarrow> ('r, unit) pipe_act) option"

record ScheduleOrDispatchOptions =
  so_source :: string
  so_scheduledAt :: "ms option"
  so_traceId :: "string option"

definition outbound_producer :: "'r ScheduleOrDispatchDeps \<Rightarrow> NotificationPriority \<Rightarrow> StreamName" where
  "outbound_producer deps priority =
     (case dd_outbound deps (getPriorityBucket (Some (priority_text priority))) of
        Some s \<Rightarrow> s
      | None \<Rightarrow> the (dd_outbound deps Normal))"

text \<open>
  \<open>uuid\<close> gives the random ids of this run: for the dispatched event, the scheduled event
  and the envelope of an inline event.
\<close>

definition scheduleOrDispatch ::
  "'r ScheduleOrDispatchDeps \<Rightarrow> DispatchedTaskPayload \<Rightarrow> ScheduleOrDispatchOptions \<Rightarrow> ms \<Rightarrow> (nat \<Rightarrow> string)
    \<Rightarrow> ('r, unit) pipe_act" where
  "scheduleOrDispatch deps taskPayload opts now uuid =
     (let taskId = dt_taskId taskPayload;
          envelope = buildStreamEvent (Dispatched taskPayload) (so_source opts) (so_traceId opts) (uuid 0);
          scheduledAt = (case so_scheduledAt opts of Some t \<Rightarrow> t | None \<Rightarrow> now)
      in if scheduledAt > now
         then thenA
           (park_if_absent taskId \<lparr>pk_task = taskPayload, pk_scheduledAt = so_scheduledAt opts\<rparr>)
           (perform (Publish SCHEDULED (buildStreamEvent (Scheduled
              \<lparr>ns_projectId = dt_projectId taskPayload, ns_enrichedEventId = dt_enrichedEventId taskPayload,
               ns_taskId = taskId, ns_scheduledAt = scheduledAt\<rparr>) (so_source opts) (so_traceId opts) (uuid 1))))
         else case dd_inlineNext deps of
           Some inlineNext \<Rightarrow>
             inlineNext (with_envelope envelope (uuid 2) now)
         | None \<Rightarrow> perform (Publish (outbound_producer deps (dt_priority taskPayload)) envelope))"

section \<open>Preservation of predicates on the log\<close>

lemma keep_logged_park [keep_intros]:
  "Q (Park (pk_task row)) \<Longrightarrow> keeps (logged Q) (park_if_absent taskId row)"
  "Q (Park (pk_task row)) \<Longrightarrow> keeps (logged Q) (park_upsert taskId row)"
  by (auto simp: keeps_def logged_def park_if_absent_def park_upsert_def attempt_def record_effect_def
      Let_def split: option.split)

text \<open>The outputs that carry a task, each with the task.\<close>

fun carries :: "effect \<Rightarrow> DispatchedTaskPayload option" where
  "carries (Publish s e) = (case ne_payload e of Dispatched t \<Rightarrow> Some t | _ \<Rightarrow> None)"
| "carries (HandInline e) = (case ne_payload e of Dispatched t \<Rightarrow> Some t | _ \<Rightarrow> None)"
| "carries (Park t) = Some t"
| "carries _ = None"

lemma buildStreamEvent_sel [simp]:
  "ne_payload (buildStreamEvent p s t u) = p" "ne_type (buildStreamEvent p s t u) = event_type p"
  by (simp_all add: buildStreamEvent_def)

text \<open>
  A task that is due later is parked and announced on the scheduled stream, and nothing goes
  out to delivery; a task that is due goes out once, to its lane or to the fused stage, and
  nothing is parked. Stated for a run in which no outside call fails.
\<close>

lemma scheduleOrDispatch_later:
  assumes "no_faults w" "so_scheduledAt opts = Some t" "now < t"
    and "scheduleOrDispatch deps task opts now uuid w = (r, w')"
  shows "r = Inr ()"
    and "jm_get (w_parked w') (dt_taskId task) =
      (case jm_get (w_parked w) (dt_taskId task) of Some row \<Rightarrow> Some row
       | None \<Rightarrow> Some \<lparr>pk_task = task, pk_scheduledAt = Some t\<rparr>)"
    and "\<exists>log ev. w_log w' = w_log w @ log @ [Publish SCHEDULED ev] \<and> list_all (\<lambda>e. e = Park task) log
      \<and> ne_payload ev = Scheduled \<lparr>ns_projectId = dt_projectId task,
          ns_enrichedEventId = dt_enrichedEventId task, ns_taskId = dt_taskId task, ns_scheduledAt = t\<rparr>"
  using assms
  by (auto simp: scheduleOrDispatch_def no_faults_def action_defs park_if_absent_def Let_def jm_get_set
      split: option.splits if_splits)

lemma scheduleOrDispatch_now:
  assumes "no_faults w" "case so_scheduledAt opts of Some t \<Rightarrow> t \<le> now | None \<Rightarrow> True"
    and "dd_inlineNext deps = None"
    and "scheduleOrDispatch deps task opts now uuid w = (r, w')"
  shows "r = Inr () \<and> w_parked w' = w_parked w
    \<and> w_log w' = w_log w @ [Publish (outbound_producer deps (dt_priority task))
         (buildStreamEvent (Dispatched task) (so_source opts) (so_traceId opts) (uuid 0))]"
  using assms
  by (auto simp: scheduleOrDispatch_def no_faults_def action_defs Let_def split: option.splits if_splits)

end
