(* ===== verification/Engine.thy ===== *)
theory Engine
  imports Task_Dispatch Throttle_Idempotency Unsubscribe
begin

text \<open>
  The engine stage (\<open>EngineWorker\<close> of \<open>src/src/services/engine/main.ts\<close>): one
  enriched message passes the gates (duplicate, opt-outs, quiet hours, throttle, template,
  contacts, suppression) and becomes a task per contact, sent to the AI worker or to
  \<open>scheduleOrDispatch\<close>. The idempotency guard and the throttle run on the Redis of the
  world. What the caches and loaders answered (project settings, template, contacts,
  suppressions) is an input of the run, a value or the error they rejected with.
\<close>

section \<open>Inputs and options\<close>

record engine_contact =
  ct_id :: string
  ct_channel :: NotificationChannel
  ct_target :: string
  ct_active :: bool
  ct_topics :: "(string \<times> bool) list"

record engine_template =
  et_aiPrompts :: "(string \<times> string) list option"
  et_topics :: "string list option"

record project_throttle =
  pt_throttleLimit :: "int option"
  pt_throttleWindowHours :: "int option"

record engine_reads =
  rd_settings :: "exn + project_throttle"
  rd_template :: "exn + engine_template option"
  rd_contacts :: "exn + engine_contact list"
  rd_suppressed :: "exn + string list"

text \<open>The interface of the guard the engine uses, over Redis or doing nothing.\<close>

record 'r engine_guard =
  gd_checkAndMark :: "string \<Rightarrow> int option \<Rightarrow> ('r, bool) pipe_act"
  gd_markProcessed :: "string \<Rightarrow> int option \<Rightarrow> ('r, unit) pipe_act"
  gd_unmark :: "string \<Rightarrow> ('r, unit) pipe_act"

definition NO_IDEMPOTENCY :: "'r engine_guard" where
  "NO_IDEMPOTENCY = \<lparr>gd_checkAndMark = (\<lambda>_ _. ret True), gd_markProcessed = (\<lambda>_ _. ret ()),
     gd_unmark = (\<lambda>_. ret ())\<rparr>"

definition redis_guard :: "'r redis \<Rightarrow> idempotency_guard \<Rightarrow> 'r engine_guard" where
  "redis_guard r g = \<lparr>gd_checkAndMark = (\<lambda>k t. on_redis (checkAndMark r g k t)),
     gd_markProcessed = (\<lambda>k t. on_redis (\<lambda>s. ((), markProcessed r g k t s))),
     gd_unmark = (\<lambda>k. on_redis (\<lambda>s. ((), unmark r g k s)))\<rparr>"

record 'r EngineWorkerOptions =
  eo_idempotency :: "'r engine_guard"
  eo_throttle :: user_throttle
  eo_dispatch :: "'r ScheduleOrDispatchDeps"
  eo_ttlSeconds :: int
  eo_unsubscribeSecret :: "string option"
  eo_publicUrl :: "string option"

text \<open>What the message adds to the event: whether it runs inline, the event id and trace id.\<close>

record engine_message =
  msg_inline :: bool
  msg_eventId :: string
  msg_traceId :: string
  msg_payload :: "NotificationEnrichedPayload option"

section \<open>The gates\<close>

definition engine_key :: "NotificationEnrichedPayload \<Rightarrow> string" where
  "engine_key enriched =
     en_rawEventId enriched @ '':'' @ en_recipientId enriched @ '':'' @ channel_text (en_channel enriched)
       @ (case en_contactId enriched of Some c \<Rightarrow> if c = [] then [] else '':'' @ c | None \<Rightarrow> [])"

definition engine_ttl :: "int \<Rightarrow> ms \<Rightarrow> NotificationEnrichedPayload \<Rightarrow> int option" where
  "engine_ttl ttlSeconds now enriched =
     (case en_scheduledAt enriched of
        None \<Rightarrow> None
      | Some t \<Rightarrow> let msUntil = t - now
                  in if msUntil > 0 then Some (ttlSeconds + (msUntil + 999) div 1000) else None)"

definition skipped :: "NotificationEnrichedPayload \<Rightarrow> engine_message \<Rightarrow> string \<Rightarrow> effect" where
  "skipped enriched m reason = EmitSkipped
     \<lparr>nk_projectId = en_projectId enriched, nk_eventId = msg_eventId m,
      nk_recipientId = en_recipientId enriched, nk_reason = reason\<rparr>"

definition defer_quiet_hours ::
  "formatter \<Rightarrow> ms \<Rightarrow> NotificationEnrichedPayload \<Rightarrow> NotificationEnrichedPayload" where
  "defer_quiet_hours fmt now enriched =
     (case rp_quietHours (en_recipient enriched) of
        Some qh \<Rightarrow>
          if qh \<noteq> [] \<and> en_priority enriched \<noteq> PCritical then
            let requestedAt = (case en_scheduledAt enriched of Some t \<Rightarrow> t | None \<Rightarrow> now);
                sendAt = (if requestedAt > now then requestedAt else now)
            in case isInQuietHours fmt (rp_timezone (en_recipient enriched)) qh sendAt of
                 Quiet nextActiveTime \<Rightarrow> enriched\<lparr>en_scheduledAt := Some nextActiveTime\<rparr>
               | NotQuiet \<Rightarrow> enriched
          else enriched
      | None \<Rightarrow> enriched)"

definition engine_throttle ::
  "'r redis \<Rightarrow> user_throttle \<Rightarrow> project_throttle \<Rightarrow> NotificationEnrichedPayload \<Rightarrow> string \<Rightarrow> ms
    \<Rightarrow> ('r, user_throttle_result) pipe_act" where
  "engine_throttle r throttle projectThrottle enriched idempotencyKey now =
     (if en_throttleCounted enriched = Some True
      then ret \<lparr>ut_allowed = True, ut_count = 0, ut_limit = 0\<rparr>
      else on_redis (throttle_check r throttle (en_projectId enriched) (en_recipientId enriched)
             (Some (priority_text (en_priority enriched)))
             \<lparr>to_limit = pt_throttleLimit projectThrottle,
              to_windowHours = pt_throttleWindowHours projectThrottle,
              to_scheduledAt = en_scheduledAt enriched,
              to_messageId = Some idempotencyKey\<rparr> [] now))"

text \<open>\<open>{...template, ...request}\<close>\<close>

definition merge_prompts ::
  "(string \<times> string) list option \<Rightarrow> (string \<times> string) list option \<Rightarrow> (string, string) jsmap" where
  "merge_prompts a b = foldl (\<lambda>m (k, v). jm_set k v m) []
     ((case a of Some p \<Rightarrow> p | None \<Rightarrow> []) @ (case b of Some p \<Rightarrow> p | None \<Rightarrow> []))"

text \<open>The contact the enricher resolved, or all contacts of the user.\<close>

definition engine_contacts ::
  "engine_reads \<Rightarrow> NotificationEnrichedPayload \<Rightarrow> ('r, engine_contact list) pipe_act" where
  "engine_contacts rd enriched =
     (case (en_contactId enriched, en_destination enriched) of
        (Some c, Some d) \<Rightarrow>
          if c \<noteq> [] \<and> d \<noteq> []
          then ret [\<lparr>ct_id = c, ct_channel = en_channel enriched, ct_target = d, ct_active = True,
                     ct_topics = []\<rparr>]
          else awaited (rd_contacts rd)
      | _ \<Rightarrow> awaited (rd_contacts rd))"

definition topic_opted_out :: "string list \<Rightarrow> engine_contact \<Rightarrow> bool" where
  "topic_opted_out templateTopics contact =
     list_ex (\<lambda>t. jm_get (ct_topics contact) t = Some False) templateTopics"

definition contact_suppressed :: "string list \<Rightarrow> engine_contact \<Rightarrow> bool" where
  "contact_suppressed suppressedTargets contact =
     (ct_target contact \<noteq> [] \<and> normaliseTarget (ct_target contact) \<in> set suppressedTargets)"

section \<open>Tasks\<close>

definition unsubscribe_headers ::
  "mac \<Rightarrow> 'r EngineWorkerOptions \<Rightarrow> NotificationEnrichedPayload \<Rightarrow> string list \<Rightarrow> string
    \<Rightarrow> (string \<times> string) list option" where
  "unsubscribe_headers hmac opts enriched templateTopics resolvedDestination =
     (case (eo_unsubscribeSecret opts, eo_publicUrl opts) of
        (Some secret, Some url) \<Rightarrow>
          if en_channel enriched = Email \<and> templateTopics \<noteq> [] \<and> secret \<noteq> [] \<and> url \<noteq> []
             \<and> resolvedDestination \<noteq> []
          then Some (buildUnsubscribeHeaders hmac
                 \<lparr>uho_claim = \<lparr>uc_projectId = en_projectId enriched, uc_userId = en_recipientId enriched,
                               uc_channel = channel_text (en_channel enriched),
                               uc_target = resolvedDestination, uc_topics = templateTopics\<rparr>,
                  uho_secret = secret, uho_publicUrl = url\<rparr>)
          else None
      | _ \<Rightarrow> None)"

definition engine_task ::
  "engine_message \<Rightarrow> NotificationEnrichedPayload \<Rightarrow> string \<Rightarrow> string \<Rightarrow> (string \<times> string) list option
    \<Rightarrow> DispatchedTaskPayload" where
  "engine_task m enriched taskId resolvedDestination headers =
     \<lparr>dt_projectId = en_projectId enriched, dt_taskId = taskId, dt_enrichedEventId = msg_eventId m,
      dt_recipientId = en_recipientId enriched, dt_channel = en_channel enriched,
      dt_priority = en_priority enriched, dt_templateId = en_templateId enriched,
      dt_templateVariables = en_templateVariables enriched, dt_aiPrompts = en_aiPrompts enriched,
      dt_recipient = Some (en_recipient enriched), dt_renderedContent = None,
      dt_destination = Some resolvedDestination,
      dt_deliveryOptions = \<lparr>do_maxAttempts = 3, do_timeoutMs = 10000, do_headers = headers\<rparr>,
      dt_fallbackChain = en_fallbackChain enriched, dt_throttleAttemptCount = None,
      dt_deliveryAttemptCount = None, dt_campaignId = en_campaignId enriched,
      dt_workflowInstanceId = en_workflowInstanceId enriched\<rparr>"

definition engine_ai_pending ::
  "engine_message \<Rightarrow> NotificationEnrichedPayload \<Rightarrow> (string, string) jsmap \<Rightarrow> string \<Rightarrow> string
    \<Rightarrow> (string \<times> string) list option \<Rightarrow> NotificationAiPendingPayload" where
  "engine_ai_pending m enriched aiPrompts taskId resolvedDestination headers =
     \<lparr>ap_projectId = en_projectId enriched, ap_enrichedEventId = msg_eventId m,
      ap_recipientId = en_recipientId enriched, ap_channel = en_channel enriched,
      ap_priority = en_priority enriched, ap_templateId = en_templateId enriched,
      ap_templateVariables = en_templateVariables enriched, ap_recipient = en_recipient enriched,
      ap_aiPrompts = aiPrompts, ap_scheduledAt = en_scheduledAt enriched,
      ap_fallbackChain = en_fallbackChain enriched, ap_taskId = Some taskId,
      ap_destination = Some resolvedDestination, ap_deliveryHeaders = headers,
      ap_campaignId = en_campaignId enriched, ap_workflowInstanceId = en_workflowInstanceId enriched\<rparr>"

definition engine_send ::
  "mac \<Rightarrow> 'r EngineWorkerOptions \<Rightarrow> engine_message \<Rightarrow> NotificationEnrichedPayload
    \<Rightarrow> (string, string) jsmap \<Rightarrow> string list \<Rightarrow> ms \<Rightarrow> (nat \<Rightarrow> string) \<Rightarrow> engine_contact \<Rightarrow> ('r, unit) pipe_act" where
  "engine_send hmac opts m enriched aiPrompts templateTopics now uuid contact =
     (let taskId = en_rawEventId enriched @ '':'' @ (if ct_id contact = [] then uuid 3 else ct_id contact);
          resolvedDestination = ct_target contact;
          headers = unsubscribe_headers hmac opts enriched templateTopics resolvedDestination
      in if aiPrompts \<noteq> []
         then perform (Publish AI_PENDING (buildStreamEvent
                (AiPending (engine_ai_pending m enriched aiPrompts taskId resolvedDestination headers))
                ''engine'' (Some (msg_traceId m)) (uuid 0)))
         else scheduleOrDispatch (eo_dispatch opts)
                (engine_task m enriched taskId resolvedDestination headers)
                \<lparr>so_source = ''engine'', so_scheduledAt = en_scheduledAt enriched,
                 so_traceId = Some (msg_traceId m)\<rparr> now uuid)"

definition engine_contact_step ::
  "mac \<Rightarrow> 'r EngineWorkerOptions \<Rightarrow> engine_message \<Rightarrow> NotificationEnrichedPayload
    \<Rightarrow> (string, string) jsmap \<Rightarrow> string list \<Rightarrow> string list \<Rightarrow> ms \<Rightarrow> (nat \<Rightarrow> string) \<Rightarrow> engine_contact
    \<Rightarrow> ('r, unit) pipe_act" where
  "engine_contact_step hmac opts m enriched aiPrompts templateTopics suppressedTargets now uuid contact =
     (if topic_opted_out templateTopics contact then ret ()
      else if contact_suppressed suppressedTargets contact then emit (skipped enriched m ''suppressed'')
      else engine_send hmac opts m enriched aiPrompts templateTopics now uuid contact)"

section \<open>process\<close>

text \<open>From the template on; \<open>finish\<close> marks the message processed.\<close>

definition engine_fan_out ::
  "mac \<Rightarrow> 'r EngineWorkerOptions \<Rightarrow> engine_reads \<Rightarrow> engine_message \<Rightarrow> NotificationEnrichedPayload
    \<Rightarrow> engine_template option \<Rightarrow> ms \<Rightarrow> (nat \<Rightarrow> string) \<Rightarrow> ('r, unit) pipe_act \<Rightarrow> ('r, unit) pipe_act" where
  "engine_fan_out hmac opts rd m enriched dbTemplate now uuid finish =
     (let aiPrompts = merge_prompts (Option.bind dbTemplate et_aiPrompts) (en_aiPrompts enriched);
          templateTopics = (case Option.bind dbTemplate et_topics of Some t \<Rightarrow> t | None \<Rightarrow> [])
      in bindA (engine_contacts rd enriched) (\<lambda>allContacts.
         let activeContacts = filter (\<lambda>c. ct_channel c = en_channel enriched \<and> ct_active c) allContacts
         in if activeContacts = []
            then thenA (emit (skipped enriched m ''no_active_contacts'')) finish
            else bindA (awaited (rd_suppressed rd)) (\<lambda>suppressedTargets.
              thenA (for_each activeContacts
                (engine_contact_step hmac opts m enriched aiPrompts templateTopics suppressedTargets now uuid))
              finish)))"

definition engine_gates ::
  "'r redis \<Rightarrow> formatter \<Rightarrow> mac \<Rightarrow> 'r EngineWorkerOptions \<Rightarrow> engine_reads \<Rightarrow> engine_message
    \<Rightarrow> NotificationEnrichedPayload \<Rightarrow> ms \<Rightarrow> (nat \<Rightarrow> string) \<Rightarrow> ('r, unit) pipe_act \<Rightarrow> ('r, unit) pipe_act" where
  "engine_gates r fmt hmac opts rd m enriched0 now uuid finish =
     (if rp_optedOut (en_recipient enriched0)
      then thenA (emit (skipped enriched0 m ''user_opted_out'')) finish
      else if en_channel enriched0 \<in> set (rp_channels (en_recipient enriched0))
      then thenA (emit (skipped enriched0 m ''channel_disabled'')) finish
      else
        let enriched = defer_quiet_hours fmt now enriched0
        in bindA (catchA (awaited (rd_settings rd))
                   (\<lambda>_. ret \<lparr>pt_throttleLimit = None, pt_throttleWindowHours = None\<rparr>)) (\<lambda>projectThrottle.
           bindA (engine_throttle r (eo_throttle opts) projectThrottle enriched (engine_key enriched) now)
             (\<lambda>throttleResult.
           if \<not> ut_allowed throttleResult
           then thenA (emit (EmitThrottled (en_recipientId enriched) (ut_count throttleResult))) finish
           else case en_templateId enriched of
             None \<Rightarrow> engine_fan_out hmac opts rd m enriched None now uuid finish
           | Some _ \<Rightarrow> bindA (awaited (rd_template rd)) (\<lambda>dbTemplate.
               if dbTemplate = None
               then thenA (emit (skipped enriched m ''template_not_found'')) finish
               else engine_fan_out hmac opts rd m enriched dbTemplate now uuid finish))))"

definition engine_process ::
  "'r redis \<Rightarrow> formatter \<Rightarrow> mac \<Rightarrow> 'r EngineWorkerOptions \<Rightarrow> engine_reads \<Rightarrow> engine_message
    \<Rightarrow> ms \<Rightarrow> (nat \<Rightarrow> string) \<Rightarrow> ('r, unit) pipe_act" where
  "engine_process r fmt hmac opts rd m now uuid =
     (case msg_payload m of
        None \<Rightarrow> ret ()
      | Some enriched \<Rightarrow>
          let idempotencyKey = engine_key enriched;
              customTtl = engine_ttl (eo_ttlSeconds opts) now enriched;
              idempotency = (if msg_inline m then NO_IDEMPOTENCY else eo_idempotency opts)
          in bindA (gd_checkAndMark idempotency idempotencyKey (Some 60)) (\<lambda>fresh.
             if \<not> fresh then ret ()
             else catchA
               (engine_gates r fmt hmac opts rd m enriched now uuid
                  (gd_markProcessed idempotency idempotencyKey customTtl))
               (\<lambda>err. thenA (ignore_errors (gd_unmark idempotency idempotencyKey)) (throw err))))"


section \<open>Every send passed the gates\<close>

text \<open>The address an output of the engine sends to, now, parked or through the AI worker.\<close>

definition send_target :: "effect \<Rightarrow> (NotificationChannel \<times> string option) option" where
  "send_target e =
     (case carries e of
        Some t \<Rightarrow> Some (dt_channel t, dt_destination t)
      | None \<Rightarrow> (case e of
            Publish s ev \<Rightarrow> (case ne_payload ev of
                AiPending p \<Rightarrow> Some (ap_channel p, ap_destination p) | _ \<Rightarrow> None)
          | _ \<Rightarrow> None))"

definition may_send ::
  "engine_reads \<Rightarrow> NotificationEnrichedPayload \<Rightarrow> NotificationChannel \<Rightarrow> string option \<Rightarrow> bool" where
  "may_send rd enriched channel destination \<longleftrightarrow>
     \<not> rp_optedOut (en_recipient enriched) \<and> channel = en_channel enriched
     \<and> channel \<notin> set (rp_channels (en_recipient enriched))
     \<and> (\<exists>target sup. destination = Some target \<and> rd_suppressed rd = Inr sup
          \<and> (target = [] \<or> normaliseTarget target \<notin> set sup)
          \<and> (en_destination enriched = Some target
             \<or> (\<exists>cs c. rd_contacts rd = Inr cs \<and> c \<in> set cs \<and> ct_target c = target \<and> ct_active c
                   \<and> ct_channel c = channel)))"

definition gated :: "engine_reads \<Rightarrow> NotificationEnrichedPayload \<Rightarrow> effect \<Rightarrow> bool" where
  "gated rd enriched e = (case send_target e of None \<Rightarrow> True | Some (ch, d) \<Rightarrow> may_send rd enriched ch d)"

text \<open>The fused next stage, seen as the event it is handed.\<close>

definition hands_on :: "'r ScheduleOrDispatchDeps \<Rightarrow> bool" where
  "hands_on deps = (case dd_inlineNext deps of None \<Rightarrow> True | Some f \<Rightarrow> \<forall>ev. f ev = perform (HandInline ev))"

lemma keep_scheduleOrDispatch:
  assumes "hands_on deps" "\<And>e. carries e = Some task \<Longrightarrow> Q e"
    and "\<And>e p. ne_payload e = Scheduled p \<Longrightarrow> Q (Publish SCHEDULED e)"
  shows "keeps (logged Q) (scheduleOrDispatch deps task opts now uuid)"
proof -
  have "Q (Park task)" by (rule assms(2)) simp
  moreover have "Q (Publish SCHEDULED (buildStreamEvent (Scheduled p) s t u))" for p s t u
    by (rule assms(3)) simp
  moreover have "Q (HandInline (with_envelope (buildStreamEvent (Dispatched task) s t u) i n))" for s t u i n
    by (rule assms(2)) simp
  moreover have "Q (Publish x (buildStreamEvent (Dispatched task) s t u))" for x s t u
    by (rule assms(2)) simp
  ultimately show ?thesis using assms(1)
    by (auto simp: scheduleOrDispatch_def Let_def hands_on_def intro!: keep_intros split: option.splits)
qed


lemma gated_effects [simp]:
  "gated rd en (EmitSkipped p)" "gated rd en (EmitThrottled u n)"
  by (simp_all add: gated_def send_target_def)

lemma engine_guard_gated:
  "keeps (logged Q) (gd_checkAndMark (redis_guard r g) k t)"
  "keeps (logged Q) (gd_markProcessed (redis_guard r g) k t)"
  "keeps (logged Q) (gd_unmark (redis_guard r g) k)"
  "keeps P (gd_checkAndMark NO_IDEMPOTENCY k t)"
  "keeps P (gd_markProcessed NO_IDEMPOTENCY k t)"
  "keeps P (gd_unmark NO_IDEMPOTENCY k)"
  by (simp_all add: redis_guard_def NO_IDEMPOTENCY_def keep_intros)

lemma engine_send_gated:
  assumes "hands_on (eo_dispatch opts)" "may_send rd en0 (en_channel en) (Some (ct_target contact))"
  shows "keeps (logged (gated rd en0)) (engine_send hmac opts m en prompts topics now uuid contact)"
proof -
  have ai: "gated rd en0 (Publish AI_PENDING (buildStreamEvent
      (AiPending (engine_ai_pending m en prompts tid (ct_target contact) hs)) s t u))" for tid hs s t u
    using assms(2) by (simp add: gated_def send_target_def engine_ai_pending_def)
  have task: "gated rd en0 e" if "carries e = Some (engine_task m en tid (ct_target contact) hs)" for e tid hs
    using assms(2) that by (simp add: gated_def send_target_def engine_task_def)
  have sch: "gated rd en0 (Publish SCHEDULED e)" if "ne_payload e = Scheduled p" for e p
    using that by (simp add: gated_def send_target_def)
  show ?thesis unfolding engine_send_def Let_def
    by (intro keep_if keep_logged_perform ai keep_scheduleOrDispatch [OF assms(1)])
       (erule task, erule sch)
qed


lemma defer_same [simp]:
  "en_recipient (defer_quiet_hours fmt now en) = en_recipient en"
  "en_channel (defer_quiet_hours fmt now en) = en_channel en"
  "en_contactId (defer_quiet_hours fmt now en) = en_contactId en"
  "en_destination (defer_quiet_hours fmt now en) = en_destination en"
  "en_priority (defer_quiet_hours fmt now en) = en_priority en"
  by (simp_all add: defer_quiet_hours_def Let_def split: option.split quiet_result.split)

text \<open>Where the contacts of a run come from.\<close>

lemma keep_engine_contacts:
  assumes "\<And>cs. rd_contacts rd = Inr cs \<or>
      (\<exists>c d. en_destination en = Some d \<and> cs = [\<lparr>ct_id = c, ct_channel = en_channel en, ct_target = d,
         ct_active = True, ct_topics = []\<rparr>]) \<Longrightarrow> keeps P (f cs)"
  shows "keeps P (bindA (engine_contacts rd en) f)"
  using assms by (auto simp: engine_contacts_def intro!: keep_bind_awaited split: option.split)

lemma engine_fan_out_gated:
  assumes h: "hands_on (eo_dispatch opts)" "\<not> rp_optedOut (en_recipient en)"
      "en_channel en \<notin> set (rp_channels (en_recipient en))"
    and fin: "keeps (logged (gated rd en)) finish"
    and same: "en_recipient en1 = en_recipient en" "en_channel en1 = en_channel en"
      "en_destination en1 = en_destination en"
  shows "keeps (logged (gated rd en)) (engine_fan_out hmac opts rd m en1 tpl now uuid finish)"
proof -
  have step: "keeps (logged (gated rd en)) (engine_contact_step hmac opts m en1 prompts topics sup now uuid c)"
    if "rd_suppressed rd = Inr sup" "ct_channel c = en_channel en" "ct_active c"
      and src: "\<exists>cs. c \<in> set cs \<and> (rd_contacts rd = Inr cs \<or> (\<exists>i d. en_destination en1 = Some d
        \<and> cs = [\<lparr>ct_id = i, ct_channel = en_channel en1, ct_target = d, ct_active = True, ct_topics = []\<rparr>]))"
    for prompts topics sup c
  proof -
    have "may_send rd en (en_channel en1) (Some (ct_target c))" if "\<not> contact_suppressed sup c"
      using h same that src \<open>rd_suppressed rd = Inr sup\<close> \<open>ct_channel c = en_channel en\<close> \<open>ct_active c\<close>
      by (auto simp: may_send_def contact_suppressed_def)
    then show ?thesis unfolding engine_contact_step_def
      by (intro keep_if keep_ret keep_logged_emit engine_send_gated h(1)) (simp_all add: skipped_def)
  qed
  show ?thesis unfolding engine_fan_out_def Let_def
    by (intro keep_engine_contacts keep_if keep_then keep_logged_emit fin keep_bind_awaited keep_for_each step)
       (auto simp: skipped_def same)
qed

lemma engine_gates_gated:
  assumes "hands_on (eo_dispatch opts)" "keeps (logged (gated rd en)) finish"
  shows "keeps (logged (gated rd en)) (engine_gates r fmt hmac opts rd m en now uuid finish)"
  unfolding engine_gates_def Let_def engine_throttle_def
  by (intro keep_if keep_then keep_logged_emit assms keep_bind keep_catch keep_awaited keep_ret
      keep_logged_redis keep_option engine_fan_out_gated) (simp_all add: skipped_def)

lemma engine_process_gated:
  assumes "hands_on (eo_dispatch opts)" "eo_idempotency opts = redis_guard r g" "msg_payload m = Some en"
  shows "keeps (logged (gated rd en)) (engine_process r fmt hmac opts rd m now uuid)"
  unfolding engine_process_def Let_def assms option.case
  by (intro keep_bind keep_if keep_ret keep_catch keep_then keep_ignore keep_throw
      engine_gates_gated assms(1)) (simp_all add: engine_guard_gated)

text \<open>
  C1: Whatever happens during a run of the engine (any lookup or call failing at any point,
  duplicates, retries, inline or from the stream), every send it produces, dispatched at once,
  parked for later, handed to the fused stage or routed to the AI worker, passed every gate:
  the user has not opted out, the channel is the message's and is not switched off, the
  address belongs to an active contact of the channel or is the one the enricher resolved,
  and it is not on the suppression list, whatever the priority.
\<close>
theorem engine_sends_only_past_the_gates:
  assumes "hands_on (eo_dispatch opts)" "eo_idempotency opts = redis_guard r g"
    and "msg_payload m = Some enriched" "w_log w = []"
    and "e \<in> set (w_log (snd (engine_process r fmt hmac opts rd m now uuid w)))"
    and "send_target e = Some (channel, destination)"
  shows "may_send rd enriched channel destination"
proof -
  have "logged (gated rd enriched) w" using assms(4) by (simp add: logged_def)
  then have "logged (gated rd enriched) (snd (engine_process r fmt hmac opts rd m now uuid w))"
    by (rule keepsD [OF engine_process_gated [OF assms(1,2,3)]])
  then show ?thesis using assms(5,6) by (auto simp: logged_def list_all_iff gated_def)
qed


section \<open>Quiet hours hold the send\<close>

text \<open>An output that waits until \<open>t\<close> or sends nothing.\<close>

definition waits_until :: "ms \<Rightarrow> effect \<Rightarrow> bool" where
  "waits_until t e = (case e of
       Publish s ev \<Rightarrow> (case ne_payload ev of
           Scheduled p \<Rightarrow> ns_scheduledAt p = t | AiPending p \<Rightarrow> ap_scheduledAt p = Some t | _ \<Rightarrow> False)
     | HandInline _ \<Rightarrow> False
     | _ \<Rightarrow> True)"

lemma scheduleOrDispatch_waits:
  assumes "so_scheduledAt opts = Some t" "now < t"
  shows "keeps (logged (waits_until t)) (scheduleOrDispatch deps task opts now uuid)"
  using assms by (auto simp: scheduleOrDispatch_def Let_def waits_until_def intro!: keep_intros)

lemma engine_fan_out_waits:
  assumes "en_scheduledAt en = Some t" "now < t" "keeps (logged (waits_until t)) finish"
  shows "keeps (logged (waits_until t)) (engine_fan_out hmac opts rd m en tpl now uuid finish)"
proof -
  have "keeps (logged (waits_until t)) (engine_contact_step hmac opts m en prompts topics sup now uuid c)"
    for prompts topics sup c
    unfolding engine_contact_step_def engine_send_def Let_def
    by (intro keep_if keep_ret keep_logged_emit keep_logged_perform scheduleOrDispatch_waits)
       (simp_all add: waits_until_def skipped_def engine_ai_pending_def assms)
  then show ?thesis unfolding engine_fan_out_def Let_def
    by (intro keep_engine_contacts keep_if keep_then keep_logged_emit assms(3) keep_bind_awaited keep_for_each)
       (simp_all add: waits_until_def skipped_def)
qed

lemma engine_process_waits:
  assumes "h23_clock fmt" "eo_idempotency opts = redis_guard r g" "msg_payload m = Some en"
    and "en_priority en \<noteq> PCritical" "rp_quietHours (en_recipient en) = Some qh"
    and "isInQuietHours fmt (rp_timezone (en_recipient en)) qh
           (max (case en_scheduledAt en of Some t \<Rightarrow> t | None \<Rightarrow> now) now) = Quiet t"
  shows "now < t" "keeps (logged (waits_until t)) (engine_process r fmt hmac opts rd m now uuid)"
proof -
  show later: "now < t"
    using quiet_release_after [OF assms(1,6)] by simp
  have "qh \<noteq> []" using assms(6) by (auto simp: isInQuietHours_def)
  then have held: "en_scheduledAt (defer_quiet_hours fmt now en) = Some t"
    using assms(4,5,6) by (simp add: defer_quiet_hours_def Let_def max_def not_less split: if_splits)
  have fan: "keeps (logged (waits_until t))
      (engine_fan_out hmac opts rd m (defer_quiet_hours fmt now en) tpl now uuid finish)"
    if "keeps (logged (waits_until t)) finish" for tpl finish
    using held later that by (rule engine_fan_out_waits)
  have "keeps (logged (waits_until t)) (engine_gates r fmt hmac opts rd m en now uuid finish)"
    if "keeps (logged (waits_until t)) finish" for finish
    unfolding engine_gates_def Let_def engine_throttle_def
    by (intro keep_if keep_then keep_logged_emit that keep_bind keep_catch keep_awaited keep_ret
        keep_logged_redis keep_option fan) (simp_all add: skipped_def waits_until_def)
  then show "keeps (logged (waits_until t)) (engine_process r fmt hmac opts rd m now uuid)"
    unfolding engine_process_def Let_def assms(2,3) option.case
    by (intro keep_bind keep_if keep_ret keep_catch keep_then keep_ignore keep_throw)
       (simp_all add: engine_guard_gated)
qed

text \<open>
  C4: A message that is not critical and whose send time falls into the recipient's quiet
  hours is held: the engine dispatches nothing, and whatever it announces or routes to the AI
  worker carries the end of the quiet hours as its send time, which lies ahead. The send time
  judged is the requested one, or now if that has passed.
\<close>
theorem engine_holds_in_quiet_hours:
  assumes "h23_clock fmt" "eo_idempotency opts = redis_guard r g" "msg_payload m = Some en"
    and "en_priority en \<noteq> PCritical" "rp_quietHours (en_recipient en) = Some qh"
    and "isInQuietHours fmt (rp_timezone (en_recipient en)) qh
           (max (case en_scheduledAt en of Some t \<Rightarrow> t | None \<Rightarrow> now) now) = Quiet t"
    and "w_log w = []"
  shows "now < t \<and> list_all (waits_until t) (w_log (snd (engine_process r fmt hmac opts rd m now uuid w)))"
proof
  show "now < t" by (rule engine_process_waits(1) [OF assms(1-6)])
  have "logged (waits_until t) w" by (simp add: logged_def assms(7))
  with engine_process_waits(2) [OF assms(1-6)]
  have "logged (waits_until t) (snd (engine_process r fmt hmac opts rd m now uuid w))" by (rule keepsD)
  then show "list_all (waits_until t) (w_log (snd (engine_process r fmt hmac opts rd m now uuid w)))"
    by (simp add: logged_def)
qed


section \<open>Duplicates and redelivery\<close>

lemma throttle_keeps_string:
  assumes "redis_separate_laws r" "k \<noteq> throttle_key p u"
  shows "GET r k (snd (throttle_check r ut p u prio opts uuid now s)) = GET r k s"
  using assms by (auto simp: throttle_check_def lua_user_throttle_def redis_separate_laws_def Let_def
      split: prod.split)

definition marked :: "'r redis \<Rightarrow> string \<Rightarrow> string \<Rightarrow> 'r pipe_world \<Rightarrow> bool" where
  "marked r k v w \<longleftrightarrow> no_faults w \<and> GET r k (w_redis w) = Some v"

lemma keep_marked [keep_intros]:
  "keeps (marked r k v) (emit e)" "keeps (marked r k v) (perform e)"
  "keeps (marked r k v) (park_if_absent i row)" "keeps (marked r k v) (park_upsert i row)"
  by (auto simp: keeps_def marked_def no_faults_def action_defs park_if_absent_def park_upsert_def Let_def
      split: option.split)

lemma keep_marked_redis:
  assumes "\<And>s. GET r k s = Some v \<Longrightarrow> GET r k (snd (f s)) = Some v"
  shows "keeps (marked r k v) (on_redis f)"
proof (rule keepsI)
  fix w assume w: "marked r k v w"
  obtain a s where f: "f (w_redis w) = (a, s)" by force
  have "GET r k s = Some v" using assms [of "w_redis w"] w by (simp add: f marked_def)
  then show "marked r k v (snd (on_redis f w))" using w
    by (simp add: marked_def no_faults_def on_redis_def attempt_def Let_def f)
qed

lemma keep_marked_dispatch:
  "dd_inlineNext deps = None \<Longrightarrow> keeps (marked r k v) (scheduleOrDispatch deps task opts now uuid)"
  unfolding scheduleOrDispatch_def Let_def by (simp, intro conjI impI keep_intros)

lemma keep_marked_gates:
  assumes "redis_separate_laws r" "\<And>p u. k \<noteq> throttle_key p u" "dd_inlineNext (eo_dispatch opts) = None"
    and fin: "keeps (marked r k v) finish"
  shows "keeps (marked r k v) (engine_gates r fmt hmac opts rd m en now uuid finish)"
proof -
  have fan: "keeps (marked r k v) (engine_fan_out hmac opts rd m en' tpl now uuid finish)" for en' tpl
    unfolding engine_fan_out_def engine_contact_step_def engine_send_def Let_def
    by (intro keep_engine_contacts keep_if keep_then keep_marked fin keep_bind_awaited keep_for_each
        keep_ret keep_marked_dispatch assms(3))
  show ?thesis unfolding engine_gates_def Let_def engine_throttle_def
    by (intro keep_if keep_then keep_marked fin keep_bind keep_catch keep_awaited keep_ret keep_option
        fan keep_marked_redis) (simp add: throttle_keeps_string assms(1,2))
qed

lemma engine_key_not_throttle:
  "ig_keyPrefix g = ''notif:processed:engine'' \<Longrightarrow> ig_key g k \<noteq> throttle_key p u"
  by (simp add: ig_key_def throttle_key_def)

lemma engine_ttl_pos: "0 < ttl \<Longrightarrow> 0 < ig_ttlSeconds g \<Longrightarrow> 0 < ig_ttl g (engine_ttl ttl now en)"
  by (auto simp: engine_ttl_def ig_ttl_def Let_def split: option.split)



section \<open>A concrete run\<close>

definition ex_profile :: RecipientProfile where
  "ex_profile = \<lparr>rp_id = ''u1'', rp_email = Some ''a@b.c'', rp_phone = None, rp_webhook = None,
     rp_pushTokens = None, rp_pushToken = None, rp_telegram = None, rp_discord = None, rp_slack = None,
     rp_locale = ''en'', rp_timezone = ''UTC'', rp_optedOut = False, rp_channels = [Sms],
     rp_quietHours = Some [\<lparr>qw_start = ''22:00'', qw_end = ''07:30''\<rparr>]\<rparr>"

definition ex_enriched :: "NotificationPriority \<Rightarrow> NotificationEnrichedPayload" where
  "ex_enriched priority = \<lparr>en_projectId = ''p1'', en_rawEventId = ''e1'', en_recipientId = ''u1'',
     en_channel = Email, en_priority = priority, en_templateId = None, en_templateVariables = [],
     en_recipient = ex_profile, en_aiPrompts = None, en_scheduledAt = None, en_fallbackChain = None,
     en_contactId = None, en_destination = None, en_campaignId = None, en_workflowInstanceId = None,
     en_throttleCounted = None\<rparr>"

definition ex_message :: "NotificationPriority \<Rightarrow> engine_message" where
  "ex_message priority = \<lparr>msg_inline = False, msg_eventId = ''m1'', msg_traceId = ''t1'',
     msg_payload = Some (ex_enriched priority)\<rparr>"

definition ex_reads :: engine_reads where
  "ex_reads = \<lparr>rd_settings = Inl (Error ''down''), rd_template = Inr None,
     rd_contacts = Inr [\<lparr>ct_id = ''c1'', ct_channel = Email, ct_target = ''a@b.c'', ct_active = True,
       ct_topics = []\<rparr>],
     rd_suppressed = Inr [''x@b.c'']\<rparr>"

definition ex_options :: "mem_store EngineWorkerOptions" where
  "ex_options = \<lparr>eo_idempotency = redis_guard mem_redis (idempotency_guard_new ''notif:processed:engine'' None),
     eo_throttle = user_throttle_new None None,
     eo_dispatch = \<lparr>dd_outbound = (\<lambda>b. Some (OUTBOUND b)), dd_inlineNext = None\<rparr>,
     eo_ttlSeconds = 86400, eo_unsubscribeSecret = None, eo_publicUrl = None\<rparr>"

definition ex_world :: "mem_store pipe_world" where
  "ex_world = \<lparr>w_redis = mem_empty, w_log = [], w_step = 0, w_faults = (\<lambda>_. None), w_parked = [], w_breakers = []\<rparr>"

abbreviation ex_run :: "NotificationPriority \<Rightarrow> ms \<Rightarrow> (exn + unit) \<times> mem_store pipe_world" where
  "ex_run priority now \<equiv> engine_process mem_redis (fixed_zone 0) (\<lambda>k d. []) ex_options ex_reads
     (ex_message priority) now (\<lambda>_. ''id'') ex_world"

lemmas ex_defs = ex_profile_def ex_enriched_def ex_message_def ex_reads_def ex_options_def ex_world_def

lemmas engine_defs = engine_process_def engine_gates_def engine_fan_out_def engine_contact_step_def
  engine_send_def engine_contacts_def engine_throttle_def defer_quiet_hours_def scheduleOrDispatch_def
  merge_prompts_def topic_opted_out_def contact_suppressed_def redis_guard_def engine_key_def

lemma ex_target: "normaliseTarget ''a@b.c'' = ''a@b.c''"
  by code_simp

lemma ex_run_critical:
  "\<exists>ev. w_log (snd (ex_run PCritical 0)) = [Publish (OUTBOUND Critical) ev]
     \<and> (\<exists>t. ne_payload ev = Dispatched t \<and> dt_channel t = Email \<and> dt_destination t = Some ''a@b.c'')"
  by (simp add: engine_defs ex_defs action_defs checkAndMark_def mem_redis_def mem_empty_def mem_set_def
      throttle_check_def nonNegativeOrNull_def positiveOrNull_def outbound_producer_def
      engine_task_def ex_target Let_def markProcessed_def getPriorityBucket_def)

lemma engine_sends_only_past_the_gates_witness:
  "may_send ex_reads (ex_enriched PCritical) Email (Some ''a@b.c'')"
proof -
  obtain ev t where run: "w_log (snd (ex_run PCritical 0)) = [Publish (OUTBOUND Critical) ev]"
    "ne_payload ev = Dispatched t" "dt_channel t = Email" "dt_destination t = Some ''a@b.c''"
    using ex_run_critical by blast
  show ?thesis
    by (rule engine_sends_only_past_the_gates [of ex_options mem_redis
          "idempotency_guard_new ''notif:processed:engine'' None" "ex_message PCritical"
          "ex_enriched PCritical" ex_world "Publish (OUTBOUND Critical) ev" "fixed_zone 0" "\<lambda>k d. []"
          ex_reads 0 "\<lambda>_. ''id''"])
       (simp_all add: run send_target_def, simp_all add: ex_defs hands_on_def)
qed

lemma engine_holds_in_quiet_hours_witness:
  "(0 :: ms) < 27000000 \<and> list_all (waits_until 27000000) (w_log (snd (ex_run PNormal 0)))"
proof (rule engine_holds_in_quiet_hours)
  show "h23_clock (fixed_zone 0)" by (rule fixed_zone_h23)
  show "isInQuietHours (fixed_zone 0) (rp_timezone (en_recipient (ex_enriched PNormal)))
      [\<lparr>qw_start = ''22:00'', qw_end = ''07:30''\<rparr>]
      (max (case en_scheduledAt (ex_enriched PNormal) of Some t \<Rightarrow> t | None \<Rightarrow> 0) 0) = Quiet 27000000"
    by (subst isInQuietHours_fixed [where sh = 22 and sm = 0 and eh = 7 and em = 30])
       (simp, code_simp, code_simp, simp, code_simp)
qed (simp_all add: ex_defs)


end
