(* ===== verification/Delivery.thy ===== *)
theory Delivery
  imports Task_Dispatch Throttle_Idempotency Template_Render Rate_Limiter
begin

text \<open>
  The delivery stage (\<open>DeliveryWorker\<close> of \<open>src/src/services/delivery/main.ts\<close>): one
  dispatched task goes to the providers of its channel, under the lease of its task id, with a
  circuit breaker per provider; a failure is retried through the scheduler, then falls back to
  the next channel or is reported. What the outside answered during the run is an input: the
  provider throttle's answers, the template lookup, and per provider what \<open>send\<close> returned
  or threw (a timeout is a throw) and the clock around it.
\<close>

section \<open>Providers and inputs\<close>

record provider_limits =
  pl_limit :: int
  pl_windowSeconds :: int

record transport =
  tp_name :: string
  tp_limits :: "provider_limits option"

record DeliveryResult =
  sr_success :: bool
  sr_providerMessageId :: "string option"
  sr_invalidToken :: bool
  sr_error :: "string option"
  sr_retryable :: "bool option"

text \<open>An error thrown by \<open>send\<close> has a message and perhaps a \<open>retryable\<close> field.\<close>

datatype send_outcome = SendReturned DeliveryResult | SendThrew string "bool option"

text \<open>
  \<open>dr_gate\<close> and \<open>dr_gate2\<close> are the throttle's answers for a provider in the first scan and
  in the send loop; \<open>dr_before\<close> and \<open>dr_after\<close> the clock before and after its send;
  \<open>dr_slow\<close> says that the log timer fired before the outcome was known; \<open>dr_random\<close> is
  the draw of the deferral's spread, in thousandths.
\<close>

record delivery_reads =
  dr_gate :: "nat \<Rightarrow> exn + throttle_result"
  dr_gate2 :: "nat \<Rightarrow> exn + throttle_result"
  dr_template :: "exn + json option option"
  dr_send :: "nat \<Rightarrow> send_outcome"
  dr_before :: "nat \<Rightarrow> ms"
  dr_after :: "nat \<Rightarrow> ms"
  dr_start :: ms
  dr_now :: ms
  dr_slow :: bool
  dr_random :: int

record 'r DeliveryWorkerOptions =
  do_transports :: "NotificationChannel \<Rightarrow> transport list"
  do_redis :: "'r redis"
  do_idempotency :: idempotency_guard
  do_env1 :: "'r \<Rightarrow> 'r"
  do_env2 :: "'r \<Rightarrow> 'r"
  do_enrichedProducers :: "priority_bucket \<Rightarrow> StreamName option"
  do_templateCache :: bool

datatype process_result = Ack | NoAck

definition RETRY_BACKOFF_MS :: "ms list" where
  "RETRY_BACKOFF_MS = [30000, 120000, 600000]"

definition MAX_THROTTLE_DEFERRALS :: nat where
  "MAX_THROTTLE_DEFERRALS = 50"

definition MAX_DISPATCH_BUDGET_MS :: ms where
  "MAX_DISPATCH_BUDGET_MS = 25000"

definition retryDelayMs :: "nat \<Rightarrow> ms" where
  "retryDelayMs priorFailures = RETRY_BACKOFF_MS ! min priorFailures (length RETRY_BACKOFF_MS - 1)"

definition providerKey :: "NotificationChannel \<Rightarrow> transport list \<Rightarrow> nat \<Rightarrow> string" where
  "providerKey channel transports i =
     (let name = tp_name (transports ! i);
          nth = length (filter (\<lambda>t. tp_name t = name) (take i transports))
      in if nth = 0 then channel_text channel @ '':'' @ name
         else channel_text channel @ '':'' @ name @ ''#'' @ show_nat (nth + 1))"

text \<open>\<open>res.error ?? "Transport failed"\<close>, keeping what the provider said of another attempt.\<close>

definition providerFailure :: "DeliveryResult \<Rightarrow> string \<times> bool option" where
  "providerFailure res =
     (case sr_error res of Some e \<Rightarrow> e | None \<Rightarrow> ''Transport failed'', sr_retryable res)"

definition delivery_render ::
  "'r DeliveryWorkerOptions \<Rightarrow> delivery_reads \<Rightarrow> DispatchedTaskPayload \<Rightarrow> ('r, RenderedContent) pipe_act" where
  "delivery_render opts rd task =
     (case dt_templateId task of
        None \<Rightarrow> ret \<lparr>rc_content = renderWithTemplate None (dt_templateVariables task), rc_attachments = None\<rparr>
      | Some templateId \<Rightarrow>
          bindA (if do_templateCache opts then awaited (dr_template rd) else ret None) (\<lambda>template.
          case template of
            None \<Rightarrow> throw (NonRetryableError (''template '' @ json_quote templateId @ '' not found at send time''))
          | Some content \<Rightarrow>
              ret \<lparr>rc_content = renderWithTemplate (Some content) (dt_templateVariables task),
                   rc_attachments = None\<rparr>))"

definition reschedule ::
  "DispatchedTaskPayload \<Rightarrow> ms \<Rightarrow> string \<Rightarrow> ms \<Rightarrow> ('r, unit) pipe_act" where
  "reschedule task sendAt reason now =
     thenA (park_upsert (dt_taskId task) \<lparr>pk_task = task, pk_scheduledAt = Some sendAt\<rparr>)
       (perform (Publish SCHEDULED (buildStreamEvent (Scheduled
          \<lparr>ns_projectId = dt_projectId task, ns_enrichedEventId = dt_enrichedEventId task,
           ns_taskId = dt_taskId task, ns_scheduledAt = sendAt\<rparr>) ''delivery''
          (Some (dt_taskId task @ '':'' @ reason @ '':'' @ show_int now)) [])))"

definition providerGate ::
  "(nat \<Rightarrow> exn + throttle_result) \<Rightarrow> transport list \<Rightarrow> nat \<Rightarrow> ('r, throttle_result) pipe_act" where
  "providerGate answers transports i =
     (case tp_limits (transports ! i) of
        None \<Rightarrow> ret \<lparr>tr_allowed = True, tr_retryAfterMs = 0\<rparr>
      | Some limits \<Rightarrow> awaited (answers i))"

definition getBreaker :: "string \<Rightarrow> (string, breaker) jsmap \<Rightarrow> breaker \<times> (string, breaker) jsmap" where
  "getBreaker name breakers =
     (case jm_get breakers name of
        Some b \<Rightarrow> (b, breakers)
      | None \<Rightarrow> let b = breaker_new 5 30000 in (b, jm_set name b breakers))"

section \<open>Outcome events\<close>

definition delivery_event :: "EventPayload \<Rightarrow> string \<Rightarrow> new_event" where
  "delivery_event payload traceId = buildStreamEvent payload ''delivery'' (Some traceId) []"

definition dispatched_entry :: "DispatchedTaskPayload \<Rightarrow> nat \<Rightarrow> string \<Rightarrow> effect" where
  "dispatched_entry task attemptNo traceId = AddEvent (delivery_event (DispatchedLog
     \<lparr>dl_projectId = dt_projectId task, dl_taskId = dt_taskId task,
      dl_enrichedEventId = dt_enrichedEventId task, dl_recipientId = dt_recipientId task,
      dl_channel = dt_channel task, dl_templateId = dt_templateId task, dl_attempt = attemptNo,
      dl_workflowInstanceId = dt_workflowInstanceId task, dl_campaignId = dt_campaignId task\<rparr>) traceId)"

text \<open>\<open>dispatchedAt\<close> is there when the dispatched entry rides on the outcome.\<close>

definition failed_entry ::
  "DispatchedTaskPayload \<Rightarrow> nat \<Rightarrow> string \<Rightarrow> string \<Rightarrow> string \<Rightarrow> bool \<Rightarrow> ms option \<Rightarrow> effect" where
  "failed_entry task attemptNo traceId failureReason failureCode withRecipientId dispatchedAt =
     AddEvent (delivery_event (Failed
       \<lparr>nf_projectId = dt_projectId task, nf_taskId = dt_taskId task,
        nf_enrichedEventId = dt_enrichedEventId task,
        nf_recipientId = (if withRecipientId then Some (dt_recipientId task) else None),
        nf_channel = dt_channel task, nf_failureReason = failureReason, nf_failureCode = failureCode,
        nf_retryable = False, nf_attempt = attemptNo, nf_templateId = dt_templateId task,
        nf_workflowInstanceId = dt_workflowInstanceId task, nf_campaignId = dt_campaignId task,
        nf_dispatchedAt = dispatchedAt\<rparr>) traceId)"

definition delivered_entry ::
  "DispatchedTaskPayload \<Rightarrow> nat \<Rightarrow> string \<Rightarrow> string \<Rightarrow> ms \<Rightarrow> ms option \<Rightarrow> effect" where
  "delivered_entry task attemptNo traceId providerMessageId deliveredAt dispatchedAt =
     AddEvent (delivery_event (Delivered
       \<lparr>nd_projectId = dt_projectId task, nd_taskId = dt_taskId task,
        nd_enrichedEventId = dt_enrichedEventId task, nd_channel = dt_channel task,
        nd_deliveredAt = deliveredAt, nd_providerMessageId = Some providerMessageId,
        nd_templateId = dt_templateId task, nd_workflowInstanceId = dt_workflowInstanceId task,
        nd_campaignId = dt_campaignId task,
        nd_attempt = (case dispatchedAt of Some _ \<Rightarrow> Some attemptNo | None \<Rightarrow> None),
        nd_dispatchedAt = dispatchedAt\<rparr>) traceId)"

section \<open>Falling back and deferring\<close>

definition fallback_payload ::
  "DispatchedTaskPayload \<Rightarrow> NotificationChannel \<Rightarrow> NotificationChannel list \<Rightarrow> RecipientProfile
    \<Rightarrow> NotificationEnrichedPayload" where
  "fallback_payload task nextChannel remainingChain recipient =
     \<lparr>en_projectId = dt_projectId task, en_rawEventId = dt_enrichedEventId task,
      en_recipientId = dt_recipientId task, en_channel = nextChannel, en_priority = dt_priority task,
      en_templateId = dt_templateId task, en_templateVariables = dt_templateVariables task,
      en_recipient = recipient, en_aiPrompts = dt_aiPrompts task, en_scheduledAt = None,
      en_fallbackChain = (if remainingChain \<noteq> [] then Some remainingChain else None),
      en_contactId = None, en_destination = None, en_campaignId = dt_campaignId task,
      en_workflowInstanceId = dt_workflowInstanceId task, en_throttleCounted = Some True\<rparr>"

definition fallbackToNextChannel ::
  "'r DeliveryWorkerOptions \<Rightarrow> DispatchedTaskPayload \<Rightarrow> string \<Rightarrow> ('r, bool) pipe_act" where
  "fallbackToNextChannel opts task traceId =
     (case (dt_fallbackChain task, dt_recipient task) of
        (Some (nextChannel # remainingChain), Some recipient) \<Rightarrow>
          let producer = (case do_enrichedProducers opts
                              (getPriorityBucket (Some (priority_text (dt_priority task)))) of
                            Some p \<Rightarrow> p | None \<Rightarrow> the (do_enrichedProducers opts Normal))
          in thenA (perform (Publish producer
               (delivery_event (Enriched (fallback_payload task nextChannel remainingChain recipient)) traceId)))
             (ret True)
      | _ \<Rightarrow> ret False)"

text \<open>The first scan over the providers: the first with room, or the shortest wait and window.\<close>

fun scan_providers ::
  "(nat \<Rightarrow> exn + throttle_result) \<Rightarrow> transport list \<Rightarrow> nat list \<Rightarrow> ms option \<Rightarrow> ms option
    \<Rightarrow> ('r, nat option \<times> ms option \<times> ms option) pipe_act" where
  "scan_providers answers transports [] retryAfterMs windowMs = ret (None, retryAfterMs, windowMs)"
| "scan_providers answers transports (i # is) retryAfterMs windowMs =
     bindA (providerGate answers transports i) (\<lambda>gate.
       if tr_allowed gate then ret (Some i, retryAfterMs, windowMs)
       else let least = (\<lambda>a b. case a of None \<Rightarrow> Some b | Some x \<Rightarrow> Some (min x b));
                window = (case tp_limits (transports ! i) of Some l \<Rightarrow> pl_windowSeconds l | None \<Rightarrow> 0) * 1000
            in scan_providers answers transports is (least retryAfterMs (tr_retryAfterMs gate)) (least windowMs window))"

definition no_transport ::
  "'r DeliveryWorkerOptions \<Rightarrow> DispatchedTaskPayload \<Rightarrow> nat \<Rightarrow> string \<Rightarrow> string \<Rightarrow> string \<Rightarrow> string
    \<Rightarrow> ('r, process_result) pipe_act" where
  "no_transport opts task attemptNo traceId emitted reason code =
     bindA (fallbackToNextChannel opts task traceId) (\<lambda>triggered.
       if triggered then ret Ack
       else thenA (emit (EmitDeliveryFailed (dt_taskId task) emitted (dt_channel task) (dt_projectId task)))
         (thenA (perform (failed_entry task attemptNo traceId reason code True None)) (ret Ack)))"

definition defer_throttled ::
  "'r DeliveryWorkerOptions \<Rightarrow> delivery_reads \<Rightarrow> DispatchedTaskPayload \<Rightarrow> nat \<Rightarrow> string \<Rightarrow> ms \<Rightarrow> ms
    \<Rightarrow> ('r, process_result) pipe_act" where
  "defer_throttled opts rd task attemptNo traceId retryAfterMs windowMs =
     (let count = (case dt_throttleAttemptCount task of Some n \<Rightarrow> n | None \<Rightarrow> 0) + 1
      in if count > MAX_THROTTLE_DEFERRALS
         then no_transport opts task attemptNo traceId ''provider throttle exceeded''
                ''provider rate limit max attempts exceeded'' ''provider_throttle_exceeded''
         else
           let spreadMs = dr_random rd * windowMs * int (min count 10) div 1000
           in thenA (reschedule (task\<lparr>dt_throttleAttemptCount := Some count\<rparr>)
                (dr_now rd + retryAfterMs + spreadMs) ''throttle'' (dr_now rd)) (ret Ack))"


section \<open>Sending\<close>

definition no_result :: DeliveryResult where
  "no_result = \<lparr>sr_success = False, sr_providerMessageId = None, sr_invalidToken = False,
     sr_error = Some ''No transports'', sr_retryable = None\<rparr>"

definition failed_result :: "string \<Rightarrow> bool option \<Rightarrow> DeliveryResult" where
  "failed_result error retryable = \<lparr>sr_success = False, sr_providerMessageId = None,
     sr_invalidToken = False, sr_error = Some error, sr_retryable = retryable\<rparr>"

text \<open>The action the breaker runs: what it returns, or throws.\<close>

definition send_action :: "bool \<Rightarrow> send_outcome \<Rightarrow> (string \<times> bool option) + DeliveryResult" where
  "send_action isPush out =
     (case out of
        SendThrew e retryable \<Rightarrow> Inl (e, retryable)
      | SendReturned res \<Rightarrow>
          if \<not> sr_success res \<and> \<not> (isPush \<and> sr_invalidToken res) \<and> sr_retryable res \<noteq> Some False
          then Inl (providerFailure res) else Inr res)"

text \<open>One provider under its breaker. The send is logged when the breaker admits it.\<close>

definition send_one ::
  "delivery_reads \<Rightarrow> transport list \<Rightarrow> DispatchedTaskPayload \<Rightarrow> nat \<Rightarrow> 'r pipe_world
    \<Rightarrow> DeliveryResult \<times> 'r pipe_world" where
  "send_one rd transports task i w =
     (let key = providerKey (dt_channel task) transports i;
          (b, bs) = getBreaker key (w_breakers w);
          isPush = (dt_channel task = Push);
          w1 = (if fst (cb_enter (dr_before rd i) b) = Refused then w
                else record_effect (SendTo i task) w);
          (res, b') = cb_execute (dr_before rd i) (dr_after rd i) (send_action isPush (dr_send rd i)) b
      in (case res of
            Inr r \<Rightarrow> r
          | Inl Breaker_Open \<Rightarrow> failed_result ''Circuit breaker is OPEN'' None
          | Inl (Action_Error e) \<Rightarrow> failed_result (fst e) (snd e),
          w1\<lparr>w_breakers := jm_set key b' bs\<rparr>))"

fun send_loop ::
  "delivery_reads \<Rightarrow> transport list \<Rightarrow> DispatchedTaskPayload \<Rightarrow> nat \<Rightarrow> nat list \<Rightarrow> DeliveryResult
    \<Rightarrow> ('r, DeliveryResult) pipe_act" where
  "send_loop rd transports task startAt [] result = ret result"
| "send_loop rd transports task startAt (i # is) result =
     bindA (if i > startAt then providerGate (dr_gate2 rd) transports i
            else ret \<lparr>tr_allowed = True, tr_retryAfterMs = 0\<rparr>) (\<lambda>gate.
       if \<not> tr_allowed gate then send_loop rd transports task startAt is result
       else if max 0 (MAX_DISPATCH_BUDGET_MS - (dr_before rd i - dr_start rd)) \<le> 0 then ret result
       else bindA (\<lambda>w. case send_one rd transports task i w of (r, w') \<Rightarrow> (Inr r, w')) (\<lambda>r.
         if sr_success r \<or> dt_channel task = Push \<and> sr_invalidToken r then ret r
         else send_loop rd transports task startAt is r))"

definition retryLater ::
  "delivery_reads \<Rightarrow> DispatchedTaskPayload \<Rightarrow> nat \<Rightarrow> DeliveryResult \<Rightarrow> ('r, bool) pipe_act" where
  "retryLater rd original attemptNo failure =
     (if sr_retryable failure = Some False \<or> attemptNo \<ge> do_maxAttempts (dt_deliveryOptions original)
      then ret False
      else let prior = (case dt_deliveryAttemptCount original of Some n \<Rightarrow> n | None \<Rightarrow> 0)
           in thenA (reschedule (original\<lparr>dt_deliveryAttemptCount := Some attemptNo\<rparr>)
                (dr_now rd + retryDelayMs prior) ''retry'' (dr_now rd)) (ret True))"

text \<open>
  The outcome branches. The dispatched entry is logged on its own when the timer fired first,
  and when a retry leaves no outcome event for it to ride on. The result says whether a retry
  was scheduled.
\<close>

definition delivery_outcome ::
  "'r DeliveryWorkerOptions \<Rightarrow> delivery_reads \<Rightarrow> DispatchedTaskPayload \<Rightarrow> nat \<Rightarrow> string \<Rightarrow> DeliveryResult
    \<Rightarrow> ('r, bool) pipe_act" where
  "delivery_outcome opts rd task attemptNo traceId result =
     (let isPush = (dt_channel task = Push);
          rides = (if dr_slow rd then None else Some (dr_start rd));
          outbox = (\<lambda>mid. emit (AddOutboxUpdate (dt_taskId task) (dt_channel task) (dt_destination task) mid));
          failedNow = (\<lambda>reason. emit (EmitDeliveryFailed (dt_taskId task) reason (dt_channel task) (dt_projectId task)));
          orThrow = (\<lambda>message. bindA (fallbackToNextChannel opts task traceId) (\<lambda>triggered.
            if triggered then ret False else throw (NonRetryableError message)))
      in if isPush \<and> sr_invalidToken result then
           thenA (outbox None)
           (thenA (perform (DeactivateContact (dt_projectId task) (dt_recipientId task) (dt_channel task)
                    (dt_destination task)))
           (thenA (failedNow ''invalidToken'')
           (thenA (emit (failed_entry task attemptNo traceId ''invalid_token'' ''push_failure'' True rides))
             (orThrow ''Push delivery failed: invalid token''))))
         else if sr_success result then
           let providerMessageId = (case sr_providerMessageId result of
                   Some p \<Rightarrow> if p \<noteq> [] then p else if isPush then ''push-success'' else ''success''
                 | None \<Rightarrow> if isPush then ''push-success'' else ''success'')
           in thenA (outbox (Some providerMessageId))
              (thenA (emit (EmitDelivered (dt_taskId task) providerMessageId (dt_channel task) (dt_projectId task)))
              (thenA (emit (delivered_entry task attemptNo traceId providerMessageId (dr_now rd) rides))
                (ret False)))
         else bindA (retryLater rd task attemptNo result) (\<lambda>scheduled.
           if scheduled then ret True
           else
             let error = (case sr_error result of Some e \<Rightarrow> e
                   | None \<Rightarrow> if isPush then ''push delivery failed'' else ''delivery failed completely'');
                 thrown = (case sr_error result of Some e \<Rightarrow> e
                   | None \<Rightarrow> if isPush then ''Push delivery failed'' else ''delivery failed'')
             in if isPush
                then thenA (failedNow error) (thenA (outbox None)
                  (thenA (emit (failed_entry task attemptNo traceId error ''push_failure'' True rides)) (orThrow thrown)))
                else thenA (outbox None)
                  (thenA (emit (failed_entry task attemptNo traceId error ''provider_error'' False rides))
                  (thenA (failedNow error) (orThrow thrown)))))"

text \<open>\<open>unmark\<close> in the handlers below is awaited with its error swallowed.\<close>

definition release_lease :: "'r DeliveryWorkerOptions \<Rightarrow> string \<Rightarrow> ('r, unit) pipe_act" where
  "release_lease opts key =
     ignore_errors (on_redis (\<lambda>s. ((), unmark (do_redis opts) (do_idempotency opts) key s)))"

text \<open>Whether the log has the dispatched entry, on its own or on an outcome.\<close>

definition has_entry :: "'r pipe_world \<Rightarrow> nat \<Rightarrow> bool" where
  "has_entry w n = list_ex (\<lambda>e. case e of
       AddEvent ev \<Rightarrow> (case ne_payload ev of DispatchedLog _ \<Rightarrow> True | Delivered _ \<Rightarrow> True | Failed _ \<Rightarrow> True | _ \<Rightarrow> False)
     | _ \<Rightarrow> False) (drop n (w_log w))"

text \<open>\<open>logDispatched()\<close> at the end: an entry that has not gone out yet.\<close>

definition logDispatched ::
  "DispatchedTaskPayload \<Rightarrow> nat \<Rightarrow> string \<Rightarrow> nat \<Rightarrow> ('r, unit) pipe_act" where
  "logDispatched task attemptNo traceId n w =
     (if has_entry w n then (Inr (), w) else emit (dispatched_entry task attemptNo traceId) w)"

definition dispatch_under_lease ::
  "'r DeliveryWorkerOptions \<Rightarrow> delivery_reads \<Rightarrow> DispatchedTaskPayload \<Rightarrow> transport list \<Rightarrow> nat \<Rightarrow> nat \<Rightarrow> string
    \<Rightarrow> ('r, process_result) pipe_act" where
  "dispatch_under_lease opts rd task transports startAt attemptNo traceId w0 =
     (let key = dt_taskId task; n = length (w_log w0);
          sent = bindA (case dt_renderedContent task of Some c \<Rightarrow> ret c | None \<Rightarrow> delivery_render opts rd task)
            (\<lambda>content. catchA
              (bindA (send_loop rd transports (task\<lparr>dt_renderedContent := Some content\<rparr>) startAt
                        [startAt..<length transports] no_result) (\<lambda>result.
               thenA (if dr_slow rd then emit (dispatched_entry task attemptNo traceId) else ret ())
               (bindA (delivery_outcome opts rd task attemptNo traceId result) (\<lambda>scheduled.
               thenA (logDispatched task attemptNo traceId n)
                 (if scheduled then release_lease opts key
                  else ignore_errors (on_redis (\<lambda>s. ((),
                         markProcessed (do_redis opts) (do_idempotency opts) key None s))))))))
              (\<lambda>err. thenA (logDispatched task attemptNo traceId n) (throw err)))
      in catchA (thenA sent (ret Ack)) (\<lambda>err. thenA (release_lease opts key) (throw err)) w0)"

section \<open>process\<close>

definition delivery_process ::
  "'r DeliveryWorkerOptions \<Rightarrow> delivery_reads \<Rightarrow> DispatchedTaskPayload option \<Rightarrow> string \<Rightarrow> nat
    \<Rightarrow> ('r, process_result) pipe_act" where
  "delivery_process opts rd payload traceId deliveryCount =
     (case payload of
        None \<Rightarrow> ret Ack
      | Some task \<Rightarrow>
          let attemptNo = (case dt_deliveryAttemptCount task of Some n \<Rightarrow> n | None \<Rightarrow> 0) + deliveryCount;
              transports = do_transports opts (dt_channel task)
          in if transports = []
             then no_transport opts task attemptNo traceId ''no transport''
                    ''no transport registered for channel'' ''no_transport''
             else bindA (scan_providers (dr_gate rd) transports [0..<length transports] None None)
               (\<lambda>(startAt, retryAfterMs, windowMs).
               case startAt of
                 None \<Rightarrow> defer_throttled opts rd task attemptNo traceId (the retryAfterMs) (the windowMs)
               | Some startAt \<Rightarrow>
                   bindA (on_redis (acquireLease (do_redis opts) (do_idempotency opts) (dt_taskId task) 60
                            (do_env1 opts) (do_env2 opts))) (\<lambda>lease.
                   case lease of
                     Completed \<Rightarrow> ret Ack
                   | Locked \<Rightarrow> ret NoAck
                   | Acquired \<Rightarrow>
                       dispatch_under_lease opts rd task transports startAt attemptNo traceId)))"


section \<open>Who was sent to\<close>

definition good_result :: "NotificationChannel \<Rightarrow> DeliveryResult \<Rightarrow> bool" where
  "good_result ch r = (sr_success r \<and> \<not> (ch = Push \<and> sr_invalidToken r))"

definition accepted :: "NotificationChannel \<Rightarrow> send_outcome \<Rightarrow> bool" where
  "accepted ch out = (case out of SendReturned r \<Rightarrow> good_result ch r | SendThrew _ _ \<Rightarrow> False)"

definition sends_of :: "effect list \<Rightarrow> nat list" where
  "sends_of es = List.map_filter (\<lambda>e. case e of SendTo i _ \<Rightarrow> Some i | _ \<Rightarrow> None) es"

definition is_delivered :: "effect \<Rightarrow> bool" where
  "is_delivered e = (case e of AddEvent ev \<Rightarrow> (case ne_payload ev of Delivered _ \<Rightarrow> True | _ \<Rightarrow> False) | _ \<Rightarrow> False)"

lemma sends_of_simps [simp]:
  "sends_of [] = []" "sends_of (a @ b) = sends_of a @ sends_of b"
  "sends_of [SendTo i t] = [i]"
  "sends_of (map (\<lambda>i. SendTo i t) is) = is"
  by (simp_all add: sends_of_def List.map_filter_def filter_empty_conv comp_def)

lemma sends_of_cons2: "sends_of (e # f # es) = sends_of [e] @ sends_of (f # es)"
  using sends_of_simps(2) [of "[e]" "f # es"] by simp

text \<open>Outputs other than sends and delivered events.\<close>

definition quiet_effect :: "effect \<Rightarrow> bool" where
  "quiet_effect e = (sends_of [e] = [] \<and> \<not> is_delivered e)"

lemma quiet_effects [simp]:
  "quiet_effect (Publish s e)" "quiet_effect (EmitDeliveryFailed a b c d)" "quiet_effect (EmitDelivered a b c d)"
  "quiet_effect (AddOutboxUpdate a b' c' d')" "quiet_effect (DeactivateContact a b c d'')"
  "quiet_effect (Park t)" "quiet_effect (failed_entry t n tr r code wr da)" "quiet_effect (dispatched_entry t n tr)"
  by (simp_all add: quiet_effect_def sends_of_def List.map_filter_def is_delivered_def failed_entry_def
      dispatched_entry_def delivery_event_def)

definition trace_is :: "nat list \<Rightarrow> bool \<Rightarrow> 'r pipe_world \<Rightarrow> bool" where
  "trace_is sends d w \<longleftrightarrow> sends_of (w_log w) = sends \<and> (list_ex is_delivered (w_log w) \<longleftrightarrow> d)"

lemma keep_trace_emit [keep_intros]: "quiet_effect e \<Longrightarrow> keeps (trace_is S d) (emit e)"
  by (simp add: keeps_def trace_is_def emit_def record_effect_def quiet_effect_def)

lemma keep_trace_perform [keep_intros]: "quiet_effect e \<Longrightarrow> keeps (trace_is S d) (perform e)"
  by (simp add: keeps_def trace_is_def perform_def attempt_def record_effect_def quiet_effect_def Let_def
      split: option.split)

lemma keep_trace_redis [keep_intros]: "keeps (trace_is S d) (on_redis f)"
  by (simp add: keeps_def trace_is_def on_redis_def attempt_def Let_def split: option.split prod.split)

lemma keep_trace_park [keep_intros]: "keeps (trace_is S d) (park_upsert i row)"
  using quiet_effects(6) [of "pk_task row"]
  by (auto simp: keeps_def trace_is_def park_upsert_def attempt_def record_effect_def quiet_effect_def Let_def
      split: option.split)

lemma keep_trace_log [keep_intros]: "keeps (trace_is S d) (logDispatched task n tr k)"
  using keep_trace_emit [of "dispatched_entry task n tr" S d]
  by (auto simp: keeps_def logDispatched_def)

lemma keep_trace_gate [keep_intros]: "keeps (trace_is S d) (providerGate a ts i)"
  by (auto simp: providerGate_def intro: keep_intros split: option.split)

lemma keep_trace_reschedule [keep_intros]: "keeps (trace_is S d) (reschedule task t reason now)"
  unfolding reschedule_def by (intro keep_intros) simp

lemma keep_trace_fallback [keep_intros]: "keeps (trace_is S d) (fallbackToNextChannel opts task tr)"
  by (auto simp: fallbackToNextChannel_def Let_def intro!: keep_intros split: option.split list.split)

lemma keep_trace_render [keep_intros]: "keeps (trace_is S d) (delivery_render opts rd task)"
  unfolding delivery_render_def by (intro keep_intros)

lemma keep_trace_retry [keep_intros]: "keeps (trace_is S d) (retryLater rd task n r)"
  unfolding retryLater_def Let_def by (intro keep_intros)

lemma keep_trace_release [keep_intros]: "keeps (trace_is S d) (release_lease opts key)"
  unfolding release_lease_def by (intro keep_intros)

lemma keep_trace_no_transport [keep_intros]:
  "keeps (trace_is S d) (no_transport opts task n tr e r c)"
  unfolding no_transport_def by (intro keep_intros) simp_all

lemma keep_trace_defer [keep_intros]:
  "keeps (trace_is S d) (defer_throttled opts rd task n tr a b)"
  unfolding defer_throttled_def Let_def by (intro keep_intros)

lemma keep_trace_scan [keep_intros]: "keeps (trace_is S d) (scan_providers a ts is x y)"
  by (induction "is" arbitrary: x y) (auto simp: Let_def intro!: keep_intros)


lemma send_one_spec:
  assumes "send_one rd ts task i w = (r, w')"
  shows "w_redis w' = w_redis w \<and> w_faults w' = w_faults w \<and> w_parked w' = w_parked w
    \<and> (w_log w' = w_log w \<and> \<not> sr_success r \<and> \<not> sr_invalidToken r
       \<or> w_log w' = w_log w @ [SendTo i task]
         \<and> good_result (dt_channel task) r = accepted (dt_channel task) (dr_send rd i))"
  using assms
  by (auto simp: send_one_def Let_def cb_execute_def record_effect_def failed_result_def send_action_def
      accepted_def good_result_def split: prod.splits admission.splits sum.splits send_outcome.splits if_splits)

text \<open>
  The sends of the loop: providers in order, none after one that accepted, and the result is
  good exactly when the last one accepted.
\<close>

lemma send_loop_spec:
  assumes "send_loop rd ts task st is res w = (out, w')" "\<not> sr_success res"
  shows "\<exists>S. w_log w' = w_log w @ map (\<lambda>i. SendTo i task) S \<and> subseq S is
    \<and> w_redis w' = w_redis w \<and> w_faults w' = w_faults w \<and> w_parked w' = w_parked w
    \<and> list_all (\<lambda>i. \<not> accepted (dt_channel task) (dr_send rd i)) (butlast S)
    \<and> (case out of
         Inl _ \<Rightarrow> list_all (\<lambda>i. \<not> accepted (dt_channel task) (dr_send rd i)) S
       | Inr r \<Rightarrow> good_result (dt_channel task) r
           \<longleftrightarrow> S \<noteq> [] \<and> accepted (dt_channel task) (dr_send rd (last S)))"
  using assms
proof (induction "is" arbitrary: res w)
  case Nil
  then show ?case by (auto simp: ret_def good_result_def)
next
  case (Cons i "is")
  let ?ch = "dt_channel task"
  have stop: ?case if "w' = w" "case out of Inl _ \<Rightarrow> True | Inr r \<Rightarrow> \<not> good_result ?ch r"
    using that by (intro exI [of _ "[]"]) (auto split: sum.splits)
  have skip: ?case if "send_loop rd ts task st is res w = (out, w')"
    using Cons.IH [OF that Cons.prems(2)] list_emb_Cons by blast
  define gate :: "('a, throttle_result) pipe_act" where
    "gate = (if i > st then providerGate (dr_gate2 rd) ts i else ret \<lparr>tr_allowed = True, tr_retryAfterMs = 0\<rparr>)"
  have pure: "snd (gate w) = w" 
    by (auto simp: gate_def providerGate_def ret_def awaited_def split: option.split)
  show ?case
  proof (cases "fst (gate w)")
    case (Inl x)
    then have "gate w = (Inl x, w)" using pure by (metis prod.collapse)
    then show ?thesis using Cons.prems(1) by (intro stop) (auto simp: gate_def [symmetric] bindA_def)
  next
    case (Inr g)
    then have g: "gate w = (Inr g, w)" using pure by (metis prod.collapse)
    obtain r w1 where one: "send_one rd ts task i w = (r, w1)" by force
    show ?thesis
    proof (cases "tr_allowed g \<and> \<not> max 0 (MAX_DISPATCH_BUDGET_MS - (dr_before rd i - dr_start rd)) \<le> 0")
      case False
      then show ?thesis using Cons.prems g
        by (cases "tr_allowed g")
           (auto simp: gate_def [symmetric] bindA_def ret_def good_result_def intro: skip stop)
    next
      case True
      then have cont: "(if sr_success r \<or> ?ch = Push \<and> sr_invalidToken r then ret r
          else send_loop rd ts task st is r) w1 = (out, w')"
        using Cons.prems(1) g one by (simp add: gate_def [symmetric] bindA_def)
      note sp = send_one_spec [OF one]
      show ?thesis
      proof (cases "sr_success r \<or> ?ch = Push \<and> sr_invalidToken r")
        case True
        then have "w_log w1 = w_log w @ [SendTo i task]"
          "good_result ?ch r = accepted ?ch (dr_send rd i)" using sp by auto
        then show ?thesis using True cont sp by (intro exI [of _ "[i]"]) (auto simp: ret_def)
      next
        case False
        then have "send_loop rd ts task st is r w1 = (out, w')" "\<not> sr_success r" using cont by auto
        from Cons.IH [OF this] obtain S where S: "w_log w' = w_log w1 @ map (\<lambda>i. SendTo i task) S"
          "subseq S is" "w_redis w' = w_redis w1" "w_faults w' = w_faults w1" "w_parked w' = w_parked w1"
          "list_all (\<lambda>i. \<not> accepted ?ch (dr_send rd i)) (butlast S)"
          "case out of Inl _ \<Rightarrow> list_all (\<lambda>i. \<not> accepted ?ch (dr_send rd i)) S
           | Inr r \<Rightarrow> good_result ?ch r \<longleftrightarrow> S \<noteq> [] \<and> accepted ?ch (dr_send rd (last S))"
          by blast
        have no: "\<not> good_result ?ch r" using False by (simp add: good_result_def)
        from sp consider "w_log w1 = w_log w" | "w_log w1 = w_log w @ [SendTo i task]"
          "\<not> accepted ?ch (dr_send rd i)" using no by auto
        then show ?thesis
        proof cases
          case 1
          then show ?thesis using S sp list_emb_Cons by (intro exI [of _ S]) auto
        next
          case 2
          then show ?thesis using S sp
            by (intro exI [of _ "i # S"]) (auto split: sum.splits)
        qed
      qed
    qed
  qed
qed


text \<open>Reading the template and asking the throttle leave the world alone.\<close>

lemma render_pure: "snd (delivery_render opts rd task w) = w"
proof -
  have "keeps (\<lambda>v. v = w) (delivery_render opts rd task)"
    unfolding delivery_render_def by (intro keep_intros)
  then show ?thesis by (simp add: keeps_def)
qed

lemma scan_pure: "snd (scan_providers answers ts is a b w) = w"
proof -
  have "keeps (\<lambda>v. v = w) (scan_providers answers ts is a b)"
    by (induction "is" arbitrary: a b) (auto simp: Let_def providerGate_def intro!: keep_intros split: option.split)
  then show ?thesis by (simp add: keeps_def)
qed

lemma delivered_entry_trace:
  "is_delivered (delivered_entry t n tr m dat r)" "sends_of [delivered_entry t n tr m dat r] = []"
  by (simp_all add: delivered_entry_def delivery_event_def is_delivered_def sends_of_def List.map_filter_def)

lemma delivery_outcome_trace:
  assumes "delivery_outcome opts rd task n tr result w = (out, w')" "trace_is S False w"
  shows "trace_is S (good_result (dt_channel task) result) w'"
    and "good_result (dt_channel task) result \<Longrightarrow>
      out = Inr False \<and> w_redis w' = w_redis w \<and> w_faults w' = w_faults w"
proof -
  let ?good = "good_result (dt_channel task) result"
  have "trace_is S ?good w' \<and> (?good \<longrightarrow> out = Inr False \<and> w_redis w' = w_redis w \<and> w_faults w' = w_faults w)"
  proof (cases ?good)
    case True
    then have "\<not> (dt_channel task = Push \<and> sr_invalidToken result)" "sr_success result"
      by (auto simp: good_result_def)
    then show ?thesis using assms True
      by (auto simp: delivery_outcome_def Let_def thenA_def bindA_def emit_def record_effect_def ret_def
          trace_is_def delivered_entry_trace sends_of_cons2 quiet_effects [unfolded quiet_effect_def])
  next
    case False
    have orThrow: "keeps (trace_is S False) (bindA (fallbackToNextChannel opts task tr)
        (\<lambda>triggered. if triggered then ret False else throw (NonRetryableError m)))" for m
      by (intro keep_intros)
    have "keeps (trace_is S False) (delivery_outcome opts rd task n tr result)"
      unfolding delivery_outcome_def Let_def
      by (intro keep_if keep_then keep_trace_emit keep_trace_perform orThrow
          keep_bind keep_trace_retry keep_ret) (use False in \<open>auto simp: good_result_def\<close>)
    then show ?thesis using assms False by (auto dest: keeps_run)
  qed
  then show "trace_is S ?good w'"
    and "?good \<Longrightarrow> out = Inr False \<and> w_redis w' = w_redis w \<and> w_faults w' = w_faults w" by blast+
qed


text \<open>
  A run under the lease: the sends it adds, and that the task is marked completed, with nothing
  thrown, when a provider accepted it.
\<close>

definition sends_summary :: "delivery_reads \<Rightarrow> NotificationChannel \<Rightarrow> nat \<Rightarrow> nat \<Rightarrow> nat list \<Rightarrow> bool \<Rightarrow> bool" where
  "sends_summary rd ch st n S d \<longleftrightarrow>
     subseq S [st..<n] \<and> list_all (\<lambda>i. \<not> accepted ch (dr_send rd i)) (butlast S)
     \<and> (d \<longleftrightarrow> S \<noteq> [] \<and> accepted ch (dr_send rd (last S)))"

lemma sends_summary_Nil [simp]: "sends_summary rd ch st n [] d \<longleftrightarrow> \<not> d"
  by (simp add: sends_summary_def)

lemma keeps_step: "keeps P m \<Longrightarrow> m w = (a, w') \<Longrightarrow> P w \<Longrightarrow> P w'"
  using keepsD [of P m w] by simp

lemma keeps_result: "m w = (a, w') \<Longrightarrow> P w \<Longrightarrow> keeps P m \<Longrightarrow> P w'"
  by (rule keeps_step)

lemma dispatch_under_lease_trace:
  fixes opts :: "'r DeliveryWorkerOptions"
  assumes run: "dispatch_under_lease opts rd task ts st n tr w0 = (out, w')" and t0: "trace_is [] False w0"
  shows "\<exists>S d. trace_is S d w' \<and> sends_summary rd (dt_channel task) st (length ts) S d
    \<and> (d \<and> no_faults w0 \<longrightarrow> out = Inr Ack
         \<and> w_redis w' = markProcessed (do_redis opts) (do_idempotency opts) (dt_taskId task) None (w_redis w0))"
proof -
  let ?ch = "dt_channel task" and ?key = "dt_taskId task" and ?n = "length (w_log w0)"
  let ?rel = "release_lease opts ?key"
  let ?mark = "ignore_errors (on_redis (\<lambda>s. ((), markProcessed (do_redis opts) (do_idempotency opts) ?key None s)))"
  define content where "content =
    (case dt_renderedContent task of Some c \<Rightarrow> ret c | None \<Rightarrow> delivery_render opts rd task)"
  define loop :: "RenderedContent \<Rightarrow> ('r, DeliveryResult) pipe_act"
    where "loop c = send_loop rd ts (task\<lparr>dt_renderedContent := Some c\<rparr>) st [st..<length ts] no_result" for c
  define after :: "DeliveryResult \<Rightarrow> ('r, unit) pipe_act" where "after = (\<lambda>result.
    thenA (if dr_slow rd then emit (dispatched_entry task n tr) else ret ())
      (bindA (delivery_outcome opts rd task n tr result) (\<lambda>scheduled.
       thenA (logDispatched task n tr ?n) (if scheduled then ?rel else ?mark))))"
  define sent where "sent = bindA content (\<lambda>c. catchA (bindA (loop c) after)
     (\<lambda>err. thenA (logDispatched task n tr ?n) (throw err)))"
  have run': "catchA (thenA sent (ret Ack)) (\<lambda>err. thenA ?rel (throw err)) w0 = (out, w')"
    using run by (simp add: dispatch_under_lease_def Let_def sent_def content_def loop_def after_def)
  have rest: "keeps (trace_is S d) (thenA ?rel (throw err))"
    "keeps (trace_is S d) (thenA (logDispatched task n tr ?n) (throw err))" for S d err
    by (intro keep_intros)+
  have "snd (content w0) = w0"
    by (auto simp: content_def render_pure ret_def split: option.split)
  then obtain cr where c: "content w0 = (cr, w0)" by (metis prod.collapse)
  show ?thesis
  proof (cases cr)
    case (Inl x)
    then have "thenA ?rel (throw x) w0 = (out, w')"
      using run' c by (simp add: sent_def catchA_def thenA_def bindA_def)
    then have "trace_is [] False w'" using keeps_step [OF rest(1) _ t0] by blast
    then show ?thesis by (intro exI [of _ "[]"] exI [of _ False]) simp
  next
    case (Inr body)
    obtain lr w1 where l: "loop body w0 = (lr, w1)" by force
    have ch: "dt_channel (task\<lparr>dt_renderedContent := Some body\<rparr>) = ?ch" by simp
    have nr: "\<not> sr_success no_result" by (simp add: no_result_def)
    from send_loop_spec [OF l [unfolded loop_def] nr] obtain S where S0:
      "w_log w1 = w_log w0 @ map (\<lambda>i. SendTo i (task\<lparr>dt_renderedContent := Some body\<rparr>)) S
        \<and> subseq S [st..<length ts] \<and> w_redis w1 = w_redis w0 \<and> w_faults w1 = w_faults w0
        \<and> w_parked w1 = w_parked w0
        \<and> list_all (\<lambda>i. \<not> accepted (dt_channel (task\<lparr>dt_renderedContent := Some body\<rparr>)) (dr_send rd i)) (butlast S)
        \<and> (case lr of
             Inl _ \<Rightarrow> list_all (\<lambda>i. \<not> accepted (dt_channel (task\<lparr>dt_renderedContent := Some body\<rparr>)) (dr_send rd i)) S
           | Inr r \<Rightarrow> good_result (dt_channel (task\<lparr>dt_renderedContent := Some body\<rparr>)) r \<longleftrightarrow> S \<noteq> []
               \<and> accepted (dt_channel (task\<lparr>dt_renderedContent := Some body\<rparr>)) (dr_send rd (last S)))"
      by (rule exE)
    then have S: "w_log w1 = w_log w0 @ map (\<lambda>i. SendTo i (task\<lparr>dt_renderedContent := Some body\<rparr>)) S"
        "subseq S [st..<length ts]" "w_redis w1 = w_redis w0" "w_faults w1 = w_faults w0"
        "list_all (\<lambda>i. \<not> accepted ?ch (dr_send rd i)) (butlast S)"
        "case lr of Inl _ \<Rightarrow> list_all (\<lambda>i. \<not> accepted ?ch (dr_send rd i)) S
         | Inr r \<Rightarrow> good_result ?ch r \<longleftrightarrow> S \<noteq> [] \<and> accepted ?ch (dr_send rd (last S))"
      unfolding ch by simp_all
    have undelivered: "list_ex is_delivered (map (\<lambda>i. SendTo i u) S) = False" for u
      by (simp add: list_ex_iff is_delivered_def)
    have t1: "trace_is S False w1" using t0 S(1) undelivered by (simp add: trace_is_def)
    show ?thesis
    proof (cases lr)
      case (Inl x)
      then have un: "\<not> (S \<noteq> [] \<and> accepted ?ch (dr_send rd (last S)))" using S(6) by (auto simp: list_all_iff)
      have "catchA (thenA (thenA (logDispatched task n tr ?n) (throw x :: ('r, unit) pipe_act)) (ret Ack))
          (\<lambda>err. thenA ?rel (throw err)) w1 = (out, w')"
        using run' c \<open>cr = Inr body\<close> l Inl by (simp add: sent_def catchA_def thenA_def bindA_def)
      then have "trace_is S False w'"
        by (rule keeps_result [where P = "trace_is S False"]) (rule t1, intro keep_intros)
      then show ?thesis using S un by (intro exI [of _ S] exI [of _ False]) (simp add: sends_summary_def)
    next
      case (Inr result)
      let ?good = "good_result ?ch result"
      have g: "?good \<longleftrightarrow> S \<noteq> [] \<and> accepted ?ch (dr_send rd (last S))" using S(6) Inr by simp
      have tail: "catchA (thenA (catchA (after result)
            (\<lambda>err. thenA (logDispatched task n tr ?n) (throw err))) (ret Ack)) (\<lambda>err. thenA ?rel (throw err)) w1 = (out, w')"
        using run' c \<open>cr = Inr body\<close> l Inr by (simp add: sent_def catchA_def thenA_def bindA_def)
      obtain u w2 where slow: "(if dr_slow rd then emit (dispatched_entry task n tr) else ret ()) w1 = (Inr u, w2)"
        by (cases "dr_slow rd") (auto simp: emit_def ret_def)
      have k: "keeps (trace_is S False) (if dr_slow rd then emit (dispatched_entry task n tr) else ret ())"
        by (intro keep_intros) simp
      have t2: "trace_is S False w2" using keeps_step [OF k slow t1] .
      have w2: "w_redis w2 = w_redis w0" "w_faults w2 = w_faults w0"
        using slow S(3,4) by (auto simp: emit_def ret_def record_effect_def split: if_splits)
      obtain oc w3 where oc: "delivery_outcome opts rd task n tr result w2 = (oc, w3)" by force
      note tr3 = delivery_outcome_trace [OF oc t2]
      have "trace_is S ?good w'"
      proof (cases oc)
        case (Inl x)
        then have "catchA (thenA (thenA (logDispatched task n tr ?n) (throw x :: ('r, unit) pipe_act)) (ret Ack))
            (\<lambda>err. thenA ?rel (throw err)) w3 = (out, w')"
          using tail slow oc by (simp add: after_def catchA_def thenA_def bindA_def)
        then show ?thesis
          by (rule keeps_result [where P = "trace_is S ?good"]) (rule tr3(1), intro keep_intros)
      next
        case (Inr scheduled)
        then have "catchA (thenA (catchA (thenA (logDispatched task n tr ?n) (if scheduled then ?rel else ?mark))
            (\<lambda>err. thenA (logDispatched task n tr ?n) (throw err))) (ret Ack))
            (\<lambda>err. thenA ?rel (throw err)) w3 = (out, w')"
          using tail slow oc by (simp add: after_def catchA_def thenA_def bindA_def)
        then show ?thesis
          by (rule keeps_result [where P = "trace_is S ?good"]) (rule tr3(1), intro keep_intros)
      qed
      moreover have "out = Inr Ack \<and> w_redis w' =
          markProcessed (do_redis opts) (do_idempotency opts) ?key None (w_redis w0)"
        if good: ?good and nf: "no_faults w0"
      proof -
        have o3: "oc = Inr False" "w_redis w3 = w_redis w0" "w_faults w3 = (\<lambda>_. None)"
          using tr3(2) [OF good] w2 nf by (auto simp: no_faults_def)
        obtain w4 where lg: "logDispatched task n tr ?n w3 = (Inr (), w4)"
          "w_redis w4 = w_redis w3" "w_faults w4 = w_faults w3"
          by (cases "has_entry w3 ?n") (auto simp: logDispatched_def emit_def record_effect_def)
        show ?thesis using tail slow oc o3 lg
          by (auto simp: after_def catchA_def thenA_def bindA_def ignore_errors_def on_redis_def attempt_def
              ret_def Let_def)
      qed
      ultimately show ?thesis using S g
        by (intro exI [of _ S] exI [of _ ?good]) (simp add: sends_summary_def)
    qed
  qed
qed


text \<open>What a run amounts to: its sends under a lease, and the mark a delivered task leaves.\<close>

definition delivery_spec ::
  "'r DeliveryWorkerOptions \<Rightarrow> delivery_reads \<Rightarrow> DispatchedTaskPayload \<Rightarrow> 'r pipe_world
    \<Rightarrow> exn + process_result \<Rightarrow> 'r pipe_world \<Rightarrow> bool" where
  "delivery_spec opts rd task w out w' \<longleftrightarrow>
     (let (lease, s) = acquireLease (do_redis opts) (do_idempotency opts) (dt_taskId task) 60
            (do_env1 opts) (do_env2 opts) (w_redis w)
      in \<exists>S d st. trace_is S d w'
         \<and> sends_summary rd (dt_channel task) st (length (do_transports opts (dt_channel task))) S d
         \<and> (S \<noteq> [] \<longrightarrow> lease = Acquired)
         \<and> (d \<and> no_faults w \<longrightarrow> out = Inr Ack
              \<and> w_redis w' = markProcessed (do_redis opts) (do_idempotency opts) (dt_taskId task) None s))"

lemma delivery_spec_nothing: "trace_is [] False w' \<Longrightarrow> delivery_spec opts rd task w out w'"
  unfolding delivery_spec_def Let_def
  by (cases "acquireLease (do_redis opts) (do_idempotency opts) (dt_taskId task) 60
            (do_env1 opts) (do_env2 opts) (w_redis w)")
     (simp, intro exI [of _ "[]"] exI [of _ False], simp)

lemma delivery_process_trace:
  fixes opts :: "'r DeliveryWorkerOptions"
  assumes run: "delivery_process opts rd (Some task) tr k w = (out, w')" and t0: "trace_is [] False w"
  shows "delivery_spec opts rd task w out w'"
proof -
  let ?ts = "do_transports opts (dt_channel task)"
  let ?no = "(case dt_deliveryAttemptCount task of Some n \<Rightarrow> n | None \<Rightarrow> 0) + k"
  let ?lease = "acquireLease (do_redis opts) (do_idempotency opts) (dt_taskId task) 60
            (do_env1 opts) (do_env2 opts)"
  note idle = delivery_spec_nothing [of w' opts rd task w out]
  show ?thesis
  proof (cases "?ts = []")
    case True
    then have "no_transport opts task ?no tr ''no transport'' ''no transport registered for channel''
        ''no_transport'' w = (out, w')"
      using run by (simp add: delivery_process_def Let_def)
    then have "trace_is [] False w'"
      by (rule keeps_result [where P = "trace_is [] False"]) (rule t0, intro keep_intros)
    then show ?thesis by (rule idle)
  next
    case False
    obtain sr where sc: "scan_providers (dr_gate rd) ?ts [0..<length ?ts] None None w = (sr, w)"
      using scan_pure [of "dr_gate rd" ?ts "[0..<length ?ts]" None None w] by (metis prod.collapse)
    show ?thesis
    proof (cases sr)
      case (Inl x)
      then have "w' = w" using run False sc by (simp add: delivery_process_def bindA_def Let_def)
      then show ?thesis using t0 by (intro idle) simp
    next
      case (Inr a)
      obtain so ra wa where a: "a = (so, ra, wa)" by (metis prod_cases3)
      show ?thesis
      proof (cases so)
        case None
        then have "defer_throttled opts rd task ?no tr (the ra) (the wa) w = (out, w')"
          using run False sc Inr a by (simp add: delivery_process_def bindA_def Let_def)
        then have "trace_is [] False w'"
          by (rule keeps_result [where P = "trace_is [] False"]) (rule t0, intro keep_intros)
        then show ?thesis by (rule idle)
      next
        case (Some st)
        define cont where "cont = (\<lambda>lease. case lease of Completed \<Rightarrow> ret Ack | Locked \<Rightarrow> ret NoAck
          | Acquired \<Rightarrow> dispatch_under_lease opts rd task ?ts st ?no tr)"
        have r: "bindA (on_redis ?lease) cont w = (out, w')"
          using run False sc Inr a Some by (simp add: delivery_process_def bindA_def cont_def Let_def)
        show ?thesis
        proof (cases "w_faults w (w_step w)")
          case (Some x)
          then have "w' = w\<lparr>w_step := Suc (w_step w)\<rparr>"
            using r by (simp add: bindA_def on_redis_def attempt_def Let_def)
          then show ?thesis using t0 by (intro idle) (simp add: trace_is_def)
        next
          case None
          define w1 where "w1 = w\<lparr>w_step := Suc (w_step w), w_redis := snd (?lease (w_redis w))\<rparr>"
          have c: "cont (fst (?lease (w_redis w))) w1 = (out, w')"
            using r None by (cases "?lease (w_redis w)")
              (simp add: bindA_def on_redis_def attempt_def Let_def w1_def)
          have t1: "trace_is [] False w1" using t0 by (simp add: trace_is_def w1_def)
          show ?thesis
          proof (cases "fst (?lease (w_redis w))")
            case Acquired
            then have "dispatch_under_lease opts rd task ?ts st ?no tr w1 = (out, w')"
              using c by (simp add: cont_def)
            from dispatch_under_lease_trace [OF this t1] obtain S d where
              "trace_is S d w' \<and> sends_summary rd (dt_channel task) st (length ?ts) S d
                \<and> (d \<and> no_faults w1 \<longrightarrow> out = Inr Ack \<and> w_redis w' =
                   markProcessed (do_redis opts) (do_idempotency opts) (dt_taskId task) None (w_redis w1))"
              by (elim exE)
            then show ?thesis using Acquired
              unfolding delivery_spec_def Let_def
              by (cases "?lease (w_redis w)")
                 (auto simp: w1_def no_faults_def)
          qed (use c t1 in \<open>auto simp: cont_def ret_def intro: delivery_spec_nothing\<close>)
        qed
      qed
    qed
  qed
qed

lemma subseq_in_set: "subseq xs ys \<Longrightarrow> x \<in> set xs \<Longrightarrow> x \<in> set ys"
  by (induction rule: list_emb.induct) auto

lemma subseq_sorted_wrt: "subseq xs ys \<Longrightarrow> sorted_wrt P ys \<Longrightarrow> sorted_wrt P xs"
  by (induction rule: list_emb.induct) (auto dest: subseq_in_set)

lemma subseq_upt_sorted: "subseq S [i..<j] \<Longrightarrow> sorted_wrt (<) S"
  by (rule subseq_sorted_wrt [OF _ sorted_wrt_upt])

text \<open>
  C17: In one run, under any failures of the calls around it, a task is sent to the providers of
  its channel in order, each at most once and none after one that accepted it, so at most one
  provider accepts it; and the delivered event is queued exactly when one did.
\<close>
theorem delivery_stops_at_acceptance:
  assumes "w_log w = []"
    and "delivery_process opts rd (Some task) traceId k w = (out, w')"
  shows "sorted_wrt (<) (sends_of (w_log w'))
    \<and> list_all (\<lambda>i. \<not> accepted (dt_channel task) (dr_send rd i)) (butlast (sends_of (w_log w')))
    \<and> (list_ex is_delivered (w_log w') \<longleftrightarrow> sends_of (w_log w') \<noteq> []
        \<and> accepted (dt_channel task) (dr_send rd (last (sends_of (w_log w')))))"
proof -
  have "trace_is [] False w" using assms(1) by (simp add: trace_is_def)
  from delivery_process_trace [OF assms(2) this] obtain S d st where
    "trace_is S d w'" "sends_summary rd (dt_channel task) st (length (do_transports opts (dt_channel task))) S d"
    by (auto simp: delivery_spec_def split: prod.splits)
  then show ?thesis by (auto simp: trace_is_def sends_summary_def intro: subseq_upt_sorted)
qed



section \<open>Every re-queue uses up a budget\<close>

text \<open>
  How often a task can still come back: the provider attempts and the throttle deferrals left.
\<close>

definition requeue_budget :: "DispatchedTaskPayload \<Rightarrow> nat" where
  "requeue_budget t =
     (do_maxAttempts (dt_deliveryOptions t) - (case dt_deliveryAttemptCount t of Some n \<Rightarrow> n | None \<Rightarrow> 0))
     + (MAX_THROTTLE_DEFERRALS - (case dt_throttleAttemptCount t of Some n \<Rightarrow> n | None \<Rightarrow> 0))"

definition chain_length :: "NotificationChannel list option \<Rightarrow> nat" where
  "chain_length c = (case c of Some xs \<Rightarrow> length xs | None \<Rightarrow> 0)"

definition requeue_ok :: "DispatchedTaskPayload \<Rightarrow> effect \<Rightarrow> bool" where
  "requeue_ok task e = (case e of
       Park t \<Rightarrow> requeue_budget t < requeue_budget task \<and> dt_taskId t = dt_taskId task
         \<and> dt_fallbackChain t = dt_fallbackChain task
     | Publish s ev \<Rightarrow> (case ne_payload ev of
           Enriched en \<Rightarrow> chain_length (en_fallbackChain en) < chain_length (dt_fallbackChain task)
         | _ \<Rightarrow> True)
     | _ \<Rightarrow> True)"

lemma requeue_ok_simps [simp]:
  "requeue_ok task (EmitDeliveryFailed a b c d)" "requeue_ok task (EmitDelivered a b c d)"
  "requeue_ok task (AddOutboxUpdate a b' c' d')" "requeue_ok task (DeactivateContact a b c d'')"
  "requeue_ok task (AddEvent ev)" "requeue_ok task (SendTo i t)"
  by (simp_all add: requeue_ok_def)

lemma keep_requeue_fallback [keep_intros]:
  "keeps (logged (requeue_ok task)) (fallbackToNextChannel opts task tr)"
  by (auto simp: fallbackToNextChannel_def Let_def requeue_ok_def delivery_event_def fallback_payload_def
      chain_length_def intro!: keep_intros split: option.split list.split)

lemma keep_requeue_reschedule:
  assumes "requeue_budget t < requeue_budget task" "dt_taskId t = dt_taskId task"
    "dt_fallbackChain t = dt_fallbackChain task"
  shows "keeps (logged (requeue_ok task)) (reschedule t sendAt reason now)"
  unfolding reschedule_def using assms
  by (intro keep_then keep_logged_park keep_logged_perform) (simp_all add: requeue_ok_def)

lemma keep_requeue_retry:
  assumes "attemptNo > (case dt_deliveryAttemptCount task of Some n \<Rightarrow> n | None \<Rightarrow> 0)"
  shows "keeps (logged (requeue_ok task)) (retryLater rd task attemptNo r)"
  unfolding retryLater_def Let_def using assms
  by (intro keep_if keep_then keep_ret keep_requeue_reschedule) (auto simp: requeue_budget_def)

lemma keep_requeue_send: "keeps (logged (requeue_ok task)) (send_loop rd ts t st is res)"
proof (induction "is" arbitrary: res)
  case (Cons i "is")
  have "keeps (logged (requeue_ok task)) (\<lambda>w. case send_one rd ts t i w of (r, w') \<Rightarrow> (Inr r, w'))"
    by (rule keepsI) (use send_one_spec [of rd ts t i] in \<open>auto simp: logged_def split: prod.split, fastforce\<close>)
  then show ?case
    by (auto intro!: keep_bind keep_if keep_ret Cons simp: providerGate_def intro: keep_awaited split: option.split)
qed (simp add: keep_ret)

lemma keep_requeue_throttled:
  "keeps (logged (requeue_ok task)) (defer_throttled opts rd task n tr a b)"
  unfolding defer_throttled_def no_transport_def Let_def
  by (intro keep_if keep_then keep_ret keep_requeue_reschedule keep_bind keep_requeue_fallback keep_logged_emit
      keep_logged_perform) (simp_all add: failed_entry_def, simp add: requeue_budget_def)

lemma keep_requeue_process:
  assumes "0 < k"
  shows "keeps (logged (requeue_ok task)) (delivery_process opts rd (Some task) tr k)"
proof -
  let ?Q = "logged (requeue_ok task)"
  let ?no = "(case dt_deliveryAttemptCount task of Some n \<Rightarrow> n | None \<Rightarrow> 0) + k"
  have out: "keeps ?Q (delivery_outcome opts rd task ?no tr r)" for r
    unfolding delivery_outcome_def Let_def
    by (intro keep_if keep_then keep_bind keep_logged_emit keep_logged_perform keep_ret keep_throw
        keep_requeue_fallback keep_requeue_retry)
       (use assms in \<open>simp_all add: failed_entry_def delivered_entry_def\<close>)
  have entry: "keeps ?Q (logDispatched task ?no tr n)" for n
    by (rule keepsI) (auto simp: logDispatched_def emit_def record_effect_def logged_def dispatched_entry_def)
  have lease: "keeps ?Q (dispatch_under_lease opts rd task ts st ?no tr)" for ts st
  proof (rule keepsI)
    fix w :: "'a pipe_world" assume "?Q w"
    then show "?Q (snd (dispatch_under_lease opts rd task ts st ?no tr w))"
      unfolding dispatch_under_lease_def Let_def release_lease_def delivery_render_def
      by (elim keepsD [rotated]) (intro keep_intros out entry keep_requeue_send, simp add: dispatched_entry_def)
  qed
  have scan: "keeps ?Q (scan_providers a ts is x y)" for a ts x y and "is"
    by (rule keepsI) (simp add: scan_pure)
  have none: "keeps ?Q (no_transport opts task n tr e r c)" for n e r c
    unfolding no_transport_def by (intro keep_intros) (simp_all add: failed_entry_def)
  show ?thesis unfolding delivery_process_def Let_def option.case
    by (intro keep_if none keep_bind scan)
       (auto intro!: keep_option keep_requeue_throttled keep_bind keep_logged_redis lease keep_ret
         split: lease_result.split)
qed

text \<open>
  C24: No task circulates for ever. Every time delivery parks a task again, for a retry or
  because the providers are out of capacity, its remaining budget of attempts and deferrals is
  strictly smaller, and every fallback it starts has a strictly shorter chain of channels.
\<close>
theorem delivery_requeues_terminate:
  assumes "0 < k" "w_log w = []" "e \<in> set (w_log (snd (delivery_process opts rd (Some task) traceId k w)))"
  shows "requeue_ok task e"
proof -
  have "logged (requeue_ok task) w" using assms(2) by (simp add: logged_def)
  then have "logged (requeue_ok task) (snd (delivery_process opts rd (Some task) traceId k w))"
    by (rule keepsD [OF keep_requeue_process [OF assms(1)]])
  then show ?thesis using assms(3) by (simp add: logged_def list_all_iff)
qed


section \<open>A concrete run\<close>

text \<open>Two providers for mail: the first answers with a server error, the second accepts.\<close>

definition ex_task :: DispatchedTaskPayload where
  "ex_task = \<lparr>dt_projectId = ''p1'', dt_taskId = ''e1:c1'', dt_enrichedEventId = ''m1'', dt_recipientId = ''u1'',
     dt_channel = Email, dt_priority = PNormal, dt_templateId = None, dt_templateVariables = [],
     dt_aiPrompts = None, dt_recipient = None, dt_renderedContent = None, dt_destination = Some ''a@b.c'',
     dt_deliveryOptions = \<lparr>do_maxAttempts = 3, do_timeoutMs = 10000, do_headers = None\<rparr>,
     dt_fallbackChain = None, dt_throttleAttemptCount = None, dt_deliveryAttemptCount = None,
     dt_campaignId = None, dt_workflowInstanceId = None\<rparr>"

definition ex_accepts :: DeliveryResult where
  "ex_accepts = \<lparr>sr_success = True, sr_providerMessageId = Some ''id1'', sr_invalidToken = False,
     sr_error = None, sr_retryable = None\<rparr>"

definition ex_dreads :: "(nat \<Rightarrow> send_outcome) \<Rightarrow> delivery_reads" where
  "ex_dreads sends = \<lparr>dr_gate = (\<lambda>_. Inr \<lparr>tr_allowed = True, tr_retryAfterMs = 0\<rparr>),
     dr_gate2 = (\<lambda>_. Inr \<lparr>tr_allowed = True, tr_retryAfterMs = 0\<rparr>), dr_template = Inr None,
     dr_send = sends, dr_before = (\<lambda>_. 0), dr_after = (\<lambda>_. 1), dr_start = 0, dr_now = 2,
     dr_slow = False, dr_random = 0\<rparr>"

definition ex_dopts :: "mem_store DeliveryWorkerOptions" where
  "ex_dopts = \<lparr>do_transports = (\<lambda>_. [\<lparr>tp_name = ''Resend'', tp_limits = None\<rparr>, \<lparr>tp_name = ''Ses'', tp_limits = None\<rparr>]),
     do_redis = mem_redis, do_idempotency = idempotency_guard_new ''notif:processed:delivery'' None,
     do_env1 = (\<lambda>s. s), do_env2 = (\<lambda>s. s), do_enrichedProducers = (\<lambda>b. Some (ENRICHED b)),
     do_templateCache = True\<rparr>"

definition ex_dworld :: "mem_store pipe_world" where
  "ex_dworld = \<lparr>w_redis = mem_empty, w_log = [], w_step = 0, w_faults = (\<lambda>_. None), w_parked = [],
     w_breakers = []\<rparr>"

abbreviation ex_drun :: "(nat \<Rightarrow> send_outcome) \<Rightarrow> (exn + process_result) \<times> mem_store pipe_world" where
  "ex_drun sends \<equiv> delivery_process ex_dopts (ex_dreads sends) (Some ex_task) ''t1'' 1 ex_dworld"

abbreviation ex_second_accepts :: "nat \<Rightarrow> send_outcome" where
  "ex_second_accepts \<equiv> (\<lambda>i. if i = 0 then SendThrew ''503'' None else SendReturned ex_accepts)"

lemmas delivery_defs = delivery_process_def dispatch_under_lease_def delivery_outcome_def send_one_def
  delivery_render_def providerGate_def getBreaker_def cb_execute_def cb_enter_def cb_exit_def
  onSuccess_def onFailure_def send_action_def failed_result_def logDispatched_def retryLater_def
  reschedule_def fallbackToNextChannel_def release_lease_def acquireLease_def

lemmas ex_ddefs = ex_task_def ex_accepts_def ex_dreads_def ex_dopts_def ex_dworld_def

lemma ex_upt: "[0..<Suc (Suc 0)] = [0, 1]"
  by (simp add: upt_conv_Cons)

lemma ex_drun_delivered:
  "list_ex is_delivered (w_log (snd (ex_drun ex_second_accepts))) \<and> sends_of (w_log (snd (ex_drun ex_second_accepts))) = [0, 1]"
  by (simp add: delivery_defs ex_ddefs action_defs mem_redis_def mem_empty_def mem_set_def ex_upt
      breaker_new_def MAX_DISPATCH_BUDGET_MS_def Let_def no_result_def delivered_entry_trace sends_of_cons2
      quiet_effects [unfolded quiet_effect_def] upt_conv_Cons jm_get_set)


lemma delivery_stops_at_acceptance_witness:
  "sorted_wrt (<) (sends_of (w_log (snd (ex_drun ex_second_accepts))))
    \<and> (list_ex is_delivered (w_log (snd (ex_drun ex_second_accepts)))
        \<longleftrightarrow> sends_of (w_log (snd (ex_drun ex_second_accepts))) \<noteq> []
          \<and> accepted Email (ex_second_accepts (last (sends_of (w_log (snd (ex_drun ex_second_accepts)))))))"
  using delivery_stops_at_acceptance [of ex_dworld ex_dopts "ex_dreads ex_second_accepts" ex_task "''t1''" 1
      "fst (ex_drun ex_second_accepts)" "snd (ex_drun ex_second_accepts)"]
  by (simp add: ex_ddefs)


lemma delivery_requeues_terminate_witness:
  "list_all (requeue_ok ex_task) (w_log (snd (ex_drun (\<lambda>_. SendThrew ''503'' None))))
    \<and> requeue_budget ex_task = 53"
  using delivery_requeues_terminate [of 1 ex_dworld _ ex_dopts "ex_dreads (\<lambda>_. SendThrew ''503'' None)" ex_task "''t1''"]
  by (simp add: list_all_iff) (simp add: ex_ddefs requeue_budget_def MAX_THROTTLE_DEFERRALS_def)

end
