(* ===== verification/Stream_Queue.thy ===== *)
theory Stream_Queue
  imports Contracts
begin

text \<open>
  The queue over Redis streams (\<open>src/src/queue/index.ts\<close>): the entry a stream holds,
  the producer that batches publishes, the consumer with its acknowledgements and dead
  letters, and the scanner that claims stalled entries. The stream commands of Redis are the
  fields of \<open>'s stream_redis\<close>; what the code relies on is \<open>stream_laws\<close>, over a
  view of the entries a stream holds. \<open>mem_streams\<close> at the end satisfies them, for the
  witnesses.
\<close>

section \<open>The commands\<close>

text \<open>An entry: its id and its fields, key and value in turn; \<open>None\<close> is a null reply.\<close>

type_synonym stream_reply = "string \<times> string list option"

text \<open>A pending entry as \<open>XPENDING\<close> lists it: id, consumer, idle time, delivery count.\<close>

record 's stream_redis =
  XADD :: "string \<Rightarrow> string list \<Rightarrow> 's \<Rightarrow> string option \<times> 's"
  XACK :: "string \<Rightarrow> string \<Rightarrow> string list \<Rightarrow> 's \<Rightarrow> 's"
  XDEL :: "string \<Rightarrow> string list \<Rightarrow> 's \<Rightarrow> 's"
  XLEN :: "string \<Rightarrow> 's \<Rightarrow> nat"
  XGROUP_CREATE :: "string \<Rightarrow> string \<Rightarrow> 's \<Rightarrow> (string + unit) \<times> 's"
  XREADGROUP :: "string \<Rightarrow> string \<Rightarrow> nat \<Rightarrow> string list \<Rightarrow> 's \<Rightarrow> (string \<times> stream_reply list) list option \<times> 's"
  XPENDING_COUNT :: "string \<Rightarrow> string \<Rightarrow> 's \<Rightarrow> nat option"
  XPENDING :: "string \<Rightarrow> string \<Rightarrow> nat \<Rightarrow> 's \<Rightarrow> (string \<times> string \<times> int \<times> nat) list"
  XCLAIM :: "string \<Rightarrow> string \<Rightarrow> string \<Rightarrow> int \<Rightarrow> string list \<Rightarrow> 's \<Rightarrow> stream_reply option list \<times> 's"
  XCLAIM_JUSTID :: "string \<Rightarrow> string \<Rightarrow> string \<Rightarrow> int \<Rightarrow> string \<Rightarrow> 's \<Rightarrow> 's"

definition added ::
  "(string \<Rightarrow> 's \<Rightarrow> (string \<times> string list) list) \<Rightarrow> string \<Rightarrow> string list \<Rightarrow> 's \<Rightarrow> string option \<times> 's \<Rightarrow> bool" where
  "added entries k fs s res =
     (case res of
        (Some i, s') \<Rightarrow> entries k s' = entries k s @ [(i, fs)] \<and> i \<notin> fst ` set (entries k s)
          \<and> (\<forall>k'. k' \<noteq> k \<longrightarrow> entries k' s' = entries k' s)
      | (None, s') \<Rightarrow> s' = s)"

definition stream_laws :: "'s stream_redis \<Rightarrow> (string \<Rightarrow> 's \<Rightarrow> (string \<times> string list) list) \<Rightarrow> bool" where
  "stream_laws r entries \<longleftrightarrow>
     (\<forall>k fs s. added entries k fs s (XADD r k fs s))
     \<and> (\<forall>k ids s. entries k (XDEL r k ids s) = filter (\<lambda>(i, _). i \<notin> set ids) (entries k s))
     \<and> (\<forall>k k' ids s. k' \<noteq> k \<longrightarrow> entries k' (XDEL r k ids s) = entries k' s)
     \<and> (\<forall>k k' g ids s. entries k' (XACK r k g ids s) = entries k' s)
     \<and> (\<forall>k k' g c t i s. entries k' (XCLAIM_JUSTID r k g c t i s) = entries k' s)
     \<and> (\<forall>k k' g c t ids s. entries k' (snd (XCLAIM r k g c t ids s)) = entries k' s)"

lemma xadd_law:
  assumes "stream_laws r entries" "XADD r k fs s = (Some i, s')"
  shows "entries k s' = entries k s @ [(i, fs)]" "i \<notin> fst ` set (entries k s)"
    "k' \<noteq> k \<Longrightarrow> entries k' s' = entries k' s"
proof -
  have "added entries k fs s (XADD r k fs s)" using assms(1) by (simp add: stream_laws_def)
  then show "entries k s' = entries k s @ [(i, fs)]" "i \<notin> fst ` set (entries k s)"
    "k' \<noteq> k \<Longrightarrow> entries k' s' = entries k' s"
    using assms(2) by (simp_all add: added_def)
qed

lemma xadd_none_law:
  assumes "stream_laws r entries" "XADD r k fs s = (None, s')"
  shows "s' = s"
proof -
  have "added entries k fs s (XADD r k fs s)" using assms(1) by (simp add: stream_laws_def)
  then show ?thesis using assms(2) by (simp add: added_def)
qed

lemma stream_drop_laws:
  assumes "stream_laws r entries"
  shows "entries k (XDEL r k ids s) = filter (\<lambda>(i, _). i \<notin> set ids) (entries k s)"
    "k' \<noteq> k \<Longrightarrow> entries k' (XDEL r k ids s) = entries k' s"
    "entries k' (XACK r k g ids s) = entries k' s"
    "entries k' (XCLAIM_JUSTID r k g c t i s) = entries k' s"
    "entries k' (snd (XCLAIM r k g c t ids s)) = entries k' s"
  using assms by (simp_all add: stream_laws_def)

section \<open>Messages\<close>

record StreamEvent =
  se_id :: string
  se_type :: string
  se_timestamp :: string
  se_payload :: "(string \<times> json) list"
  se_metadata :: json

record StreamMessage =
  sm_id :: string
  sm_event :: StreamEvent
  sm_stream :: "string option"
  sm_deliveryCount :: "nat option"
  sm_inline :: bool

record PendingEntry =
  pe_id :: string
  pe_consumer :: string
  pe_idleMs :: int
  pe_deliveryCount :: nat
  pe_stream :: string

definition event_fields :: "StreamEvent \<Rightarrow> (string \<times> json) list" where
  "event_fields e = [(''type'', JStr (se_type e)), (''payload'', JObj (se_payload e)),
     (''metadata'', se_metadata e), (''id'', JStr (se_id e)), (''timestamp'', JStr (se_timestamp e))]"

fun after_key :: "string \<Rightarrow> string list \<Rightarrow> string option" where
  "after_key k [] = None"
| "after_key k (f # fs) = (if f = k then (case fs of [] \<Rightarrow> None | v # _ \<Rightarrow> Some v) else after_key k fs)"

text \<open>\<open>schema\<close> is \<open>StreamEventSchema.safeParse\<close>. An empty value is falsy.\<close>

definition parseMessage :: "StreamEvent schema \<Rightarrow> string \<Rightarrow> string list option \<Rightarrow> StreamMessage option" where
  "parseMessage schema i reply =
     (case reply of
        None \<Rightarrow> None
      | Some fs \<Rightarrow> (case after_key ''data'' fs of
          None \<Rightarrow> None
        | Some raw \<Rightarrow>
            if raw = [] then None
            else case json_parse raw of
              None \<Rightarrow> None
            | Some decoded \<Rightarrow> (case schema decoded of
                Inl issues \<Rightarrow> None
              | Inr event \<Rightarrow> Some \<lparr>sm_id = i, sm_event = event, sm_stream = None,
                                   sm_deliveryCount = None, sm_inline = False\<rparr>)))"

definition entry_data :: "StreamEvent \<Rightarrow> string list" where
  "entry_data e = [''data'', json_stringify (JObj (event_fields e))]"

text \<open>An event as it is written reads back as itself, from any entry id.\<close>

lemma parseMessage_entry_data:
  assumes "json_plain (JObj (event_fields e))" "schema (JObj (event_fields e)) = Inr e"
  shows "parseMessage schema i (Some (entry_data e)) =
    Some \<lparr>sm_id = i, sm_event = e, sm_stream = None, sm_deliveryCount = None, sm_inline = False\<rparr>"
  using assms json_parse_stringify [OF assms(1)]
  by (simp add: parseMessage_def entry_data_def)

section \<open>StreamProducer\<close>

text \<open>
  The callers of \<open>publish\<close> are known by a number; an item is a caller with its event.
  \<open>sp_immediates\<close> counts the \<open>setImmediate\<close> callbacks that have yet to run.
\<close>

type_synonym publish_item = "nat \<times> StreamEvent"

record StreamProducer =
  sp_stream :: string
  sp_maxLen :: nat
  sp_pendingQueue :: "publish_item list"
  sp_flushScheduled :: bool
  sp_immediates :: nat
  sp_lastMaxLenCheck :: ms

definition producer_new :: "string \<Rightarrow> nat \<Rightarrow> StreamProducer" where
  "producer_new stream maxLen = \<lparr>sp_stream = stream, sp_maxLen = maxLen, sp_pendingQueue = [],
     sp_flushScheduled = False, sp_immediates = 0, sp_lastMaxLenCheck = 0\<rparr>"

text \<open>The synchronous part of \<open>flush\<close>: the batch it takes.\<close>

definition flush_take :: "StreamProducer \<Rightarrow> publish_item list \<times> StreamProducer" where
  "flush_take p = (sp_pendingQueue p, p\<lparr>sp_flushScheduled := False, sp_pendingQueue := []\<rparr>)"

definition enqueue :: "publish_item \<Rightarrow> StreamProducer \<Rightarrow> publish_item list \<times> StreamProducer" where
  "enqueue item p =
     (let p = p\<lparr>sp_pendingQueue := sp_pendingQueue p @ [item]\<rparr>
      in if length (sp_pendingQueue p) \<ge> 100 then flush_take p
         else if \<not> sp_flushScheduled p
         then ([], p\<lparr>sp_flushScheduled := True, sp_immediates := Suc (sp_immediates p)\<rparr>)
         else ([], p))"

definition run_immediate :: "StreamProducer \<Rightarrow> publish_item list \<times> StreamProducer" where
  "run_immediate p = flush_take (p\<lparr>sp_immediates := sp_immediates p - 1\<rparr>)"

text \<open>
  What \<open>pipeline.exec()\<close> gave for a batch: it rejected, it was null, or a reply per
  command. Each caller gets the id of its own entry or the error.
\<close>

type_synonym exec_reply = "exn + (exn + string) list option"

fun settle_each :: "publish_item list \<Rightarrow> (exn + string) list \<Rightarrow> (nat \<times> (exn + string)) list" where
  "settle_each ((c, e) # batch) (r # rs) = (c, r) # settle_each batch rs"
| "settle_each batch rs = []"

definition flush_settle :: "string \<Rightarrow> publish_item list \<Rightarrow> exec_reply \<Rightarrow> (nat \<times> (exn + string)) list" where
  "flush_settle stream batch reply =
     (case reply of
        Inl err \<Rightarrow> map (\<lambda>(c, e). (c, Inl err)) batch
      | Inr None \<Rightarrow> map (\<lambda>(c, e). (c, Inl (Error (''Pipeline execution failed for '' @ stream)))) batch
      | Inr (Some results) \<Rightarrow> settle_each batch results)"

text \<open>The commands of a batch, in order, on the store (a reply that is null is no id).\<close>

fun xadd_all :: "'s stream_redis \<Rightarrow> string \<Rightarrow> publish_item list \<Rightarrow> 's \<Rightarrow> (exn + string) list \<times> 's" where
  "xadd_all r stream [] s = ([], s)"
| "xadd_all r stream ((c, e) # batch) s =
     (case XADD r stream (entry_data e) s of (i, s) \<Rightarrow>
        case xadd_all r stream batch s of (rs, s) \<Rightarrow>
          ((case i of Some i \<Rightarrow> Inr i | None \<Rightarrow> Inl (Error ''null'')) # rs, s))"

text \<open>\<open>monitorMaxLen\<close>: at most one look every five seconds; \<open>True\<close> is the warning.\<close>

definition monitorMaxLen :: "'s stream_redis \<Rightarrow> ms \<Rightarrow> 's \<Rightarrow> StreamProducer \<Rightarrow> bool \<times> StreamProducer" where
  "monitorMaxLen r now s p =
     (if now - sp_lastMaxLenCheck p < 5000 then (False, p)
      else (10 * XLEN r (sp_stream p) s > 8 * sp_maxLen p, p\<lparr>sp_lastMaxLenCheck := now\<rparr>))"

text \<open>\<open>publish\<close> and \<open>publishBatch\<close>: the events get their ids before they are queued.\<close>

record partial_event =
  pa_type :: string
  pa_payload :: "(string \<times> json) list"
  pa_metadata :: json

definition stamp :: "partial_event \<Rightarrow> string \<Rightarrow> string \<Rightarrow> StreamEvent" where
  "stamp p eid timestamp = \<lparr>se_id = eid, se_type = pa_type p, se_timestamp = timestamp,
     se_payload = pa_payload p, se_metadata = pa_metadata p\<rparr>"

definition publish :: "nat \<Rightarrow> partial_event \<Rightarrow> string \<Rightarrow> string \<Rightarrow> StreamProducer \<Rightarrow> publish_item list \<times> StreamProducer" where
  "publish caller partial uuid timestamp p = enqueue (caller, stamp partial uuid timestamp) p"

text \<open>The event ids \<open>publishBatch\<close> returns, and the batches its enqueueing flushed.\<close>

fun publishBatch ::
  "nat \<Rightarrow> partial_event list \<Rightarrow> (nat \<Rightarrow> string) \<Rightarrow> string \<Rightarrow> StreamProducer
    \<Rightarrow> string list \<times> publish_item list list \<times> StreamProducer" where
  "publishBatch caller [] uuid timestamp p = ([], [], p)"
| "publishBatch caller (partial # partials) uuid timestamp p =
     (let eid = uuid caller;
          (out, p) = enqueue (caller, stamp partial eid timestamp) p;
          (ids, outs, p) = publishBatch (Suc caller) partials uuid timestamp p
      in (eid # ids, (if out = [] then outs else out # outs), p))"

section \<open>The producer over time\<close>

datatype producer_event = Enqueue publish_item | Immediate

text \<open>The batches flushed so far, in order.\<close>

fun producer_step :: "producer_event \<Rightarrow> StreamProducer \<times> publish_item list list \<Rightarrow> StreamProducer \<times> publish_item list list" where
  "producer_step (Enqueue item) (p, out) =
     (case enqueue item p of (batch, p) \<Rightarrow> (p, if batch = [] then out else out @ [batch]))"
| "producer_step Immediate (p, out) =
     (if sp_immediates p = 0 then (p, out)
      else case run_immediate p of (batch, p) \<Rightarrow> (p, if batch = [] then out else out @ [batch]))"

definition producer_run :: "string \<Rightarrow> nat \<Rightarrow> producer_event list \<Rightarrow> StreamProducer \<times> publish_item list list" where
  "producer_run stream maxLen es = fold producer_step es (producer_new stream maxLen, [])"

definition enqueued :: "producer_event list \<Rightarrow> publish_item list" where
  "enqueued es = concat (map (\<lambda>e. case e of Enqueue i \<Rightarrow> [i] | Immediate \<Rightarrow> []) es)"

definition producer_inv :: "producer_event list \<Rightarrow> StreamProducer \<times> publish_item list list \<Rightarrow> bool" where
  "producer_inv es ps \<longleftrightarrow>
     concat (snd ps) @ sp_pendingQueue (fst ps) = enqueued es
     \<and> length (sp_pendingQueue (fst ps)) < 100 \<and> (\<forall>b \<in> set (snd ps). length b \<le> 100)
     \<and> (sp_pendingQueue (fst ps) \<noteq> [] \<longrightarrow> sp_flushScheduled (fst ps))
     \<and> (sp_flushScheduled (fst ps) \<longrightarrow> 0 < sp_immediates (fst ps))"

lemma producer_inv_step: "producer_inv es ps \<Longrightarrow> producer_inv (es @ [e]) (producer_step e ps)"
  by (cases e; cases ps) (auto simp: producer_inv_def enqueued_def enqueue_def flush_take_def
      run_immediate_def Let_def)

lemma producer_inv_run: "producer_inv es (producer_run stream maxLen es)"
proof (induction es rule: rev_induct)
  case Nil
  show ?case by (simp add: producer_inv_def producer_run_def enqueued_def producer_new_def)
next
  case (snoc e es)
  then show ?case using producer_inv_step by (simp add: producer_run_def)
qed

text \<open>Whoever waits has a callback coming, and when no callback is left nobody waits.\<close>

lemma producer_never_strands:
  "sp_immediates (fst (producer_run stream maxLen es)) = 0
     \<Longrightarrow> concat (snd (producer_run stream maxLen es)) = enqueued es"
  using producer_inv_run [of es stream maxLen] by (auto simp: producer_inv_def)

lemma settle_each_map: "length rs = length batch \<Longrightarrow> settle_each batch rs = zip (map fst batch) rs"
  by (induction batch rs rule: settle_each.induct) auto

lemma length_xadd_all: "length (fst (xadd_all r stream batch s)) = length batch"
  by (induction r stream batch s rule: xadd_all.induct) (auto split: prod.split)

text \<open>
  The entries a batch leaves in its stream are its events in order, and each caller is given
  the id of the entry that holds its own event.
\<close>

lemma xadd_all_appends:
  assumes "stream_laws r entries" "\<forall>x \<in> set (fst (xadd_all r stream batch s)). \<not> isl x"
  shows "entries stream (snd (xadd_all r stream batch s)) =
    entries stream s @ zip (map projr (fst (xadd_all r stream batch s))) (map (entry_data \<circ> snd) batch)"
  using assms(2)
proof (induction batch arbitrary: s)
  case Nil
  show ?case by simp
next
  case (Cons ce batch)
  obtain c e where ce: "ce = (c, e)" by (cases ce)
  obtain i s1 where x: "XADD r stream (entry_data e) s = (i, s1)" by (cases "XADD r stream (entry_data e) s")
  obtain rs s2 where y: "xadd_all r stream batch s1 = (rs, s2)" by (cases "xadd_all r stream batch s1")
  from Cons.prems obtain j where j: "i = Some j" by (cases i) (simp_all add: ce x y)
  have "entries stream s1 = entries stream s @ [(j, entry_data e)]"
    using xadd_law [OF assms(1)] x j by blast
  with Cons.IH [of s1] Cons.prems show ?case by (simp add: ce x y j)
qed

section \<open>StreamConsumer\<close>

text \<open>
  \<open>bufferAcks\<close> collects the ids to acknowledge and sends them when a batch is full or the
  timer (\<open>cw_ackTimer\<close>: one is pending) fires. \<open>c\<close> is the consumer's configuration, the
  changing fields are part of the world.
\<close>

record StreamConsumer =
  sc_streams :: "string list"
  sc_group :: string
  sc_consumer :: string
  sc_dlqStream :: "string option"
  sc_batchSize :: nat
  sc_bufferAcks :: bool
  sc_coalesceMs :: int

record ('r, 'e) consumer_world = "('r, 'e) world" +
  cw_ackBuffers :: "(string, string list) jsmap"
  cw_ackTimer :: bool
  cw_running :: bool

type_synonym ('r, 'e, 'z, 'a) consumer_act = "(('r, 'e, 'z) consumer_world_scheme, 'a) act"

definition ackAndDelete :: "'r stream_redis \<Rightarrow> StreamConsumer \<Rightarrow> string \<Rightarrow> string list \<Rightarrow> ('r, 'e, 'z, unit) consumer_act" where
  "ackAndDelete r c stream ids = both
     (on_redis (\<lambda>s. ((), XACK r stream (sc_group c) ids s)))
     (on_redis (\<lambda>s. ((), XDEL r stream ids s)))"

definition flushAcksForStream :: "'r stream_redis \<Rightarrow> StreamConsumer \<Rightarrow> string \<Rightarrow> ('r, 'e, 'z, unit) consumer_act" where
  "flushAcksForStream r c stream =
     bindA (gets (\<lambda>w. jm_get (cw_ackBuffers w) stream)) (\<lambda>ids.
       case ids of
         None \<Rightarrow> ret ()
       | Some ids \<Rightarrow> if ids = [] then ret ()
           else thenA (modify (\<lambda>w. w\<lparr>cw_ackBuffers := jm_set stream [] (cw_ackBuffers w)\<rparr>))
                  (ignore_errors (ackAndDelete r c stream ids)))"

definition flushAcks :: "'r stream_redis \<Rightarrow> StreamConsumer \<Rightarrow> ('r, 'e, 'z, unit) consumer_act" where
  "flushAcks r c =
     thenA (modify (\<lambda>w. w\<lparr>cw_ackTimer := False\<rparr>))
       (bindA (gets (\<lambda>w. jm_keys (cw_ackBuffers w))) (\<lambda>streams.
          for_each streams (flushAcksForStream r c)))"

text \<open>\<open>this.streams[0]!\<close>\<close>

definition own_stream :: "StreamConsumer \<Rightarrow> string option \<Rightarrow> string" where
  "own_stream c stream = (case stream of Some s \<Rightarrow> s | None \<Rightarrow> hd (sc_streams c))"

definition ack :: "'r stream_redis \<Rightarrow> StreamConsumer \<Rightarrow> string list \<Rightarrow> string option \<Rightarrow> ('r, 'e, 'z, unit) consumer_act" where
  "ack r c ids stream =
     (let s = own_stream c stream
      in if ids = [] then ret ()
         else if \<not> sc_bufferAcks c then ackAndDelete r c s ids
         else bindA (gets (\<lambda>w. (case jm_get (cw_ackBuffers w) s of Some b \<Rightarrow> b | None \<Rightarrow> []) @ ids)) (\<lambda>buf.
           thenA (modify (\<lambda>w. w\<lparr>cw_ackBuffers := jm_set s buf (cw_ackBuffers w)\<rparr>))
             (if length buf \<ge> sc_batchSize c then flushAcksForStream r c s
              else modify (\<lambda>w. w\<lparr>cw_ackTimer := True\<rparr>))))"

definition dlq_data :: "StreamEvent \<Rightarrow> string \<Rightarrow> string \<Rightarrow> string option \<Rightarrow> string list" where
  "dlq_data e originalStream ackedAt reason =
     [''data'', json_stringify (JObj (event_fields e @ [(''dlq'', JObj
        ([(''originalStream'', JStr originalStream), (''ackedAt'', JStr ackedAt)]
         @ (case reason of Some m \<Rightarrow> [(''reason'', JStr m)] | None \<Rightarrow> [])))]))]"

definition deadLetter :: "'r stream_redis \<Rightarrow> StreamConsumer \<Rightarrow> string \<Rightarrow> StreamEvent \<Rightarrow> string option \<Rightarrow> ('r, 'e, 'z, unit) consumer_act" where
  "deadLetter r c ackedAt e reason =
     (case sc_dlqStream c of
        None \<Rightarrow> ret ()
      | Some dlq \<Rightarrow> thenA (on_redis (XADD r dlq (dlq_data e (own_stream c None) ackedAt reason))) (ret ()))"

definition nack :: "'r stream_redis \<Rightarrow> StreamConsumer \<Rightarrow> string \<Rightarrow> string \<Rightarrow> StreamEvent \<Rightarrow> string option \<Rightarrow> string option
    \<Rightarrow> ('r, 'e, 'z, unit) consumer_act" where
  "nack r c ackedAt messageId e stream reason =
     (let s = own_stream c stream
      in case sc_dlqStream c of
           Some dlq \<Rightarrow> bindA (on_redis (XADD r dlq (dlq_data e s ackedAt reason))) (\<lambda>dlqId.
             if dlqId = None \<or> dlqId = Some []
             then throw (Error (''XADD to dead-letter stream '' @ dlq @ '' returned null''))
             else ackAndDelete r c s [messageId])
         | None \<Rightarrow> ack r c [messageId] (Some s))"

text \<open>\<open>blockingRedis.quit()\<close> is the last call; it may reject.\<close>

definition consumer_stop :: "'r stream_redis \<Rightarrow> StreamConsumer \<Rightarrow> ('r, 'e, 'z, unit) consumer_act" where
  "consumer_stop r c =
     thenA (modify (\<lambda>w. w\<lparr>cw_running := False\<rparr>))
       (thenA (ignore_errors (flushAcks r c))
         (catchA (attempt (\<lambda>w. ((), w)))
           (\<lambda>err. if js_includes (js_lower (exn_message err)) ''connection is closed'' then ret () else throw err)))"

definition ensureGroup :: "'r stream_redis \<Rightarrow> StreamConsumer \<Rightarrow> ('r, 'e, 'z, unit) consumer_act" where
  "ensureGroup r c = for_each (sc_streams c) (\<lambda>s.
     bindA (on_redis (XGROUP_CREATE r s (sc_group c))) (\<lambda>reply.
       case reply of
         Inr _ \<Rightarrow> ret ()
       | Inl err \<Rightarrow> if js_includes err ''BUSYGROUP'' then ret () else throw (Error err)))"

section \<open>Reading\<close>

text \<open>
  One turn of \<open>readBatch\<close>: \<open>offset\<close> is what the dice gave, 0 nine times in ten. An entry
  that does not parse is acknowledged and deleted. The messages read are yielded.
\<close>

definition read_entries ::
  "'r stream_redis \<Rightarrow> StreamEvent schema \<Rightarrow> StreamConsumer \<Rightarrow> string \<Rightarrow> stream_reply \<Rightarrow> StreamMessage list
    \<Rightarrow> ('r, 'e, 'z, StreamMessage list) consumer_act" where
  "read_entries r schema c stream entry batch =
     (case entry of (i, reply) \<Rightarrow>
        case parseMessage schema i reply of
          None \<Rightarrow> thenA (ackAndDelete r c stream [i]) (ret batch)
        | Some msg \<Rightarrow> ret (batch @ [msg\<lparr>sm_stream := Some stream, sm_deliveryCount := Some 1\<rparr>]))"

fun fold_act :: "('x \<Rightarrow> 'a \<Rightarrow> ('w, 'a) act) \<Rightarrow> 'x list \<Rightarrow> 'a \<Rightarrow> ('w, 'a) act" where
  "fold_act f [] a = ret a"
| "fold_act f (x # xs) a = bindA (f x a) (fold_act f xs)"

definition read_turn ::
  "'r stream_redis \<Rightarrow> StreamEvent schema \<Rightarrow> StreamConsumer \<Rightarrow> nat \<Rightarrow> ('r, 'e, 'z, StreamMessage list) consumer_act" where
  "read_turn r schema c offset =
     (let currentStreams = (if length (sc_streams c) > 1 then rotate offset (sc_streams c) else sc_streams c)
      in bindA (on_redis (XREADGROUP r (sc_group c) (sc_consumer c) (sc_batchSize c) currentStreams)) (\<lambda>results.
        case results of
          None \<Rightarrow> ret []
        | Some results \<Rightarrow> fold_act (\<lambda>(stream, messages) batch.
            fold_act (read_entries r schema c stream) messages batch) results []))"

text \<open>What the loop does after an error: stop, read again at once, or wait \<open>retryDelay\<close>.\<close>

datatype read_outcome = Yield "StreamMessage list" | Closed | ReadAgain | WaitFor int

definition readBatch_step ::
  "'r stream_redis \<Rightarrow> StreamEvent schema \<Rightarrow> StreamConsumer \<Rightarrow> nat \<Rightarrow> int \<Rightarrow> ('r, 'e, 'z, read_outcome \<times> int) consumer_act" where
  "readBatch_step r schema c offset retryDelay =
     catchA (bindA (read_turn r schema c offset) (\<lambda>batch. ret (Yield batch, 1000)))
       (\<lambda>err. bindA (gets cw_running) (\<lambda>running.
          if \<not> running \<and> js_includes (js_lower (exn_message err)) ''connection is closed''
          then ret (Closed, retryDelay)
          else
            let wait = ret (WaitFor retryDelay, min (retryDelay * 2) 30000)
            in if js_startsWith (exn_message err) ''NOGROUP''
               then catchA (thenA (ensureGroup r c) (ret (ReadAgain, retryDelay))) (\<lambda>_. wait)
               else wait))"

section \<open>PendingMessageScanner\<close>

definition touch :: "'r stream_redis \<Rightarrow> StreamConsumer \<Rightarrow> string \<Rightarrow> string \<Rightarrow> ('r, 'e, 'z, unit) consumer_act" where
  "touch r c i stream = on_redis (\<lambda>s. ((), XCLAIM_JUSTID r stream (sc_group c) (sc_consumer c) 0 i s))"

definition getPendingCount :: "'r stream_redis \<Rightarrow> StreamConsumer \<Rightarrow> ('r, 'e, 'z, nat) consumer_act" where
  "getPendingCount r c = fold_act (\<lambda>s total.
     bindA (on_redis (\<lambda>st. (XPENDING_COUNT r s (sc_group c) st, st))) (\<lambda>summary.
       ret (case summary of Some count \<Rightarrow> total + count | None \<Rightarrow> total))) (sc_streams c) 0"

definition pending_entries :: "string \<Rightarrow> (string \<times> string \<times> int \<times> nat) list \<Rightarrow> PendingEntry list" where
  "pending_entries stream items = map (\<lambda>(i, consumer, idleMs, count).
     \<lparr>pe_id = i, pe_consumer = consumer, pe_idleMs = idleMs, pe_deliveryCount = count, pe_stream = stream\<rparr>) items"

definition getPendingEntries ::
  "'r stream_redis \<Rightarrow> StreamConsumer \<Rightarrow> nat \<Rightarrow> string option \<Rightarrow> ('r, 'e, 'z, PendingEntry list) consumer_act" where
  "getPendingEntries r c limit stream =
     bindA (fold_act (\<lambda>s (full, allEntries).
        if full then ret (full, allEntries)
        else bindA (on_redis (\<lambda>st. (XPENDING r s (sc_group c) limit st, st))) (\<lambda>items.
          let allEntries = allEntries @ pending_entries s items
          in ret (limit \<le> length allEntries, allEntries)))
        (case stream of Some s \<Rightarrow> [s] | None \<Rightarrow> sc_streams c) (False, []))
       (\<lambda>(full, allEntries). ret (take limit allEntries))"

text \<open>\<open>idleMs > minIdleMs * 2 ^ (deliveryCount - 1)\<close>, for every count.\<close>

definition claimable :: "int \<Rightarrow> PendingEntry \<Rightarrow> bool" where
  "claimable minIdleMs p \<longleftrightarrow> minIdleMs * 2 ^ pe_deliveryCount p < 2 * pe_idleMs p"

fun claimed_messages ::
  "StreamEvent schema \<Rightarrow> string \<Rightarrow> (string, nat) jsmap \<Rightarrow> stream_reply option list \<Rightarrow> StreamMessage list" where
  "claimed_messages schema s counts [] = []"
| "claimed_messages schema s counts (raw # result) =
     (case raw of
        None \<Rightarrow> []
      | Some (i, reply) \<Rightarrow> (case parseMessage schema i reply of
          None \<Rightarrow> []
        | Some msg \<Rightarrow> [msg\<lparr>sm_stream := Some s,
            sm_deliveryCount := Some ((case jm_get counts i of Some n \<Rightarrow> n | None \<Rightarrow> 1) + 1)\<rparr>]))
     @ claimed_messages schema s counts result"

definition autoclaim_stream ::
  "'r stream_redis \<Rightarrow> StreamEvent schema \<Rightarrow> StreamConsumer \<Rightarrow> int \<Rightarrow> nat \<Rightarrow> string \<Rightarrow> StreamMessage list
    \<Rightarrow> ('r, 'e, 'z, StreamMessage list) consumer_act" where
  "autoclaim_stream r schema c minIdleMs limit s recovered =
     (if limit \<le> length recovered then ret recovered
      else bindA (getPendingEntries r c (limit * 2) (Some s)) (\<lambda>pending.
        let toClaim = take (limit - length recovered) (filter (claimable minIdleMs) pending)
        in if toClaim = [] then ret recovered
           else bindA (on_redis (XCLAIM r s (sc_group c) (sc_consumer c) minIdleMs (map pe_id toClaim))) (\<lambda>result.
             ret (recovered @ claimed_messages schema s
               (foldl (\<lambda>m p. jm_set (pe_id p) (pe_deliveryCount p) m) [] toClaim) result))))"

definition autoclaim ::
  "'r stream_redis \<Rightarrow> StreamEvent schema \<Rightarrow> StreamConsumer \<Rightarrow> int \<Rightarrow> nat \<Rightarrow> ('r, 'e, 'z, StreamMessage list) consumer_act" where
  "autoclaim r schema c minIdleMs limit =
     fold_act (autoclaim_stream r schema c minIdleMs limit) (sc_streams c) []"

section \<open>A store for the witnesses\<close>

text \<open>Ids are strings of ones, each longer than those in the stream; nothing is ever pending.\<close>

type_synonym mem_streams = "string \<Rightarrow> (string \<times> string list) list"

definition fresh_id :: "(string \<times> string list) list \<Rightarrow> string" where
  "fresh_id es = replicate (Suc (sum_list (map (length \<circ> fst) es))) (CHR ''1'')"

definition mem_stream_redis :: "mem_streams stream_redis" where
  "mem_stream_redis =
     \<lparr>XADD = (\<lambda>k fs s. (Some (fresh_id (s k)), s(k := s k @ [(fresh_id (s k), fs)]))),
      XACK = (\<lambda>k g ids s. s),
      XDEL = (\<lambda>k ids s. s(k := filter (\<lambda>(i, _). i \<notin> set ids) (s k))),
      XLEN = (\<lambda>k s. length (s k)),
      XGROUP_CREATE = (\<lambda>k g s. (Inr (), s)),
      XREADGROUP = (\<lambda>g c n ks s. (None, s)),
      XPENDING_COUNT = (\<lambda>k g s. Some 0),
      XPENDING = (\<lambda>k g n s. []),
      XCLAIM = (\<lambda>k g c t ids s. ([], s)),
      XCLAIM_JUSTID = (\<lambda>k g c t i s. s)\<rparr>"

lemma fresh_id: "fresh_id es \<notin> fst ` set es"
proof
  assume "fresh_id es \<in> fst ` set es"
  then have "length (fresh_id es) \<in> set (map (length \<circ> fst) es)"
    by (simp only: set_map image_comp [symmetric]) (rule imageI)
  then have "length (fresh_id es) \<le> sum_list (map (length \<circ> fst) es)" by (rule member_le_sum_list) simp
  then show False by (simp add: fresh_id_def)
qed

lemma mem_stream_laws: "stream_laws mem_stream_redis (\<lambda>k s. s k)"
  using fresh_id by (simp add: stream_laws_def added_def mem_stream_redis_def)

section \<open>Publishing and reading back\<close>

lemma zip_new_entries:
  assumes "length rs = length batch"
    and "\<forall>(c, e) \<in> set batch. json_plain (JObj (event_fields e)) \<and> schema (JObj (event_fields e)) = Inr e"
    and "\<forall>x \<in> set rs. \<not> isl x"
  shows "settle_each batch rs = map2 (\<lambda>(c, e) (i, fs). (c, Inr i)) batch
      (zip (map projr rs) (map (entry_data \<circ> snd) batch))"
    and "map (\<lambda>(i, fs). map_option sm_event (parseMessage schema i (Some fs)))
      (zip (map projr rs) (map (entry_data \<circ> snd) batch)) = map (Some \<circ> snd) batch"
  using assms
  by (induction batch rs rule: list_induct2') (auto simp: parseMessage_entry_data)

text \<open>
  C30: A batch of published events that Redis accepted is at the end of its stream, in the
  order of the calls; every caller is given the id of the entry that holds its own event; and
  every entry reads back as the event that was published.
\<close>
theorem published_events_read_back:
  assumes "stream_laws r entries" "xadd_all r stream batch s = (rs, s')" "\<forall>x \<in> set rs. \<not> isl x"
    and "\<forall>(c, e) \<in> set batch. json_plain (JObj (event_fields e)) \<and> schema (JObj (event_fields e)) = Inr e"
  shows "\<exists>new. entries stream s' = entries stream s @ new
    \<and> flush_settle stream batch (Inr (Some rs)) = map2 (\<lambda>(c, e) (i, fs). (c, Inr i)) batch new
    \<and> map (\<lambda>(i, fs). map_option sm_event (parseMessage schema i (Some fs))) new = map (Some \<circ> snd) batch"
proof -
  have len: "length rs = length batch" using length_xadd_all [of r stream batch s] assms(2) by simp
  have "entries stream s' = entries stream s @ zip (map projr rs) (map (entry_data \<circ> snd) batch)"
    using xadd_all_appends [OF assms(1), of stream batch s] assms(2,3) by simp
  with zip_new_entries [OF len assms(4,3)] show ?thesis by (auto simp: flush_settle_def)
qed

definition ex_queue_event :: StreamEvent where
  "ex_queue_event = \<lparr>se_id = ''e1'', se_type = ''a'', se_timestamp = ''t'', se_payload = [], se_metadata = JObj []\<rparr>"

theorem published_events_read_back_witness:
  "\<exists>new. snd (xadd_all mem_stream_redis ''s'' [(0, ex_queue_event), (1, ex_queue_event)] (\<lambda>_. [])) ''s'' = [] @ new
    \<and> length new = 2"
proof -
  let ?batch = "[(0, ex_queue_event), (1, ex_queue_event)]"
  have plain: "json_plain (JObj (event_fields ex_queue_event))"
    by (simp add: event_fields_def ex_queue_event_def)
  show ?thesis
    using published_events_read_back [OF mem_stream_laws, of "''s''" ?batch "\<lambda>_. []"
        "fst (xadd_all mem_stream_redis ''s'' ?batch (\<lambda>_. []))" "snd (xadd_all mem_stream_redis ''s'' ?batch (\<lambda>_. []))"
        "\<lambda>_. Inr ex_queue_event"] plain
    by (auto simp: mem_stream_redis_def split: prod.splits dest: map_eq_imp_length_eq)
qed

end
