(* ===== verification/Worker.thy ===== *)
theory Worker
  imports Stream_Queue Semaphore
begin

text \<open>
  \<open>BaseWorker\<close> of \<open>src/src/workers/index.ts\<close>: what becomes of one message
  (\<open>processWithTracking\<close>, \<open>processInline\<close>), as actions on the world of the queue, and
  the life cycle of the worker, as a step relation over its asynchronous loops. The abstract
  method \<open>process\<close> is a parameter; it is applied to the message and the attempt.
\<close>

section \<open>The worker's fields\<close>

datatype WorkerState = Idle | Running | Stopping | Stopped | WorkerError

text \<open>The scanner shares its streams, group and consumer id with the consumer.\<close>

record 'e WorkerOptions =
  wo_consumer :: StreamConsumer
  wo_concurrency :: nat
  wo_recoveryIntervalMs :: int
  wo_maxRetriesBeforeDlq :: nat
  wo_failed :: "string \<Rightarrow> string \<Rightarrow> string \<Rightarrow> 'e"

record ('r, 'e) worker_world = "('r, 'e) consumer_world" +
  ww_processedCount :: nat
  ww_errorCount :: nat
  ww_lastProcessedAt :: "ms option"
  ww_lastErrorAt :: "ms option"

type_synonym ('r, 'e, 'z, 'a) worker_act = "(('r, 'e, 'z) worker_world_scheme, 'a) act"

text \<open>\<open>Some False\<close> is \<open>{ ack: false }\<close>.\<close>

type_synonym process_result = "bool option"

record WorkerHealth =
  wh_state :: WorkerState
  wh_processedCount :: nat
  wh_errorCount :: nat
  wh_lastProcessedAt :: "ms option"
  wh_lastErrorAt :: "ms option"
  wh_pendingCount :: "nat option"

definition health :: "WorkerState \<Rightarrow> nat option \<Rightarrow> ('r, 'e, 'z) worker_world_scheme \<Rightarrow> WorkerHealth" where
  "health state lastPendingCount w =
     \<lparr>wh_state = state, wh_processedCount = ww_processedCount w, wh_errorCount = ww_errorCount w,
      wh_lastProcessedAt = ww_lastProcessedAt w, wh_lastErrorAt = ww_lastErrorAt w,
      wh_pendingCount = lastPendingCount\<rparr>"

definition count_success :: "ms \<Rightarrow> ('r, 'e, 'z, unit) worker_act" where
  "count_success now = modify (\<lambda>w. w\<lparr>ww_processedCount := ww_processedCount w + 1, ww_lastProcessedAt := Some now\<rparr>)"

definition count_error :: "ms \<Rightarrow> ('r, 'e, 'z, unit) worker_act" where
  "count_error now = modify (\<lambda>w. w\<lparr>ww_errorCount := ww_errorCount w + 1, ww_lastErrorAt := Some now\<rparr>)"

section \<open>One message\<close>

text \<open>
  \<open>ticks\<close> is how often the lease timer fires while \<open>process\<close> runs. A touch leaves the
  entries alone and its failure is ignored, so the touches stand before the run.
\<close>

definition processHoldingLease ::
  "'r stream_redis \<Rightarrow> 'e WorkerOptions \<Rightarrow> nat \<Rightarrow> (StreamMessage \<Rightarrow> nat \<Rightarrow> ('r, 'e, 'z, process_result) worker_act)
    \<Rightarrow> StreamMessage \<Rightarrow> nat \<Rightarrow> ('r, 'e, 'z, process_result) worker_act" where
  "processHoldingLease r opts ticks process message tries =
     (case sm_stream message of
        Some stream \<Rightarrow>
          thenA (for_each (replicate ticks ()) (\<lambda>_. ignore_errors (touch r (wo_consumer opts) (sm_id message) stream)))
            (process message tries)
      | None \<Rightarrow> process message tries)"

definition max_retries_reason :: "nat \<Rightarrow> string" where
  "max_retries_reason retryCount = ''max retries exceeded ('' @ show_nat (retryCount - 1) @ '' attempts)''"

definition processWithTracking ::
  "'r stream_redis \<Rightarrow> 'e WorkerOptions \<Rightarrow> ms \<Rightarrow> string \<Rightarrow> nat
    \<Rightarrow> (StreamMessage \<Rightarrow> nat \<Rightarrow> ('r, 'e, 'z, process_result) worker_act)
    \<Rightarrow> StreamMessage \<Rightarrow> ('r, 'e, 'z, unit) worker_act" where
  "processWithTracking r opts now ackedAt ticks process message =
     (let stream = sm_stream message;
          retryCount = (case sm_deliveryCount message of Some n \<Rightarrow> n | None \<Rightarrow> 1);
          event = sm_event message
      in catchA
          (if retryCount > wo_maxRetriesBeforeDlq opts
           then thenA (nack r (wo_consumer opts) ackedAt (sm_id message) event stream (Some (max_retries_reason retryCount)))
                  (emit (wo_failed opts (se_id event) ''Poison pill: max retries exceeded'' (se_type event)))
           else bindA (processHoldingLease r opts ticks process message retryCount) (\<lambda>result.
             if result = Some False then ret ()
             else thenA (ack r (wo_consumer opts) [sm_id message] stream) (count_success now)))
          (\<lambda>err. case err of
              LockHeldError \<Rightarrow> ret ()
            | NonRetryableError m \<Rightarrow> thenA (count_error now)
                (thenA (nack r (wo_consumer opts) ackedAt (sm_id message) event stream (Some m))
                  (emit (wo_failed opts (se_id event) m (se_type event))))
            | Error m \<Rightarrow> count_error now))"

definition processInline ::
  "'r stream_redis \<Rightarrow> 'e WorkerOptions \<Rightarrow> ms \<Rightarrow> string
    \<Rightarrow> (StreamMessage \<Rightarrow> nat \<Rightarrow> ('r, 'e, 'z, process_result) worker_act) \<Rightarrow> StreamEvent \<Rightarrow> ('r, 'e, 'z, unit) worker_act" where
  "processInline r opts now ackedAt process event =
     catchA
       (bindA (process \<lparr>sm_id = se_id event, sm_event = event, sm_stream = None, sm_deliveryCount = Some 1,
            sm_inline = True\<rparr> 1) (\<lambda>_. count_success now))
       (\<lambda>err. case err of
           LockHeldError \<Rightarrow> ret ()
         | NonRetryableError m \<Rightarrow> thenA (count_error now)
             (thenA (deadLetter r (wo_consumer opts) ackedAt event (Some m))
               (emit (wo_failed opts (se_id event) m (se_type event))))
         | Error m \<Rightarrow> thenA (count_error now) (throw err))"

section \<open>The life cycle\<close>

text \<open>
  The two loops that take messages: \<open>consume\<close> and \<open>recover\<close>, each at one of its
  \<open>await\<close>s. Messages are numbered. A task is a run of \<open>processWithTracking\<close>, known by
  where its message came from, its serial number and the message; the callers
  of the semaphore are 0 for \<open>consume\<close> and 1 for \<open>recover\<close>. A permit that is granted
  starts its task at once.
\<close>

datatype origin = FromStream | FromRecovery

type_synonym task = "origin \<times> nat \<times> nat"

datatype consume_pc =
    NotStarted
  | NextBatch
  | InBatch "nat list"
  | Waiting nat "nat list"
  | Draining "task list"
  | ConsumeDone

datatype recover_pc =
    NotRecovering
  | Claiming
  | InClaimed "nat list"
  | WaitingClaimed nat "nat list"

record worker_sys =
  wk_state :: WorkerState
  wk_stopping :: bool
  wk_sem :: semaphore
  wk_active :: "task list"
  wk_started :: nat
  wk_consume :: consume_pc
  wk_recover :: recover_pc

definition worker_new :: "nat \<Rightarrow> worker_sys" where
  "worker_new concurrency = \<lparr>wk_state = Idle, wk_stopping = False, wk_sem = sem_new concurrency,
     wk_active = [], wk_started = 0, wk_consume = NotStarted, wk_recover = NotRecovering\<rparr>"

text \<open>\<open>start\<close> fails in any state but idle.\<close>

definition worker_start :: "worker_sys \<Rightarrow> exn + worker_sys" where
  "worker_start w =
     (if wk_state w \<noteq> Idle then Inl (Error ''Worker cannot start from state'')
      else Inr (w\<lparr>wk_state := Running, wk_consume := NextBatch\<rparr>))"

definition worker_stop :: "worker_sys \<Rightarrow> worker_sys" where
  "worker_stop w =
     (if wk_stopping w \<or> wk_state w \<noteq> Running then w
      else w\<lparr>wk_stopping := True, wk_state := Stopping\<rparr>)"

definition begin_task :: "origin \<Rightarrow> nat \<Rightarrow> worker_sys \<Rightarrow> worker_sys" where
  "begin_task from m w =
     w\<lparr>wk_active := (from, wk_started w, m) # wk_active w, wk_started := Suc (wk_started w)\<rparr>"

text \<open>The body of the loop over a batch, up to the next \<open>await\<close>.\<close>

definition consume_turn :: "nat list \<Rightarrow> worker_sys \<Rightarrow> worker_sys" where
  "consume_turn batch w =
     (case batch of
        [] \<Rightarrow> w\<lparr>wk_consume := NextBatch\<rparr>
      | m # ms \<Rightarrow>
          if wk_stopping w then w\<lparr>wk_consume := NextBatch\<rparr>
          else (case sem_acquire 0 (wk_sem w) of
              (True, s) \<Rightarrow> begin_task FromStream m (w\<lparr>wk_sem := s, wk_consume := InBatch ms\<rparr>)
            | (False, s) \<Rightarrow> w\<lparr>wk_sem := s, wk_consume := Waiting m ms\<rparr>))"

definition recover_turn :: "nat list \<Rightarrow> worker_sys \<Rightarrow> worker_sys" where
  "recover_turn batch w =
     (case batch of
        [] \<Rightarrow> w\<lparr>wk_recover := (if wk_stopping w then NotRecovering else Claiming)\<rparr>
      | m # ms \<Rightarrow>
          if wk_stopping w then w\<lparr>wk_recover := NotRecovering\<rparr>
          else (case sem_acquire 1 (wk_sem w) of
              (True, s) \<Rightarrow> begin_task FromRecovery m (w\<lparr>wk_sem := s, wk_recover := InClaimed ms\<rparr>)
            | (False, s) \<Rightarrow> w\<lparr>wk_sem := s, wk_recover := WaitingClaimed m ms\<rparr>))"

text \<open>The \<open>finally\<close> of a task: it leaves \<open>active\<close> and its permit goes on.\<close>

definition resume :: "nat option \<Rightarrow> worker_sys \<Rightarrow> worker_sys" where
  "resume woken w =
     (case woken of
        None \<Rightarrow> w
      | Some caller \<Rightarrow>
          if caller = 0
          then (case wk_consume w of
              Waiting m ms \<Rightarrow> begin_task FromStream m (w\<lparr>wk_consume := InBatch ms\<rparr>)
            | _ \<Rightarrow> w)
          else (case wk_recover w of
              WaitingClaimed m ms \<Rightarrow> begin_task FromRecovery m (w\<lparr>wk_recover := InClaimed ms\<rparr>)
            | _ \<Rightarrow> w))"

definition task_done :: "task \<Rightarrow> worker_sys \<Rightarrow> worker_sys" where
  "task_done t w =
     (case sem_release (wk_sem w) of (woken, s) \<Rightarrow>
        resume woken (w\<lparr>wk_sem := s, wk_active := remove1 t (wk_active w)\<rparr>))"

text \<open>
  The generator yields a batch or, once the consumer is stopped, ends; the scan timer starts
  a recovery unless one runs; a recovery that finds nothing, or fails, ends.
\<close>

inductive worker_step :: "worker_sys \<Rightarrow> worker_sys \<Rightarrow> bool" where
  Start: "worker_start w = Inr w' \<Longrightarrow> worker_step w w'"
| Stop: "worker_step w (worker_stop w)"
| Batch: "wk_consume w = NextBatch \<Longrightarrow> \<not> wk_stopping w \<Longrightarrow> worker_step w (w\<lparr>wk_consume := InBatch ms\<rparr>)"
| Drain: "wk_consume w = NextBatch \<Longrightarrow> wk_stopping w \<Longrightarrow>
    worker_step w (w\<lparr>wk_consume := Draining (wk_active w)\<rparr>)"
| Consume: "wk_consume w = InBatch ms \<Longrightarrow> worker_step w (consume_turn ms w)"
| Done: "t \<in> set (wk_active w) \<Longrightarrow> worker_step w (task_done t w)"
| Drained: "wk_consume w = Draining ts \<Longrightarrow> \<forall>t \<in> set ts. t \<notin> set (wk_active w) \<Longrightarrow>
    worker_step w (w\<lparr>wk_consume := ConsumeDone, wk_state := Stopped\<rparr>)"
| Scan: "wk_state w = Running \<Longrightarrow> wk_recover w = NotRecovering \<Longrightarrow> worker_step w (w\<lparr>wk_recover := Claiming\<rparr>)"
| ScanEnds: "wk_recover w = Claiming \<Longrightarrow> worker_step w (w\<lparr>wk_recover := NotRecovering\<rparr>)"
| Claimed: "wk_recover w = Claiming \<Longrightarrow> worker_step w (w\<lparr>wk_recover := InClaimed ms\<rparr>)"
| Recover: "wk_recover w = InClaimed ms \<Longrightarrow> worker_step w (recover_turn ms w)"

inductive_cases worker_stepE: "worker_step w w'"

inductive worker_reachable :: "nat \<Rightarrow> worker_sys \<Rightarrow> bool" for n where
  New: "worker_reachable n (worker_new n)"
| Step: "worker_reachable n w \<Longrightarrow> worker_step w w' \<Longrightarrow> worker_reachable n w'"

section \<open>What the loops keep\<close>

fun consume_waits :: "consume_pc \<Rightarrow> bool" where
  "consume_waits (Waiting m ms) = True"
| "consume_waits _ = False"

fun recover_waits :: "recover_pc \<Rightarrow> bool" where
  "recover_waits (WaitingClaimed m ms) = True"
| "recover_waits _ = False"

text \<open>The permits are those of the tasks, and a loop is in the queue while it waits.\<close>

definition permits_inv :: "nat \<Rightarrow> worker_sys \<Rightarrow> bool" where
  "permits_inv n w \<longleftrightarrow>
     sem_ok (wk_sem w) \<and> sem_max (wk_sem w) = n \<and> length (wk_active w) = sem_count (wk_sem w)
     \<and> distinct (sem_queue (wk_sem w)) \<and> set (sem_queue (wk_sem w)) \<subseteq> {0, 1}
     \<and> (0 \<in> set (sem_queue (wk_sem w)) \<longleftrightarrow> consume_waits (wk_consume w))
     \<and> (1 \<in> set (sem_queue (wk_sem w)) \<longleftrightarrow> recover_waits (wk_recover w))"

text \<open>
  The tasks that draining does not wait for: those that began after the snapshot. With the
  recovery loop waiting for a permit there are none yet, else at most one.
\<close>

fun snapshot :: "consume_pc \<Rightarrow> task list option" where
  "snapshot (Draining ts) = Some ts"
| "snapshot ConsumeDone = Some []"
| "snapshot _ = None"

definition late :: "task list \<Rightarrow> worker_sys \<Rightarrow> task list" where
  "late ts w = filter (\<lambda>t. t \<notin> set ts) (wk_active w)"

definition states_inv :: "worker_sys \<Rightarrow> bool" where
  "states_inv w \<longleftrightarrow>
     (wk_stopping w \<longleftrightarrow> wk_state w = Stopping \<or> wk_state w = Stopped)
     \<and> (wk_state w = Idle \<longrightarrow> wk_consume w = NotStarted)
     \<and> (wk_state w = Stopped \<longleftrightarrow> wk_consume w = ConsumeDone)
     \<and> (snapshot (wk_consume w) \<noteq> None \<longrightarrow> wk_stopping w)"

definition numbered :: "worker_sys \<Rightarrow> task list \<Rightarrow> bool" where
  "numbered w ts \<longleftrightarrow> (\<forall>t \<in> set ts. fst (snd t) < wk_started w)"

definition drain_inv :: "worker_sys \<Rightarrow> bool" where
  "drain_inv w \<longleftrightarrow> numbered w (wk_active w)
     \<and> (\<forall>ts. snapshot (wk_consume w) = Some ts \<longrightarrow> numbered w ts
          \<and> (\<forall>t \<in> set (late ts w). fst t = FromRecovery)
          \<and> length (late ts w) + of_bool (recover_waits (wk_recover w)) \<le> 1)"

lemmas worker_step_defs = worker_start_def worker_stop_def consume_turn_def recover_turn_def begin_task_def

lemma permits_inv_done:
  assumes "permits_inv n w" "t \<in> set (wk_active w)"
  shows "permits_inv n (task_done t w)"
proof -
  have len: "length (remove1 t (wk_active w)) = sem_count (wk_sem w) - 1" "0 < sem_count (wk_sem w)"
    using assms(1) length_pos_if_in_set [OF assms(2)] assms(2)
    by (simp_all add: permits_inv_def length_remove1 del: length_greater_0_conv)
  have ok: "sem_ok (snd (sem_release (wk_sem w)))" "sem_max (snd (sem_release (wk_sem w))) = n"
    using assms(1) by (simp_all add: permits_inv_def sem.ok_rel sem.cap_rel)
  show ?thesis
  proof (cases "sem_queue (wk_sem w)")
    case Nil
    then show ?thesis using assms(1) len ok
      by (auto simp: permits_inv_def task_done_def sem_release_def resume_def)
  next
    case (Cons c q)
    show ?thesis
    proof (cases "c = 0")
      case True
      with Cons assms(1) obtain m ms where "wk_consume w = Waiting m ms"
        by (cases "wk_consume w") (auto simp: permits_inv_def)
      then show ?thesis using assms(1) len ok Cons True
        by (auto simp: permits_inv_def task_done_def sem_release_def resume_def begin_task_def)
    next
      case False
      with Cons assms(1) have c: "c = 1" by (auto simp: permits_inv_def)
      with Cons assms(1) obtain m ms where "wk_recover w = WaitingClaimed m ms"
        by (cases "wk_recover w") (auto simp: permits_inv_def)
      then show ?thesis using assms(1) len ok Cons c
        by (auto simp: permits_inv_def task_done_def sem_release_def resume_def begin_task_def)
    qed
  qed
qed

lemma permits_inv_step:
  assumes "worker_step w w'" "permits_inv n w" "states_inv w"
  shows "permits_inv n w'"
  using assms
proof (cases rule: worker_step.cases)
  case (Done t)
  then show ?thesis using assms(2) permits_inv_done by simp
next
  case (Consume ms)
  then show ?thesis using assms(2)
    by (auto simp: permits_inv_def worker_step_defs sem_acquire_def sem_ok_def split: list.split)
next
  case (Recover ms)
  then show ?thesis using assms(2)
    by (auto simp: permits_inv_def worker_step_defs sem_acquire_def sem_ok_def split: list.split)
qed (auto simp: permits_inv_def states_inv_def worker_step_defs split: if_splits)

lemma resume_state [simp]:
  "wk_state (resume c w) = wk_state w" "wk_stopping (resume c w) = wk_stopping w"
  by (auto simp: resume_def begin_task_def split: option.split consume_pc.split recover_pc.split)

lemma resume_consume:
  "wk_consume (resume c w) = wk_consume w
   \<or> consume_waits (wk_consume w) \<and> (\<exists>ms. wk_consume (resume c w) = InBatch ms)"
  by (auto simp: resume_def begin_task_def split: option.split consume_pc.split recover_pc.split)

lemma states_inv_step:
  assumes "worker_step w w'" "states_inv w"
  shows "states_inv w'"
  using assms
proof (cases rule: worker_step.cases)
  case (Done t)
  define w1 where "w1 = w\<lparr>wk_sem := snd (sem_release (wk_sem w)), wk_active := remove1 t (wk_active w)\<rparr>"
  have w': "w' = resume (fst (sem_release (wk_sem w))) w1"
    by (simp add: Done task_done_def w1_def split_beta)
  have "wk_state w1 = wk_state w" "wk_stopping w1 = wk_stopping w" "wk_consume w1 = wk_consume w"
    by (simp_all add: w1_def)
  with resume_consume [of "fst (sem_release (wk_sem w))" w1] show ?thesis
    using assms(2) unfolding w' by (cases "wk_consume w") (auto simp: states_inv_def)
next
  case (Consume ms)
  then show ?thesis using assms(2)
    by (auto simp: states_inv_def worker_step_defs split: list.split prod.split bool.split)
next
  case (Recover ms)
  then show ?thesis using assms(2)
    by (auto simp: states_inv_def worker_step_defs split: list.split prod.split bool.split)
qed (auto simp: states_inv_def worker_step_defs split: if_splits)

lemma numbered_same [simp]:
  "numbered (w\<lparr>wk_state := a\<rparr>) = numbered w" "numbered (w\<lparr>wk_stopping := b\<rparr>) = numbered w"
  "numbered (w\<lparr>wk_sem := c\<rparr>) = numbered w" "numbered (w\<lparr>wk_active := d\<rparr>) = numbered w"
  "numbered (w\<lparr>wk_consume := e\<rparr>) = numbered w" "numbered (w\<lparr>wk_recover := f\<rparr>) = numbered w"
  by (simp_all add: numbered_def fun_eq_iff)

lemma late_begin:
  assumes "numbered w ts"
  shows "late ts (begin_task from m w) = (from, wk_started w, m) # late ts w"
  using assms by (auto simp: late_def begin_task_def numbered_def)

lemma numbered_begin: "numbered w ts \<Longrightarrow> numbered (begin_task from m w) ts"
  by (auto simp: numbered_def begin_task_def)

lemma drain_inv_begin_stream:
  assumes "drain_inv w"
  shows "drain_inv (begin_task FromStream m (w\<lparr>wk_consume := InBatch ms\<rparr>))"
  using assms by (auto simp: drain_inv_def numbered_def begin_task_def)

text \<open>The recovery loop begins a task when nobody drains, or when it was waiting.\<close>

lemma drain_inv_begin_recovery:
  assumes inv: "drain_inv w" and "snapshot (wk_consume w) = None \<or> recover_waits (wk_recover w)"
  shows "drain_inv (begin_task FromRecovery m (w\<lparr>wk_recover := InClaimed ms\<rparr>))"
proof -
  let ?w = "w\<lparr>wk_recover := InClaimed ms\<rparr>"
  have [simp]: "wk_active ?w = wk_active w" "wk_consume ?w = wk_consume w" "numbered ?w = numbered w"
    "late ts ?w = late ts w" for ts by (simp_all add: numbered_def late_def fun_eq_iff)
  have "numbered (begin_task FromRecovery m ?w) (wk_active (begin_task FromRecovery m ?w))"
    using inv by (auto simp: drain_inv_def numbered_def begin_task_def)
  moreover have "length (late ts w) = 0" if "snapshot (wk_consume w) = Some ts" for ts
    using assms that by (auto simp: drain_inv_def)
  moreover have "wk_consume (begin_task FromRecovery m ?w) = wk_consume w"
    "\<not> recover_waits (wk_recover (begin_task FromRecovery m ?w))" by (simp_all add: begin_task_def)
  moreover have "late ts (begin_task FromRecovery m ?w) = (FromRecovery, wk_started ?w, m) # late ts w"
    if "numbered w ts" for ts using late_begin [of ?w ts] that by simp
  moreover have "numbered (begin_task FromRecovery m ?w) ts" if "numbered w ts" for ts
    using numbered_begin [of ?w ts] that by simp
  ultimately show ?thesis
    using inv by (auto simp: drain_inv_def simp del: length_0_conv)
qed

lemma drain_inv_remove:
  assumes "drain_inv w"
  shows "drain_inv (w\<lparr>wk_sem := s, wk_active := remove1 t (wk_active w)\<rparr>)" (is "drain_inv ?w")
proof -
  have "length (filter P (remove1 t xs)) \<le> length (filter P xs)" for P and xs :: "task list"
    by (induction xs) auto
  then have fewer: "length (late ts ?w) \<le> length (late ts w)" for ts
    by (simp add: late_def)
  have "set (late ts ?w) \<subseteq> set (late ts w)" "set (wk_active ?w) \<subseteq> set (wk_active w)" for ts
    using set_remove1_subset [of t "wk_active w"] by (auto simp: late_def)
  moreover have "numbered ?w = numbered w" by (simp add: numbered_def fun_eq_iff)
  moreover have "wk_consume ?w = wk_consume w" "wk_recover ?w = wk_recover w" by simp_all
  moreover have "numbered w (wk_active ?w)"
    using assms calculation(2) unfolding drain_inv_def numbered_def by blast
  moreover have "length (late ts ?w) + n \<le> 1" if "length (late ts w) + n \<le> 1" for ts n
    using fewer [of ts] that by linarith
  ultimately show ?thesis
    using assms unfolding drain_inv_def
    by (simp only: simp_thms) (meson subsetD)
qed

lemma drain_inv_done: "drain_inv w \<Longrightarrow> drain_inv (task_done t w)"
proof -
  assume "drain_inv w"
  then have inv: "drain_inv (w\<lparr>wk_sem := s, wk_active := remove1 t (wk_active w)\<rparr>)" (is "drain_inv ?w") for s
    by (rule drain_inv_remove)
  have "drain_inv (resume c w1)" if "drain_inv w1" for c w1
    using that drain_inv_begin_stream [OF that] drain_inv_begin_recovery [OF that]
    by (auto simp: resume_def split: option.split consume_pc.split recover_pc.split)
  from this [OF inv] show "drain_inv (task_done t w)" by (simp add: task_done_def split: prod.split)
qed

lemma drain_inv_recover:
  assumes "drain_inv w" "states_inv w" "wk_recover w = InClaimed ms"
  shows "drain_inv (recover_turn ms w)"
proof (cases ms)
  case Nil
  then show ?thesis using assms by (auto simp: recover_turn_def drain_inv_def numbered_def late_def)
next
  case (Cons m ms')
  show ?thesis
  proof (cases "wk_stopping w")
    case True
    then show ?thesis using assms Cons by (auto simp: recover_turn_def drain_inv_def numbered_def late_def)
  next
    case False
    with assms(2) have none: "snapshot (wk_consume w) = None" by (auto simp: states_inv_def)
    have "drain_inv (w\<lparr>wk_sem := s\<rparr>)" for s
      using assms(1) by (simp add: drain_inv_def numbered_def late_def)
    with none have "drain_inv (begin_task FromRecovery m (w\<lparr>wk_sem := s, wk_recover := InClaimed ms'\<rparr>))" for s
      using drain_inv_begin_recovery [of "w\<lparr>wk_sem := s\<rparr>"] by simp
    moreover have "drain_inv (w\<lparr>wk_sem := s, wk_recover := WaitingClaimed m ms'\<rparr>)" for s
      using assms(1) none by (simp add: drain_inv_def numbered_def)
    ultimately show ?thesis using Cons False
      by (simp add: recover_turn_def split: prod.split bool.split)
  qed
qed

lemma drain_inv_consume:
  assumes "drain_inv w"
  shows "drain_inv (consume_turn ms w)"
proof -
  have "drain_inv (w\<lparr>wk_sem := s\<rparr>)" for s
    using assms by (simp add: drain_inv_def numbered_def late_def)
  then have "drain_inv (begin_task FromStream m (w\<lparr>wk_sem := s, wk_consume := InBatch ms\<rparr>))" for s m ms
    using drain_inv_begin_stream [of "w\<lparr>wk_sem := s\<rparr>"] by simp
  moreover have "drain_inv (w\<lparr>wk_sem := s, wk_consume := pc\<rparr>)" "drain_inv (w\<lparr>wk_consume := pc\<rparr>)"
    if "snapshot pc = None" for s pc
    using assms that by (simp_all add: drain_inv_def numbered_def)
  ultimately show ?thesis
    by (simp add: consume_turn_def split: list.split prod.split bool.split)
qed

lemma late_all: "\<forall>t \<in> set ts. t \<notin> set (wk_active w) \<Longrightarrow> late ts w = wk_active w"
  by (auto simp: late_def intro!: filter_True)

lemma drain_inv_step:
  assumes "worker_step w w'" "drain_inv w" "states_inv w"
  shows "drain_inv w'"
  using assms
proof (cases rule: worker_step.cases)
  case (Done t)
  then show ?thesis using assms(2) drain_inv_done by simp
next
  case (Consume ms)
  then show ?thesis using assms(2) drain_inv_consume by simp
next
  case (Recover ms)
  then show ?thesis using assms drain_inv_recover by simp
next
  case (Drained ts)
  then have late: "late ts w = wk_active w" using late_all by auto
  have "late [] w' = wk_active w" using Drained by (simp add: late_def)
  with late Drained assms(2) show ?thesis by (simp add: drain_inv_def numbered_def)
next
  case Drain
  then show ?thesis using assms(2) by (auto simp: drain_inv_def numbered_def late_def)
qed (auto simp: drain_inv_def states_inv_def late_def worker_start_def worker_stop_def split: if_splits)

lemma worker_inv:
  assumes "worker_reachable n w"
  shows "permits_inv n w \<and> states_inv w \<and> drain_inv w"
  using assms
proof induction
  case New
  show ?case
    by (simp add: worker_new_def permits_inv_def states_inv_def drain_inv_def numbered_def sem_new_def sem_ok_def)
next
  case (Step w w')
  then show ?case using permits_inv_step states_inv_step drain_inv_step by blast
qed

lemma worker_bounds:
  assumes "worker_reachable n w"
  shows "length (wk_active w) \<le> n"
    and "wk_state w = Stopped \<Longrightarrow> length (wk_active w) \<le> 1 \<and> (\<forall>t \<in> set (wk_active w). fst t = FromRecovery)"
proof -
  from worker_inv [OF assms] have p: "permits_inv n w" and s: "states_inv w" and d: "drain_inv w" by blast+
  from p show "length (wk_active w) \<le> n" by (auto simp: permits_inv_def sem_ok_def)
  show "length (wk_active w) \<le> 1 \<and> (\<forall>t \<in> set (wk_active w). fst t = FromRecovery)" if "wk_state w = Stopped"
    using that s d by (auto simp: states_inv_def drain_inv_def late_def)
qed

section \<open>No message is lost\<close>

definition present :: "(string \<Rightarrow> 'r \<Rightarrow> (string \<times> string list) list) \<Rightarrow> string \<Rightarrow> string \<times> string list
    \<Rightarrow> ('r, 'e, 'z) consumer_world_scheme \<Rightarrow> bool" where
  "present entries stream entry w \<longleftrightarrow> entry \<in> set (entries stream (w_redis w))"

lemma keep_present_touch:
  assumes "stream_laws r entries"
  shows "keeps (present entries stream entry) (touch r c i k)"
  unfolding touch_def using stream_drop_laws(4) [OF assms]
  by (intro keep_on_redis) (simp_all add: present_def)

lemma keep_present_lease:
  assumes "stream_laws r entries" "\<And>n. keeps (present entries stream entry) (process message n)"
  shows "keeps (present entries stream entry) (processHoldingLease r opts ticks process message n)"
  unfolding processHoldingLease_def
  by (intro keep_option keep_then keep_for_each keep_ignore keep_present_touch assms)

text \<open>A message leaves its stream through \<open>nack\<close> only behind its copy in the dead letters.\<close>

lemma nack_keeps_or_copies:
  assumes laws: "stream_laws r entries" and dlq: "sc_dlqStream c = Some dlq" "dlq \<noteq> stream"
    and "present entries stream entry w" "nack r c ackedAt i e (Some stream) reason w = (res, w')"
  shows "present entries stream entry w'
    \<or> (\<exists>j. present entries dlq (j, dlq_data e stream ackedAt reason) w')"
proof -
  let ?data = "dlq_data e stream ackedAt reason"
  obtain dlqId s1 where x: "XADD r dlq ?data (w_redis w) = (dlqId, s1)" by fastforce
  have keeps_dlq: "keeps (present entries dlq (j, ?data)) (ackAndDelete r c stream ids)" for j ids
    unfolding ackAndDelete_def
    using stream_drop_laws [OF laws] dlq(2)
    by (intro keep_both keep_on_redis) (auto simp: present_def)
  show ?thesis
  proof (cases "w_faults w (w_step w)")
    case (Some err)
    then show ?thesis using assms(4,5) dlq
      by (auto simp: nack_def own_stream_def bindA_def on_redis_def attempt_def Let_def present_def)
  next
    case None
    define w1 where "w1 = w\<lparr>w_step := Suc (w_step w), w_redis := s1\<rparr>"
    have run: "(if dlqId = None \<or> dlqId = Some [] then throw (Error (''XADD to dead-letter stream '' @ dlq @ '' returned null''))
        else ackAndDelete r c stream [i]) w1 = (res, w')"
      using assms(5) dlq None x
      by (simp add: nack_def own_stream_def bindA_def on_redis_def attempt_def Let_def w1_def)
    show ?thesis
    proof (cases dlqId)
      case None
      with x have "s1 = w_redis w" using xadd_none_law [OF laws] by simp
      with run None assms(4) show ?thesis by (auto simp: throw_def w1_def present_def)
    next
      case (Some j)
      with x have here: "present entries dlq (j, ?data) w1"
        using xadd_law(1) [OF laws] by (simp add: present_def w1_def)
      show ?thesis
      proof (cases "j = []")
        case True
        with run Some here show ?thesis by (auto simp: throw_def)
      next
        case False
        with run Some have "ackAndDelete r c stream [i] w1 = (res, w')" by simp
        from keeps_run [OF keeps_dlq here this] show ?thesis by blast
      qed
    qed
  qed
qed

lemma present_emit [simp]: "present entries stream entry (snd (emit e w)) = present entries stream entry w"
  by (simp add: present_def emit_def record_effect_def)

lemma present_counts [simp]:
  "present entries stream entry (snd (count_error now w)) = present entries stream entry w"
  "present entries stream entry (snd (count_success now w)) = present entries stream entry w"
  by (simp_all add: present_def count_error_def count_success_def modify_def)

text \<open>A message is still in its stream or has a copy among the dead letters.\<close>

definition kept_or_copied where
  "kept_or_copied entries stream entry dlq e ackedAt w \<longleftrightarrow>
     present entries stream entry w \<or> (\<exists>j reason. present entries dlq (j, dlq_data e stream ackedAt reason) w)"

lemma keep_present_xadd:
  assumes "stream_laws r entries"
  shows "keeps (present entries stream entry) (on_redis (XADD r k d))"
proof -
  have "entry \<in> set (entries stream (snd (XADD r k d s)))" if "entry \<in> set (entries stream s)" for s
  proof (cases "XADD r k d s")
    case (Pair i s')
    show ?thesis
    proof (cases i)
      case None
      with Pair that xadd_none_law [OF assms, of k d s] show ?thesis by simp
    next
      case (Some j)
      with Pair have x: "XADD r k d s = (Some j, s')" by simp
      have "entries stream s' = (if stream = k then entries k s @ [(j, d)] else entries stream s)"
        using xadd_law(1,3) [OF assms x] by simp
      with Pair that show ?thesis by auto
    qed
  qed
  then show ?thesis by (intro keep_on_redis) (simp_all add: present_def)
qed

lemma keep_copied_nack:
  assumes laws: "stream_laws r entries" and dlq: "sc_dlqStream c = Some dlq" "dlq \<noteq> stream"
  shows "keeps (kept_or_copied entries stream entry dlq e ackedAt) (nack r c ackedAt i e (Some stream) reason)"
proof (rule keepsI)
  fix w :: "('a, 'b, 'c) consumer_world_scheme"
  assume k: "kept_or_copied entries stream entry dlq e ackedAt w"
  have "keeps (present entries dlq (j, data)) (nack r c ackedAt i e (Some stream) reason)" for j data
  proof -
    have "keeps (present entries dlq (j, data)) (on_redis (XADD r dlq d))" for d
      by (rule keep_present_xadd [OF laws])
    moreover have "keeps (present entries dlq (j, data)) (ackAndDelete r c stream ids)" for ids
      unfolding ackAndDelete_def
      using stream_drop_laws [OF laws] dlq(2) by (intro keep_both keep_on_redis) (auto simp: present_def)
    ultimately show ?thesis using dlq(1)
      by (auto simp: nack_def own_stream_def Let_def intro!: keep_intros)
  qed
  then have copy: "present entries dlq (j, data) (snd (nack r c ackedAt i e (Some stream) reason w))"
    if "present entries dlq (j, data) w" for j data using that by (rule keepsD)
  obtain res w' where run: "nack r c ackedAt i e (Some stream) reason w = (res, w')" by fastforce
  have "present entries stream entry w \<Longrightarrow> kept_or_copied entries stream entry dlq e ackedAt w'"
    using nack_keeps_or_copies [OF laws dlq _ run] unfolding kept_or_copied_def by blast
  with k copy run show "kept_or_copied entries stream entry dlq e ackedAt (snd (nack r c ackedAt i e (Some stream) reason w))"
    unfolding kept_or_copied_def by (metis snd_conv)
qed

lemma keep_copied_counts:
  "keeps (kept_or_copied entries stream entry dlq e ackedAt) (emit eff)"
  "keeps (kept_or_copied entries stream entry dlq e ackedAt) (count_error now)"
  by (simp_all add: keeps_def kept_or_copied_def)

lemma worker_disposes:
  fixes process :: "StreamMessage \<Rightarrow> nat \<Rightarrow> ('r, 'e, 'z, process_result) worker_act"
  assumes laws: "stream_laws r entries" and dlq: "sc_dlqStream (wo_consumer opts) = Some dlq" "dlq \<noteq> stream"
    and stream: "sm_stream message = Some stream"
    and keeps: "\<And>n. keeps (present entries stream entry) (process message n)"
    and here: "present entries stream entry w"
    and run: "processWithTracking r opts now ackedAt ticks process message w = (res, w')"
  shows "kept_or_copied entries stream entry dlq (sm_event message) ackedAt w'
    \<or> (\<exists>x w1 n. processHoldingLease r opts ticks process message n w = (Inr x, w1) \<and> x \<noteq> Some False)"
proof -
  let ?K = "kept_or_copied entries stream entry dlq (sm_event message) ackedAt"
  have h: "keeps ?K (case err of
      LockHeldError \<Rightarrow> ret ()
    | NonRetryableError m \<Rightarrow> thenA (count_error now)
        (thenA (nack r (wo_consumer opts) ackedAt (sm_id message) (sm_event message) (Some stream) (Some m))
          (emit (wo_failed opts (se_id (sm_event message)) m (se_type (sm_event message)))))
    | Error m \<Rightarrow> count_error now)" (is "keeps ?K (?handler err)") for err
    by (cases err) (auto intro!: keep_ret keep_then keep_copied_counts keep_copied_nack [OF laws dlq])
  define n where "n = (case sm_deliveryCount message of Some n \<Rightarrow> n | None \<Rightarrow> 1)"
  show ?thesis
  proof (cases "n > wo_maxRetriesBeforeDlq opts")
    case True
    have "keeps ?K (processWithTracking r opts now ackedAt ticks process message)"
      unfolding processWithTracking_def Let_def stream n_def [symmetric] if_P [OF True]
      by (intro keep_catch keep_then keep_copied_counts keep_copied_nack [OF laws dlq] h)
    from keeps_run [OF this _ run] here show ?thesis by (simp add: kept_or_copied_def)
  next
    case False
    obtain rl w1 where lease: "processHoldingLease r opts ticks process message n w = (rl, w1)" by fastforce
    have "keeps (present entries stream entry) (processHoldingLease r opts ticks process message n)"
      by (rule keep_present_lease [OF laws]) (rule keeps)
    from keeps_run [OF this here lease] have "?K w1" by (simp add: kept_or_copied_def)
    show ?thesis
    proof (cases rl)
      case (Inl err)
      have "?handler err w1 = (res, w')"
        using run False lease Inl stream
        by (simp add: processWithTracking_def Let_def n_def [symmetric] catchA_def bindA_def)
      from keeps_run [OF h \<open>?K w1\<close> this] show ?thesis by simp
    next
      case (Inr x)
      show ?thesis
      proof (cases "x = Some False")
        case True
        then have "w' = w1" using run False lease Inr stream
          by (simp add: processWithTracking_def Let_def n_def [symmetric] catchA_def bindA_def ret_def)
        with \<open>?K w1\<close> show ?thesis by simp
      qed (use lease Inr in blast)
    qed
  qed
qed

section \<open>What each outcome leaves\<close>

text \<open>What becomes of a message, by what \<open>process\<close> gave.\<close>

datatype fate = Acked | LeftPending | LeftInError | DeadLettered string

fun fate_of :: "exn + process_result \<Rightarrow> fate" where
  "fate_of (Inr x) = (if x = Some False then LeftPending else Acked)"
| "fate_of (Inl LockHeldError) = LeftPending"
| "fate_of (Inl (NonRetryableError m)) = DeadLettered m"
| "fate_of (Inl (Error m)) = LeftInError"

text \<open>
  How the world \<open>w1\<close> that \<open>process\<close> left and the world \<open>w'\<close> after the message differ:
  the entries of its stream and of the dead letters, the counters and the events emitted.
\<close>

definition leaves ::
  "(string \<Rightarrow> 'r \<Rightarrow> (string \<times> string list) list) \<Rightarrow> 'e WorkerOptions \<Rightarrow> string \<Rightarrow> string \<Rightarrow> string \<Rightarrow> StreamMessage
    \<Rightarrow> fate \<Rightarrow> ('r, 'e, 'z) worker_world_scheme \<Rightarrow> ('r, 'e, 'z) worker_world_scheme \<Rightarrow> bool" where
  "leaves entries opts stream dlq ackedAt message f w1 w' \<longleftrightarrow>
     (let gone = filter (\<lambda>(i, _). i \<noteq> sm_id message) (entries stream (w_redis w1));
          counts = (\<lambda>d e. ww_processedCount w' = ww_processedCount w1 + d \<and> ww_errorCount w' = ww_errorCount w1 + e)
      in case f of
           LeftPending \<Rightarrow> w' = w1
         | LeftInError \<Rightarrow> w_redis w' = w_redis w1 \<and> counts 0 1 \<and> w_log w' = w_log w1
         | Acked \<Rightarrow> entries stream (w_redis w') = gone \<and> entries dlq (w_redis w') = entries dlq (w_redis w1)
             \<and> counts 1 0 \<and> w_log w' = w_log w1
         | DeadLettered m \<Rightarrow> entries stream (w_redis w') = gone
             \<and> (\<exists>j. entries dlq (w_redis w') = entries dlq (w_redis w1)
                 @ [(j, dlq_data (sm_event message) stream ackedAt (Some m))])
             \<and> counts 0 1
             \<and> w_log w' = w_log w1 @ [wo_failed opts (se_id (sm_event message)) m (se_type (sm_event message))])"

lemma processWithTracking_run:
  assumes "sm_deliveryCount message = Some n" "n \<le> wo_maxRetriesBeforeDlq opts"
    and "processHoldingLease r opts ticks process message n w = (rl, w1)"
  shows "processWithTracking r opts now ackedAt ticks process message w =
    (let handler = (\<lambda>err. case err of
            LockHeldError \<Rightarrow> ret ()
          | NonRetryableError m \<Rightarrow> thenA (count_error now)
              (thenA (nack r (wo_consumer opts) ackedAt (sm_id message) (sm_event message) (sm_stream message) (Some m))
                (emit (wo_failed opts (se_id (sm_event message)) m (se_type (sm_event message)))))
          | Error m \<Rightarrow> count_error now)
     in case rl of
          Inl err \<Rightarrow> handler err w1
        | Inr x \<Rightarrow> if x = Some False then (Inr (), w1)
            else catchA (thenA (ack r (wo_consumer opts) [sm_id message] (sm_stream message)) (count_success now)) handler w1)"
  using assms
  by (simp add: processWithTracking_def Let_def catchA_def bindA_def ret_def split: sum.split)

lemma ackAndDelete_run:
  assumes "no_faults w"
  shows "ackAndDelete r c stream ids w = (Inr (), w\<lparr>w_step := Suc (Suc (w_step w)),
    w_redis := XDEL r stream ids (XACK r stream (sc_group c) ids (w_redis w))\<rparr>)"
  using assms by (simp add: ackAndDelete_def both_def on_redis_def attempt_def no_faults_def Let_def)

lemma nack_run:
  assumes "no_faults w" "sc_dlqStream c = Some dlq"
    and "XADD r dlq (dlq_data e stream ackedAt reason) (w_redis w) = (Some j, s')" "j \<noteq> []"
  shows "nack r c ackedAt i e (Some stream) reason w = (Inr (), w\<lparr>w_step := w_step w + 3,
    w_redis := XDEL r stream [i] (XACK r stream (sc_group c) [i] s')\<rparr>)"
proof -
  let ?w = "w\<lparr>w_step := Suc (w_step w), w_redis := s'\<rparr>"
  have "nack r c ackedAt i e (Some stream) reason w = ackAndDelete r c stream [i] ?w"
    using assms by (simp add: nack_def own_stream_def bindA_def on_redis_def attempt_def no_faults_def Let_def)
  moreover have "no_faults ?w" using assms(1) by (simp add: no_faults_def)
  ultimately show ?thesis by (simp add: ackAndDelete_run numeral_3_eq_3)
qed

lemma worker_outcomes:
  assumes laws: "stream_laws r entries"
    and c: "sc_dlqStream (wo_consumer opts) = Some dlq" "dlq \<noteq> stream" "\<not> sc_bufferAcks (wo_consumer opts)"
    and m: "sm_stream message = Some stream" "sm_deliveryCount message = Some n" "n \<le> wo_maxRetriesBeforeDlq opts"
    and lease: "processHoldingLease r opts ticks process message n w = (rl, w1)" "no_faults w1"
    and x: "\<And>data. \<exists>j s'. XADD r dlq data (w_redis w1) = (Some j, s') \<and> j \<noteq> []"
    and run: "processWithTracking r opts now ackedAt ticks process message w = (res, w')"
  shows "res = Inr () \<and> leaves entries opts stream dlq ackedAt message (fate_of rl) w1 w'"
proof -
  note run = run [unfolded processWithTracking_run [OF m(2,3) lease(1)] Let_def m(1)]
  note drops = stream_drop_laws [OF laws]
  consider (false) "rl = Inr (Some False)" | (handled) y where "rl = Inr y" "y \<noteq> Some False" | (lock) "rl = Inl LockHeldError"
    | (fatal) t where "rl = Inl (NonRetryableError t)" | (err) t where "rl = Inl (Error t)"
    by (metis exn.exhaust sum.exhaust)
  then show ?thesis
  proof cases
    case false
    with run show ?thesis by (simp add: leaves_def)
  next
    case (handled y)
    with run c have "(res, w') = (Inr (), snd (count_success now (snd (ackAndDelete r (wo_consumer opts) stream [sm_id message] w1))))"
      by (simp add: catchA_def thenA_def bindA_def ack_def own_stream_def ackAndDelete_run [OF lease(2)]
          count_success_def modify_def)
    with handled drops c(2) show ?thesis
      by (simp add: leaves_def ackAndDelete_run [OF lease(2)] count_success_def modify_def Let_def)
  next
    case lock
    with run show ?thesis by (simp add: leaves_def ret_def)
  next
    case (fatal t)
    let ?data = "dlq_data (sm_event message) stream ackedAt (Some t)"
    from x obtain j s' where j: "XADD r dlq ?data (w_redis w1) = (Some j, s')" "j \<noteq> []" by blast
    define w2 where "w2 = snd (count_error now w1)"
    have w2: "no_faults w2" "w_redis w2 = w_redis w1" "ww_processedCount w2 = ww_processedCount w1"
      "ww_errorCount w2 = ww_errorCount w1 + 1" "w_log w2 = w_log w1" "count_error now w1 = (Inr (), w2)"
      using lease(2) by (simp_all add: w2_def count_error_def modify_def no_faults_def)
    have n: "nack r (wo_consumer opts) ackedAt (sm_id message) (sm_event message) (Some stream) (Some t) w2 =
      (Inr (), w2\<lparr>w_step := w_step w2 + 3,
        w_redis := XDEL r stream [sm_id message] (XACK r stream (sc_group (wo_consumer opts)) [sm_id message] s')\<rparr>)"
      by (rule nack_run [OF w2(1) c(1) _ j(2)]) (simp add: w2(2) j(1))
    note dlq_laws = xadd_law [OF laws j(1)]
    from run fatal have "thenA (nack r (wo_consumer opts) ackedAt (sm_id message) (sm_event message) (Some stream) (Some t))
        (emit (wo_failed opts (se_id (sm_event message)) t (se_type (sm_event message)))) w2 = (res, w')"
      by (simp add: thenA_def [of "count_error now"] bindA_def [of "count_error now"] w2(6))
    then have "res = Inr ()" "w_redis w' = XDEL r stream [sm_id message] (XACK r stream (sc_group (wo_consumer opts)) [sm_id message] s')"
      "ww_processedCount w' = ww_processedCount w1" "ww_errorCount w' = ww_errorCount w1 + 1"
      "w_log w' = w_log w1 @ [wo_failed opts (se_id (sm_event message)) t (se_type (sm_event message))]"
      using w2 by (auto simp: thenA_def bindA_def n emit_def record_effect_def)
    with fatal drops dlq_laws c(2) show ?thesis by (simp add: leaves_def)
  next
    case (err t)
    with run show ?thesis by (auto simp: leaves_def count_error_def modify_def)
  qed
qed

text \<open>
  A failure to write the dead letter of a non-retryable error is outside the \<open>try\<close>, so the
  promise of the task rejects, which nothing handles; for a message past its retries the same
  failure is caught and counted.
\<close>

lemma dead_letter_rejects:
  assumes "sm_deliveryCount message = Some n" "n \<le> wo_maxRetriesBeforeDlq opts"
    and "sc_dlqStream (wo_consumer opts) = Some dlq"
    and "processHoldingLease r opts ticks process message n w = (Inl (NonRetryableError m), w1)"
    and "w_faults w1 (w_step w1) = Some (Error x)"
  shows "fst (processWithTracking r opts now ackedAt ticks process message w) = Inl (Error x)"
  using assms(3,5)
  by (simp add: processWithTracking_run [OF assms(1,2,4)] thenA_def bindA_def nack_def on_redis_def attempt_def Let_def
      count_error_def modify_def)

lemma poison_pill_failure_caught:
  assumes "sm_deliveryCount message = Some n" "wo_maxRetriesBeforeDlq opts < n"
    and "sc_dlqStream (wo_consumer opts) = Some dlq" "w_faults w (w_step w) = Some (Error x)"
  shows "fst (processWithTracking r opts now ackedAt ticks process message w) = Inr ()"
  using assms
  by (simp add: processWithTracking_def thenA_def bindA_def catchA_def nack_def on_redis_def attempt_def Let_def
      count_error_def modify_def)

section \<open>Properties\<close>

text \<open>
  C9: Whatever fails at whatever point, a message that was in its stream when the worker took
  it is, when the worker is through with it, still there to be claimed again, or has its
  copy in the dead-letter stream, or was handled: \<open>process\<close> returned and did not ask for it
  to be kept. Assumes that \<open>process\<close> itself leaves the entry alone.
\<close>
theorem worker_never_loses_a_message:
  fixes process :: "StreamMessage \<Rightarrow> nat \<Rightarrow> ('r, 'e, 'z, process_result) worker_act"
  assumes "stream_laws r entries" "sc_dlqStream (wo_consumer opts) = Some dlq" "dlq \<noteq> stream"
    and "sm_stream message = Some stream" "\<And>n. keeps (present entries stream entry) (process message n)"
    and "present entries stream entry w"
    and "processWithTracking r opts now ackedAt ticks process message w = (res, w')"
  shows "kept_or_copied entries stream entry dlq (sm_event message) ackedAt w'
    \<or> (\<exists>x w1 n. processHoldingLease r opts ticks process message n w = (Inr x, w1) \<and> x \<noteq> Some False)"
  using assms by (rule worker_disposes)

definition ex_event :: StreamEvent where
  "ex_event = \<lparr>se_id = ''e1'', se_type = ''notification.requested'', se_timestamp = ''t'', se_payload = [],
     se_metadata = JObj []\<rparr>"

definition ex_worker_opts :: "string WorkerOptions" where
  "ex_worker_opts = \<lparr>wo_consumer = \<lparr>sc_streams = [''in''], sc_group = ''g'', sc_consumer = ''c'',
       sc_dlqStream = Some ''dlq'', sc_batchSize = 10, sc_bufferAcks = False, sc_coalesceMs = 0\<rparr>,
     wo_concurrency = 1, wo_recoveryIntervalMs = 60000, wo_maxRetriesBeforeDlq = 3,
     wo_failed = (\<lambda>i m t. i @ m)\<rparr>"

definition ex_stream_message :: StreamMessage where
  "ex_stream_message = \<lparr>sm_id = ''1'', sm_event = ex_event, sm_stream = Some ''in'', sm_deliveryCount = Some 1,
     sm_inline = False\<rparr>"

definition ex_worker_world :: "(nat \<Rightarrow> exn option) \<Rightarrow> (mem_streams, string) worker_world" where
  "ex_worker_world faults = \<lparr>w_redis = (\<lambda>k. if k = ''in'' then [(''1'', entry_data ex_event)] else []), w_log = [],
     w_step = 0, w_faults = faults, cw_ackBuffers = [], cw_ackTimer = False, cw_running = True,
     ww_processedCount = 0, ww_errorCount = 0, ww_lastProcessedAt = None, ww_lastErrorAt = None\<rparr>"

lemmas ex_worker = ex_event_def ex_worker_opts_def ex_stream_message_def ex_worker_world_def

abbreviation (input) ex_rejects :: "StreamMessage \<Rightarrow> nat \<Rightarrow> (mem_streams, string, unit, process_result) worker_act" where
  "ex_rejects \<equiv> \<lambda>_ _. throw (NonRetryableError ''bad'')"

theorem worker_never_loses_a_message_witness:
  "kept_or_copied (\<lambda>k s. s k) ''in'' (''1'', entry_data ex_event) ''dlq'' ex_event ''t''
     (snd (processWithTracking mem_stream_redis ex_worker_opts 0 ''t'' 0 ex_rejects ex_stream_message
        (ex_worker_world (\<lambda>n. if n = 0 then Some (Error ''down'') else None))))
   \<or> (\<exists>x w1 n. processHoldingLease mem_stream_redis ex_worker_opts 0 ex_rejects ex_stream_message n
        (ex_worker_world (\<lambda>n. if n = 0 then Some (Error ''down'') else None)) = (Inr x, w1) \<and> x \<noteq> Some False)"
  using worker_never_loses_a_message [OF mem_stream_laws, of ex_worker_opts "''dlq''" "''in''" ex_stream_message
      "(''1'', entry_data ex_event)" ex_rejects
      "ex_worker_world (\<lambda>n. if n = 0 then Some (Error ''down'') else None)" 0 "''t''" 0]
  by (simp add: keep_throw present_def ex_worker prod_eq_iff)

text \<open>
  C10: What becomes of a message, by what \<open>process\<close> gave: success acknowledges and deletes
  the entry; a request not to acknowledge and a lock held elsewhere leave everything as it is;
  an ordinary error is counted and leaves the entry pending for a retry; a non-retryable
  error puts a copy with the reason into the dead letters, removes the entry, and reports
  it. Stated for a call that finds Redis up, with acks sent at once.
\<close>
theorem worker_settles_each_outcome:
  assumes "stream_laws r entries"
    and "sc_dlqStream (wo_consumer opts) = Some dlq" "dlq \<noteq> stream" "\<not> sc_bufferAcks (wo_consumer opts)"
    and "sm_stream message = Some stream" "sm_deliveryCount message = Some n" "n \<le> wo_maxRetriesBeforeDlq opts"
    and "processHoldingLease r opts ticks process message n w = (rl, w1)" "no_faults w1"
    and "\<And>data. \<exists>j s'. XADD r dlq data (w_redis w1) = (Some j, s') \<and> j \<noteq> []"
    and "processWithTracking r opts now ackedAt ticks process message w = (res, w')"
  shows "res = Inr () \<and> leaves entries opts stream dlq ackedAt message (fate_of rl) w1 w'"
  using assms by (rule worker_outcomes)

theorem worker_settles_each_outcome_witness:
  "let w = ex_worker_world (\<lambda>_. None);
       w' = snd (processWithTracking mem_stream_redis ex_worker_opts 0 ''t'' 0 ex_rejects ex_stream_message w)
   in leaves (\<lambda>k s. s k) ex_worker_opts ''in'' ''dlq'' ''t'' ex_stream_message (DeadLettered ''bad'') w w'
     \<and> w_redis w' ''in'' = [] \<and> w_redis w' ''dlq'' \<noteq> []"
proof -
  let ?w = "ex_worker_world (\<lambda>_. None)"
  have lease: "processHoldingLease mem_stream_redis ex_worker_opts 0 ex_rejects ex_stream_message 1 ?w
      = (Inl (NonRetryableError ''bad''), ?w)"
    by (simp add: processHoldingLease_def ex_stream_message_def thenA_def ret_def bindA_def throw_def)
  have x: "\<exists>j s'. XADD mem_stream_redis ''dlq'' data (w_redis ?w) = (Some j, s') \<and> j \<noteq> []" for data
    by (simp add: mem_stream_redis_def fresh_id_def)
  obtain res w' where run: "processWithTracking mem_stream_redis ex_worker_opts 0 ''t'' 0 ex_rejects ex_stream_message ?w = (res, w')"
    by fastforce
  have "leaves (\<lambda>k s. s k) ex_worker_opts ''in'' ''dlq'' ''t'' ex_stream_message
      (fate_of (Inl (NonRetryableError ''bad''))) ?w w'"
    by (rule worker_settles_each_outcome [THEN conjunct2, OF mem_stream_laws _ _ _ _ _ _ lease _ x run])
       (simp_all add: ex_worker no_faults_def)
  moreover have "w_redis ?w ''in'' = [(''1'', entry_data ex_event)]" "sm_id ex_stream_message = ''1''"
    by (simp_all add: ex_worker)
  ultimately show ?thesis by (auto simp: Let_def run leaves_def)
qed

text \<open>
  The one way a task's promise rejects instead of settling its message: writing the dead
  letter of a non-retryable error fails. The same failure for a message past its retries is
  caught and counted.
\<close>
theorem dead_letter_failure_escapes:
  assumes "sm_deliveryCount message = Some n" "sc_dlqStream (wo_consumer opts) = Some dlq"
    and "processHoldingLease r opts ticks process message n w = (Inl (NonRetryableError m), w1)"
    and "w_faults w (w_step w) = Some (Error x)" "w_faults w1 (w_step w1) = Some (Error x)"
  shows "fst (processWithTracking r opts now ackedAt ticks process message w) =
    (if n \<le> wo_maxRetriesBeforeDlq opts then Inl (Error x) else Inr ())"
proof (cases "n \<le> wo_maxRetriesBeforeDlq opts")
  case True
  then show ?thesis using dead_letter_rejects [OF assms(1) True assms(2,3,5)] by simp
next
  case False
  then show ?thesis using poison_pill_failure_caught [OF assms(1) _ assms(2,4)] by simp
qed

theorem dead_letter_failure_escapes_witness:
  "fst (processWithTracking mem_stream_redis ex_worker_opts 0 ''t'' 0 ex_rejects ex_stream_message
     (ex_worker_world (\<lambda>_. Some (Error ''down'')))) = Inl (Error ''down'')"
  using dead_letter_failure_escapes [of ex_stream_message 1 ex_worker_opts "''dlq''" mem_stream_redis 0 ex_rejects
      "ex_worker_world (\<lambda>_. Some (Error ''down''))" "''bad''" "ex_worker_world (\<lambda>_. Some (Error ''down''))" "''down''" 0 "''t''"]
  by (simp add: processHoldingLease_def ex_worker thenA_def ret_def bindA_def throw_def)

text \<open>
  C13: At any time at most \<open>concurrency\<close> messages are being processed, and once the worker
  reports itself stopped no message it read from the stream is in progress, and at most one
  that the recovery loop had claimed.
\<close>
theorem worker_drains_before_stopped:
  assumes "worker_reachable n w"
  shows "length (wk_active w) \<le> n
    \<and> (wk_state w \<noteq> Stopped \<or> (length (wk_active w) \<le> 1 \<and> (\<forall>t \<in> set (wk_active w). fst t = FromRecovery)))"
  using worker_bounds [OF assms] by blast

text \<open>
  A run in which the recovery loop waits for the only permit while the worker is stopped: the
  task that ends hands its permit to the recovery loop, after the snapshot.
\<close>

definition ex_stopped :: worker_sys where
  "ex_stopped = \<lparr>wk_state = Stopped, wk_stopping = True, wk_sem = \<lparr>sem_count = 1, sem_queue = [], sem_max = 1\<rparr>,
     wk_active = [(FromRecovery, 1, 8)], wk_started = 2, wk_consume = ConsumeDone, wk_recover = InClaimed []\<rparr>"

lemma ex_stopped_reachable: "worker_reachable 1 ex_stopped"
proof -
  define w1 where "w1 = (worker_new 1)\<lparr>wk_state := Running, wk_consume := NextBatch\<rparr>"
  define w2 where "w2 = w1\<lparr>wk_consume := InBatch [7]\<rparr>"
  define w3 where "w3 = w2\<lparr>wk_recover := Claiming\<rparr>"
  define w4 where "w4 = w3\<lparr>wk_recover := InClaimed [8]\<rparr>"
  define w5 where "w5 = consume_turn [7] w4"
  define w6 where "w6 = recover_turn [8] w5"
  define w7 where "w7 = worker_stop w6"
  define w8 where "w8 = consume_turn [] w7"
  define w9 where "w9 = w8\<lparr>wk_consume := Draining (wk_active w8)\<rparr>"
  define w10 where "w10 = task_done (FromStream, 0, 7) w9"
  note ws = w1_def w2_def w3_def w4_def w5_def w6_def w7_def w8_def w9_def w10_def worker_new_def worker_step_defs
    sem_new_def sem_acquire_def sem_release_def task_done_def resume_def
  have "worker_reachable 1 w1"
    by (rule worker_reachable.Step [OF New Start]) (simp add: w1_def worker_start_def worker_new_def)
  then have "worker_reachable 1 w2" unfolding w2_def by (rule worker_reachable.Step) (rule Batch; simp add: ws)
  then have "worker_reachable 1 w3" unfolding w3_def by (rule worker_reachable.Step) (rule Scan; simp add: ws)
  then have "worker_reachable 1 w4" unfolding w4_def by (rule worker_reachable.Step) (rule Claimed; simp add: ws)
  then have "worker_reachable 1 w5" unfolding w5_def by (rule worker_reachable.Step) (rule Consume; simp add: ws)
  then have "worker_reachable 1 w6" unfolding w6_def by (rule worker_reachable.Step) (rule Recover; simp add: ws)
  then have "worker_reachable 1 w7" unfolding w7_def by (rule worker_reachable.Step) (rule Stop)
  then have "worker_reachable 1 w8" unfolding w8_def by (rule worker_reachable.Step) (rule Consume; simp add: ws)
  then have "worker_reachable 1 w9" unfolding w9_def by (rule worker_reachable.Step) (rule Drain; simp add: ws)
  then have "worker_reachable 1 w10" unfolding w10_def by (rule worker_reachable.Step) (rule Done; simp add: ws)
  then have "worker_reachable 1 (w10\<lparr>wk_consume := ConsumeDone, wk_state := Stopped\<rparr>)"
    by (rule worker_reachable.Step) (rule Drained [where ts = "[(FromStream, 0, 7)]"]; simp add: ws)
  moreover have "w10\<lparr>wk_consume := ConsumeDone, wk_state := Stopped\<rparr> = ex_stopped"
    by (simp add: ws ex_stopped_def)
  ultimately show ?thesis by simp
qed

theorem worker_drains_before_stopped_witness:
  "length (wk_active ex_stopped) \<le> 1 \<and> list_all (\<lambda>t. fst t = FromRecovery) (wk_active ex_stopped)"
proof -
  have "wk_state ex_stopped = Stopped" by (simp add: ex_stopped_def)
  then show ?thesis using worker_drains_before_stopped [OF ex_stopped_reachable] by (simp add: list_all_iff)
qed

text \<open>
  The worker can report itself stopped, and its connections be closed, while a message
  the recovery loop claimed is still being processed: it was waiting for a permit when the
  draining took its snapshot of the active tasks.
\<close>
theorem worker_stops_with_a_message_in_hand:
  "\<exists>w. worker_reachable 1 w \<and> wk_state w = Stopped \<and> wk_active w \<noteq> []"
  by (rule exI [of _ ex_stopped], intro conjI, rule ex_stopped_reachable) (simp_all add: ex_stopped_def)

end
