(* ===== verification/User_Store.thy ===== *)
theory User_Store
  imports LRU_Cache Contracts
begin

text \<open>
  The user, contact and template repositories (\<open>src/src/repositories/\<close>) over the tables
  they read and write. Postgres is not part of the program: a table is the list of its rows, or
  a map from its unique key, and a statement is what the SQL standard and the Postgres manual
  say of it; ids that the database generates are a parameter. A transaction gives the
  database it commits, or an error and no change. A row's internal id is a uuid, which has
  no colon, so the keys \<open>id:topic\<close> of the code are pairs here.
\<close>

section \<open>Tables\<close>

record user_row =
  us_id :: string
  us_projectId :: string
  us_externalId :: string
  us_attributes :: "(string, json) jsmap"

record contact_row =
  uc_id :: string
  uc_userId :: string
  uc_channel :: NotificationChannel
  uc_target :: string
  uc_enabled :: bool

record template_row =
  tm_projectId :: string
  tm_id :: string
  tm_channel :: string
  tm_topics :: "string list"
  tm_content :: json
  tm_aiPrompts :: "(string \<times> string) list option"

record quiet_row =
  qr_userId :: "string option"
  qr_startTime :: string
  qr_endTime :: string

record database =
  db_users :: "user_row list"
  db_segments :: "(string \<times> string) list"
  db_topics :: "(string \<times> string, bool) jsmap"
  db_channels :: "(string \<times> string, bool) jsmap"
  db_quietHours :: "quiet_row list"
  db_contacts :: "contact_row list"
  db_contactTopics :: "(string \<times> string, bool) jsmap"
  db_templates :: "template_row list"
  db_suppressions :: "(string \<times> NotificationChannel \<times> string) list"

text \<open>
  \<open>INSERT \<dots> ON CONFLICT DO UPDATE\<close> on the unique key; two proposed rows with one key
  are an error. \<open>ON CONFLICT DO NOTHING\<close> keeps the row that is there.
\<close>

definition sql_upsert :: "('k \<times> 'v) list \<Rightarrow> ('k, 'v) jsmap \<Rightarrow> exn + ('k, 'v) jsmap" where
  "sql_upsert rows t =
     (if distinct (map fst rows) then Inr (foldl (\<lambda>t (k, v). jm_set k v t) t rows)
      else Inl (Error ''ON CONFLICT DO UPDATE command cannot affect row a second time''))"

definition sql_insert_ignore :: "'r list \<Rightarrow> 'r list \<Rightarrow> 'r list" where
  "sql_insert_ignore rows t = foldl (\<lambda>t r. if r \<in> set t then t else t @ [r]) t rows"

section \<open>Records\<close>

record Preferences =
  pr_channels :: "(string \<times> bool) list option"
  pr_topics :: "(string \<times> bool) list option"
  pr_quietHours :: "quiet_window list option"

text \<open>A null email is \<open>Some None\<close>.\<close>

record UserProfile =
  up_userId :: string
  up_language :: string
  up_timezone :: string
  up_email :: "string option option"

record UserRecord = UserProfile +
  ur_segments :: "string list"
  ur_preferences :: Preferences

record UserContact =
  cn_id :: string
  cn_userId :: string
  cn_channel :: NotificationChannel
  cn_target :: string
  cn_topics :: "(string \<times> bool) list option"
  cn_active :: bool

record TemplateRecord =
  tr_id :: string
  tr_channel :: string
  tr_content :: json
  tr_topics :: "string list"
  tr_aiPrompts :: "(string \<times> string) list option"

text \<open>\<open>attrs.language ?? DEFAULT\<close>: an attribute that is absent or null has the default.\<close>

definition attr_or :: "string \<Rightarrow> string \<Rightarrow> (string, json) jsmap \<Rightarrow> string" where
  "attr_or k d attrs = (case jm_get attrs k of Some (JStr s) \<Rightarrow> s | _ \<Rightarrow> d)"

definition attr_email :: "(string, json) jsmap \<Rightarrow> string option option" where
  "attr_email attrs = (case jm_get attrs ''email'' of
     None \<Rightarrow> None | Some (JStr s) \<Rightarrow> Some (Some s) | Some _ \<Rightarrow> Some None)"

definition user_profile :: "user_row \<Rightarrow> UserProfile" where
  "user_profile r = \<lparr>up_userId = us_externalId r,
     up_language = attr_or ''language'' ''en'' (us_attributes r),
     up_timezone = attr_or ''timezone'' ''UTC'' (us_attributes r),
     up_email = attr_email (us_attributes r)\<rparr>"

section \<open>Reading users\<close>

definition find_user :: "database \<Rightarrow> string \<Rightarrow> string \<Rightarrow> user_row option" where
  "find_user db projectId userId =
     find (\<lambda>r. us_externalId r = userId \<and> us_projectId r = projectId) (db_users db)"

definition user_findById :: "database \<Rightarrow> string \<Rightarrow> string \<Rightarrow> UserProfile option" where
  "user_findById db projectId userId = map_option user_profile (find_user db projectId userId)"

text \<open>Rows grouped by their owner, in the order of the rows.\<close>

definition group_rows :: "('k \<times> 'v) list \<Rightarrow> ('k, 'v list) jsmap" where
  "group_rows rows = foldl (\<lambda>m (k, v). jm_set k ((case jm_get m k of Some vs \<Rightarrow> vs | None \<Rightarrow> []) @ [v]) m) [] rows"

definition group_maps :: "('k \<times> 'f \<times> 'v) list \<Rightarrow> ('k, ('f, 'v) jsmap) jsmap" where
  "group_maps rows = foldl (\<lambda>m (k, f, v). jm_set k (jm_set f v (case jm_get m k of Some r \<Rightarrow> r | None \<Rightarrow> [])) m) [] rows"

definition or_empty :: "'a list option \<Rightarrow> 'a list" where
  "or_empty x = (case x of Some xs \<Rightarrow> xs | None \<Rightarrow> [])"

definition quiet_window_of :: "quiet_row \<Rightarrow> quiet_window" where
  "quiet_window_of q = \<lparr>qw_start = take 5 (qr_startTime q), qw_end = take 5 (qr_endTime q)\<rparr>"

definition owned :: "string list \<Rightarrow> ((string \<times> string) \<times> bool) list \<Rightarrow> (string \<times> string \<times> bool) list" where
  "owned ids rows = map (\<lambda>((k, f), v). (k, f, v)) (filter (\<lambda>((k, f), v). k \<in> set ids) rows)"

text \<open>The five queries and the joins of the records, for the rows of the users found.\<close>

definition user_records :: "database \<Rightarrow> user_row list \<Rightarrow> UserRecord list" where
  "user_records db usersRows =
     (let internalIds = map us_id usersRows;
          segmentsByUserId = group_rows (filter (\<lambda>(u, s). u \<in> set internalIds) (db_segments db));
          topicsByUserId = group_maps (owned internalIds (db_topics db));
          channelsByUserId = group_maps (owned internalIds (db_channels db));
          qhByUserId = group_rows (List.map_filter (\<lambda>q. case qr_userId q of
              Some u \<Rightarrow> if u \<in> set internalIds then Some (u, quiet_window_of q) else None
            | None \<Rightarrow> None) (db_quietHours db))
      in map (\<lambda>r. UserProfile.extend (user_profile r)
           (UserRecord.fields (or_empty (jm_get segmentsByUserId (us_id r)))
              \<lparr>pr_channels = Some (or_empty (jm_get channelsByUserId (us_id r))),
               pr_topics = Some (or_empty (jm_get topicsByUserId (us_id r))),
               pr_quietHours = jm_get qhByUserId (us_id r)\<rparr>)) usersRows)"

type_synonym 'v repo_cache = "(string, 'v) lru"

definition new_repo_cache :: "'v repo_cache" where
  "new_repo_cache = lru_new 5000 30000"

definition cache_key :: "string \<Rightarrow> string \<Rightarrow> string" where
  "cache_key projectId userId = projectId @ '':'' @ userId"

text \<open>The loop over the ids that asks the cache: what it has, and the ids it misses.\<close>

fun cache_lookup :: "ms \<Rightarrow> string \<Rightarrow> string list \<Rightarrow> 'v repo_cache \<Rightarrow> (string \<times> 'v) list \<times> string list \<times> 'v repo_cache" where
  "cache_lookup now projectId [] c = ([], [], c)"
| "cache_lookup now projectId (i # ids) c =
     (case lru_get now (cache_key projectId i) c of (hit, c) \<Rightarrow>
        case cache_lookup now projectId ids c of (hits, missing, c) \<Rightarrow>
          (case hit of Some v \<Rightarrow> ((i, v) # hits, missing, c) | None \<Rightarrow> (hits, i # missing, c)))"

definition findRecordsByIds ::
  "ms \<Rightarrow> database \<Rightarrow> string \<Rightarrow> string list \<Rightarrow> UserRecord repo_cache \<Rightarrow> UserRecord list \<times> UserRecord repo_cache" where
  "findRecordsByIds now db projectId userIds c =
     (if userIds = [] then ([], c)
      else case cache_lookup now projectId userIds c of (hits, missingIds, c) \<Rightarrow>
        if missingIds = [] then (map snd hits, c)
        else
          let usersRows = filter (\<lambda>r. us_externalId r \<in> set missingIds \<and> us_projectId r = projectId) (db_users db);
              records = user_records db usersRows
          in (map snd hits @ records,
              foldl (\<lambda>c r. lru_set now (cache_key projectId (up_userId r)) r None c) c records))"

definition findRecordById ::
  "ms \<Rightarrow> database \<Rightarrow> string \<Rightarrow> string \<Rightarrow> UserRecord repo_cache \<Rightarrow> UserRecord option \<times> UserRecord repo_cache" where
  "findRecordById now db projectId userId c =
     (case lru_get now (cache_key projectId userId) c of
        (Some r, c) \<Rightarrow> (Some r, c)
      | (None, c) \<Rightarrow> (case findRecordsByIds now db projectId [userId] c of
          (records, c) \<Rightarrow> (case records of [] \<Rightarrow> None | r # _ \<Rightarrow> Some r, c)))"

definition findUsersBySegment :: "database \<Rightarrow> string \<Rightarrow> string \<Rightarrow> string list" where
  "findUsersBySegment db projectId segmentName =
     map us_externalId (filter (\<lambda>r. us_projectId r = projectId \<and> (us_id r, segmentName) \<in> set (db_segments db)) (db_users db))"

definition findUsersByTopic :: "database \<Rightarrow> string \<Rightarrow> string \<Rightarrow> string list" where
  "findUsersByTopic db projectId topicName =
     map us_externalId (filter (\<lambda>r. us_projectId r = projectId \<and> jm_get (db_topics db) (us_id r, topicName) = Some True)
       (db_users db))"

section \<open>Reading contacts and templates\<close>

definition user_contact :: "database \<Rightarrow> string \<Rightarrow> (string \<Rightarrow> (string \<times> bool) list option) \<Rightarrow> contact_row \<Rightarrow> UserContact" where
  "user_contact db userId topics r = \<lparr>cn_id = uc_id r, cn_userId = userId, cn_channel = uc_channel r,
     cn_target = uc_target r, cn_topics = topics (uc_id r), cn_active = uc_enabled r\<rparr>"

definition contact_findByUserId :: "database \<Rightarrow> string \<Rightarrow> string \<Rightarrow> UserContact list" where
  "contact_findByUserId db projectId userId =
     (case find_user db projectId userId of
        None \<Rightarrow> []
      | Some u \<Rightarrow>
          let rows = filter (\<lambda>r. uc_userId r = us_id u) (db_contacts db);
              topicsByContact = group_maps (owned (map uc_id rows) (db_contactTopics db))
          in map (user_contact db userId (\<lambda>i. Some (or_empty (jm_get topicsByContact i)))) rows)"

text \<open>The join of users and their enabled contacts, with the external id.\<close>

definition active_rows :: "database \<Rightarrow> string \<Rightarrow> string list \<Rightarrow> (string \<times> contact_row) list" where
  "active_rows db projectId ids =
     concat (map (\<lambda>u. map (\<lambda>r. (us_externalId u, r)) (filter (\<lambda>r. uc_userId r = us_id u \<and> uc_enabled r) (db_contacts db)))
       (filter (\<lambda>u. us_projectId u = projectId \<and> us_externalId u \<in> set ids) (db_users db)))"

definition findActiveByUserIds ::
  "ms \<Rightarrow> database \<Rightarrow> string \<Rightarrow> string list \<Rightarrow> UserContact list repo_cache
    \<Rightarrow> (string, UserContact list) jsmap \<times> UserContact list repo_cache" where
  "findActiveByUserIds now db projectId userIds c =
     (if userIds = [] then ([], c)
      else case cache_lookup now projectId userIds c of (hits, missingIds, c) \<Rightarrow>
        let byUser = foldl (\<lambda>m (i, contacts). if contacts \<noteq> [] then jm_set i contacts m else m) [] hits
        in if missingIds = [] then (byUser, c)
           else
             let rows = active_rows db projectId missingIds;
                 topicsByContact = group_maps (owned (map (uc_id \<circ> snd) rows) (db_contactTopics db));
                 fetched = group_rows (map (\<lambda>(u, r). (u, user_contact db u (jm_get topicsByContact) r)) rows);
                 contacts = (\<lambda>i. or_empty (jm_get fetched i))
             in (foldl (\<lambda>m i. if contacts i \<noteq> [] then jm_set i (contacts i) m else m) byUser missingIds,
                 foldl (\<lambda>c i. lru_set now (cache_key projectId i) (contacts i) None c) c missingIds))"

definition template_record :: "template_row \<Rightarrow> TemplateRecord" where
  "template_record r = \<lparr>tr_id = tm_id r, tr_channel = tm_channel r, tr_content = tm_content r,
     tr_topics = tm_topics r, tr_aiPrompts = tm_aiPrompts r\<rparr>"

definition template_findById :: "database \<Rightarrow> string \<Rightarrow> string \<Rightarrow> TemplateRecord option" where
  "template_findById db projectId i =
     map_option template_record (find (\<lambda>r. tm_id r = i \<and> tm_projectId r = projectId) (db_templates db))"

definition template_list :: "database \<Rightarrow> string \<Rightarrow> TemplateRecord list" where
  "template_list db projectId = map template_record (filter (\<lambda>r. tm_projectId r = projectId) (db_templates db))"

section \<open>Writing users\<close>

record user_input =
  in_userId :: string
  in_language :: "string option"
  in_timezone :: "string option"
  in_email :: "string option option"
  in_segments :: "string list"
  in_preferences :: Preferences

text \<open>The JSON of \<open>{ language, timezone, email }\<close>: a field left out is absent.\<close>

definition given_attributes :: "string option \<Rightarrow> string option \<Rightarrow> string option option \<Rightarrow> (string, json) jsmap" where
  "given_attributes language timezone email =
     (case language of Some l \<Rightarrow> [(''language'', JStr l)] | None \<Rightarrow> [])
     @ (case timezone of Some t \<Rightarrow> [(''timezone'', JStr t)] | None \<Rightarrow> [])
     @ (case email of Some (Some e) \<Rightarrow> [(''email'', JStr e)] | Some None \<Rightarrow> [(''email'', JNull)] | None \<Rightarrow> [])"

definition input_attributes :: "user_input \<Rightarrow> (string, json) jsmap" where
  "input_attributes u = given_attributes (in_language u) (in_timezone u) (in_email u)"

text \<open>
  The insert into \<open>users\<close>: a new row gets the id \<open>gen\<close> draws for it, an existing one has
  its attributes combined with the new ones by \<open>f\<close>.
\<close>

definition upsert_user_row ::
  "((string, json) jsmap \<Rightarrow> (string, json) jsmap \<Rightarrow> (string, json) jsmap) \<Rightarrow> (string \<Rightarrow> string) \<Rightarrow> string
    \<Rightarrow> user_row list \<Rightarrow> string \<times> (string, json) jsmap \<Rightarrow> user_row list" where
  "upsert_user_row f gen projectId rows p =
     (case p of (userId, attrs) \<Rightarrow>
        if \<exists>r \<in> set rows. us_externalId r = userId \<and> us_projectId r = projectId
        then map (\<lambda>r. if us_externalId r = userId \<and> us_projectId r = projectId
               then r\<lparr>us_attributes := f (us_attributes r) attrs\<rparr> else r) rows
        else rows @ [\<lparr>us_id = gen userId, us_projectId = projectId, us_externalId = userId, us_attributes = attrs\<rparr>])"

text \<open>\<open>users.attributes || excluded.attributes\<close>\<close>

definition merge_attributes :: "(string, json) jsmap \<Rightarrow> (string, json) jsmap \<Rightarrow> (string, json) jsmap" where
  "merge_attributes stored new = foldl (\<lambda>m (k, v). jm_set k v m) stored new"

definition insert_users ::
  "((string, json) jsmap \<Rightarrow> (string, json) jsmap \<Rightarrow> (string, json) jsmap) \<Rightarrow> (string \<Rightarrow> string) \<Rightarrow> string
    \<Rightarrow> (string \<times> (string, json) jsmap) list \<Rightarrow> database \<Rightarrow> exn + database" where
  "insert_users f gen projectId rows db =
     (if distinct (map fst rows)
      then Inr (db\<lparr>db_users := foldl (upsert_user_row f gen projectId) (db_users db) rows\<rparr>)
      else Inl (Error ''ON CONFLICT DO UPDATE command cannot affect row a second time''))"

definition bind_db :: "exn + database \<Rightarrow> (database \<Rightarrow> exn + database) \<Rightarrow> exn + database" where
  "bind_db r f = (case r of Inl e \<Rightarrow> Inl e | Inr db \<Rightarrow> f db)"

definition put_topics :: "((string \<times> string) \<times> bool) list \<Rightarrow> database \<Rightarrow> exn + database" where
  "put_topics rows db = (case sql_upsert rows (db_topics db) of Inl e \<Rightarrow> Inl e | Inr t \<Rightarrow> Inr (db\<lparr>db_topics := t\<rparr>))"

definition put_channels :: "((string \<times> string) \<times> bool) list \<Rightarrow> database \<Rightarrow> exn + database" where
  "put_channels rows db = (case sql_upsert rows (db_channels db) of Inl e \<Rightarrow> Inl e | Inr t \<Rightarrow> Inr (db\<lparr>db_channels := t\<rparr>))"

definition put_segments :: "(string \<times> string) list \<Rightarrow> database \<Rightarrow> database" where
  "put_segments rows db = db\<lparr>db_segments := sql_insert_ignore rows (db_segments db)\<rparr>"

text \<open>Clears the quiet hours of some users and then inserts new ones.\<close>

definition replace_quiet :: "string list \<Rightarrow> (string \<times> quiet_window) list \<Rightarrow> database \<Rightarrow> database" where
  "replace_quiet clear rows db =
     db\<lparr>db_quietHours := filter (\<lambda>q. \<forall>u \<in> set clear. qr_userId q \<noteq> Some u) (db_quietHours db)
        @ map (\<lambda>(u, w). \<lparr>qr_userId = Some u, qr_startTime = qw_start w, qr_endTime = qw_end w\<rparr>) rows\<rparr>"

definition pref_rows :: "string \<Rightarrow> (string \<times> bool) list option \<Rightarrow> ((string \<times> string) \<times> bool) list" where
  "pref_rows internalId prefs = map (\<lambda>(k, enabled). ((internalId, k), enabled)) (or_empty prefs)"

text \<open>What \<open>upsertFull\<close> and \<open>updatePartial\<close> write for one user, after its attributes.\<close>

definition write_preferences :: "string \<Rightarrow> Preferences \<Rightarrow> database \<Rightarrow> exn + database" where
  "write_preferences internalId p db =
     bind_db (put_topics (pref_rows internalId (pr_topics p)) db) (\<lambda>db.
     bind_db (put_channels (pref_rows internalId (pr_channels p)) db) (\<lambda>db.
       case pr_quietHours p of
         None \<Rightarrow> Inr db
       | Some ws \<Rightarrow> Inr (replace_quiet [internalId] (map (\<lambda>w. (internalId, w)) ws) db)))"

definition internal_id :: "database \<Rightarrow> string \<Rightarrow> string \<Rightarrow> string option" where
  "internal_id db projectId userId = map_option us_id (find_user db projectId userId)"

definition upsertFull_tx :: "(string \<Rightarrow> string) \<Rightarrow> string \<Rightarrow> user_input \<Rightarrow> database \<Rightarrow> exn + database" where
  "upsertFull_tx gen projectId u db =
     bind_db (insert_users (\<lambda>stored new. new) gen projectId [(in_userId u, input_attributes u)] db) (\<lambda>db.
       case internal_id db projectId (in_userId u) of
         None \<Rightarrow> Inr db
       | Some i \<Rightarrow> write_preferences i (in_preferences u) (put_segments (map (\<lambda>s. (i, s)) (in_segments u)) db))"

definition upsertFull ::
  "(string \<Rightarrow> string) \<Rightarrow> string \<Rightarrow> user_input \<Rightarrow> database \<times> UserRecord repo_cache
    \<Rightarrow> exn + database \<times> UserRecord repo_cache" where
  "upsertFull gen projectId u s =
     (case upsertFull_tx gen projectId u (fst s) of
        Inl e \<Rightarrow> Inl e | Inr db \<Rightarrow> Inr (db, lru_delete (cache_key projectId (in_userId u)) (snd s)))"

text \<open>The last entry of every user, in the order of the first.\<close>

definition unique_users :: "user_input list \<Rightarrow> user_input list" where
  "unique_users usersList = map snd (foldl (\<lambda>m u. jm_set (in_userId u) u m) [] usersList)"

text \<open>The rows for the entries whose user is known; quiet hours count for the last entry only.\<close>

fun quiet_inserts :: "(string \<Rightarrow> string option) \<Rightarrow> user_input list \<Rightarrow> (string \<times> quiet_window) list" where
  "quiet_inserts idMap [] = []"
| "quiet_inserts idMap (u # us) =
     (case idMap (in_userId u) of
        Some i \<Rightarrow> if in_userId u \<notin> in_userId ` set us
                 then map (\<lambda>w. (i, w)) (or_empty (pr_quietHours (in_preferences u))) else []
      | None \<Rightarrow> []) @ quiet_inserts idMap us"

definition rows_of :: "(string \<Rightarrow> string option) \<Rightarrow> (string \<Rightarrow> user_input \<Rightarrow> 'r list) \<Rightarrow> user_input list \<Rightarrow> 'r list" where
  "rows_of idMap f us = concat (map (\<lambda>u. case idMap (in_userId u) of Some i \<Rightarrow> f i u | None \<Rightarrow> []) us)"

definition last_wins :: "('k \<times> 'v) list \<Rightarrow> ('k, 'v) jsmap" where
  "last_wins rows = foldl (\<lambda>m (k, v). jm_set k v m) [] rows"

definition upsertManyFull_tx :: "(string \<Rightarrow> string) \<Rightarrow> string \<Rightarrow> user_input list \<Rightarrow> database \<Rightarrow> exn + database" where
  "upsertManyFull_tx gen projectId usersList db =
     (let uniqueUsers = unique_users usersList
      in bind_db (insert_users merge_attributes gen projectId
           (map (\<lambda>u. (in_userId u, input_attributes u)) uniqueUsers) db) (\<lambda>db.
         let idMap = internal_id db projectId;
             segmentInserts = rows_of idMap (\<lambda>i u. map (\<lambda>s. (i, s)) (in_segments u)) usersList;
             topicInserts = rows_of idMap (\<lambda>i u. pref_rows i (pr_topics (in_preferences u))) usersList;
             channelInserts = rows_of idMap (\<lambda>i u. pref_rows i (pr_channels (in_preferences u))) usersList;
             quietHoursInserts = quiet_inserts idMap usersList;
             clear = List.map_filter (\<lambda>u. if pr_quietHours (in_preferences u) \<noteq> None then idMap (in_userId u) else None) uniqueUsers
         in bind_db (put_topics (last_wins topicInserts) (put_segments (sql_insert_ignore segmentInserts []) db)) (\<lambda>db.
            bind_db (put_channels (last_wins channelInserts) db) (\<lambda>db.
              Inr (replace_quiet clear quietHoursInserts db)))))"

text \<open>
  At most three runs of the transaction; \<open>failures\<close> gives, by attempt, the code and the error
  with which the database aborted it. A serialization failure or a deadlock is tried again.
\<close>

fun with_retries :: "nat \<Rightarrow> (nat \<Rightarrow> (string \<times> exn) option) \<Rightarrow> exn + 'a \<Rightarrow> nat \<Rightarrow> exn + 'a" where
  "with_retries 0 failures run n = run"
| "with_retries (Suc left) failures run n =
     (case failures n of
        None \<Rightarrow> run
      | Some (code, err) \<Rightarrow>
          if n + 1 \<ge> 3 \<or> code \<noteq> ''40001'' \<and> code \<noteq> ''40P01'' then Inl err
          else with_retries left failures run (n + 1))"

definition upsertManyFull ::
  "(string \<Rightarrow> string) \<Rightarrow> (nat \<Rightarrow> (string \<times> exn) option) \<Rightarrow> string \<Rightarrow> user_input list
    \<Rightarrow> database \<times> UserRecord repo_cache \<Rightarrow> exn + database \<times> UserRecord repo_cache" where
  "upsertManyFull gen failures projectId usersList s =
     (if usersList = [] then Inr s
      else case with_retries 3 failures (upsertManyFull_tx gen projectId usersList (fst s)) 0 of
        Inl e \<Rightarrow> Inl e
      | Inr db \<Rightarrow> Inr (db, foldl (\<lambda>c u. lru_delete (cache_key projectId (in_userId u)) c) (snd s) usersList))"

record user_patch =
  pt_language :: "string option"
  pt_timezone :: "string option"
  pt_email :: "string option option"
  pt_segments :: "string list option"
  pt_preferences :: "Preferences option"

definition updatePartial_tx :: "string \<Rightarrow> string \<Rightarrow> user_patch \<Rightarrow> UserProfile \<Rightarrow> database \<Rightarrow> exn + database" where
  "updatePartial_tx projectId userId patch existing db =
     (let attrs = given_attributes
            (Some (case pt_language patch of Some l \<Rightarrow> l | None \<Rightarrow> up_language existing))
            (Some (case pt_timezone patch of Some t \<Rightarrow> t | None \<Rightarrow> up_timezone existing))
            (case pt_email patch of Some e \<Rightarrow> Some e | None \<Rightarrow> up_email existing);
          db = db\<lparr>db_users := map (\<lambda>r. if us_externalId r = userId \<and> us_projectId r = projectId
                 then r\<lparr>us_attributes := attrs\<rparr> else r) (db_users db)\<rparr>
      in case internal_id db projectId userId of
           None \<Rightarrow> Inr db
         | Some i \<Rightarrow>
             let db = (case pt_segments patch of
                   None \<Rightarrow> db
                 | Some segs \<Rightarrow> put_segments (map (\<lambda>s. (i, s)) segs)
                     (db\<lparr>db_segments := filter (\<lambda>(u, s). u \<noteq> i) (db_segments db)\<rparr>))
             in case pt_preferences patch of None \<Rightarrow> Inr db | Some p \<Rightarrow> write_preferences i p db)"

definition updatePartial ::
  "string \<Rightarrow> string \<Rightarrow> user_patch \<Rightarrow> database \<times> UserRecord repo_cache
    \<Rightarrow> exn + bool \<times> database \<times> UserRecord repo_cache" where
  "updatePartial projectId userId patch s =
     (case user_findById (fst s) projectId userId of
        None \<Rightarrow> Inr (False, s)
      | Some existing \<Rightarrow> (case updatePartial_tx projectId userId patch existing (fst s) of
          Inl e \<Rightarrow> Inl e
        | Inr db \<Rightarrow> Inr (True, db, lru_delete (cache_key projectId userId) (snd s))))"

text \<open>Deleting a row deletes what references it (\<open>onDelete: cascade\<close>).\<close>

definition cascade_contacts :: "string list \<Rightarrow> database \<Rightarrow> database" where
  "cascade_contacts gone db =
     db\<lparr>db_contacts := filter (\<lambda>c. uc_id c \<notin> set gone) (db_contacts db),
        db_contactTopics := filter (\<lambda>((c, t), e). c \<notin> set gone) (db_contactTopics db)\<rparr>"

definition cascade_users :: "string list \<Rightarrow> database \<Rightarrow> database" where
  "cascade_users gone db =
     cascade_contacts (map uc_id (filter (\<lambda>c. uc_userId c \<in> set gone) (db_contacts db)))
       (db\<lparr>db_users := filter (\<lambda>r. us_id r \<notin> set gone) (db_users db),
           db_segments := filter (\<lambda>(u, s). u \<notin> set gone) (db_segments db),
           db_topics := filter (\<lambda>((u, t), e). u \<notin> set gone) (db_topics db),
           db_channels := filter (\<lambda>((u, t), e). u \<notin> set gone) (db_channels db),
           db_quietHours := filter (\<lambda>q. \<forall>u \<in> set gone. qr_userId q \<noteq> Some u) (db_quietHours db)\<rparr>)"

definition user_delete ::
  "string \<Rightarrow> string \<Rightarrow> database \<times> UserRecord repo_cache \<Rightarrow> bool \<times> database \<times> UserRecord repo_cache" where
  "user_delete projectId userId s =
     (let gone = map us_id (filter (\<lambda>r. us_externalId r = userId \<and> us_projectId r = projectId) (db_users (fst s)))
      in (gone \<noteq> [], cascade_users gone (fst s), lru_delete (cache_key projectId userId) (snd s)))"

section \<open>Writing contacts and templates\<close>

record contact_input =
  ci_userId :: string
  ci_channel :: NotificationChannel
  ci_target :: string
  ci_topics :: "(string \<times> bool) list option"

text \<open>The insert into \<open>user_contacts\<close>: the address enabled, with the id it has or is given.\<close>

type_synonym address = "string \<times> NotificationChannel \<times> string"

definition row_address :: "contact_row \<Rightarrow> address" where
  "row_address r = (uc_userId r, uc_channel r, uc_target r)"

definition upsert_contact_row :: "(address \<Rightarrow> string) \<Rightarrow> contact_row list \<Rightarrow> address \<Rightarrow> contact_row list" where
  "upsert_contact_row gen rows a =
     (if a \<in> row_address ` set rows
      then map (\<lambda>r. if row_address r = a then r\<lparr>uc_enabled := True\<rparr> else r) rows
      else case a of (u, ch, t) \<Rightarrow>
        rows @ [\<lparr>uc_id = gen a, uc_userId = u, uc_channel = ch, uc_target = t, uc_enabled = True\<rparr>])"

definition insert_contacts :: "(address \<Rightarrow> string) \<Rightarrow> address list \<Rightarrow> database \<Rightarrow> exn + database" where
  "insert_contacts gen rows db =
     (if distinct rows then Inr (db\<lparr>db_contacts := foldl (upsert_contact_row gen) (db_contacts db) rows\<rparr>)
      else Inl (Error ''ON CONFLICT DO UPDATE command cannot affect row a second time''))"

definition contact_id :: "database \<Rightarrow> address \<Rightarrow> string option" where
  "contact_id db a = map_option uc_id (find (\<lambda>r. row_address r = a) (db_contacts db))"

definition put_contact_topics :: "((string \<times> string) \<times> bool) list \<Rightarrow> database \<Rightarrow> exn + database" where
  "put_contact_topics rows db =
     (case sql_upsert rows (db_contactTopics db) of Inl e \<Rightarrow> Inl e | Inr t \<Rightarrow> Inr (db\<lparr>db_contactTopics := t\<rparr>))"

definition contact_upsert ::
  "(address \<Rightarrow> string) \<Rightarrow> string \<Rightarrow> contact_input \<Rightarrow> database \<times> UserContact list repo_cache
    \<Rightarrow> exn + database \<times> UserContact list repo_cache" where
  "contact_upsert gen projectId c s =
     (case internal_id (fst s) projectId (ci_userId c) of
        None \<Rightarrow> Inr s
      | Some i \<Rightarrow>
          let a = (i, ci_channel c, ci_target c)
          in case bind_db (insert_contacts gen [a] (fst s)) (\<lambda>db. case contact_id db a of
                 None \<Rightarrow> Inr db
               | Some contactId \<Rightarrow> put_contact_topics (pref_rows contactId (ci_topics c)) db) of
               Inl e \<Rightarrow> Inl e
             | Inr db \<Rightarrow> Inr (db, lru_delete (cache_key projectId (ci_userId c)) (snd s)))"

text \<open>One entry per address; a later one adds its topic preferences to those seen.\<close>

definition merge_contact :: "contact_input option \<Rightarrow> contact_input \<Rightarrow> contact_input" where
  "merge_contact seen c =
     (case seen of
        None \<Rightarrow> c
      | Some s \<Rightarrow> c\<lparr>ci_topics := Some (foldl (\<lambda>m (k, v). jm_set k v m) (or_empty (ci_topics s)) (or_empty (ci_topics c)))\<rparr>)"

definition by_address :: "(string \<Rightarrow> string option) \<Rightarrow> contact_input list \<Rightarrow> (address, contact_input) jsmap" where
  "by_address idMap contactsList = foldl (\<lambda>m c.
     if idMap (ci_userId c) = None then m
     else let key = (ci_userId c, ci_channel c, ci_target c) in jm_set key (merge_contact (jm_get m key) c) m) [] contactsList"

definition contact_upsertMany ::
  "(address \<Rightarrow> string) \<Rightarrow> string \<Rightarrow> contact_input list \<Rightarrow> database \<times> UserContact list repo_cache
    \<Rightarrow> exn + database \<times> UserContact list repo_cache" where
  "contact_upsertMany gen projectId contactsList s =
     (let idMap = internal_id (fst s) projectId;
          validContacts = map snd (by_address idMap contactsList);
          address = (\<lambda>c. (the (idMap (ci_userId c)), ci_channel c, ci_target c))
      in if contactsList = [] \<or> validContacts = [] then Inr s
         else case bind_db (insert_contacts gen (map address validContacts) (fst s)) (\<lambda>db.
                put_contact_topics (concat (map (\<lambda>c. case contact_id db (address c) of
                    None \<Rightarrow> [] | Some i \<Rightarrow> pref_rows i (ci_topics c)) validContacts)) db) of
              Inl e \<Rightarrow> Inl e
            | Inr db \<Rightarrow> Inr (db, foldl (\<lambda>c u. lru_delete (cache_key projectId (ci_userId u)) c) (snd s) validContacts))"

definition contact_deactivate ::
  "string \<Rightarrow> string \<Rightarrow> NotificationChannel \<Rightarrow> string \<Rightarrow> database \<times> UserContact list repo_cache
    \<Rightarrow> bool \<times> database \<times> UserContact list repo_cache" where
  "contact_deactivate projectId userId channel target s =
     (let c = lru_delete (cache_key projectId userId) (snd s)
      in case internal_id (fst s) projectId userId of
           None \<Rightarrow> (False, fst s, c)
         | Some i \<Rightarrow> ((i, channel, target) \<in> row_address ` set (db_contacts (fst s)),
             (fst s)\<lparr>db_contacts := map (\<lambda>r. if row_address r = (i, channel, target) then r\<lparr>uc_enabled := False\<rparr> else r)
               (db_contacts (fst s))\<rparr>, c))"

definition contact_delete ::
  "string \<Rightarrow> string \<Rightarrow> NotificationChannel \<Rightarrow> string \<Rightarrow> database \<times> UserContact list repo_cache
    \<Rightarrow> bool \<times> database \<times> UserContact list repo_cache" where
  "contact_delete projectId userId channel target s =
     (let c = lru_delete (cache_key projectId userId) (snd s)
      in case internal_id (fst s) projectId userId of
           None \<Rightarrow> (False, fst s, c)
         | Some i \<Rightarrow>
             let gone = map uc_id (filter (\<lambda>r. row_address r = (i, channel, target)) (db_contacts (fst s)))
             in (gone \<noteq> [], cascade_contacts gone (fst s), c))"

definition template_upsertMany :: "string \<Rightarrow> template_row list \<Rightarrow> database \<Rightarrow> exn + nat \<times> database" where
  "template_upsertMany projectId templateList db =
     (if templateList = [] then Inr (0, db)
      else case sql_upsert (map (\<lambda>t. ((projectId, tm_id t), t\<lparr>tm_projectId := projectId\<rparr>)) templateList)
             (map (\<lambda>t. ((tm_projectId t, tm_id t), t)) (db_templates db)) of
        Inl e \<Rightarrow> Inl e
      | Inr t \<Rightarrow> Inr (length templateList, db\<lparr>db_templates := map snd t\<rparr>))"

definition template_delete :: "string \<Rightarrow> string \<Rightarrow> database \<Rightarrow> bool \<times> database" where
  "template_delete projectId i db =
     (list_ex (\<lambda>r. tm_id r = i \<and> tm_projectId r = projectId) (db_templates db),
      db\<lparr>db_templates := filter (\<lambda>r. \<not> (tm_id r = i \<and> tm_projectId r = projectId)) (db_templates db)\<rparr>)"

section \<open>Lookups for many ids are the lookups for each\<close>

lemma group_rows_fold:
  "jm_get (foldl (\<lambda>m (k, v). jm_set k ((case jm_get m k of Some vs \<Rightarrow> vs | None \<Rightarrow> []) @ [v]) m) m rows) k =
    (let vs = map snd (filter (\<lambda>p. fst p = k) rows)
     in if vs = [] then jm_get m k else Some (or_empty (jm_get m k) @ vs))"
proof (induction rows arbitrary: m)
  case Nil
  show ?case by simp
next
  case (Cons p rows)
  then show ?case by (cases p) (auto simp: jm_get_set or_empty_def Let_def split: option.split)
qed

lemma group_rows_get:
  "or_empty (jm_get (group_rows rows) k) = map snd (filter (\<lambda>p. fst p = k) rows)"
  "jm_get (group_rows rows) k = (let vs = map snd (filter (\<lambda>p. fst p = k) rows) in if vs = [] then None else Some vs)"
  by (simp_all add: group_rows_def group_rows_fold or_empty_def Let_def)

lemma group_maps_fold:
  "jm_get (foldl (\<lambda>m (k, f, v). jm_set k (jm_set f v (case jm_get m k of Some r \<Rightarrow> r | None \<Rightarrow> [])) m) m rows) k =
    (let vs = map snd (filter (\<lambda>p. fst p = k) rows)
     in if vs = [] then jm_get m k else Some (foldl (\<lambda>r (f, v). jm_set f v r) (or_empty (jm_get m k)) vs))"
proof (induction rows arbitrary: m)
  case Nil
  show ?case by simp
next
  case (Cons p rows)
  then show ?case by (cases p) (auto simp: jm_get_set or_empty_def Let_def split: option.split)
qed

lemma group_maps_get:
  "jm_get (group_maps rows) k = (let vs = map snd (filter (\<lambda>p. fst p = k) rows)
     in if vs = [] then None else Some (foldl (\<lambda>r (f, v). jm_set f v r) [] vs))"
  by (simp add: group_maps_def group_maps_fold or_empty_def)

lemma filter_owned:
  "k \<in> set ids \<Longrightarrow> filter (\<lambda>p. fst p = k) (owned ids rows) = filter (\<lambda>p. fst p = k) (owned [k] rows)"
  by (induction rows) (auto simp: owned_def)

lemma filter_quiet:
  "k \<in> set ids \<Longrightarrow> filter (\<lambda>p. fst p = k) (List.map_filter (\<lambda>q. case qr_userId q of
       Some u \<Rightarrow> if u \<in> set ids then Some (u, f q) else None | None \<Rightarrow> None) rows)
    = filter (\<lambda>p. fst p = k) (List.map_filter (\<lambda>q. case qr_userId q of
       Some u \<Rightarrow> if u \<in> set [k] then Some (u, f q) else None | None \<Rightarrow> None) rows)"
  by (induction rows) (auto simp: map_filter_simps split: option.split)

lemma filter_pairs:
  "k \<in> set ids \<Longrightarrow> filter (\<lambda>p. fst p = k) (filter (\<lambda>(u, s). u \<in> set ids) rows)
    = filter (\<lambda>p. fst p = k) (filter (\<lambda>(u, s). u \<in> set [k]) rows)"
  by (induction rows) auto

definition user_record :: "database \<Rightarrow> user_row \<Rightarrow> UserRecord" where
  "user_record db r = hd (user_records db [r])"

lemma group_owned:
  "k \<in> set ids \<Longrightarrow> jm_get (group_maps (owned ids rows)) k = jm_get (group_maps (owned [k] rows)) k"
  unfolding group_maps_get by (subst filter_owned) auto

lemma group_pairs:
  assumes "k \<in> set ids"
  shows "jm_get (group_rows (filter (\<lambda>(u, s). u \<in> set ids) rows)) k
    = jm_get (group_rows (filter (\<lambda>(u, s). u \<in> set [k]) rows)) k"
  unfolding group_rows_get filter_pairs [OF assms] ..

lemma group_quiet:
  assumes "k \<in> set ids"
  shows "jm_get (group_rows (List.map_filter (\<lambda>q. case qr_userId q of
       Some u \<Rightarrow> if u \<in> set ids then Some (u, f q) else None | None \<Rightarrow> None) rows)) k
    = jm_get (group_rows (List.map_filter (\<lambda>q. case qr_userId q of
       Some u \<Rightarrow> if u \<in> set [k] then Some (u, f q) else None | None \<Rightarrow> None) rows)) k"
  unfolding group_rows_get filter_quiet [OF assms] ..

lemma user_records_map: "user_records db rows = map (user_record db) rows"
proof -
  have "user_record db r = UserProfile.extend (user_profile r)
           (UserRecord.fields (or_empty (jm_get (group_rows (filter (\<lambda>(u, s). u \<in> set (map us_id rows)) (db_segments db))) (us_id r)))
              \<lparr>pr_channels = Some (or_empty (jm_get (group_maps (owned (map us_id rows) (db_channels db))) (us_id r))),
               pr_topics = Some (or_empty (jm_get (group_maps (owned (map us_id rows) (db_topics db))) (us_id r))),
               pr_quietHours = jm_get (group_rows (List.map_filter (\<lambda>q. case qr_userId q of
              Some u \<Rightarrow> if u \<in> set (map us_id rows) then Some (u, quiet_window_of q) else None
            | None \<Rightarrow> None) (db_quietHours db))) (us_id r)\<rparr>)" if "r \<in> set rows" for r
  proof -
    have r: "us_id r \<in> set (map us_id rows)" using that by simp
    show ?thesis
      unfolding group_pairs [OF r] group_quiet [OF r] group_owned [OF r]
      by (simp add: user_record_def user_records_def Let_def)
  qed
  then show ?thesis unfolding user_records_def Let_def by (intro map_cong refl) simp
qed

lemma user_record_id [simp]: "up_userId (user_record db r) = us_externalId r"
  by (simp add: user_record_def user_records_def user_profile_def UserProfile.extend_def UserRecord.fields_def Let_def)

lemma cache_lookup_empty: "cache_lookup now p ids (lru_new n ttl) = ([], ids, lru_new n ttl)"
  by (induction ids) (simp_all add: lru_get_def lru_new_def)

text \<open>The database's own constraints: unique keys.\<close>

definition db_ok :: "database \<Rightarrow> bool" where
  "db_ok db \<longleftrightarrow> distinct (map (\<lambda>r. (us_projectId r, us_externalId r)) (db_users db)) \<and> distinct (map us_id (db_users db))"

lemma find_user_Some:
  "find_user db p u = Some r \<Longrightarrow> r \<in> set (db_users db) \<and> us_externalId r = u \<and> us_projectId r = p"
  by (auto simp: find_user_def find_Some_iff)

lemma find_user_filter:
  assumes "db_ok db" "u \<in> set ids"
  shows "filter (\<lambda>r. us_externalId r = u) (filter (\<lambda>r. us_externalId r \<in> set ids \<and> us_projectId r = p) (db_users db))
    = (case find_user db p u of Some r \<Rightarrow> [r] | None \<Rightarrow> [])"
proof -
  have "distinct (map (\<lambda>r. (us_projectId r, us_externalId r)) rows) \<Longrightarrow>
      filter (\<lambda>r. us_externalId r = u) (filter (\<lambda>r. us_externalId r \<in> set ids \<and> us_projectId r = p) rows)
      = (case find (\<lambda>r. us_externalId r = u \<and> us_projectId r = p) rows of Some r \<Rightarrow> [r] | None \<Rightarrow> [])" for rows
  proof (induction rows)
    case (Cons r rows)
    show ?case
    proof (cases "us_externalId r = u \<and> us_projectId r = p")
      case True
      with Cons.prems have "find (\<lambda>r. us_externalId r = u \<and> us_projectId r = p) rows = None"
        by (auto simp: find_None_iff image_iff)
      with Cons True assms(2) show ?thesis by simp
    next
      case False
      with Cons show ?thesis by auto
    qed
  qed simp
  from this [of "db_users db"] assms(1) show ?thesis unfolding find_user_def db_ok_def by blast
qed

lemma jm_get_by_id:
  "jm_get (foldl (\<lambda>m u. jm_set (key u) u m) m us) k =
    (case filter (\<lambda>u. key u = k) us of [] \<Rightarrow> jm_get m k | u # rest \<Rightarrow> Some (last (u # rest)))"
  by (induction us arbitrary: m) (auto simp: jm_get_set split: list.split)

text \<open>What a fresh repository finds of one of the users asked for.\<close>

lemma findRecords_one:
  assumes "db_ok db" "u \<in> set ids"
  shows "jm_get (foldl (\<lambda>m r. jm_set (up_userId r) r m) [] (fst (findRecordsByIds now db p ids new_repo_cache))) u
    = map_option (user_record db) (find_user db p u)"
proof -
  have "ids \<noteq> []" using assms(2) by auto
  then have "fst (findRecordsByIds now db p ids new_repo_cache) =
      map (user_record db) (filter (\<lambda>r. us_externalId r \<in> set ids \<and> us_projectId r = p) (db_users db))"
    by (simp add: findRecordsByIds_def new_repo_cache_def cache_lookup_empty user_records_map Let_def)
  moreover have "filter (\<lambda>r. up_userId r = u) (map (user_record db)
      (filter (\<lambda>r. us_externalId r \<in> set ids \<and> us_projectId r = p) (db_users db)))
    = map (user_record db) (case find_user db p u of Some r \<Rightarrow> [r] | None \<Rightarrow> [])"
    unfolding filter_map comp_def user_record_id find_user_filter [OF assms, of p] ..
  ultimately show ?thesis by (simp add: jm_get_by_id split: option.split)
qed

definition active_contacts :: "database \<Rightarrow> string \<Rightarrow> string \<Rightarrow> UserContact list" where
  "active_contacts db p u = (case find_user db p u of
     None \<Rightarrow> []
   | Some r \<Rightarrow> map (\<lambda>c. user_contact db u (jm_get (group_maps (owned [uc_id c] (db_contactTopics db)))) c)
       (filter (\<lambda>c. uc_userId c = us_id r \<and> uc_enabled c) (db_contacts db)))"

lemma user_contact_cong:
  "f (uc_id c) = g (uc_id c) \<Longrightarrow> user_contact db u f c = user_contact db u g c"
  by (simp add: user_contact_def)

lemma active_rows_one:
  assumes "db_ok db" "u \<in> set ids"
  shows "filter (\<lambda>x. fst x = u) (active_rows db p ids) =
    (case find_user db p u of Some r \<Rightarrow> map (Pair u) (filter (\<lambda>c. uc_userId c = us_id r \<and> uc_enabled c) (db_contacts db)) | None \<Rightarrow> [])"
proof -
  have "filter (\<lambda>x. fst x = u) (concat (map (\<lambda>r. map (Pair (us_externalId r)) (f r)) rows))
      = concat (map (\<lambda>r. map (Pair u) (f r)) (filter (\<lambda>r. us_externalId r = u) rows))" for f :: "user_row \<Rightarrow> contact_row list" and rows
    by (induction rows) (auto simp: filter_map comp_def)
  moreover have "filter (\<lambda>r. us_projectId r = p \<and> us_externalId r \<in> set ids) (db_users db)
      = filter (\<lambda>r. us_externalId r \<in> set ids \<and> us_projectId r = p) (db_users db)"
    by (rule filter_cong) auto
  ultimately show ?thesis
    unfolding active_rows_def by (simp add: find_user_filter [OF assms] del: filter_filter split: option.split)
qed

lemma jm_get_contacts:
  "jm_get (foldl (\<lambda>m i. if f i \<noteq> [] then jm_set i (f i) m else m) m ids) u =
    (if u \<in> set ids \<and> f u \<noteq> [] then Some (f u) else jm_get m u)"
  by (induction ids arbitrary: m) (auto simp: jm_get_set)

lemma findActive_one:
  assumes "db_ok db" "u \<in> set ids"
  shows "or_empty (jm_get (fst (findActiveByUserIds now db p ids new_repo_cache)) u) = active_contacts db p u"
proof -
  define rows where "rows = active_rows db p ids"
  define tops where "tops = group_maps (owned (map (uc_id \<circ> snd) rows) (db_contactTopics db))"
  define contacts where "contacts = (\<lambda>i. or_empty (jm_get (group_rows (map (\<lambda>(v, r). (v, user_contact db v (jm_get tops) r)) rows)) i))"
  have "ids \<noteq> []" using assms(2) by auto
  then have "fst (findActiveByUserIds now db p ids new_repo_cache)
      = foldl (\<lambda>m i. if contacts i \<noteq> [] then jm_set i (contacts i) m else m) [] ids"
    unfolding contacts_def tops_def rows_def
    by (simp add: findActiveByUserIds_def new_repo_cache_def cache_lookup_empty Let_def)
  then have "jm_get (fst (findActiveByUserIds now db p ids new_repo_cache)) u = (if contacts u \<noteq> [] then Some (contacts u) else None)"
    using assms(2) by (simp add: jm_get_contacts)
  then have "or_empty (jm_get (fst (findActiveByUserIds now db p ids new_repo_cache)) u) = contacts u"
    by (simp add: or_empty_def)
  also have "contacts u = map (\<lambda>x. user_contact db u (jm_get tops) (snd x)) (filter (\<lambda>x. fst x = u) rows)"
    unfolding contacts_def group_rows_get(1) by (auto simp: filter_map comp_def split_beta intro: filter_cong)
  also have "\<dots> = active_contacts db p u"
  proof -
    have "jm_get tops (uc_id (snd x)) = jm_get (group_maps (owned [uc_id (snd x)] (db_contactTopics db))) (uc_id (snd x))"
      if "x \<in> set rows" for x
    proof -
      have "uc_id (snd x) \<in> set (map (uc_id \<circ> snd) rows)" using that by auto
      from filter_owned [OF this] show ?thesis by (simp add: tops_def group_maps_get)
    qed
    then have "map (\<lambda>x. user_contact db u (jm_get tops) (snd x)) (filter (\<lambda>x. fst x = u) rows)
      = map (\<lambda>x. user_contact db u (jm_get (group_maps (owned [uc_id (snd x)] (db_contactTopics db)))) (snd x)) (filter (\<lambda>x. fst x = u) rows)"
      by (intro map_cong refl user_contact_cong) simp
    then show ?thesis
      unfolding rows_def active_rows_one [OF assms] active_contacts_def
      by (cases "find_user db p u") (simp_all add: comp_def)
  qed
  finally show ?thesis .
qed

end
