(* ===== verification/Send_Gate.thy ===== *)
theory Send_Gate
  imports User_Store Task_Dispatch
begin

text \<open>
  \<open>findBlockedAtRelease\<close> and \<open>decide\<close>
  (\<open>src/src/services/scheduler/send-gate.ts\<close>): the check of parked sends when they are
  released. The repositories are made for the call, so their caches start empty and every
  answer comes from the tables. \<open>findBlockedAtRelease\<close> looks the tasks of a project up
  together; \<open>verdict\<close> is the decision for one task from its own rows, and the two agree.
\<close>

datatype BlockReason = Suppressed | RecipientNotFound | UserOptedOut | ChannelDisabled | ContactInactive

fun reason_text :: "BlockReason \<Rightarrow> string" where
  "reason_text Suppressed = ''suppressed''"
| "reason_text RecipientNotFound = ''recipient_not_found''"
| "reason_text UserOptedOut = ''user_opted_out''"
| "reason_text ChannelDisabled = ''channel_disabled''"
| "reason_text ContactInactive = ''contact_inactive''"

text \<open>The empty string is falsy, as an absent field is.\<close>

definition truthy :: "string option \<Rightarrow> string option" where
  "truthy s = (case s of Some [] \<Rightarrow> None | _ \<Rightarrow> s)"

definition suppression_key :: "string \<Rightarrow> string \<Rightarrow> string" where
  "suppression_key channel target = channel @ '':'' @ normaliseTarget target"

definition opted_out :: "string list \<Rightarrow> (string \<times> bool) list option \<Rightarrow> bool" where
  "opted_out topics prefs = list_ex (\<lambda>t. jm_get (or_empty prefs) t = Some False) topics"

definition decide ::
  "DispatchedTaskPayload \<Rightarrow> string list \<Rightarrow> string set \<Rightarrow> UserRecord option \<Rightarrow> UserContact list \<Rightarrow> BlockReason option" where
  "decide t topics suppressed user contacts =
     (if (case truthy (dt_destination t) of
            Some d \<Rightarrow> suppression_key (channel_text (dt_channel t)) d \<in> suppressed | None \<Rightarrow> False)
      then Some Suppressed
      else case user of
        None \<Rightarrow> Some RecipientNotFound
      | Some u \<Rightarrow>
          if opted_out topics (pr_topics (ur_preferences u)) then Some UserOptedOut
          else if jm_get (or_empty (pr_channels (ur_preferences u))) (channel_text (dt_channel t)) = Some False
          then Some ChannelDisabled
          else case truthy (dt_destination t) of
            None \<Rightarrow> None
          | Some d \<Rightarrow> (case find (\<lambda>c. cn_channel c = dt_channel t \<and> cn_target c = d) contacts of
              None \<Rightarrow> Some ContactInactive
            | Some c \<Rightarrow> if opted_out topics (cn_topics c) then Some UserOptedOut else None))"

text \<open>The rows of \<open>suppressions\<close> for some addresses of a project, as the keys of the set.\<close>

definition suppressed_keys :: "database \<Rightarrow> string \<Rightarrow> string list \<Rightarrow> string set" where
  "suppressed_keys db projectId targets =
     set (map (\<lambda>(p, ch, t). suppression_key (channel_text ch) t)
       (filter (\<lambda>(p, ch, t). p = projectId \<and> t \<in> set targets) (db_suppressions db)))"

definition template_topics :: "database \<Rightarrow> string \<Rightarrow> string option \<Rightarrow> string list" where
  "template_topics db projectId templateId =
     (case truthy templateId of
        None \<Rightarrow> []
      | Some i \<Rightarrow> (case template_findById db projectId i of Some t \<Rightarrow> tr_topics t | None \<Rightarrow> []))"

text \<open>
  One project's group: the lookups and then a decision per task. \<open>userById\<close> and
  \<open>topicsByTemplate\<close> are maps over what was found.
\<close>

definition gate_group ::
  "ms \<Rightarrow> database \<Rightarrow> string \<Rightarrow> DispatchedTaskPayload list \<Rightarrow> (string, BlockReason) jsmap \<Rightarrow> (string, BlockReason) jsmap" where
  "gate_group now db projectId tasks blocked =
     (let recipientIds = remdups (map dt_recipientId tasks);
          templateIds = remdups (List.map_filter (truthy \<circ> dt_templateId) tasks);
          targets = remdups (filter (\<lambda>t. t \<noteq> [])
            (List.map_filter (\<lambda>t. map_option normaliseTarget (truthy (dt_destination t))) tasks));
          suppressed = suppressed_keys db projectId targets;
          users = fst (findRecordsByIds now db projectId recipientIds new_repo_cache);
          contactsByUser = fst (findActiveByUserIds now db projectId recipientIds new_repo_cache);
          userById = foldl (\<lambda>m u. jm_set (up_userId u) u m) [] users;
          topicsByTemplate = foldl (\<lambda>m i. jm_set i (template_topics db projectId (Some i)) m) [] templateIds
      in foldl (\<lambda>blocked t.
           let topics = (case truthy (dt_templateId t) of Some i \<Rightarrow> or_empty (jm_get topicsByTemplate i) | None \<Rightarrow> [])
           in case decide t topics suppressed (jm_get userById (dt_recipientId t))
                     (or_empty (jm_get contactsByUser (dt_recipientId t))) of
                Some reason \<Rightarrow> jm_set (dt_taskId t) reason blocked
              | None \<Rightarrow> blocked) blocked tasks)"

definition by_project :: "DispatchedTaskPayload list \<Rightarrow> (string, DispatchedTaskPayload list) jsmap" where
  "by_project tasks = group_rows (List.map_filter (\<lambda>t.
     if dt_projectId t = [] \<or> dt_recipientId t = [] then None else Some (dt_projectId t, t)) tasks)"

definition findBlockedAtRelease :: "ms \<Rightarrow> database \<Rightarrow> DispatchedTaskPayload list \<Rightarrow> (string, BlockReason) jsmap" where
  "findBlockedAtRelease now db tasks =
     foldl (\<lambda>blocked (projectId, grp). gate_group now db projectId grp blocked) [] (by_project tasks)"

section \<open>Looking up together is deciding one by one\<close>

lemma channel_text_inj: "channel_text a @ CHR '':'' # x = channel_text b @ CHR '':'' # y \<longleftrightarrow> a = b \<and> x = y"
  by (cases a; cases b) auto

lemma suppressed_key_one:
  "suppression_key (channel_text ch) d \<in> suppressed_keys db p targets \<longleftrightarrow>
     (\<exists>t \<in> set targets. (p, ch, t) \<in> set (db_suppressions db) \<and> normaliseTarget t = normaliseTarget d)"
  unfolding suppressed_keys_def suppression_key_def set_map image_iff
  by (auto simp: channel_text_inj)

text \<open>The addresses of a group are canonical, so only the task's own can match its key.\<close>

definition canonical :: "string list \<Rightarrow> bool" where
  "canonical targets \<longleftrightarrow> (\<forall>t \<in> set targets. normaliseTarget t = t)"

lemma suppressed_key_canonical:
  assumes "canonical targets" "normaliseTarget d \<in> set targets"
  shows "suppression_key (channel_text ch) d \<in> suppressed_keys db p targets \<longleftrightarrow>
    suppression_key (channel_text ch) d \<in> suppressed_keys db p [normaliseTarget d]"
  using assms unfolding suppressed_key_one canonical_def by (auto simp: normaliseTarget_idem)

lemma suppressed_key_empty:
  assumes "normaliseTarget d = []"
  shows "suppression_key (channel_text ch) d \<in> suppressed_keys db p targets \<longleftrightarrow>
    (\<exists>t \<in> set targets. (p, ch, t) \<in> set (db_suppressions db) \<and> normaliseTarget t = [])"
  using assms by (simp add: suppressed_key_one)

definition group_targets :: "DispatchedTaskPayload list \<Rightarrow> string list" where
  "group_targets tasks = remdups (filter (\<lambda>t. t \<noteq> [])
     (List.map_filter (\<lambda>t. map_option normaliseTarget (truthy (dt_destination t))) tasks))"

lemma canonical_group: "canonical (group_targets tasks)"
  by (auto simp: canonical_def group_targets_def List.map_filter_def normaliseTarget_idem split: option.splits)

lemma group_target_in:
  "t \<in> set tasks \<Longrightarrow> truthy (dt_destination t) = Some d \<Longrightarrow> normaliseTarget d \<noteq> [] \<Longrightarrow>
     normaliseTarget d \<in> set (group_targets tasks)"
  by (force simp: group_targets_def List.map_filter_def)

lemma topics_by_template:
  "jm_get (foldl (\<lambda>m i. jm_set i (f i) m) m ids) k = (if k \<in> set ids then Some (f k) else jm_get m k)"
  by (induction ids arbitrary: m) (auto simp: jm_get_set)

text \<open>
  The decision for one task, from the rows of its project, its recipient, its template and its
  address alone. An address that is blank is not looked up.
\<close>

definition verdict :: "database \<Rightarrow> DispatchedTaskPayload \<Rightarrow> BlockReason option" where
  "verdict db t =
     (if dt_projectId t = [] \<or> dt_recipientId t = [] then None
      else decide t (template_topics db (dt_projectId t) (dt_templateId t))
        (suppressed_keys db (dt_projectId t)
          (case truthy (dt_destination t) of
             Some d \<Rightarrow> if normaliseTarget d = [] then [] else [normaliseTarget d] | None \<Rightarrow> []))
        (map_option (user_record db) (find_user db (dt_projectId t) (dt_recipientId t)))
        (active_contacts db (dt_projectId t) (dt_recipientId t)))"

lemma decide_suppressed_cong:
  assumes "\<And>d. truthy (dt_destination t) = Some d \<Longrightarrow>
      suppression_key (channel_text (dt_channel t)) d \<in> S \<longleftrightarrow> suppression_key (channel_text (dt_channel t)) d \<in> S'"
  shows "decide t topics S user contacts = decide t topics S' user contacts"
  using assms by (simp add: decide_def split: option.split)

definition marks :: "(DispatchedTaskPayload \<Rightarrow> BlockReason option) \<Rightarrow> DispatchedTaskPayload list
    \<Rightarrow> (string, BlockReason) jsmap \<Rightarrow> (string, BlockReason) jsmap" where
  "marks f tasks blocked = foldl (\<lambda>b t. case f t of Some r \<Rightarrow> jm_set (dt_taskId t) r b | None \<Rightarrow> b) blocked tasks"

lemma marks_get_other: "i \<notin> dt_taskId ` set tasks \<Longrightarrow> jm_get (marks f tasks b) i = jm_get b i"
  unfolding marks_def by (induction tasks arbitrary: b) (auto simp: jm_get_set split: option.split)

lemma marks_get:
  "distinct (map dt_taskId tasks) \<Longrightarrow> t \<in> set tasks \<Longrightarrow> jm_get b (dt_taskId t) = None \<Longrightarrow>
     jm_get (marks f tasks b) (dt_taskId t) = f t"
proof (induction tasks arbitrary: b)
  case Nil
  then show ?case by simp
next
  case (Cons u tasks)
  define b' where "b' = (case f u of Some r \<Rightarrow> jm_set (dt_taskId u) r b | None \<Rightarrow> b)"
  have step: "marks f (u # tasks) b = marks f tasks b'" by (simp add: marks_def b'_def)
  show ?case
  proof (cases "t = u")
    case True
    with Cons.prems have "jm_get (marks f tasks b') (dt_taskId t) = jm_get b' (dt_taskId t)"
      by (intro marks_get_other) auto
    with True Cons.prems show ?thesis by (simp add: step b'_def jm_get_set split: option.split)
  next
    case False
    with Cons.prems have "t \<in> set tasks" "dt_taskId u \<notin> dt_taskId ` set tasks" by auto
    then have "dt_taskId t \<noteq> dt_taskId u" by (metis imageI)
    with Cons.prems have "jm_get b' (dt_taskId t) = None" by (simp add: b'_def jm_get_set split: option.split)
    with Cons False show ?thesis by (simp add: step)
  qed
qed

lemma gate_group_marks:
  assumes "db_ok db" "\<forall>t \<in> set tasks. dt_projectId t = p \<and> p \<noteq> [] \<and> dt_recipientId t \<noteq> []"
  shows "gate_group now db p tasks blocked = marks (verdict db) tasks blocked"
proof -
  define f where "f = (\<lambda>t. decide t (case truthy (dt_templateId t) of
          Some i \<Rightarrow> or_empty (jm_get (foldl (\<lambda>m i. jm_set i (template_topics db p (Some i)) m) []
             (remdups (List.map_filter (truthy \<circ> dt_templateId) tasks))) i)
        | None \<Rightarrow> [])
      (suppressed_keys db p (group_targets tasks))
      (jm_get (foldl (\<lambda>m u. jm_set (up_userId u) u m) [] (fst (findRecordsByIds now db p (remdups (map dt_recipientId tasks)) new_repo_cache))) (dt_recipientId t))
      (or_empty (jm_get (fst (findActiveByUserIds now db p (remdups (map dt_recipientId tasks)) new_repo_cache)) (dt_recipientId t))))"
  have "gate_group now db p tasks blocked = marks f tasks blocked"
    unfolding gate_group_def Let_def marks_def f_def group_targets_def ..
  moreover have "f t = verdict db t" if "t \<in> set tasks" for t
  proof -
    have ids: "dt_recipientId t \<in> set (remdups (map dt_recipientId tasks))" using that by simp
    have topics: "(case truthy (dt_templateId t) of
          Some i \<Rightarrow> or_empty (jm_get (foldl (\<lambda>m i. jm_set i (template_topics db p (Some i)) m) []
             (remdups (List.map_filter (truthy \<circ> dt_templateId) tasks))) i)
        | None \<Rightarrow> []) = template_topics db p (dt_templateId t)"
    proof (cases "truthy (dt_templateId t)")
      case None
      then show ?thesis by (simp add: template_topics_def)
    next
      case (Some i)
      then have "i \<in> set (List.map_filter (truthy \<circ> dt_templateId) tasks)" "truthy (Some i) = Some i"
        using that by (force simp: List.map_filter_def, auto simp: truthy_def split: option.splits list.splits)
      with Some show ?thesis by (simp add: topics_by_template or_empty_def template_topics_def)
    qed
    have keys: "suppression_key (channel_text (dt_channel t)) d \<in> suppressed_keys db p (group_targets tasks)
      \<longleftrightarrow> suppression_key (channel_text (dt_channel t)) d \<in> suppressed_keys db p
          (case truthy (dt_destination t) of
             Some d \<Rightarrow> if normaliseTarget d = [] then [] else [normaliseTarget d] | None \<Rightarrow> [])"
      if d: "truthy (dt_destination t) = Some d" for d
    proof (cases "normaliseTarget d = []")
      case True
      have "normaliseTarget x \<noteq> []" if "x \<in> set (group_targets tasks)" for x
        using that canonical_group [of tasks] by (auto simp: canonical_def group_targets_def)
      then have "suppression_key (channel_text (dt_channel t)) d \<notin> suppressed_keys db p (group_targets tasks)"
        unfolding suppressed_key_empty [OF True] by blast
      then show ?thesis using True d by (simp add: suppressed_keys_def)
    next
      case False
      from suppressed_key_canonical [OF canonical_group group_target_in [OF \<open>t \<in> set tasks\<close> d False]]
      show ?thesis using False d by simp
    qed
    have v: "verdict db t = decide t (template_topics db p (dt_templateId t))
        (suppressed_keys db p (case truthy (dt_destination t) of
             Some d \<Rightarrow> if normaliseTarget d = [] then [] else [normaliseTarget d] | None \<Rightarrow> []))
        (map_option (user_record db) (find_user db p (dt_recipientId t))) (active_contacts db p (dt_recipientId t))"
      using that assms(2) by (simp add: verdict_def)
    show ?thesis
      unfolding f_def topics findRecords_one [OF assms(1) ids, of now p] findActive_one [OF assms(1) ids, of now p] v
      by (rule decide_suppressed_cong) (rule keys)
  qed
  then have "marks f tasks blocked = marks (verdict db) tasks blocked"
    unfolding marks_def by (intro foldl_cong refl) auto
  ultimately show ?thesis by simp
qed

lemma group_rows_wf: "jm_wf m \<Longrightarrow>
    jm_wf (foldl (\<lambda>m (k, v). jm_set k ((case jm_get m k of Some vs \<Rightarrow> vs | None \<Rightarrow> []) @ [v]) m) m rows)"
  by (induction rows arbitrary: m) (auto simp: distinct_update)

lemma by_project_wf: "jm_wf (by_project tasks)"
  unfolding by_project_def group_rows_def by (rule group_rows_wf) simp

abbreviation checked :: "string \<Rightarrow> DispatchedTaskPayload \<Rightarrow> bool" where
  "checked p t \<equiv> dt_projectId t = p \<and> p \<noteq> [] \<and> dt_recipientId t \<noteq> []"

lemma by_project_get:
  "jm_get (by_project tasks) p = (let ts = filter (checked p) tasks in if ts = [] then None else Some ts)"
proof -
  have "map snd (filter (\<lambda>x. fst x = p) (List.map_filter (\<lambda>t.
      if dt_projectId t = [] \<or> dt_recipientId t = [] then None else Some (dt_projectId t, t)) tasks)) = filter (checked p) tasks"
    by (induction tasks) (auto simp: map_filter_simps)
  then show ?thesis by (simp add: by_project_def group_rows_get(2))
qed

lemma marks_groups:
  assumes "distinct (map fst gs)" "\<forall>(p, ts) \<in> set gs. ts = filter (checked p) tasks" "distinct (map dt_taskId tasks)"
    and "t \<in> set tasks" "jm_get b (dt_taskId t) = None"
  shows "jm_get (foldl (\<lambda>b (p, ts). marks f ts b) b gs) (dt_taskId t) =
    (if dt_projectId t \<in> fst ` set gs \<and> checked (dt_projectId t) t then f t else None)"
  using assms(1,2,5)
proof (induction gs arbitrary: b)
  case Nil
  then show ?case by simp
next
  case (Cons g gs)
  obtain p ts where g: "g = (p, ts)" by (cases g)
  with Cons.prems have ts: "ts = filter (checked p) tasks" by simp
  have d: "distinct (map dt_taskId ts)" using assms(3) by (simp add: ts distinct_map_filter)
  show ?case
  proof (cases "checked p t")
    case True
    with assms(4) have "jm_get (marks f ts b) (dt_taskId t) = f t"
      using Cons.prems(3) by (intro marks_get d) (simp_all add: ts)
    moreover have "jm_get (foldl (\<lambda>b (p, ts). marks f ts b) b' gs) (dt_taskId t) = jm_get b' (dt_taskId t)" for b'
    proof -
      have "\<forall>(q, us) \<in> set gs. dt_taskId t \<notin> dt_taskId ` set us"
      proof safe
        fix q us u assume q: "(q, us) \<in> set gs" "u \<in> set us" "dt_taskId t = dt_taskId u"
        with Cons.prems(2) have u: "u \<in> set tasks" "checked q u" by auto
        with q(3) assms(3,4) have "u = t" by (metis distinct_map inj_on_eq_iff)
        with u True have "q = p" by simp
        with q(1) Cons.prems(1) g show False by force
      qed
      then show ?thesis by (induction gs arbitrary: b') (auto simp: marks_get_other)
    qed
    ultimately show ?thesis using True by (simp add: g)
  next
    case False
    have "dt_taskId t \<notin> dt_taskId ` set ts"
      using False assms(3,4) by (auto simp: ts distinct_map dest: inj_onD)
    then have "jm_get (marks f ts b) (dt_taskId t) = None" using Cons.prems(3) by (simp add: marks_get_other)
    with Cons False show ?thesis by (auto simp: g)
  qed
qed

lemma findBlocked_verdict:
  assumes "db_ok db" "distinct (map dt_taskId tasks)" "t \<in> set tasks"
  shows "jm_get (findBlockedAtRelease now db tasks) (dt_taskId t) = verdict db t"
proof -
  let ?gs = "by_project tasks"
  have gs: "ts = filter (checked p) tasks" if "(p, ts) \<in> set ?gs" for p ts
    using map_of_is_SomeI [OF by_project_wf that] by (simp add: by_project_get Let_def split: if_splits)
  have "foldl (\<lambda>b (p, ts). gate_group now db p ts b) [] ?gs = foldl (\<lambda>b (p, ts). marks (verdict db) ts b) [] ?gs"
    using gs gate_group_marks [OF assms(1)] by (intro foldl_cong refl) (force split: prod.split)
  moreover have "dt_projectId t \<in> fst ` set ?gs" if "checked (dt_projectId t) t"
  proof -
    have "jm_get ?gs (dt_projectId t) \<noteq> None"
      using that assms(3) by (auto simp: by_project_get Let_def filter_empty_conv)
    then show ?thesis by (simp add: map_of_eq_None_iff)
  qed
  moreover have "verdict db t = None" if "\<not> checked (dt_projectId t) t"
    using that by (auto simp: verdict_def)
  moreover have "\<forall>(p, ts) \<in> set ?gs. ts = filter (checked p) tasks" using gs by auto
  from marks_groups [OF by_project_wf this assms(2,3), of "[]" "verdict db"]
  have "jm_get (foldl (\<lambda>b (p, ts). marks (verdict db) ts b) [] ?gs) (dt_taskId t) =
    (if dt_projectId t \<in> fst ` set ?gs \<and> checked (dt_projectId t) t then verdict db t else None)" by simp
  ultimately show ?thesis
    unfolding findBlockedAtRelease_def by (cases "checked (dt_projectId t) t") simp_all
qed

text \<open>
  C11: The check of a batch of parked sends is the check of each: for every task, what
  \<open>findBlockedAtRelease\<close> answers from its joint lookups (per project, with deduplicated
  recipients, templates and addresses) is the decision made from the rows of that task's own
  recipient, contacts, template and address.
\<close>
theorem send_gate_batches_faithfully:
  assumes "db_ok db" "distinct (map dt_taskId tasks)" "t \<in> set tasks"
  shows "jm_get (findBlockedAtRelease now db tasks) (dt_taskId t) = verdict db t"
  using assms by (rule findBlocked_verdict)

definition ex_gate_task :: "string \<Rightarrow> string \<Rightarrow> string \<Rightarrow> DispatchedTaskPayload" where
  "ex_gate_task taskId recipientId destination =
     \<lparr>dt_projectId = ''p'', dt_taskId = taskId, dt_enrichedEventId = ''e'', dt_recipientId = recipientId,
      dt_channel = Email, dt_priority = PNormal, dt_templateId = None, dt_templateVariables = [],
      dt_aiPrompts = None, dt_recipient = None, dt_renderedContent = None, dt_destination = Some destination,
      dt_deliveryOptions = \<lparr>do_maxAttempts = 3, do_timeoutMs = 10000, do_headers = None\<rparr>, dt_fallbackChain = None,
      dt_throttleAttemptCount = None, dt_deliveryAttemptCount = None, dt_campaignId = None, dt_workflowInstanceId = None\<rparr>"

definition ex_gate_db :: database where
  "ex_gate_db = \<lparr>db_users = [\<lparr>us_id = ''u1'', us_projectId = ''p'', us_externalId = ''a'', us_attributes = []\<rparr>],
     db_segments = [], db_topics = [], db_channels = [], db_quietHours = [],
     db_contacts = [\<lparr>uc_id = ''c1'', uc_userId = ''u1'', uc_channel = Email, uc_target = ''a@b.c'', uc_enabled = True\<rparr>],
     db_contactTopics = [], db_templates = [], db_suppressions = [(''p'', Email, ''x@y.z'')]\<rparr>"

theorem send_gate_batches_faithfully_witness:
  "let tasks = [ex_gate_task ''1'' ''a'' ''a@b.c'', ex_gate_task ''2'' ''a'' ''X@y.z'', ex_gate_task ''3'' ''b'' ''a@b.c'']
   in jm_get (findBlockedAtRelease 0 ex_gate_db tasks) ''2'' = verdict ex_gate_db (ex_gate_task ''2'' ''a'' ''X@y.z'')
     \<and> verdict ex_gate_db (ex_gate_task ''1'' ''a'' ''a@b.c'') = None
     \<and> verdict ex_gate_db (ex_gate_task ''2'' ''a'' ''X@y.z'') = Some Suppressed
     \<and> verdict ex_gate_db (ex_gate_task ''3'' ''b'' ''a@b.c'') = Some RecipientNotFound"
proof -
  have ok: "db_ok ex_gate_db" by (simp add: db_ok_def ex_gate_db_def)
  have d: "distinct (map dt_taskId [ex_gate_task ''1'' ''a'' ''a@b.c'', ex_gate_task ''2'' ''a'' ''X@y.z'', ex_gate_task ''3'' ''b'' ''a@b.c''])"
    by (simp add: ex_gate_task_def)
  have 2: "jm_get (findBlockedAtRelease 0 ex_gate_db
      [ex_gate_task ''1'' ''a'' ''a@b.c'', ex_gate_task ''2'' ''a'' ''X@y.z'', ex_gate_task ''3'' ''b'' ''a@b.c'']) ''2''
    = verdict ex_gate_db (ex_gate_task ''2'' ''a'' ''X@y.z'')"
    using send_gate_batches_faithfully [OF ok d, of "ex_gate_task ''2'' ''a'' ''X@y.z''" 0]
    by (simp add: ex_gate_task_def)
  have "verdict ex_gate_db (ex_gate_task ''1'' ''a'' ''a@b.c'') = None"
    "verdict ex_gate_db (ex_gate_task ''2'' ''a'' ''X@y.z'') = Some Suppressed"
    "verdict ex_gate_db (ex_gate_task ''3'' ''b'' ''a@b.c'') = Some RecipientNotFound"
    by code_simp+
  with 2 show ?thesis by (simp only: Let_def)
qed

end
