(* ===== verification/Scheduler.thy ===== *)
theory Scheduler
  imports Send_Gate "HOL-Library.List_Lexorder" "HOL-Library.Char_ord"
begin

text \<open>
  The scheduler (\<open>src/src/services/scheduler/main.ts\<close>): a parked send is queued in one
  of sixteen sorted sets, released when it is due, and the sets are rebuilt from the table
  when Redis has lost them. The table \<open>scheduled_payloads\<close> is \<open>w_parked\<close>; the tables the
  gate reads are an input of the run, as is whether a command of a pipeline failed.
\<close>

section \<open>Queueing\<close>

text \<open>\<open>parseInt(taskId.slice(-1), 16) || 0\<close>\<close>

definition shardOf :: "string \<Rightarrow> nat" where
  "shardOf taskId =
     (if taskId = [] then 0 else case hex_val (last taskId) of Some n \<Rightarrow> n | None \<Rightarrow> 0)"

definition zsetKey :: "nat \<Rightarrow> string" where
  "zsetKey shard = ''notif:scheduled:zset:'' @ show_nat shard"

definition task_data :: "NotificationScheduledPayload \<Rightarrow> string \<Rightarrow> string" where
  "task_data scheduled traceId = json_stringify (JObj [(''taskId'', JStr (ns_taskId scheduled)),
     (''enrichedEventId'', JStr (ns_enrichedEventId scheduled)), (''traceId'', JStr traceId)])"

definition scheduler_process ::
  "'r redis \<Rightarrow> NotificationScheduledPayload option \<Rightarrow> string \<Rightarrow> ('r, unit) pipe_act" where
  "scheduler_process r payload traceId =
     (case payload of
        None \<Rightarrow> ret ()
      | Some scheduled \<Rightarrow> on_redis (\<lambda>s. ((), ZADD r (zsetKey (shardOf (ns_taskId scheduled)))
          (ns_scheduledAt scheduled) (task_data scheduled traceId) s)))"

section \<open>Polling\<close>

text \<open>
  A claimed member: its text and the fields of its JSON. A field that is not there is
  \<open>None\<close>; a JSON value that is not an object has no fields.
\<close>

record claimed_task =
  tk_taskStr :: string
  tk_taskId :: "json option"
  tk_traceId :: "string option"

definition text_field :: "(string \<times> json) list \<Rightarrow> string \<Rightarrow> string option" where
  "text_field kvs k = (case jm_get kvs k of Some (JStr s) \<Rightarrow> Some s | _ \<Rightarrow> None)"

definition parse_member :: "string \<Rightarrow> claimed_task option" where
  "parse_member t =
     (case json_parse t of
        None \<Rightarrow> None
      | Some (JObj kvs) \<Rightarrow> Some \<lparr>tk_taskStr = (case text_field kvs ''taskStr'' of Some s \<Rightarrow> s | None \<Rightarrow> t),
          tk_taskId = jm_get kvs ''taskId'', tk_traceId = text_field kvs ''traceId''\<rparr>
      | Some _ \<Rightarrow> Some \<lparr>tk_taskStr = t, tk_taskId = None, tk_traceId = None\<rparr>)"

text \<open>
  What the loop over the claimed tasks collects: the ids already settled, the members and rows to
  clean up, the events by lane, and the events emitted for dropped sends.
\<close>

record release_plan =
  rp_released :: "string list"
  rp_cleanup :: "(string \<times> string) list"
  rp_dbCleanup :: "string list"
  rp_batched :: "(priority_bucket \<times> new_event) list"
  rp_skips :: "effect list"

definition empty_plan :: release_plan where
  "empty_plan = \<lparr>rp_released = [], rp_cleanup = [], rp_dbCleanup = [], rp_batched = [], rp_skips = []\<rparr>"

text \<open>
  One claimed task. An id that is not a string is in no map, and has no \<open>slice\<close>: the loop
  throws.
\<close>

definition plan_task ::
  "(string, parked_payload) jsmap \<Rightarrow> (string, BlockReason) jsmap \<Rightarrow> (nat \<Rightarrow> string) \<Rightarrow> claimed_task \<Rightarrow> release_plan
    \<Rightarrow> exn + release_plan" where
  "plan_task payloadMap blocked uuid t plan =
     (case tk_taskId t of
        Some (JStr taskId) \<Rightarrow>
          let cleaned = plan\<lparr>rp_cleanup := rp_cleanup plan @ [(zsetKey (shardOf taskId), tk_taskStr t)]\<rparr>;
              settled = cleaned\<lparr>rp_released := rp_released plan @ [taskId], rp_dbCleanup := rp_dbCleanup plan @ [taskId]\<rparr>
          in if taskId \<in> set (rp_released plan) then Inr cleaned
             else (case jm_get payloadMap taskId of
                 None \<Rightarrow> Inr cleaned
               | Some row \<Rightarrow>
                   let dispatchPayload = pk_task row
                   in case jm_get blocked taskId of
                        Some blockReason \<Rightarrow> Inr (settled\<lparr>rp_skips := rp_skips plan @ [EmitSkipped
                          \<lparr>nk_projectId = dt_projectId dispatchPayload, nk_eventId = dt_enrichedEventId dispatchPayload,
                           nk_recipientId = dt_recipientId dispatchPayload, nk_reason = reason_text blockReason\<rparr>]\<rparr>)
                      | None \<Rightarrow> Inr (settled\<lparr>rp_batched := rp_batched plan @
                          [(getPriorityBucket (Some (priority_text (dt_priority dispatchPayload))),
                            buildStreamEvent (Dispatched dispatchPayload) ''scheduler'' (tk_traceId t)
                              (uuid (length (rp_batched plan))))]\<rparr>))
      | _ \<Rightarrow> Inl (Error ''taskId.slice is not a function''))"

text \<open>The plan so far when the loop ends, with what it threw.\<close>

fun plan_tasks ::
  "(string, parked_payload) jsmap \<Rightarrow> (string, BlockReason) jsmap \<Rightarrow> (nat \<Rightarrow> string) \<Rightarrow> claimed_task list \<Rightarrow> release_plan
    \<Rightarrow> exn option \<times> release_plan" where
  "plan_tasks payloadMap blocked uuid [] plan = (None, plan)"
| "plan_tasks payloadMap blocked uuid (t # ts) plan =
     (case plan_task payloadMap blocked uuid t plan of
        Inl err \<Rightarrow> (Some err, plan)
      | Inr plan \<Rightarrow> plan_tasks payloadMap blocked uuid ts plan)"

text \<open>The scripts of the pipeline, one per shard; \<open>failed\<close> says which gave an error.\<close>

fun poll_shards :: "'r redis \<Rightarrow> (nat \<Rightarrow> bool) \<Rightarrow> ms \<Rightarrow> nat list \<Rightarrow> 'r \<Rightarrow> string list list \<times> 'r" where
  "poll_shards r failed now [] s = ([], s)"
| "poll_shards r failed now (i # is) s =
     (let (tasks, s) = (if failed i then ([], s) else lua_scheduler_poll r (zsetKey i) now 100 60000 s);
          (rest, s) = poll_shards r failed now is s
      in (tasks # rest, s))"

text \<open>\<open>publishBatch\<close> of the producer of a lane.\<close>

definition publish_lane ::
  "(priority_bucket \<Rightarrow> StreamName option) \<Rightarrow> release_plan \<Rightarrow> priority_bucket \<Rightarrow> ('r, unit) pipe_act" where
  "publish_lane outbound plan p =
     (let evs = map snd (filter (\<lambda>(b, e). b = p) (rp_batched plan))
      in if evs = [] then ret ()
         else attempt (\<lambda>w. ((), fold (\<lambda>e. record_effect (Publish
                (case outbound p of Some s \<Rightarrow> s | None \<Rightarrow> the (outbound Normal)) e)) evs w)))"

text \<open>The rows deleted: those of the settled ids whose send time is the released one.\<close>

definition delete_released ::
  "(string, parked_payload) jsmap \<Rightarrow> string list \<Rightarrow> ('r, unit) pipe_act" where
  "delete_released payloadMap dbCleanupIds = attempt (\<lambda>w. ((), w\<lparr>w_parked := filter (\<lambda>(taskId, row).
     \<not> (taskId \<in> set dbCleanupIds
        \<and> Option.bind (jm_get payloadMap taskId) pk_scheduledAt = pk_scheduledAt row)) (w_parked w)\<rparr>))"

definition poll_release ::
  "'r redis \<Rightarrow> (priority_bucket \<Rightarrow> StreamName option) \<Rightarrow> exn + database \<Rightarrow> ms \<Rightarrow> (nat \<Rightarrow> string) \<Rightarrow> claimed_task list
    \<Rightarrow> ('r, unit) pipe_act" where
  "poll_release r outbound tables now uuid parsedTasks =
     bindA (attempt (\<lambda>w. (filter (\<lambda>(k, row). Some (JStr k) \<in> tk_taskId ` set parsedTasks) (w_parked w), w))) (\<lambda>payloadMap.
     bindA (awaited tables) (\<lambda>db.
       let blocked = findBlockedAtRelease now db (map (pk_task \<circ> snd) payloadMap);
           (err, plan) = plan_tasks payloadMap blocked uuid parsedTasks empty_plan
       in thenA (for_each (rp_skips plan) emit)
            (case err of
               Some x \<Rightarrow> throw x
             | None \<Rightarrow>
                 thenA (for_each [Critical, Normal, Low] (publish_lane outbound plan))
                   (thenA (if rp_dbCleanup plan = [] then ret ()
                           else ignore_errors (delete_released payloadMap (rp_dbCleanup plan)))
                     (on_redis (\<lambda>s. ((), fold (\<lambda>(k, m). ZREM r k m) (rp_cleanup plan) s)))))))"

definition poll_locked ::
  "'r redis \<Rightarrow> (priority_bucket \<Rightarrow> StreamName option) \<Rightarrow> exn + database \<Rightarrow> (nat \<Rightarrow> bool) \<Rightarrow> ms \<Rightarrow> (nat \<Rightarrow> string)
    \<Rightarrow> ('r, bool) pipe_act" where
  "poll_locked r outbound tables failed now uuid =
     bindA (on_redis (poll_shards r failed now [0..<16])) (\<lambda>perShard.
       let anyShardFull = list_ex (\<lambda>shard. length shard \<ge> 100) perShard;
           parsedTasks = List.map_filter parse_member (concat perShard)
       in if parsedTasks = [] then ret False
          else thenA (poll_release r outbound tables now uuid parsedTasks) (ret anyShardFull))"

definition executeSchedulerPoll ::
  "'r redis \<Rightarrow> (priority_bucket \<Rightarrow> StreamName option) \<Rightarrow> exn + database \<Rightarrow> (nat \<Rightarrow> bool) \<Rightarrow> string \<Rightarrow> ms \<Rightarrow> (nat \<Rightarrow> string)
    \<Rightarrow> ('r, bool) pipe_act" where
  "executeSchedulerPoll r outbound tables failed lockOwner now uuid =
     (let lockKey = ''notif:lock:scheduler:poll''
      in catchA (bindA (on_redis (SET_EX_NX r lockKey lockOwner 30)) (\<lambda>acquired.
           if \<not> acquired then ret False
           else finallyA (catchA (poll_locked r outbound tables failed now uuid) (\<lambda>_. ret False))
                  (ignore_errors (on_redis (\<lambda>s. ((), snd (lua_release_lock r lockKey lockOwner s)))))))
           (\<lambda>_. ret False))"

section \<open>Rebuilding the sets\<close>

definition SCHEDULER_SENTINEL_KEY :: string where
  "SCHEDULER_SENTINEL_KEY = ''notif:scheduler:intact''"

definition rebuilt_member :: "string \<Rightarrow> parked_payload \<Rightarrow> string" where
  "rebuilt_member taskId row = json_stringify (JObj [(''taskId'', JStr taskId),
     (''enrichedEventId'', JStr (dt_enrichedEventId (pk_task row)))])"

definition requeue_row :: "'r redis \<Rightarrow> ms \<Rightarrow> string \<times> parked_payload \<Rightarrow> 'r \<Rightarrow> 'r" where
  "requeue_row r now p = (case p of (taskId, row) \<Rightarrow>
     ZADD_NX r (zsetKey (shardOf taskId)) (case pk_scheduledAt row of Some t \<Rightarrow> t | None \<Rightarrow> now) (rebuilt_member taskId row))"

text \<open>A page of the table: the rows after an id, in the order of their ids.\<close>

definition page_after :: "nat \<Rightarrow> string option \<Rightarrow> (string, parked_payload) jsmap \<Rightarrow> (string \<times> parked_payload) list" where
  "page_after pageSize after rows =
     take pageSize (sort_key fst (filter (\<lambda>(k, row). case after of None \<Rightarrow> True | Some a \<Rightarrow> a < k) rows))"

text \<open>
  The loop over the pages runs on fuel; one more than the number of rows is enough, since a
  page that does not end the loop has at least one row.
\<close>

fun rebuild_loop :: "nat \<Rightarrow> 'r redis \<Rightarrow> ms \<Rightarrow> nat \<Rightarrow> string option \<Rightarrow> nat \<Rightarrow> ('r, nat) pipe_act" where
  "rebuild_loop 0 r now pageSize after queued = throw (Error ''out of fuel'')"
| "rebuild_loop (Suc fuel) r now pageSize after queued =
     bindA (attempt (\<lambda>w. (page_after pageSize after (w_parked w), w))) (\<lambda>rows.
       if rows = [] then ret queued
       else thenA (on_redis (\<lambda>s. ((), fold (requeue_row r now) rows s)))
              (if length rows < pageSize then ret (queued + length rows)
               else rebuild_loop fuel r now pageSize (Some (fst (last rows))) (queued + length rows)))"

definition rebuildScheduledQueue :: "nat \<Rightarrow> 'r redis \<Rightarrow> ms \<Rightarrow> nat \<Rightarrow> ('r, nat) pipe_act" where
  "rebuildScheduledQueue fuel r now pageSize =
     bindA (rebuild_loop fuel r now pageSize None 0) (\<lambda>queued.
       thenA (on_redis (\<lambda>s. ((), SET r SCHEDULER_SENTINEL_KEY ''1'' s))) (ret queued))"

text \<open>One turn of the poll loop: whether to poll again at once.\<close>

definition poll_turn ::
  "nat \<Rightarrow> 'r redis \<Rightarrow> (priority_bucket \<Rightarrow> StreamName option) \<Rightarrow> exn + database \<Rightarrow> (nat \<Rightarrow> bool) \<Rightarrow> string \<Rightarrow> ms \<Rightarrow> (nat \<Rightarrow> string)
    \<Rightarrow> ('r, bool) pipe_act" where
  "poll_turn fuel r outbound tables failed lockOwner now uuid =
     catchA (bindA (on_redis (\<lambda>s. (GET r SCHEDULER_SENTINEL_KEY s, s))) (\<lambda>sentinel.
       thenA (if sentinel = None then thenA (rebuildScheduledQueue fuel r now 1000) (ret ()) else ret ())
         (executeSchedulerPoll r outbound tables failed lockOwner now uuid)))
       (\<lambda>_. ret False)"

section \<open>Pruning old delivery logs\<close>

text \<open>
  \<open>pruneDeliveryLogs\<close> (\<open>retention.ts\<close>): a table is the times of its rows; a batch deletes up
  to 5000 rows older than the cutoff (which ones, is the database's choice: here the first).
\<close>

fun delete_some :: "nat \<Rightarrow> (ms \<Rightarrow> bool) \<Rightarrow> ms list \<Rightarrow> nat \<times> ms list" where
  "delete_some n old [] = (0, [])"
| "delete_some 0 old (t # ts) = (0, t # ts)"
| "delete_some (Suc n) old (t # ts) =
     (if old t then (case delete_some n old ts of (k, ts) \<Rightarrow> (Suc k, ts))
      else (case delete_some (Suc n) old ts of (k, ts) \<Rightarrow> (k, t # ts)))"

lemma delete_some_spec:
  "fst (delete_some n old ts) = min n (length (filter old ts))
   \<and> length (snd (delete_some n old ts)) + fst (delete_some n old ts) = length ts
   \<and> filter (\<lambda>t. \<not> old t) (snd (delete_some n old ts)) = filter (\<lambda>t. \<not> old t) ts
   \<and> length (filter old (snd (delete_some n old ts))) = length (filter old ts) - n"
  by (induction n old ts rule: delete_some.induct) (auto split: prod.split)

lemma delete_some_less: "delete_some n old ts = (k, ts') \<Longrightarrow> \<not> k < n \<Longrightarrow> 0 < n \<Longrightarrow> length ts' < length ts"
  using delete_some_spec [of n old ts] by simp

function prune_table :: "nat \<Rightarrow> (ms \<Rightarrow> bool) \<Rightarrow> ms list \<Rightarrow> nat \<times> ms list" where
  "prune_table batch old ts =
     (case delete_some batch old ts of (k, ts') \<Rightarrow>
        if k < batch \<or> batch = 0 then (k, ts')
        else case prune_table batch old ts' of (queued, ts'') \<Rightarrow> (k + queued, ts''))"
  by pat_completeness auto
termination
  by (relation "measure (\<lambda>(batch, old, ts). length ts)") (auto dest: delete_some_less [OF sym])

declare prune_table.simps [simp del]

definition pruneDeliveryLogs :: "ms \<Rightarrow> int \<Rightarrow> ms list \<times> ms list \<Rightarrow> nat \<times> ms list \<times> ms list" where
  "pruneDeliveryLogs now retentionDays tables =
     (let cutoff = now - retentionDays * 86400000;
          (n1, logs) = prune_table 5000 (\<lambda>t. t < cutoff) (fst tables);
          (n2, outbox) = prune_table 5000 (\<lambda>t. t < cutoff) (snd tables)
      in (n1 + n2, logs, outbox))"

definition maybePruneDeliveryLogs ::
  "'r redis \<Rightarrow> ms \<Rightarrow> int \<Rightarrow> ms list \<times> ms list \<Rightarrow> 'r \<Rightarrow> (ms list \<times> ms list) \<times> 'r" where
  "maybePruneDeliveryLogs r now retentionDays tables s =
     (case SET_EX_NX r ''notif:lock:scheduler:prune'' ''1'' 3600 s of
        (False, s) \<Rightarrow> (tables, s)
      | (True, s) \<Rightarrow> (snd (pruneDeliveryLogs now retentionDays tables), s))"

section \<open>What a poll sends and deletes\<close>

definition parked_ok :: "(string, parked_payload) jsmap \<Rightarrow> bool" where
  "parked_ok parked \<longleftrightarrow> jm_wf parked \<and> (\<forall>(k, row) \<in> set parked. dt_taskId (pk_task row) = k)"

definition sends :: "effect list \<Rightarrow> DispatchedTaskPayload list" where
  "sends L = List.map_filter carries L"

definition plan_sends :: "release_plan \<Rightarrow> DispatchedTaskPayload list" where
  "plan_sends plan = List.map_filter (\<lambda>(p, e). case ne_payload e of Dispatched t \<Rightarrow> Some t | _ \<Rightarrow> None) (rp_batched plan)"

lemma sends_simps [simp]:
  "sends [] = []" "sends (L @ M) = sends L @ sends M"
  "sends (e # L) = (case carries e of Some t \<Rightarrow> t # sends L | None \<Rightarrow> sends L)"
  by (simp_all add: sends_def List.map_filter_def split: option.split)

definition plan_ok ::
  "(string, parked_payload) jsmap \<Rightarrow> (string, BlockReason) jsmap \<Rightarrow> release_plan \<Rightarrow> bool" where
  "plan_ok payloadMap blocked plan \<longleftrightarrow>
     rp_dbCleanup plan = rp_released plan
     \<and> distinct (map dt_taskId (plan_sends plan)) \<and> dt_taskId ` set (plan_sends plan) \<subseteq> set (rp_released plan)
     \<and> (\<forall>t \<in> set (plan_sends plan). jm_get blocked (dt_taskId t) = None
          \<and> (\<exists>row. jm_get payloadMap (dt_taskId t) = Some row \<and> pk_task row = t))
     \<and> (\<forall>i \<in> set (rp_released plan). \<exists>row. jm_get payloadMap i = Some row
          \<and> (jm_get blocked i \<noteq> None \<or> pk_task row \<in> set (plan_sends plan)))
     \<and> sends (rp_skips plan) = []"

lemma plan_ok_empty: "plan_ok payloadMap blocked empty_plan"
  by (simp add: plan_ok_def empty_plan_def plan_sends_def)

lemma plan_task_ok:
  assumes ok: "plan_ok payloadMap blocked plan" and keys: "\<And>k row. jm_get payloadMap k = Some row \<Longrightarrow> dt_taskId (pk_task row) = k"
    and run: "plan_task payloadMap blocked uuid t plan = Inr plan'"
  shows "plan_ok payloadMap blocked plan'"
proof -
  from run obtain i where i: "tk_taskId t = Some (JStr i)"
    by (auto simp: plan_task_def split: option.splits json.splits)
  show ?thesis
  proof (cases "i \<in> set (rp_released plan) \<or> jm_get payloadMap i = None")
    case True
    with run i have "plan' = plan\<lparr>rp_cleanup := rp_cleanup plan @ [(zsetKey (shardOf i), tk_taskStr t)]\<rparr>"
      by (auto simp: plan_task_def Let_def split: option.splits if_splits)
    then show ?thesis using ok by (simp add: plan_ok_def plan_sends_def)
  next
    case False
    then obtain row where row: "jm_get payloadMap i = Some row" "i \<notin> set (rp_released plan)" by auto
    have new: "dt_taskId (pk_task row) = i" using keys row(1) by simp
    then have fresh: "i \<notin> dt_taskId ` set (plan_sends plan)" using ok row(2) by (auto simp: plan_ok_def)
    show ?thesis
    proof (cases "jm_get blocked i")
      case (Some reason)
      with run i row have p: "rp_released plan' = rp_released plan @ [i]" "rp_dbCleanup plan' = rp_dbCleanup plan @ [i]"
        "rp_batched plan' = rp_batched plan" "sends (rp_skips plan') = sends (rp_skips plan)"
        by (auto simp: plan_task_def Let_def)
      then have "plan_sends plan' = plan_sends plan" by (simp add: plan_sends_def)
      with ok p row Some show ?thesis by (auto simp: plan_ok_def)
    next
      case None
      with run i row have p: "rp_released plan' = rp_released plan @ [i]" "rp_dbCleanup plan' = rp_dbCleanup plan @ [i]"
        "rp_skips plan' = rp_skips plan" "plan_sends plan' = plan_sends plan @ [pk_task row]"
        by (auto simp: plan_task_def Let_def plan_sends_def List.map_filter_def)
      show ?thesis using ok p row None fresh new unfolding plan_ok_def by auto
    qed
  qed
qed

lemma plan_tasks_ok:
  assumes "plan_ok payloadMap blocked plan" "\<And>k row. jm_get payloadMap k = Some row \<Longrightarrow> dt_taskId (pk_task row) = k"
  shows "plan_ok payloadMap blocked (snd (plan_tasks payloadMap blocked uuid ts plan))"
  using assms(1)
proof (induction ts arbitrary: plan)
  case (Cons t ts)
  then show ?case
    using plan_task_ok [OF _ assms(2)] by (auto split: sum.split)
qed simp

text \<open>The events of a lane, as the log has them.\<close>

definition lane_log :: "(priority_bucket \<Rightarrow> StreamName option) \<Rightarrow> release_plan \<Rightarrow> priority_bucket \<Rightarrow> effect list" where
  "lane_log outbound plan p = map (\<lambda>(b, e). Publish (case outbound p of Some s \<Rightarrow> s | None \<Rightarrow> the (outbound Normal)) e)
     (filter (\<lambda>(b, e). b = p) (rp_batched plan))"

lemma fold_record: "fold (\<lambda>e. record_effect (f e)) es w = w\<lparr>w_log := w_log w @ map f es\<rparr>"
  by (induction es arbitrary: w) (simp_all add: record_effect_def)

lemma publish_lane_run:
  "publish_lane outbound plan p w = (res, w') \<Longrightarrow> w_parked w' = w_parked w
    \<and> w_log w' = w_log w @ (if res = Inr () then lane_log outbound plan p else [])"
  by (auto simp: publish_lane_def Let_def attempt_def ret_def fold_record lane_log_def filter_empty_conv comp_def
      split_beta split: if_splits option.splits)

lemma publish_lanes_run:
  "for_each lanes (publish_lane outbound plan) w = (res, w') \<Longrightarrow> w_parked w' = w_parked w
    \<and> (\<exists>n. w_log w' = w_log w @ concat (map (lane_log outbound plan) (take n lanes)) \<and> (res = Inr () \<longrightarrow> n = length lanes))"
proof (induction lanes arbitrary: w)
  case Nil
  then show ?case by (simp add: ret_def)
next
  case (Cons p lanes)
  obtain r1 w1 where p: "publish_lane outbound plan p w = (r1, w1)" by fastforce
  note one = publish_lane_run [OF p]
  show ?case
  proof (cases r1)
    case (Inl x)
    with Cons.prems p have "res = Inl x" "w' = w1" by (simp_all add: thenA_def bindA_def)
    with one Inl show ?thesis by (intro conjI exI [of _ 0]) simp_all
  next
    case (Inr u)
    with Cons.prems p have "for_each lanes (publish_lane outbound plan) w1 = (res, w')" by (simp add: thenA_def bindA_def)
    from Cons.IH [OF this] obtain n where n: "w_parked w' = w_parked w1" "res = Inr () \<longrightarrow> n = length lanes"
      "w_log w' = w_log w1 @ concat (map (lane_log outbound plan) (take n lanes))" by blast
    then show ?thesis using one Inr by (intro conjI exI [of _ "Suc n"]) simp_all
  qed
qed

lemma sends_lane: "sends (lane_log outbound plan p) =
    List.map_filter (\<lambda>(b, e). case ne_payload e of Dispatched t \<Rightarrow> Some t | _ \<Rightarrow> None) (filter (\<lambda>(b, e). b = p) (rp_batched plan))"
proof -
  have "List.map_filter carries (map (\<lambda>(b, e). Publish s e) xs)
      = List.map_filter (\<lambda>(b, e). case ne_payload e of Dispatched t \<Rightarrow> Some t | _ \<Rightarrow> None) xs" for s and xs :: "('a \<times> new_event) list"
    by (induction xs) (auto simp: map_filter_simps split_beta split: option.split)
  then show ?thesis unfolding lane_log_def sends_def .
qed

lemma mset_map_filter_lanes:
  "mset (List.map_filter f (filter (\<lambda>(b, e). b = Critical) xs)) + mset (List.map_filter f (filter (\<lambda>(b, e). b = Normal) xs))
   + mset (List.map_filter f (filter (\<lambda>(b, e). b = Low) xs)) = mset (List.map_filter f xs)"
proof (induction xs)
  case (Cons x xs)
  obtain b e where x: "x = (b, e)" by (cases x)
  show ?case using Cons by (cases b) (auto simp: x map_filter_simps split: option.split)
qed (simp add: map_filter_simps)

lemma sends_lanes:
  "mset (sends (concat (map (lane_log outbound plan) (take n [Critical, Normal, Low])))) \<subseteq># mset (plan_sends plan)"
  "mset (sends (concat (map (lane_log outbound plan) [Critical, Normal, Low]))) = mset (plan_sends plan)"
proof -
  show all: "mset (sends (concat (map (lane_log outbound plan) [Critical, Normal, Low]))) = mset (plan_sends plan)"
    using mset_map_filter_lanes [of "\<lambda>(p, e). case ne_payload e of Dispatched t \<Rightarrow> Some t | _ \<Rightarrow> None" "rp_batched plan"]
    by (simp add: sends_lane plan_sends_def add.assoc)
  have "sends (concat (map f [Critical, Normal, Low])) = sends (concat (map f (take n [Critical, Normal, Low])))
      @ sends (concat (map f (drop n [Critical, Normal, Low])))" for f
    by (metis append_take_drop_id concat_append map_append sends_simps(2))
  then show "mset (sends (concat (map (lane_log outbound plan) (take n [Critical, Normal, Low])))) \<subseteq># mset (plan_sends plan)"
    unfolding all [symmetric] by (metis mset_append mset_subset_eq_add_left)
qed

definition releases :: "database \<Rightarrow> 'r pipe_world \<Rightarrow> 'r pipe_world \<Rightarrow> bool" where
  "releases db w w' \<longleftrightarrow>
     (\<exists>L. w_log w' = w_log w @ L \<and> distinct (map dt_taskId (sends L))
        \<and> (\<forall>t \<in> set (sends L). verdict db t = None
             \<and> (\<exists>row. jm_get (w_parked w) (dt_taskId t) = Some row \<and> pk_task row = t))
        \<and> (\<forall>k row. (k, row) \<in> set (w_parked w) \<longrightarrow> (k, row) \<in> set (w_parked w')
             \<or> verdict db (pk_task row) \<noteq> None \<or> pk_task row \<in> set (sends L))
        \<and> set (w_parked w') \<subseteq> set (w_parked w))"

definition untouched :: "'r pipe_world \<Rightarrow> 'r pipe_world \<Rightarrow> bool" where
  "untouched w w' \<longleftrightarrow> w_log w' = w_log w \<and> w_parked w' = w_parked w"

lemma releases_untouched: "untouched w w' \<Longrightarrow> releases db w w'"
  unfolding releases_def untouched_def by (intro exI [of _ "[]"]) simp

lemma releases_trans: "untouched w0 w \<Longrightarrow> releases db w w' \<Longrightarrow> releases db w0 w'"
  by (simp add: releases_def untouched_def)

lemma on_redis_frame [keep_intros]:
  "keeps (untouched w0) (on_redis f)" "keeps (releases db w0) (on_redis f)"
  by (auto simp: keeps_def untouched_def releases_def on_redis_def attempt_def Let_def split: option.split prod.split)

lemma blocked_verdict:
  assumes "parked_ok parked" "db_ok db" "jm_get parked k = Some row" "P k"
  shows "jm_get (findBlockedAtRelease now db (map (pk_task \<circ> snd) (filter (\<lambda>(k, row). P k) parked))) k = verdict db (pk_task row)"
proof -
  let ?m = "filter (\<lambda>(k, row). P k) parked"
  have ids: "map (dt_taskId \<circ> (pk_task \<circ> snd)) ?m = map fst ?m"
    using assms(1) by (intro map_cong refl) (auto simp: parked_ok_def)
  have "distinct (map dt_taskId (map (pk_task \<circ> snd) ?m))"
    unfolding map_map ids using assms(1) by (simp add: parked_ok_def distinct_map_filter)
  moreover have "(k, row) \<in> set ?m" using map_of_SomeD [OF assms(3)] assms(4) by simp
  moreover from this have "pk_task row \<in> set (map (pk_task \<circ> snd) ?m)" by force
  moreover have "dt_taskId (pk_task row) = k"
    using map_of_SomeD [OF assms(3)] assms(1) by (auto simp: parked_ok_def)
  ultimately show ?thesis using findBlocked_verdict [OF assms(2)] by metis
qed

lemma jm_get_filter_key: "jm_get (filter (\<lambda>(k, row). P k) m) k = (if P k then jm_get m k else None)"
  by (induction m) auto

lemma distinct_submset:
  assumes "mset xs \<subseteq># mset ys" "distinct ys"
  shows "distinct xs"
proof -
  obtain zs where "mset ys - mset xs = mset zs" by (metis ex_mset)
  with assms(1) have "mset ys = mset (xs @ zs)" by (metis mset_append subset_mset.add_diff_inverse)
  with assms(2) have "distinct (xs @ zs)" by (metis mset_eq_imp_distinct_iff)
  then show ?thesis by simp
qed

lemma poll_release_releases:
  assumes parked: "parked_ok (w_parked w)" and db: "db_ok db"
    and run: "poll_release r outbound (Inr db) now uuid parsed w = (res, w')"
  shows "releases db w w'"
proof (cases "w_faults w (w_step w)")
  case (Some x)
  with run have "untouched w w'" by (auto simp: poll_release_def bindA_def attempt_def Let_def untouched_def)
  then show ?thesis by (rule releases_untouched)
next
  case None
  define P where "P = (\<lambda>k. Some (JStr k) \<in> tk_taskId ` set parsed)"
  define m where "m = filter (\<lambda>(k, row). P k) (w_parked w)"
  define blocked where "blocked = findBlockedAtRelease now db (map (pk_task \<circ> snd) m)"
  obtain err plan where plan: "plan_tasks m blocked uuid parsed empty_plan = (err, plan)" by fastforce
  have get: "jm_get m k = (if P k then jm_get (w_parked w) k else None)" for k
    unfolding m_def by (rule jm_get_filter_key)
  have keys: "dt_taskId (pk_task row) = k" if "jm_get m k = Some row" for k row
    using that map_of_SomeD parked by (fastforce simp: get parked_ok_def split: if_splits)
  have ok: "plan_ok m blocked plan" using plan_tasks_ok [OF plan_ok_empty keys, of m blocked uuid parsed] plan by simp
  have verdicts: "jm_get blocked k = verdict db (pk_task row)" if "jm_get m k = Some row" for k row
    using blocked_verdict [OF parked db, of k row P now] that by (simp add: blocked_def m_def get jm_get_filter_key split: if_splits)
  define w1 where "w1 = w\<lparr>w_step := Suc (w_step w)\<rparr>"
  define w2 where "w2 = w1\<lparr>w_log := w_log w1 @ rp_skips plan\<rparr>"
  have emits: "for_each es emit v = (Inr (), v\<lparr>w_log := w_log v @ es\<rparr>)" for es and v :: "'a pipe_world"
    by (induction es arbitrary: v) (simp_all add: ret_def thenA_def bindA_def emit_def record_effect_def)
  have sent: "verdict db t = None \<and> (\<exists>row. jm_get (w_parked w) (dt_taskId t) = Some row \<and> pk_task row = t)"
    if t: "t \<in> set (plan_sends plan)" for t
  proof -
    from ok t obtain row where row: "jm_get blocked (dt_taskId t) = None" "jm_get m (dt_taskId t) = Some row" "pk_task row = t"
      by (auto simp: plan_ok_def)
    with verdicts [OF row(2)] show ?thesis by (auto simp: get split: if_splits)
  qed
  have skips: "sends (rp_skips plan) = []" using ok by (simp add: plan_ok_def)
  have partial: "releases db w v"
    if v: "w_log v = w_log w @ rp_skips plan @ M" "w_parked v = w_parked w" "mset (sends M) \<subseteq># mset (plan_sends plan)" for v M
  proof -
    have "set (sends M) \<subseteq> set (plan_sends plan)" using v(3) by (metis set_mset_mono set_mset_mset)
    moreover have "distinct (map dt_taskId (sends M))"
    proof -
      have "mset (map dt_taskId (sends M)) \<subseteq># mset (map dt_taskId (plan_sends plan))"
        using v(3) by (simp add: image_mset_subseteq_mono)
      moreover have "distinct (map dt_taskId (plan_sends plan))" using ok by (simp add: plan_ok_def)
      ultimately show ?thesis by (rule distinct_submset)
    qed
    ultimately show ?thesis
      unfolding releases_def using v(1,2) skips sent by (intro exI [of _ "rp_skips plan @ M"]) auto
  qed
  have rest: "(case err of
             Some x \<Rightarrow> throw x
           | None \<Rightarrow>
               thenA (for_each [Critical, Normal, Low] (publish_lane outbound plan))
                 (thenA (if rp_dbCleanup plan = [] then ret ()
                         else ignore_errors (delete_released m (rp_dbCleanup plan)))
                   (on_redis (\<lambda>s. ((), fold (\<lambda>(k, m). ZREM r k m) (rp_cleanup plan) s))))) w2 = (res, w')"
    using run None plan unfolding blocked_def m_def P_def w2_def w1_def
    by (simp add: poll_release_def bindA_def attempt_def awaited_def Let_def thenA_def [of "for_each (rp_skips plan) emit"] emits)
  show ?thesis
  proof (cases err)
    case (Some x)
    with rest have "w' = w2" by (simp add: throw_def)
    then show ?thesis using partial [of w' "[]"] by (simp add: w2_def w1_def)
  next
    case None
    obtain r3 w3 where lanes: "for_each [Critical, Normal, Low] (publish_lane outbound plan) w2 = (r3, w3)" by fastforce
    from publish_lanes_run [OF this] obtain n where n: "w_parked w3 = w_parked w2" "r3 = Inr () \<longrightarrow> n = length [Critical, Normal, Low]"
      "w_log w3 = w_log w2 @ concat (map (lane_log outbound plan) (take n [Critical, Normal, Low]))" by blast
    show ?thesis
    proof (cases r3)
      case (Inl x)
      with rest None lanes have "w' = w3" by (simp add: thenA_def bindA_def)
      with n show ?thesis using partial [OF _ _ sends_lanes(1)] by (simp add: w2_def w1_def)
    next
      case (Inr u)
      define M where "M = concat (map (lane_log outbound plan) [Critical, Normal, Low])"
      have w3: "w_log w3 = w_log w @ rp_skips plan @ M" "w_parked w3 = w_parked w"
        using n Inr by (simp_all add: w2_def w1_def M_def)
      have M: "mset (sends M) = mset (plan_sends plan)" unfolding M_def by (rule sends_lanes(2))
      then have setM: "set (sends M) = set (plan_sends plan)" by (metis set_mset_mset)
      have start: "releases db w w3" using partial [OF w3] M by simp
      have deleted: "releases db w (w3\<lparr>w_step := s, w_parked := filter (\<lambda>(i, row). \<not> (i \<in> set (rp_dbCleanup plan)
          \<and> Option.bind (jm_get m i) pk_scheduledAt = pk_scheduledAt row)) (w_parked w3)\<rparr>)" for s
      proof -
        have "verdict db (pk_task row) \<noteq> None \<or> pk_task row \<in> set (sends M)"
          if "(k, row) \<in> set (w_parked w)" "k \<in> set (rp_dbCleanup plan)" for k row
        proof -
          from ok that(2) obtain row' where row': "jm_get m k = Some row'" "jm_get blocked k \<noteq> None \<or> pk_task row' \<in> set (plan_sends plan)"
            by (auto simp: plan_ok_def)
          moreover have "jm_get (w_parked w) k = Some row" using parked that(1) by (simp add: parked_ok_def)
          ultimately show ?thesis using verdicts [OF row'(1)] setM by (auto simp: get split: if_splits)
        qed
        then show ?thesis using start w3 unfolding releases_def
          by (intro exI [of _ "rp_skips plan @ M"]) (auto simp: skips)
      qed
      have del: "releases db w (snd ((if rp_dbCleanup plan = [] then ret ()
                         else ignore_errors (delete_released m (rp_dbCleanup plan))) w3))"
        using start deleted
        by (auto simp: delete_released_def ignore_errors_def catchA_def attempt_def ret_def Let_def split: option.split)
           (auto simp: releases_def)
      from rest None lanes Inr show ?thesis
        using del keeps_run [OF on_redis_frame(2) del]
        by (auto simp: thenA_def bindA_def split: prod.splits sum.splits)
    qed
  qed
qed

lemma executeSchedulerPoll_releases:
  assumes parked: "parked_ok (w_parked w)" and db: "db_ok db"
  shows "releases db w (snd (executeSchedulerPoll r outbound (Inr db) failed lockOwner now uuid w))"
proof -
  have weaker: "untouched w v \<Longrightarrow> releases db w v" for v by (rule releases_untouched)
  have "leads (untouched w) (poll_release r outbound (Inr db) now uuid parsed) (releases db w)" for parsed
  proof (rule leadsI)
    fix v assume v: "untouched w v"
    then have "parked_ok (w_parked v)" using parked by (simp add: untouched_def)
    from poll_release_releases [OF this db, of r outbound now uuid parsed]
    show "releases db w (snd (poll_release r outbound (Inr db) now uuid parsed v))"
      by (intro releases_trans [OF v]) (metis prod.collapse)
  qed
  then have "leads (untouched w) (executeSchedulerPoll r outbound (Inr db) failed lockOwner now uuid) (releases db w)"
    unfolding executeSchedulerPoll_def poll_locked_def Let_def
    by (intro leads_catch leads_bind leads_if leads_finally leads_then on_redis_frame keep_ret keep_ignore weaker
        leads_keep [OF keep_ret])
  from leadsD [OF this, of w] show ?thesis by (simp add: untouched_def)
qed

section \<open>Rebuilding is one pass over the table\<close>

lemma sorted_after_page:
  fixes rows :: "(string \<times> 'v) list"
  assumes "sorted (map fst rows)" "distinct (map fst rows)" "0 < n" "n \<le> length rows"
  shows "filter (\<lambda>(k, row). fst (last (take n rows)) < k) rows = drop n rows"
proof -
  define a where "a = fst (last (take n rows))"
  have "take n rows \<noteq> []" using assms(3,4) by auto
  then have a: "a = map fst rows ! (n - 1)" using assms(3,4) by (simp add: a_def last_conv_nth min_absorb2)
  have sm: "i < j \<Longrightarrow> j < length rows \<Longrightarrow> map fst rows ! i < map fst rows ! j" for i j
    using assms(1,2) by (metis length_map sorted_wrt_nth_less strict_sorted_iff)
  have "\<not> a < fst x" if "x \<in> set (take n rows)" for x
  proof -
    from that obtain i where i: "i < n" "i < length rows" "x = rows ! i" by (auto simp: in_set_conv_nth)
    have ai: "a = fst (rows ! (n - 1))" using assms(3,4) by (simp add: a)
    show ?thesis
    proof (cases "i = n - 1")
      case True
      then show ?thesis using i ai by simp
    next
      case False
      then have "i < n - 1" "n - 1 < length rows" using i assms(3,4) by auto
      from sm [OF this] this i show ?thesis by (auto simp: ai dest: less_asym)
    qed
  qed
  moreover have "a < fst x" if "x \<in> set (drop n rows)" for x
  proof -
    from that obtain i where i: "i < length rows - n" "x = rows ! (n + i)" by (auto simp: in_set_conv_nth)
    then show ?thesis using sm [of "n - 1" "n + i"] assms(3) by (auto simp: a)
  qed
  ultimately have "filter (\<lambda>x. a < fst x) (take n rows @ drop n rows) = drop n rows"
    unfolding filter_append by (auto simp: filter_empty_conv intro: filter_True)
  then show ?thesis by (simp add: a_def case_prod_unfold)
qed

definition rows_after :: "string option \<Rightarrow> (string, parked_payload) jsmap \<Rightarrow> (string \<times> parked_payload) list" where
  "rows_after after rows = sort_key fst (filter (\<lambda>(k, row). case after of None \<Rightarrow> True | Some a \<Rightarrow> a < k) rows)"

lemma rows_after_next:
  assumes "jm_wf parked" "0 < n" "n \<le> length (rows_after after parked)"
  shows "rows_after (Some (fst (last (take n (rows_after after parked))))) parked = drop n (rows_after after parked)"
proof -
  let ?rows = "rows_after after parked"
  let ?a = "fst (last (take n ?rows))"
  have "mset (map fst ?rows) = mset (map fst (filter (\<lambda>(k, row). case after of None \<Rightarrow> True | Some a \<Rightarrow> a < k) parked))"
    by (simp only: rows_after_def mset_map mset_sort)
  then have d: "distinct (map fst ?rows)" using distinct_map_filter [OF assms(1)] by (metis mset_eq_imp_distinct_iff)
  have s: "sorted (map fst ?rows)" by (simp add: rows_after_def)
  have "last (take n ?rows) \<in> set ?rows"
    using assms(2,3) by (metis in_set_takeD last_in_set length_0_conv length_take min.absorb2 not_less_zero)
  then have above: "case after of None \<Rightarrow> True | Some a \<Rightarrow> a < ?a" by (auto simp: rows_after_def split: option.split)
  have "rows_after (Some ?a) parked = filter (\<lambda>(k, row). ?a < k) ?rows"
    unfolding rows_after_def filter_sort
    by (rule arg_cong [where f = "sort_key fst"]) (use above in \<open>auto simp: rows_after_def intro!: filter_cong split: option.splits\<close>)
  also have "\<dots> = drop n ?rows" by (rule sorted_after_page [OF s d assms(2,3)])
  finally show ?thesis .
qed

lemma rebuild_loop_run:
  assumes "no_faults w" "0 < pageSize" "jm_wf (w_parked w)" "length (rows_after after (w_parked w)) < fuel"
    and "rebuild_loop fuel r now pageSize after queued w = (res, w')"
  shows "res = Inr (queued + length (rows_after after (w_parked w))) \<and> w_parked w' = w_parked w \<and> no_faults w'
    \<and> w_redis w' = fold (requeue_row r now) (rows_after after (w_parked w)) (w_redis w) \<and> w_log w' = w_log w"
  using assms(1,3-5)
proof (induction fuel arbitrary: w after queued)
  case 0
  then show ?case by simp
next
  case (Suc fuel)
  let ?rows = "rows_after after (w_parked w)"
  have page: "page_after pageSize after (w_parked w) = take pageSize ?rows" by (simp add: page_after_def rows_after_def)
  define w1 where "w1 = w\<lparr>w_step := w_step w + 2, w_redis := fold (requeue_row r now) (take pageSize ?rows) (w_redis w)\<rparr>"
  show ?case
  proof (cases "?rows = []")
    case True
    with Suc.prems page show ?thesis by (auto simp: bindA_def attempt_def no_faults_def ret_def Let_def)
  next
    case False
    with assms(2) have ne: "take pageSize ?rows \<noteq> []" by simp
    have step: "(if length (take pageSize ?rows) < pageSize then ret (queued + length (take pageSize ?rows))
               else rebuild_loop fuel r now pageSize (Some (fst (last (take pageSize ?rows)))) (queued + length (take pageSize ?rows))) w1
        = (res, w')"
      using Suc.prems(1,4) page ne
      by (simp add: bindA_def thenA_def on_redis_def attempt_def no_faults_def Let_def w1_def numeral_2_eq_2)
    show ?thesis
    proof (cases "length ?rows < pageSize")
      case True
      with step Suc.prems(1) show ?thesis by (auto simp: ret_def w1_def no_faults_def)
    next
      case long: False
      define after' where "after' = Some (fst (last (take pageSize ?rows)))"
      have next': "rows_after after' (w_parked w1) = drop pageSize ?rows"
        using rows_after_next [OF Suc.prems(2) assms(2)] long by (simp add: after'_def w1_def)
      have "length (take pageSize ?rows) = pageSize" using long by simp
      with step have run: "rebuild_loop fuel r now pageSize after' (queued + pageSize) w1 = (res, w')"
        by (simp only: after'_def) simp
      have "no_faults w1" "jm_wf (w_parked w1)" using Suc.prems(1,2) by (simp_all add: w1_def no_faults_def)
      moreover have "length (rows_after after' (w_parked w1)) < fuel"
        using Suc.prems(3) long assms(2) by (simp add: next')
      ultimately have "res = Inr (queued + pageSize + length (drop pageSize ?rows)) \<and> w_parked w' = w_parked w1 \<and> no_faults w'
        \<and> w_redis w' = fold (requeue_row r now) (drop pageSize ?rows) (w_redis w1) \<and> w_log w' = w_log w1"
        using Suc.IH [OF _ _ _ run] unfolding next' by blast
      moreover have "fold (requeue_row r now) (drop pageSize ?rows) (w_redis w1) = fold (requeue_row r now) ?rows (w_redis w)"
        by (simp add: w1_def flip: fold_append [of _ "take pageSize ?rows" "drop pageSize ?rows", simplified, THEN fun_cong, simplified])
      ultimately show ?thesis using long by (simp add: w1_def)
    qed
  qed
qed

lemma requeue_present:
  assumes laws: "redis_member_laws r view"
  shows "p \<in> set rows \<Longrightarrow> rebuilt_member (fst p) (snd p) \<in> fst ` set (view (zsetKey (shardOf (fst p))) (fold (requeue_row r now) rows s))"
    and "m \<in> fst ` set (view k s) \<Longrightarrow> m \<in> fst ` set (view k (fold (requeue_row r now) rows s))"
proof -
  have add: "set (view k (ZADD_NX r k x m s)) = (if m \<in> fst ` set (view k s) then set (view k s) else insert (m, x) (set (view k s)))"
    "k' \<noteq> k \<Longrightarrow> view k' (ZADD_NX r k x m s) = view k' s" for k k' x m s
    using laws by (simp_all add: redis_member_laws_def)
  have one: "m \<in> fst ` set (view k (requeue_row r now p s))" if "m \<in> fst ` set (view k s)" for m k p s
    using that add(1) [of "zsetKey (shardOf (fst p))"] add(2) [of k "zsetKey (shardOf (fst p))"]
    by (cases "k = zsetKey (shardOf (fst p))") (auto simp: requeue_row_def split_beta)
  have keep: "m \<in> fst ` set (view k (fold (requeue_row r now) rows s))" if "m \<in> fst ` set (view k s)" for m k rows s
    using that by (induction rows arbitrary: s) (simp_all add: one)
  then show "m \<in> fst ` set (view k s) \<Longrightarrow> m \<in> fst ` set (view k (fold (requeue_row r now) rows s))" .
  have here: "rebuilt_member (fst p) (snd p) \<in> fst ` set (view (zsetKey (shardOf (fst p))) (requeue_row r now p s))" for p s
    using add(1) [of "zsetKey (shardOf (fst p))"] by (simp add: requeue_row_def split_beta)
  show "p \<in> set rows \<Longrightarrow> rebuilt_member (fst p) (snd p) \<in> fst ` set (view (zsetKey (shardOf (fst p))) (fold (requeue_row r now) rows s))"
  proof (induction rows arbitrary: s)
    case (Cons q rows)
    then show ?case using keep [OF here [of p s]] by (cases "p = q") simp_all
  qed simp
qed

text \<open>
  C7: Whatever fails during a poll, each parked task goes out at most once, only if it is in
  the table, as it is there, and only if the gate allows it at the time of release; and a row
  disappears from the table only when its task went out in this poll or the gate blocked it,
  so no scheduled send is lost.
\<close>
theorem scheduler_releases_once_or_keeps:
  assumes "parked_ok (w_parked w)" "db_ok db"
  shows "releases db w (snd (executeSchedulerPoll r outbound (Inr db) failed lockOwner now uuid w))"
  using assms by (rule executeSchedulerPoll_releases)

definition ex_parked_world :: "mem_store pipe_world" where
  "ex_parked_world =
     \<lparr>w_redis = ZADD mem_redis (zsetKey 1) 5 (task_data \<lparr>ns_projectId = ''p'', ns_enrichedEventId = ''e'', ns_taskId = ''1'',
        ns_scheduledAt = 5\<rparr> ''t'') mem_empty, w_log = [], w_step = 0, w_faults = (\<lambda>_. None),
      w_parked = [(''1'', \<lparr>pk_task = ex_gate_task ''1'' ''a'' ''a@b.c'', pk_scheduledAt = Some 5\<rparr>),
                  (''2'', \<lparr>pk_task = ex_gate_task ''2'' ''b'' ''a@b.c'', pk_scheduledAt = Some 9\<rparr>)],
      w_breakers = []\<rparr>"

theorem scheduler_releases_once_or_keeps_witness:
  "releases ex_gate_db ex_parked_world (snd (executeSchedulerPoll mem_redis (\<lambda>b. Some (OUTBOUND b)) (Inr ex_gate_db)
     (\<lambda>_. False) ''me'' 7 (\<lambda>_. ''u'') ex_parked_world))"
proof -
  have "parked_ok (w_parked ex_parked_world)" by (simp add: parked_ok_def ex_parked_world_def ex_gate_task_def)
  moreover have "db_ok ex_gate_db" by (simp add: db_ok_def ex_gate_db_def)
  ultimately show ?thesis by (rule scheduler_releases_once_or_keeps)
qed

text \<open>
  C27: Rebuilding the sorted sets page by page is one pass over the whole table in the order of
  the ids: it ends, it counts every row, every row is queued in its shard with its own send time
  (unless its member is there already), and only then is the sentinel set.
\<close>
theorem scheduler_rebuild_is_one_pass:
  assumes "no_faults w" "redis_member_laws r view" "0 < pageSize" "jm_wf (w_parked w)" "length (w_parked w) < fuel"
    and "rebuildScheduledQueue fuel r now pageSize w = (res, w')"
  shows "res = Inr (length (w_parked w)) \<and> w_parked w' = w_parked w
    \<and> w_redis w' = SET r SCHEDULER_SENTINEL_KEY ''1'' (fold (requeue_row r now) (rows_after None (w_parked w)) (w_redis w))
    \<and> (\<forall>(taskId, row) \<in> set (w_parked w).
        rebuilt_member taskId row \<in> fst ` set (view (zsetKey (shardOf taskId)) (w_redis w')))"
proof -
  have len: "length (rows_after None (w_parked w)) = length (w_parked w)"
    by (simp add: rows_after_def case_prod_unfold)
  obtain r1 w1 where loop: "rebuild_loop fuel r now pageSize None 0 w = (r1, w1)" by fastforce
  from rebuild_loop_run [OF assms(1,3,4) _ loop] assms(5)
  have l: "r1 = Inr (length (w_parked w))" "w_parked w1 = w_parked w" "no_faults w1"
    "w_redis w1 = fold (requeue_row r now) (rows_after None (w_parked w)) (w_redis w)" by (simp_all add: len)
  then have run: "res = Inr (length (w_parked w))" "w_parked w' = w_parked w"
    "w_redis w' = SET r SCHEDULER_SENTINEL_KEY ''1'' (fold (requeue_row r now) (rows_after None (w_parked w)) (w_redis w))"
    using assms(6) by (auto simp: rebuildScheduledQueue_def loop bindA_def thenA_def on_redis_def attempt_def no_faults_def
        ret_def Let_def)
  have "view k (SET r i v s) = view k s" for k i v s using assms(2) by (simp add: redis_member_laws_def)
  moreover have "set (rows_after None (w_parked w)) = set (w_parked w)" by (simp add: rows_after_def case_prod_unfold)
  ultimately show ?thesis using run requeue_present(1) [OF assms(2)] by (fastforce simp: split_beta)
qed

theorem scheduler_rebuild_is_one_pass_witness:
  "fst (rebuildScheduledQueue 3 mem_redis 0 1 ex_parked_world) = Inr 2"
proof -
  obtain res w' where run: "rebuildScheduledQueue 3 mem_redis 0 1 ex_parked_world = (res, w')" by fastforce
  have "res = Inr (length (w_parked ex_parked_world))"
    by (rule scheduler_rebuild_is_one_pass [OF _ mem_member_laws _ _ _ run, THEN conjunct1])
       (simp_all add: ex_parked_world_def no_faults_def)
  moreover have "length (w_parked ex_parked_world) = 2" by (simp add: ex_parked_world_def)
  ultimately show ?thesis using run by simp
qed

end
