(* ===== verification/Enricher.thy ===== *)
theory Enricher
  imports User_Store Cache_Clients Throttle_Idempotency Task_Dispatch
begin

text \<open>
  The enricher (\<open>src/src/services/enricher/main.ts\<close>), the first stage of the pipeline: a
  request for a user, a segment or a topic becomes one enriched event per address. The state
  is the Redis of the idempotency guard, the buffer of events that wait for the next flush, and
  what became of the promises of the events flushed. What the repositories and the template
  cache answered is an input of a run; the two batching loaders are modelled on their own and
  shown to give those answers.
\<close>

section \<open>The world of the enricher\<close>

datatype enrich_effect =
    Enrich StreamName new_event
  | InlineNext EventEnvelope
  | EmitFailed string string string

record buffered_event =
  be_producer :: StreamName
  be_event :: new_event
  be_ticket :: nat

text \<open>
  A promise of a buffered event is known by its ticket; it settles once, with \<open>None\<close> when
  it resolved and with the error when it was rejected.
\<close>

record 'r enricher_world = "('r, enrich_effect) world" +
  en_buffer :: "buffered_event list"
  en_tickets :: nat
  en_settled :: "(nat, exn option) jsmap"

type_synonym ('r, 'a) enrich_act = "('r enricher_world, 'a) act"

definition settle :: "exn option \<Rightarrow> (nat, exn option) jsmap \<Rightarrow> nat \<Rightarrow> (nat, exn option) jsmap" where
  "settle r m t = (if jm_get m t = None then jm_set t r m else m)"

definition settle_events :: "exn option \<Rightarrow> buffered_event list \<Rightarrow> ('r, unit) enrich_act" where
  "settle_events r events = modify (\<lambda>w. w\<lparr>en_settled := foldl (settle r) (en_settled w) (map be_ticket events)\<rparr>)"

section \<open>Flushing the buffer\<close>

text \<open>\<open>producer.publishBatch\<close>, which here rejects as a whole or publishes every event.\<close>

definition publish_events :: "StreamName \<Rightarrow> buffered_event list \<Rightarrow> ('r, unit) enrich_act" where
  "publish_events producer batch = attempt (\<lambda>w.
     ((), w\<lparr>w_log := w_log w @ map (\<lambda>b. Enrich producer (be_event b)) batch\<rparr>))"

definition flushWorkerBuffers :: "('r, unit) enrich_act" where
  "flushWorkerBuffers =
     bindA (gets en_buffer) (\<lambda>events.
       if events = [] then ret ()
       else thenA (modify (\<lambda>w. w\<lparr>en_buffer := []\<rparr>))
         (catchA
           (for_each (group_rows (map (\<lambda>e. (be_producer e, e)) events)) (\<lambda>(producer, batch).
             thenA (publish_events producer batch) (settle_events None batch)))
           (\<lambda>err. settle_events (Some err) events)))"

text \<open>An event put into the buffer, and the ticket of its promise.\<close>

definition push_event :: "StreamName \<Rightarrow> new_event \<Rightarrow> ('r, nat) enrich_act" where
  "push_event producer e w =
     (Inr (en_tickets w), w\<lparr>en_tickets := Suc (en_tickets w),
        en_buffer := en_buffer w @ [\<lparr>be_producer = producer, be_event = e, be_ticket = en_tickets w\<rparr>]\<rparr>)"

text \<open>
  What \<open>publishPromises\<close> holds: the promise of a buffered event, or that of an inline run,
  which is finished here before the next one starts. \<open>Promise.all\<close> rejects with the first
  error; buffered events wait for the flush timer.
\<close>

datatype publish_promise = Queued nat | Ran "exn + unit"

definition promise_result :: "'r enricher_world \<Rightarrow> publish_promise \<Rightarrow> (exn + unit) option" where
  "promise_result w p = (case p of
       Ran r \<Rightarrow> Some r
     | Queued t \<Rightarrow> (case jm_get (en_settled w) t of
         None \<Rightarrow> None | Some None \<Rightarrow> Some (Inr ()) | Some (Some x) \<Rightarrow> Some (Inl x)))"

fun first_error :: "(exn + unit) option list \<Rightarrow> exn + unit" where
  "first_error [] = Inr ()"
| "first_error (Some (Inl x) # rs) = Inl x"
| "first_error (_ # rs) = first_error rs"

definition await_all :: "publish_promise list \<Rightarrow> ('r, unit) enrich_act" where
  "await_all promises =
     thenA (if list_ex (\<lambda>p. case p of Queued _ \<Rightarrow> True | Ran _ \<Rightarrow> False) promises then flushWorkerBuffers else ret ())
       (\<lambda>w. (first_error (map (promise_result w) promises), w))"

text \<open>A promise started now, whose outcome is looked at later.\<close>

definition start :: "('w, unit) act \<Rightarrow> ('w, publish_promise) act" where
  "start m w = (case m w of (r, w') \<Rightarrow> (Inr (Ran r), w'))"

section \<open>The batching loaders\<close>

record ('q) load_batch =
  lb_waiting :: "'q list"
  lb_timer :: bool

text \<open>
  \<open>loadUser\<close> and \<open>loadContacts\<close>: a request joins the batch; a full batch is flushed at once
  and otherwise a timer is set. The result is the batch to flush, if any.
\<close>

definition load_request :: "nat \<Rightarrow> 'q \<Rightarrow> 'q load_batch \<Rightarrow> 'q list \<times> 'q load_batch" where
  "load_request concurrency q b =
     (let waiting = lb_waiting b @ [q]
      in if length waiting \<ge> min concurrency 50 then (waiting, \<lparr>lb_waiting = [], lb_timer = False\<rparr>)
         else ([], \<lparr>lb_waiting = waiting, lb_timer = True\<rparr>))"

definition load_timer_fires :: "'q load_batch \<Rightarrow> 'q list \<times> 'q load_batch" where
  "load_timer_fires b = (lb_waiting b, \<lparr>lb_waiting = [], lb_timer = False\<rparr>)"

record user_request =
  uq_projectId :: string
  uq_userId :: string
  uq_ticket :: nat

text \<open>\<open>Array.from(new Set(xs))\<close>\<close>

definition unique_in_order :: "'a list \<Rightarrow> 'a list" where
  "unique_in_order xs = rev (remdups (rev xs))"

text \<open>
  The answer to every request of a user batch. \<open>repo\<close> is \<open>findRecordsByIds\<close>. A query that
  fails rejects the requests of its project.
\<close>

definition flushUserBatch ::
  "(string \<Rightarrow> string list \<Rightarrow> exn + UserRecord list) \<Rightarrow> user_request list \<Rightarrow> (nat \<times> (exn + UserRecord option)) list" where
  "flushUserBatch repo batch =
     concat (map (\<lambda>(projectId, reqs).
       case repo projectId (unique_in_order (map uq_userId reqs)) of
         Inl err \<Rightarrow> map (\<lambda>req. (uq_ticket req, Inl err)) reqs
       | Inr profiles \<Rightarrow>
           let profileMap = foldl (\<lambda>m p. jm_set (up_userId p) p m) [] profiles
           in map (\<lambda>req. (uq_ticket req, Inr (jm_get profileMap (uq_userId req)))) reqs)
       (group_rows (map (\<lambda>b. (uq_projectId b, b)) batch)))"

record contacts_request =
  cq_projectId :: string
  cq_userIds :: "string list"
  cq_ticket :: nat

type_synonym contacts_map = "(string, UserContact list) jsmap"

text \<open>
  The contact batch asks project by project and stops at the first query that fails; every
  request that has no answer by then is rejected.
\<close>

fun flush_contact_projects ::
  "(string \<Rightarrow> string list \<Rightarrow> exn + contacts_map) \<Rightarrow> (string \<times> contacts_request list) list
    \<Rightarrow> (nat \<times> (exn + contacts_map)) list" where
  "flush_contact_projects repo [] = []"
| "flush_contact_projects repo ((projectId, items) # groups) =
     (case repo projectId (unique_in_order (concat (map cq_userIds items))) of
        Inl err \<Rightarrow> map (\<lambda>i. (cq_ticket i, Inl err)) (concat (items # map snd groups))
      | Inr contactsMap \<Rightarrow> map (\<lambda>i. (cq_ticket i, Inr contactsMap)) items @ flush_contact_projects repo groups)"

definition flushContactBatch ::
  "(string \<Rightarrow> string list \<Rightarrow> exn + contacts_map) \<Rightarrow> contacts_request list \<Rightarrow> (nat \<times> (exn + contacts_map)) list" where
  "flushContactBatch repo batch =
     flush_contact_projects repo (group_rows (map (\<lambda>b. (cq_projectId b, b)) batch))"

section \<open>Enriched payloads\<close>

fun channel_of_text :: "string \<Rightarrow> NotificationChannel option" where
  "channel_of_text s = find (\<lambda>c. channel_text c = s) [Email, Sms, Push, Webhook, InApp, Telegram, Discord, Whatsapp, Slack]"

text \<open>Opted out if the user switched off any topic of the template.\<close>

definition topics_opted_out :: "string list \<Rightarrow> (string \<times> bool) list option \<Rightarrow> bool" where
  "topics_opted_out topics prefs = list_ex (\<lambda>t. jm_get (or_empty prefs) t = Some False) topics"

definition disabled_channels :: "Preferences \<Rightarrow> NotificationChannel list" where
  "disabled_channels p = List.map_filter (\<lambda>(c, enabled). if \<not> enabled then channel_of_text c else None) (or_empty (pr_channels p))"

definition recipient_of ::
  "string list \<Rightarrow> UserRecord \<Rightarrow> NotificationChannel option \<Rightarrow> string option \<Rightarrow> RecipientProfile" where
  "recipient_of topics profile channel destination =
     (let email = (case up_email profile of Some e \<Rightarrow> e | None \<Rightarrow> None)
      in \<lparr>rp_id = up_userId profile,
          rp_email = (if channel = Some Email then (case destination of Some d \<Rightarrow> Some d | None \<Rightarrow> email) else email),
          rp_phone = (if channel = Some Sms \<or> channel = Some Whatsapp then destination else None),
          rp_webhook = (if channel = Some Webhook then destination else None),
          rp_pushTokens = None, rp_pushToken = None,
          rp_telegram = (if channel = Some Telegram then destination else None),
          rp_discord = (if channel = Some Discord then destination else None),
          rp_slack = (if channel = Some Slack then destination else None),
          rp_locale = up_language profile, rp_timezone = up_timezone profile,
          rp_optedOut = topics_opted_out topics (pr_topics (ur_preferences profile)),
          rp_channels = disabled_channels (ur_preferences profile),
          rp_quietHours = pr_quietHours (ur_preferences profile)\<rparr>)"

record enrich_message =
  eg_eventId :: string
  eg_eventType :: string
  eg_traceId :: string
  eg_payload :: json

definition enriched_payload ::
  "NotificationRequestedPayload \<Rightarrow> enrich_message \<Rightarrow> string list \<Rightarrow> UserRecord \<Rightarrow> NotificationChannel
    \<Rightarrow> NotificationChannel list option \<Rightarrow> UserContact option \<Rightarrow> NotificationEnrichedPayload" where
  "enriched_payload raw m topics profile channel fallbackChain contact =
     (let destination = map_option cn_target contact
      in \<lparr>en_projectId = nr_projectId raw, en_rawEventId = eg_eventId m, en_recipientId = up_userId profile,
          en_channel = channel, en_priority = nr_priority raw, en_templateId = Some (nr_templateId raw),
          en_templateVariables = nr_data raw, en_recipient = recipient_of topics profile (Some channel) destination,
          en_aiPrompts = nr_aiPrompts raw, en_scheduledAt = nr_scheduledAt raw,
          en_fallbackChain = (case fallbackChain of Some (c # cs) \<Rightarrow> Some (c # cs) | _ \<Rightarrow> None),
          en_contactId = map_option cn_id contact, en_destination = destination,
          en_campaignId = nr_campaignId raw, en_workflowInstanceId = nr_workflowInstanceId raw,
          en_throttleCounted = None\<rparr>)"

definition usable :: "string list \<Rightarrow> UserContact list \<Rightarrow> NotificationChannel \<Rightarrow> UserContact list" where
  "usable topics contacts channel =
     filter (\<lambda>c. cn_channel c = channel \<and> \<not> topics_opted_out topics (cn_topics c)) contacts"

definition channel_payloads ::
  "NotificationRequestedPayload \<Rightarrow> enrich_message \<Rightarrow> string list \<Rightarrow> UserContact list \<Rightarrow> UserRecord
    \<Rightarrow> NotificationChannel list option \<Rightarrow> NotificationChannel \<Rightarrow> NotificationEnrichedPayload list" where
  "channel_payloads raw m topics contacts profile fallbackChain channel =
     (let channelContacts = usable topics contacts channel;
          resolved = (if channel = Push then [None] else map Some channelContacts)
      in map (enriched_payload raw m topics profile channel fallbackChain) resolved)"

definition request_channels :: "NotificationRequestedPayload \<Rightarrow> NotificationChannel list" where
  "request_channels raw = (case nr_channels raw of Some (c # cs) \<Rightarrow> c # cs | _ \<Rightarrow> [Email])"

text \<open>With fallback, the first reachable channel and the ones behind it.\<close>

definition user_payloads ::
  "NotificationRequestedPayload \<Rightarrow> enrich_message \<Rightarrow> string list \<Rightarrow> UserContact list \<Rightarrow> UserRecord
    \<Rightarrow> NotificationEnrichedPayload list" where
  "user_payloads raw m topics contacts profile =
     (let channels = request_channels raw
      in if nr_fallback raw
         then (case dropWhile (\<lambda>c. usable topics contacts c = []) channels of
             [] \<Rightarrow> []
           | first # chain \<Rightarrow> channel_payloads raw m topics contacts profile (Some chain) first)
         else concat (map (channel_payloads raw m topics contacts profile None) channels))"

section \<open>Fan-out\<close>

record 'r EnricherWorkerOptions =
  ew_producers :: "priority_bucket \<Rightarrow> StreamName option"
  ew_idempotency :: idempotency_guard
  ew_concurrency :: nat
  ew_inlineNext :: "(EventEnvelope \<Rightarrow> ('r, unit) enrich_act) option"
  ew_maxUsers :: nat

record enricher_reads =
  er_segment :: "string \<Rightarrow> exn + string list"
  er_topic :: "string \<Rightarrow> exn + string list"
  er_template :: "string \<Rightarrow> exn + TemplateRecord option"
  er_record :: "string \<Rightarrow> exn + UserRecord option"
  er_user :: "string \<Rightarrow> exn + UserRecord option"
  er_contacts :: "string list \<Rightarrow> exn + contacts_map"

definition chunk_array :: "nat \<Rightarrow> 'a list \<Rightarrow> 'a list list" where
  "chunk_array n xs = map (\<lambda>i. take n (drop (i * n) xs)) [0..<(length xs + n - 1) div n]"

definition enriched_producer :: "'r EnricherWorkerOptions \<Rightarrow> priority_bucket \<Rightarrow> StreamName" where
  "enriched_producer opts p = (case ew_producers opts p of Some s \<Rightarrow> s | None \<Rightarrow> the (ew_producers opts Normal))"

definition payload_bucket :: "NotificationPriority \<Rightarrow> priority_bucket" where
  "payload_bucket p = getPriorityBucket (Some (priority_text p))"

definition enriched_event :: "enrich_message \<Rightarrow> NotificationEnrichedPayload \<Rightarrow> new_event" where
  "enriched_event m p = buildStreamEvent (Enriched p) ''enricher'' (Some (eg_traceId m)) []"

text \<open>The events of one lane: run inline, or into the buffer.\<close>

fun send_events ::
  "'r EnricherWorkerOptions \<Rightarrow> (EventEnvelope \<Rightarrow> ('r, unit) enrich_act) option \<Rightarrow> StreamName \<Rightarrow> ms \<Rightarrow> (nat \<Rightarrow> string)
    \<Rightarrow> new_event list \<Rightarrow> publish_promise list \<Rightarrow> ('r, publish_promise list) enrich_act" where
  "send_events opts inline producer now uuid [] promises = ret promises"
| "send_events opts inline producer now uuid (ev # evs) promises =
     (case inline of
        Some next \<Rightarrow> bindA (start (next (with_envelope ev (uuid (length promises)) now))) (\<lambda>p.
          send_events opts inline producer now uuid evs (promises @ [p]))
      | None \<Rightarrow> bindA (push_event producer ev) (\<lambda>t.
          send_events opts inline producer now uuid evs (promises @ [Queued t])))"

fun send_buckets ::
  "'r EnricherWorkerOptions \<Rightarrow> (EventEnvelope \<Rightarrow> ('r, unit) enrich_act) option \<Rightarrow> ms \<Rightarrow> (nat \<Rightarrow> string)
    \<Rightarrow> (priority_bucket \<times> new_event) list \<Rightarrow> priority_bucket list \<Rightarrow> publish_promise list
    \<Rightarrow> ('r, publish_promise list) enrich_act" where
  "send_buckets opts inline now uuid batched [] promises = ret promises"
| "send_buckets opts inline now uuid batched (p # ps) promises =
     (let evs = map snd (filter (\<lambda>b. fst b = p) batched)
      in if evs = [] then send_buckets opts inline now uuid batched ps promises
         else bindA (send_events opts inline (enriched_producer opts p) now uuid evs promises) (\<lambda>promises.
           thenA (bindA (gets en_buffer) (\<lambda>buf.
               if length buf \<ge> min (ew_concurrency opts) 50 then flushWorkerBuffers else ret ()))
             (send_buckets opts inline now uuid batched ps promises)))"

text \<open>\<open>Promise.all(chunk.map(loadUser))\<close> and the users that exist.\<close>

fun load_users :: "enricher_reads \<Rightarrow> string list \<Rightarrow> exn + UserRecord list" where
  "load_users rd [] = Inr []"
| "load_users rd (u # us) = (case er_user rd u of
     Inl e \<Rightarrow> Inl e
   | Inr p \<Rightarrow> (case load_users rd us of Inl e \<Rightarrow> Inl e
       | Inr ps \<Rightarrow> Inr ((case p of Some q \<Rightarrow> [q] | None \<Rightarrow> []) @ ps)))"

text \<open>One chunk of users; \<open>tick\<close> says whether the flush timer fires while it is being read.\<close>

definition enrich_chunk ::
  "'r EnricherWorkerOptions \<Rightarrow> enricher_reads \<Rightarrow> NotificationRequestedPayload \<Rightarrow> enrich_message \<Rightarrow> string list
    \<Rightarrow> (EventEnvelope \<Rightarrow> ('r, unit) enrich_act) option \<Rightarrow> ms \<Rightarrow> (nat \<Rightarrow> string) \<Rightarrow> bool \<Rightarrow> string list
    \<Rightarrow> publish_promise list \<Rightarrow> ('r, publish_promise list) enrich_act" where
  "enrich_chunk opts rd raw m topics inline now uuid tick chunk promises =
     thenA (if tick then flushWorkerBuffers else ret ())
     (bindA (awaited (load_users rd chunk)) (\<lambda>profiles.
      bindA (awaited (er_contacts rd (map up_userId profiles))) (\<lambda>contactsByUser.
        let p = payload_bucket (nr_priority raw);
            batched = concat (map (\<lambda>profile. map (\<lambda>pl. (p, enriched_event m pl))
              (user_payloads raw m topics (or_empty (jm_get contactsByUser (up_userId profile))) profile)) profiles)
        in send_buckets opts inline now uuid batched [Critical, Normal, Low] promises)))"

fun enrich_chunks ::
  "'r EnricherWorkerOptions \<Rightarrow> enricher_reads \<Rightarrow> NotificationRequestedPayload \<Rightarrow> enrich_message \<Rightarrow> string list
    \<Rightarrow> (EventEnvelope \<Rightarrow> ('r, unit) enrich_act) option \<Rightarrow> ms \<Rightarrow> (nat \<Rightarrow> string) \<Rightarrow> (nat \<Rightarrow> bool)
    \<Rightarrow> string list list \<Rightarrow> publish_promise list \<Rightarrow> ('r, publish_promise list) enrich_act" where
  "enrich_chunks opts rd raw m topics inline now uuid ticks [] promises = ret promises"
| "enrich_chunks opts rd raw m topics inline now uuid ticks (c # cs) promises =
     bindA (enrich_chunk opts rd raw m topics inline now uuid (ticks (length cs)) c promises)
       (enrich_chunks opts rd raw m topics inline now uuid ticks cs)"

section \<open>process\<close>

definition CALLER_KEY_TTL_SECONDS :: int where
  "CALLER_KEY_TTL_SECONDS = 86400"

text \<open>An empty key is no key.\<close>

definition dedupeTtl :: "string option \<Rightarrow> int option" where
  "dedupeTtl k = (case k of Some (c # cs) \<Rightarrow> Some CALLER_KEY_TTL_SECONDS | _ \<Rightarrow> None)"

definition dedupe_id :: "string \<Rightarrow> string option \<Rightarrow> enrich_message \<Rightarrow> string" where
  "dedupe_id projectId k m = projectId @ '':'' @ (case k of Some s \<Rightarrow> s | None \<Rightarrow> eg_eventId m)"

definition target_users :: "enricher_reads \<Rightarrow> NotificationTarget \<Rightarrow> exn + string list" where
  "target_users rd t = (case t of TUser u \<Rightarrow> Inr [u] | TSegment s \<Rightarrow> er_segment rd s | TTopic tp \<Rightarrow> er_topic rd tp)"

definition template_topics_read :: "enricher_reads \<Rightarrow> string \<Rightarrow> exn + string list" where
  "template_topics_read rd i =
     (if i = [] then Inr []
      else case er_template rd i of Inl e \<Rightarrow> Inl e | Inr None \<Rightarrow> Inr [] | Inr (Some t) \<Rightarrow> Inr (tr_topics t))"

definition unmark_quietly :: "'r redis \<Rightarrow> 'r EnricherWorkerOptions \<Rightarrow> string \<Rightarrow> ('r, unit) enrich_act" where
  "unmark_quietly r opts k = ignore_errors (on_redis (\<lambda>s. ((), unmark r (ew_idempotency opts) k s)))"

definition mark_done :: "'r redis \<Rightarrow> 'r EnricherWorkerOptions \<Rightarrow> string \<Rightarrow> int option \<Rightarrow> ('r, unit) enrich_act" where
  "mark_done r opts k ttl = on_redis (\<lambda>s. ((), markProcessed r (ew_idempotency opts) k ttl s))"

text \<open>
  The body of the try block gives \<open>None\<close> when it returned early, and the promises otherwise.
\<close>

definition requested_body ::
  "'r redis \<Rightarrow> 'r EnricherWorkerOptions \<Rightarrow> enricher_reads \<Rightarrow> NotificationRequestedPayload \<Rightarrow> enrich_message
    \<Rightarrow> ms \<Rightarrow> (nat \<Rightarrow> string) \<Rightarrow> (nat \<Rightarrow> bool) \<Rightarrow> string \<Rightarrow> ('r, publish_promise list option) enrich_act" where
  "requested_body r opts rd raw m now uuid ticks dedupeId =
     bindA (awaited (target_users rd (nr_target raw))) (\<lambda>userIds.
       if length userIds > ew_maxUsers opts
       then thenA (emit (EmitFailed (eg_eventId m)
                (''Segment fan-out of '' @ show_nat (length userIds) @ '' exceeds limit of '' @ show_nat (ew_maxUsers opts))
                (eg_eventType m)))
              (thenA (mark_done r opts dedupeId (dedupeTtl (nr_idempotencyKey raw))) (ret None))
       else bindA (awaited (template_topics_read rd (nr_templateId raw))) (\<lambda>topics.
         let inline = (case nr_target raw of TUser _ \<Rightarrow> ew_inlineNext opts | _ \<Rightarrow> None)
         in bindA (enrich_chunks opts rd raw m topics inline now uuid ticks (chunk_array 500 userIds) [])
              (\<lambda>promises. ret (Some promises))))"

definition with_mark ::
  "'r redis \<Rightarrow> 'r EnricherWorkerOptions \<Rightarrow> string \<Rightarrow> int option
    \<Rightarrow> ('r, publish_promise list option) enrich_act \<Rightarrow> ('r, unit) enrich_act" where
  "with_mark r opts dedupeId ttl body =
     bindA (on_redis (checkAndMark r (ew_idempotency opts) dedupeId (Some 60))) (\<lambda>fresh.
       if \<not> fresh then ret ()
       else bindA (catchA body (\<lambda>err. thenA (unmark_quietly r opts dedupeId) (throw err))) (\<lambda>res.
         case res of
           None \<Rightarrow> ret ()
         | Some promises \<Rightarrow>
             thenA (catchA (await_all promises) (\<lambda>err. thenA (unmark_quietly r opts dedupeId) (throw err)))
                   (mark_done r opts dedupeId ttl)))"

definition process_requested ::
  "'r redis \<Rightarrow> 'r EnricherWorkerOptions \<Rightarrow> enricher_reads \<Rightarrow> NotificationRequestedPayload \<Rightarrow> enrich_message
    \<Rightarrow> ms \<Rightarrow> (nat \<Rightarrow> string) \<Rightarrow> (nat \<Rightarrow> bool) \<Rightarrow> ('r, unit) enrich_act" where
  "process_requested r opts rd raw m now uuid ticks =
     (let dedupeId = dedupe_id (nr_projectId raw) (nr_idempotencyKey raw) m
      in with_mark r opts dedupeId (dedupeTtl (nr_idempotencyKey raw))
           (requested_body r opts rd raw m now uuid ticks dedupeId))"

section \<open>The legacy payload\<close>

definition legacy_payload ::
  "NotificationCreatedPayload \<Rightarrow> enrich_message \<Rightarrow> string list \<Rightarrow> UserRecord \<Rightarrow> NotificationEnrichedPayload" where
  "legacy_payload raw m topics profile =
     \<lparr>en_projectId = nc_projectId raw, en_rawEventId = eg_eventId m, en_recipientId = nc_recipientId raw,
      en_channel = nc_channel raw, en_priority = nc_priority raw, en_templateId = nc_templateId raw,
      en_templateVariables = nc_payload raw, en_recipient = recipient_of topics profile None None,
      en_aiPrompts = None, en_scheduledAt = nc_scheduledAt raw, en_fallbackChain = None, en_contactId = None,
      en_destination = None, en_campaignId = None, en_workflowInstanceId = None, en_throttleCounted = None\<rparr>"

definition process_created ::
  "'r redis \<Rightarrow> 'r EnricherWorkerOptions \<Rightarrow> enricher_reads \<Rightarrow> NotificationCreatedPayload \<Rightarrow> enrich_message
    \<Rightarrow> ('r, unit) enrich_act" where
  "process_created r opts rd raw m =
     (let dedupeId = dedupe_id (nc_projectId raw) (nc_idempotencyKey raw) m
      in with_mark r opts dedupeId (dedupeTtl (nc_idempotencyKey raw))
        (bindA (awaited (er_record rd (nc_recipientId raw))) (\<lambda>profile.
           case profile of
             None \<Rightarrow> ret None
           | Some profile \<Rightarrow>
               bindA (awaited (template_topics_read rd (case nc_templateId raw of Some i \<Rightarrow> i | None \<Rightarrow> []))) (\<lambda>topics.
               bindA (push_event (enriched_producer opts (payload_bucket (nc_priority raw)))
                       (enriched_event m (legacy_payload raw m topics profile)))
                 (\<lambda>t. ret (Some [Queued t]))))))"

text \<open>The payload is a request, or a legacy one, or is dropped.\<close>

definition enricher_process ::
  "'r redis \<Rightarrow> EventPayload EventRegistry \<Rightarrow> 'r EnricherWorkerOptions \<Rightarrow> enricher_reads \<Rightarrow> enrich_message
    \<Rightarrow> ms \<Rightarrow> (nat \<Rightarrow> string) \<Rightarrow> (nat \<Rightarrow> bool) \<Rightarrow> ('r, unit) enrich_act" where
  "enricher_process r registry opts rd m now uuid ticks =
     (case registry_safeParsePayload ''notification.requested'' (eg_payload m) registry of
        Inr (Requested raw) \<Rightarrow> process_requested r opts rd raw m now uuid ticks
      | _ \<Rightarrow> (case registry_safeParsePayload ''notification.created'' (eg_payload m) registry of
          Inr (Created raw) \<Rightarrow> process_created r opts rd raw m
        | _ \<Rightarrow> ret ()))"

text \<open>\<open>startEnricherWorker\<close>: fused, a slot is held through delivery, so it needs delivery's.\<close>

definition enricher_concurrency :: "bool \<Rightarrow> nat \<Rightarrow> nat option \<Rightarrow> nat" where
  "enricher_concurrency fused workerConcurrency deliveryConcurrency =
     (if fused then max workerConcurrency (case deliveryConcurrency of Some d \<Rightarrow> d | None \<Rightarrow> workerConcurrency)
      else workerConcurrency)"


section \<open>The loaders give the directory's answers\<close>

lemma set_unique_in_order [simp]: "set (unique_in_order xs) = set xs"
  by (simp add: unique_in_order_def)

lemma group_rows_snoc:
  "group_rows (rows @ [(k, v)]) = jm_set k (or_empty (jm_get (group_rows rows) k) @ [v]) (group_rows rows)"
  by (simp add: group_rows_def or_empty_def)

lemma group_rows_nil [simp]: "group_rows [] = []"
  by (simp add: group_rows_def)

lemma group_rows_keys: "distinct (map fst (group_rows rows)) \<and> fst ` set (group_rows rows) = fst ` set rows"
proof (induction rows rule: rev_induct)
  case (snoc r rows)
  then show ?case by (cases r) (auto simp: group_rows_snoc distinct_update dom_update)
qed simp

lemma group_rows_member:
  assumes "(k, vs) \<in> set (group_rows rows)"
  shows "vs = map snd (filter (\<lambda>r. fst r = k) rows)"
proof -
  have "jm_get (group_rows rows) k = Some vs" using assms group_rows_keys [of rows] by simp
  with group_rows_get(1) [of rows k] show ?thesis by (simp add: or_empty_def)
qed

lemma group_rows_one:
  assumes "rows \<noteq> []" "\<And>r. r \<in> set rows \<Longrightarrow> fst r = k"
  shows "group_rows rows = [(k, map snd rows)]"
proof -
  have "fst ` set rows = {k}" using assms(1) by (cases rows) (use assms(2) in force)+
  then have keys: "fst ` set (group_rows rows) = {k}" using group_rows_keys [of rows] by simp
  with group_rows_keys [of rows] have "length (group_rows rows) = 1"
    by (metis card.empty card_insert_disjoint distinct_card empty_iff finite.emptyI length_map One_nat_def set_map)
  then obtain g where g: "group_rows rows = [g]" by (auto simp: length_Suc_conv)
  with keys have "fst g = k" by simp
  moreover have "snd g = map snd (filter (\<lambda>r. fst r = fst g) rows)"
    by (rule group_rows_member) (simp add: g)
  moreover have "filter (\<lambda>r. fst r = k) rows = rows" using assms(2) by (simp add: filter_id_conv)
  ultimately show ?thesis using g by (cases g) simp
qed

text \<open>What a client of the repositories may rely on: a read of many users answers for each.\<close>

locale user_directory =
  fixes ok :: "'d \<Rightarrow> bool"
    and find_records :: "'d \<Rightarrow> string \<Rightarrow> string list \<Rightarrow> UserRecord list"
    and find_contacts :: "'d \<Rightarrow> string \<Rightarrow> string list \<Rightarrow> contacts_map"
    and user_of :: "'d \<Rightarrow> string \<Rightarrow> string \<Rightarrow> UserRecord option"
    and contacts_of :: "'d \<Rightarrow> string \<Rightarrow> string \<Rightarrow> UserContact list"
  assumes records: "ok d \<Longrightarrow> u \<in> set ids \<Longrightarrow>
      jm_get (foldl (\<lambda>m r. jm_set (up_userId r) r m) [] (find_records d p ids)) u = user_of d p u"
    and contacts: "ok d \<Longrightarrow> u \<in> set ids \<Longrightarrow> or_empty (jm_get (find_contacts d p ids) u) = contacts_of d p u"
begin

text \<open>A batch of requests of any projects, some of whose queries fail.\<close>

lemma user_batch:
  assumes d: "ok d" and q: "q \<in> set batch" and distinct: "distinct (map uq_ticket batch)"
  shows "map_of (flushUserBatch (\<lambda>p ids. case down p of Some e \<Rightarrow> Inl e | None \<Rightarrow> Inr (find_records d p ids)) batch)
      (uq_ticket q) = Some (case down (uq_projectId q) of
        Some e \<Rightarrow> Inl e | None \<Rightarrow> Inr (user_of d (uq_projectId q) (uq_userId q)))"
proof -
  let ?repo = "\<lambda>p ids. case down p of Some e \<Rightarrow> Inl e | None \<Rightarrow> Inr (find_records d p ids)"
  let ?ans = "\<lambda>q. case down (uq_projectId q) of Some e \<Rightarrow> Inl e | None \<Rightarrow> Inr (user_of d (uq_projectId q) (uq_userId q))"
  let ?rows = "map (\<lambda>b. (uq_projectId b, b)) batch"
  have group: "(case ?repo p (unique_in_order (map uq_userId reqs)) of
         Inl err \<Rightarrow> map (\<lambda>req. (uq_ticket req, Inl err)) reqs
       | Inr profiles \<Rightarrow>
           let profileMap = foldl (\<lambda>m p. jm_set (up_userId p) p m) [] profiles
           in map (\<lambda>req. (uq_ticket req, Inr (jm_get profileMap (uq_userId req)))) reqs)
      = map (\<lambda>q. (uq_ticket q, ?ans q)) reqs" if "(p, reqs) \<in> set (group_rows ?rows)" for p reqs
  proof -
    have p: "uq_projectId q = p" if "q \<in> set reqs" for q
      using group_rows_member [OF \<open>(p, reqs) \<in> _\<close>] that by auto
    show ?thesis by (auto simp: p records [OF d] Let_def split: option.split)
  qed
  have "flushUserBatch ?repo batch = concat (map (\<lambda>(p, reqs). map (\<lambda>q. (uq_ticket q, ?ans q)) reqs) (group_rows ?rows))"
    unfolding flushUserBatch_def by (rule arg_cong [of _ _ concat], rule map_cong) (use group in auto)
  then have rows: "flushUserBatch ?repo batch
      = map (\<lambda>q. (uq_ticket q, ?ans q)) (concat (map snd (group_rows ?rows)))"
    by (simp add: map_concat comp_def case_prod_unfold)
  have set: "set (concat (map snd (group_rows ?rows))) = set batch"
  proof
    show "set (concat (map snd (group_rows ?rows))) \<subseteq> set batch"
      using group_rows_member [of _ _ ?rows] by fastforce
    show "set batch \<subseteq> set (concat (map snd (group_rows ?rows)))"
    proof
      fix b assume b: "b \<in> set batch"
      then have "uq_projectId b \<in> fst ` set (group_rows ?rows)" using group_rows_keys [of ?rows] by force
      then obtain vs where vs: "(uq_projectId b, vs) \<in> set (group_rows ?rows)" by auto
      with b have "b \<in> set vs" using group_rows_member [OF vs] by (auto simp: filter_map comp_def)
      with vs show "b \<in> set (concat (map snd (group_rows ?rows)))" by force
    qed
  qed
  have "map_of (map (\<lambda>q. (uq_ticket q, ?ans q)) qs) (uq_ticket q) = Some (?ans q)" if "q \<in> set qs" "set qs \<subseteq> set batch" for qs
    using that
  proof (induction qs)
    case (Cons x xs)
    show ?case
    proof (cases "uq_ticket x = uq_ticket q")
      case True
      then have "x = q" using Cons.prems q distinct by (auto simp: distinct_map inj_on_def)
      then show ?thesis by simp
    next
      case False
      then show ?thesis using Cons by auto
    qed
  qed simp
  then show ?thesis using rows set q by simp
qed

lemma contact_batch_project:
  assumes d: "ok d" and items: "i \<in> set items" "u \<in> set (cq_userIds i)"
  shows "or_empty (jm_get (find_contacts d p (unique_in_order (concat (map cq_userIds items)))) u) = contacts_of d p u"
  using assms by (intro contacts) auto

end

interpretation dir: user_directory db_ok "\<lambda>db p ids. fst (findRecordsByIds now db p ids new_repo_cache)"
  "\<lambda>db p ids. fst (findActiveByUserIds now db p ids new_repo_cache)"
  "\<lambda>db p u. map_option (user_record db) (find_user db p u)" active_contacts for now
  by unfold_locales (simp_all add: findRecords_one findActive_one)

section \<open>What a request becomes\<close>

text \<open>
  The reads of a run when no lookup fails: the repositories on the tables \<open>db\<close>, the users
  and contacts through a loader batch.
\<close>

definition db_reads :: "ms \<Rightarrow> database \<Rightarrow> string \<Rightarrow> enricher_reads" where
  "db_reads now db projectId =
     \<lparr>er_segment = (\<lambda>s. Inr (findUsersBySegment db projectId s)),
      er_topic = (\<lambda>t. Inr (findUsersByTopic db projectId t)),
      er_template = (\<lambda>i. Inr (template_findById db projectId i)),
      er_record = (\<lambda>u. Inr (fst (findRecordById now db projectId u new_repo_cache))),
      er_user = (\<lambda>u. the (map_of (flushUserBatch
          (\<lambda>p ids. Inr (fst (findRecordsByIds now db p ids new_repo_cache)))
          [\<lparr>uq_projectId = projectId, uq_userId = u, uq_ticket = 0\<rparr>]) 0)),
      er_contacts = (\<lambda>ids. Inr (fst (findActiveByUserIds now db projectId ids new_repo_cache)))\<rparr>"

lemma db_reads_user:
  assumes "db_ok db"
  shows "er_user (db_reads now db p) u = Inr (map_option (user_record db) (find_user db p u))"
proof -
  let ?q = "\<lparr>uq_projectId = p, uq_userId = u, uq_ticket = 0\<rparr>"
  show ?thesis
    using dir.user_batch [OF assms, of ?q "[?q]" now "\<lambda>_. None"] by (simp add: db_reads_def)
qed

lemma db_reads_contacts:
  assumes "db_ok db" "u \<in> set ids"
  obtains m where "er_contacts (db_reads now db p) ids = Inr m" "or_empty (jm_get m u) = active_contacts db p u"
  using dir.contacts [OF assms] by (simp add: db_reads_def)

definition directory_users :: "database \<Rightarrow> string \<Rightarrow> string list \<Rightarrow> UserRecord list" where
  "directory_users db projectId ids = List.map_filter (\<lambda>u. map_option (user_record db) (find_user db projectId u)) ids"

text \<open>The events a request asks for: for every user that exists, the channels, for every channel the addresses.\<close>

definition reached_channels ::
  "NotificationRequestedPayload \<Rightarrow> string list \<Rightarrow> UserContact list \<Rightarrow> NotificationChannel list" where
  "reached_channels raw topics contacts =
     (if nr_fallback raw
      then take 1 (filter (\<lambda>c. usable topics contacts c \<noteq> []) (request_channels raw))
      else request_channels raw)"

definition addresses :: "string list \<Rightarrow> UserContact list \<Rightarrow> NotificationChannel \<Rightarrow> UserContact option list" where
  "addresses topics contacts channel = (if channel = Push then [None] else map Some (usable topics contacts channel))"

text \<open>The channels that are left when the first reachable one fails.\<close>

definition chain_behind :: "NotificationRequestedPayload \<Rightarrow> string list \<Rightarrow> UserContact list \<Rightarrow> NotificationChannel list option" where
  "chain_behind raw topics contacts =
     (if nr_fallback raw
      then Some (tl (dropWhile (\<lambda>c. usable topics contacts c = []) (request_channels raw))) else None)"

definition fan_out ::
  "database \<Rightarrow> NotificationRequestedPayload \<Rightarrow> enrich_message \<Rightarrow> string list \<Rightarrow> string list \<Rightarrow> NotificationEnrichedPayload list" where
  "fan_out db raw m topics ids =
     [enriched_payload raw m topics profile channel (chain_behind raw topics contacts) contact.
        profile \<leftarrow> directory_users db (nr_projectId raw) ids,
        contacts \<leftarrow> [active_contacts db (nr_projectId raw) (up_userId profile)],
        channel \<leftarrow> reached_channels raw topics contacts,
        contact \<leftarrow> addresses topics contacts channel]"

lemma first_reached: "take 1 (filter P xs) = (case dropWhile (\<lambda>x. \<not> P x) xs of [] \<Rightarrow> [] | x # _ \<Rightarrow> [x])"
  by (induction xs) auto

lemma channel_payloads_addresses:
  "channel_payloads raw m topics contacts profile chain =
     (\<lambda>channel. map (enriched_payload raw m topics profile channel chain) (addresses topics contacts channel))"
  by (rule ext) (simp add: channel_payloads_def addresses_def Let_def)

lemma user_payloads_reached:
  "user_payloads raw m topics contacts profile =
     concat (map (\<lambda>channel. map (enriched_payload raw m topics profile channel (chain_behind raw topics contacts))
       (addresses topics contacts channel)) (reached_channels raw topics contacts))"
proof -
  have "take 1 (filter (\<lambda>c. usable topics contacts c \<noteq> []) (request_channels raw)) =
      (case dropWhile (\<lambda>c. usable topics contacts c = []) (request_channels raw) of [] \<Rightarrow> [] | x # _ \<Rightarrow> [x])"
    using first_reached [of "\<lambda>c. usable topics contacts c \<noteq> []" "request_channels raw"] by simp
  then show ?thesis
    unfolding user_payloads_def channel_payloads_addresses reached_channels_def chain_behind_def Let_def
    by (cases "dropWhile (\<lambda>c. usable topics contacts c = []) (request_channels raw)")
      (simp_all del: dropWhile_eq_Nil_conv)
qed

lemma fan_out_users:
  "fan_out db raw m topics ids = concat (map (\<lambda>profile. user_payloads raw m topics
     (active_contacts db (nr_projectId raw) (up_userId profile)) profile) (directory_users db (nr_projectId raw) ids))"
  by (simp add: fan_out_def user_payloads_reached)

section \<open>Buffering and flushing keep the order\<close>

definition outbox :: "'r enricher_world \<Rightarrow> enrich_effect list" where
  "outbox w = w_log w @ map (\<lambda>b. Enrich (be_producer b) (be_event b)) (en_buffer w)"

definition promise_ok :: "'r enricher_world \<Rightarrow> publish_promise \<Rightarrow> bool" where
  "promise_ok w p = (case p of Ran _ \<Rightarrow> False
     | Queued t \<Rightarrow> jm_get (en_settled w) t = Some None \<or> t \<in> be_ticket ` set (en_buffer w))"

definition lane :: "StreamName \<Rightarrow> 'r \<Rightarrow> enrich_effect list \<Rightarrow> publish_promise list \<Rightarrow> 'r enricher_world \<Rightarrow> bool" where
  "lane P R L promises w \<longleftrightarrow> no_faults w \<and> w_redis w = R \<and> outbox w = L
     \<and> (\<forall>b \<in> set (en_buffer w). be_producer b = P \<and> Queued (be_ticket b) \<in> set promises \<and> be_ticket b < en_tickets w \<and> jm_get (en_settled w) (be_ticket b) = None)
     \<and> (\<forall>t \<ge> en_tickets w. jm_get (en_settled w) t = None)
     \<and> list_all (promise_ok w) promises"

lemma settle_get: "jm_get (settle r m t) u = (if u = t \<and> jm_get m t = None then Some r else jm_get m u)"
  by (simp add: settle_def update_conv')

lemma settles_get: "jm_get (foldl (settle r) m ts) u = (if u \<in> set ts \<and> jm_get m u = None then Some r else jm_get m u)"
  by (induction ts arbitrary: m) (auto simp: settle_get)

lemma flush_lane:
  assumes "lane P R L promises w"
  shows "\<exists>w'. flushWorkerBuffers w = (Inr (), w') \<and> lane P R L promises w' \<and> en_buffer w' = []"
proof (cases "en_buffer w = []")
  case True
  then show ?thesis using assms by (simp add: flushWorkerBuffers_def bindA_def gets_def ret_def)
next
  case False
  let ?b = "en_buffer w"
  define w' where "w' = w\<lparr>en_buffer := [], w_step := Suc (w_step w),
     w_log := w_log w @ map (\<lambda>b. Enrich P (be_event b)) ?b,
     en_settled := foldl (settle None) (en_settled w) (map be_ticket ?b)\<rparr>"
  have g: "group_rows (map (\<lambda>e. (be_producer e, e)) ?b) = [(P, ?b)]"
  proof -
    have "fst r = P" if "r \<in> set (map (\<lambda>e. (be_producer e, e)) ?b)" for r
      using that assms by (auto simp: lane_def)
    with False show ?thesis by (subst group_rows_one [of _ P]) (simp_all add: comp_def)
  qed
  have "flushWorkerBuffers w = (Inr (), w')"
    using False assms
    by (simp add: flushWorkerBuffers_def g lane_def no_faults_def action_defs publish_events_def settle_events_def
        Let_def w'_def)
  moreover have "outbox w' = L"
  proof -
    have "map (\<lambda>b. Enrich (be_producer b) (be_event b)) ?b = map (\<lambda>b. Enrich P (be_event b)) ?b"
      using assms by (auto simp: lane_def)
    moreover have "w_log w @ map (\<lambda>b. Enrich (be_producer b) (be_event b)) ?b = L"
      using assms by (simp add: outbox_def lane_def)
    ultimately have "w_log w @ map (\<lambda>b. Enrich P (be_event b)) ?b = L" by (simp only:)
    then show ?thesis by (simp add: outbox_def w'_def)
  qed
  moreover have "list_all (promise_ok w') promises"
  proof -
    have "promise_ok w' p" if "promise_ok w p" for p
    proof (cases p)
      case (Queued t)
      then have "jm_get (en_settled w) t = Some None \<or> jm_get (en_settled w) t = None \<and> t \<in> be_ticket ` set ?b"
        using that assms by (auto simp: promise_ok_def lane_def)
      then show ?thesis by (auto simp: Queued promise_ok_def w'_def settles_get)
    qed (use that in \<open>simp add: promise_ok_def\<close>)
    then show ?thesis using assms by (auto simp: lane_def list_all_iff)
  qed
  ultimately show ?thesis using assms
    by (auto simp: lane_def no_faults_def w'_def settles_get intro!: exI [of _ w'])
qed

lemma push_lane:
  assumes "lane P R L promises w"
  shows "\<exists>t w'. push_event P e w = (Inr t, w') \<and> lane P R (L @ [Enrich P e]) (promises @ [Queued t]) w'"
  using assms by (auto simp: push_event_def lane_def no_faults_def outbox_def promise_ok_def list_all_iff
      split: publish_promise.splits) (fastforce+)?

lemma send_events_lane:
  assumes "lane P R L promises w"
  shows "\<exists>ps w'. send_events opts None P now uuid evs promises w = (Inr ps, w')
    \<and> lane P R (L @ map (Enrich P) evs) ps w'"
  using assms
proof (induction evs arbitrary: promises L w)
  case Nil
  then show ?case by (simp add: ret_def)
next
  case (Cons ev evs)
  from push_lane [OF Cons.prems, of ev] obtain t w1 where
    1: "push_event P ev w = (Inr t, w1)" "lane P R (L @ [Enrich P ev]) (promises @ [Queued t]) w1" by blast
  from Cons.IH [OF 1(2)] 1(1) show ?case by (simp add: bindA_def)
qed

lemma maybe_flush_lane:
  "lane P R L promises w \<Longrightarrow> \<exists>w'. (if b then flushWorkerBuffers else ret ()) w = (Inr (), w') \<and> lane P R L promises w'"
  using flush_lane [of P R L promises w] by (cases b) (auto simp: ret_def)

lemma send_bucket_lane:
  assumes "lane P R L promises w"
  shows "\<exists>ps w'. (bindA (send_events opts None P now uuid evs promises) (\<lambda>promises.
           thenA (bindA (gets en_buffer) (\<lambda>buf.
               if length buf \<ge> min (ew_concurrency opts) 50 then flushWorkerBuffers else ret ()))
             (ret promises))) w = (Inr ps, w')
    \<and> lane P R (L @ map (Enrich P) evs) ps w'"
proof -
  from send_events_lane [OF assms, of opts now uuid evs] obtain ps w1 where
    1: "send_events opts None P now uuid evs promises w = (Inr ps, w1)"
    "lane P R (L @ map (Enrich P) evs) ps w1" by blast
  from maybe_flush_lane [OF 1(2), of "length (en_buffer w1) \<ge> min (ew_concurrency opts) 50"] 1(1)
  show ?thesis by (auto simp: bindA_def thenA_def gets_def ret_def)
qed

text \<open>All events of a message are in one lane.\<close>

lemma send_buckets_lane:
  assumes "lane P R L promises w" "enriched_producer opts p = P"
  shows "\<exists>ps w'. send_buckets opts None now uuid (map (\<lambda>e. (p, e)) evs) [Critical, Normal, Low] promises w = (Inr ps, w')
    \<and> lane P R (L @ map (Enrich P) evs) ps w'"
proof (cases "evs = []")
  case True
  then show ?thesis using assms(1) by (simp add: ret_def)
next
  case False
  have f: "map snd (filter (\<lambda>b. fst b = q) (map (\<lambda>e. (p, e)) evs)) = (if q = p then evs else [])" for q
    by (induction evs) auto
  have "send_buckets opts None now uuid (map (\<lambda>e. (p, e)) evs) [Critical, Normal, Low] promises =
      bindA (send_events opts None P now uuid evs promises) (\<lambda>promises.
           thenA (bindA (gets en_buffer) (\<lambda>buf.
               if length buf \<ge> min (ew_concurrency opts) 50 then flushWorkerBuffers else ret ()))
             (ret promises))"
    using False assms(2) by (cases p) (simp_all add: f Let_def comp_def del: filter_map)
  with send_bucket_lane [OF assms(1), of opts now uuid evs] show ?thesis by simp
qed

lemma load_users_directory:
  "db_ok db \<Longrightarrow> load_users (db_reads now db p) ids = Inr (directory_users db p ids)"
  by (induction ids) (auto simp: db_reads_user directory_users_def map_filter_simps split: option.split)

lemma directory_users_append: "directory_users db p (xs @ ys) = directory_users db p xs @ directory_users db p ys"
  by (simp add: directory_users_def map_filter_def)

lemma fan_out_append: "fan_out db raw m topics (xs @ ys) = fan_out db raw m topics xs @ fan_out db raw m topics ys"
  by (simp add: fan_out_def directory_users_append)

lemma fan_out_nil [simp]: "fan_out db raw m topics [] = []"
  by (simp add: fan_out_def directory_users_def map_filter_def)

lemma enrich_chunk_lane:
  assumes "lane P R L promises w" "db_ok db" "enriched_producer opts (payload_bucket (nr_priority raw)) = P"
  shows "\<exists>ps w'. enrich_chunk opts (db_reads now0 db (nr_projectId raw)) raw m topics None now uuid tick chunk promises w
      = (Inr ps, w') \<and> lane P R (L @ map (Enrich P \<circ> enriched_event m) (fan_out db raw m topics chunk)) ps w'"
proof -
  let ?p = "payload_bucket (nr_priority raw)" and ?us = "directory_users db (nr_projectId raw) chunk"
  let ?rd = "db_reads now0 db (nr_projectId raw)"
  obtain c where c: "er_contacts ?rd (map up_userId ?us) = Inr c"
    and get: "\<And>u. u \<in> set ?us \<Longrightarrow> or_empty (jm_get c (up_userId u)) = active_contacts db (nr_projectId raw) (up_userId u)"
    using dir.contacts [OF assms(2), of _ "map up_userId ?us" now0 "nr_projectId raw"] by (auto simp: db_reads_def)
  have batched: "concat (map (\<lambda>profile. map (\<lambda>pl. (?p, enriched_event m pl))
        (user_payloads raw m topics (or_empty (jm_get c (up_userId profile))) profile)) ?us)
      = map (\<lambda>e. (?p, e)) (map (enriched_event m) (fan_out db raw m topics chunk))"
    unfolding fan_out_users map_concat map_map comp_def
    by (intro arg_cong [of _ _ concat] map_cong) (auto simp: get map_concat comp_def)
  obtain w1 where 1: "(if tick then flushWorkerBuffers else ret ()) w = (Inr (), w1)" "lane P R L promises w1"
    using maybe_flush_lane [OF assms(1)] by blast
  from send_buckets_lane [OF 1(2) assms(3), of now uuid "map (enriched_event m) (fan_out db raw m topics chunk)"]
  obtain ps w' where 2: "send_buckets opts None now uuid
        (map (\<lambda>e. (?p, e)) (map (enriched_event m) (fan_out db raw m topics chunk))) [Critical, Normal, Low] promises w1
        = (Inr ps, w')"
      "lane P R (L @ map (Enrich P) (map (enriched_event m) (fan_out db raw m topics chunk))) ps w'"
    by blast
  show ?thesis using 1(1) 2
    by (simp add: enrich_chunk_def thenA_def bindA_def awaited_def load_users_directory [OF assms(2)] c batched Let_def
        del: send_buckets.simps map_map) (simp add: comp_def)
qed

lemma enrich_chunks_lane:
  assumes "lane P R L promises w" "db_ok db" "enriched_producer opts (payload_bucket (nr_priority raw)) = P"
  shows "\<exists>ps w'. enrich_chunks opts (db_reads now0 db (nr_projectId raw)) raw m topics None now uuid ticks chunks promises w
      = (Inr ps, w') \<and> lane P R (L @ map (Enrich P \<circ> enriched_event m) (fan_out db raw m topics (concat chunks))) ps w'"
  using assms(1)
proof (induction chunks arbitrary: L promises w)
  case Nil
  then show ?case by (simp add: ret_def)
next
  case (Cons c cs)
  from enrich_chunk_lane [OF Cons.prems assms(2,3), of now0 m topics now uuid "ticks (length cs)" c]
  obtain ps w1 where 1: "enrich_chunk opts (db_reads now0 db (nr_projectId raw)) raw m topics None now uuid (ticks (length cs)) c promises w
      = (Inr ps, w1)"
    "lane P R (L @ map (Enrich P \<circ> enriched_event m) (fan_out db raw m topics c)) ps w1" by blast
  from Cons.IH [OF 1(2)] obtain ps' w' where
    2: "enrich_chunks opts (db_reads now0 db (nr_projectId raw)) raw m topics None now uuid ticks cs ps w1 = (Inr ps', w')"
    "lane P R ((L @ map (Enrich P \<circ> enriched_event m) (fan_out db raw m topics c))
       @ map (Enrich P \<circ> enriched_event m) (fan_out db raw m topics (concat cs))) ps' w'" by blast
  then show ?case using 1(1) by (simp add: bindA_def fan_out_append comp_def)
qed

text \<open>The chunks are a partition of the users in order.\<close>

lemma chunk_array_concat:
  assumes "0 < n"
  shows "concat (chunk_array n xs) = xs"
proof -
  have part: "concat (map (\<lambda>i. take n (drop (i * n) xs)) [0..<k]) = take (k * n) xs" for k
    by (induction k) (simp_all add: take_add [symmetric] add.commute)
  have "length xs \<le> (length xs + n - 1) div n * n"
  proof -
    have "(length xs + n - 1) div n * n + (length xs + n - 1) mod n = length xs + n - 1" by simp
    moreover have "(length xs + n - 1) mod n < n" using assms by simp
    ultimately show ?thesis using assms by linarith
  qed
  then show ?thesis by (simp add: chunk_array_def part)
qed

lemma first_error_ok: "list_all (\<lambda>r. r = Some (Inr ())) rs \<Longrightarrow> first_error rs = Inr ()"
  by (induction rs rule: first_error.induct) auto

lemma await_all_lane:
  assumes "lane P R L promises w"
  shows "\<exists>w'. await_all promises w = (Inr (), w') \<and> lane P R L promises w' \<and> en_buffer w' = []"
proof -
  let ?q = "list_ex (\<lambda>p. case p of Queued _ \<Rightarrow> True | Ran _ \<Rightarrow> False) promises"
  have q: "?q \<longleftrightarrow> promises \<noteq> []"
    using assms by (cases promises) (auto simp: lane_def promise_ok_def split: publish_promise.splits)
  obtain w' where w': "(if ?q then flushWorkerBuffers else ret ()) w = (Inr (), w')" "lane P R L promises w'"
    "en_buffer w' = []"
  proof (cases "promises = []")
    case True
    then have "en_buffer w = []" using assms by (cases "en_buffer w") (auto simp: lane_def)
    with True show ?thesis using that [of w] assms by (simp add: ret_def)
  next
    case False
    then show ?thesis using that flush_lane [OF assms] q by auto
  qed
  have "list_all (\<lambda>r. r = Some (Inr ())) (map (promise_result w') promises)"
    using w'(2,3) by (auto simp: lane_def list_all_iff promise_ok_def promise_result_def split: publish_promise.splits)
  then have "first_error (map (promise_result w') promises) = Inr ()" by (rule first_error_ok)
  then show ?thesis using w' by (simp add: await_all_def thenA_def bindA_def)
qed

section \<open>Requests and their marks\<close>

lemma check_fresh:
  assumes "redis_string_laws r" "no_faults w" "GET r (ig_key g k) (w_redis w) = None"
  shows "on_redis (checkAndMark r g k (Some 60)) w
    = (Inr True, w\<lparr>w_step := Suc (w_step w), w_redis := SET_EX r (ig_key g k) ''1'' 60 (w_redis w)\<rparr>)"
  using assms by (simp add: on_redis_def attempt_def Let_def no_faults_def checkAndMark_def ig_ttl_def set_nx_cases)

lemma check_taken:
  assumes "redis_string_laws r" "no_faults w" "GET r (ig_key g k) (w_redis w) = Some v"
  shows "on_redis (checkAndMark r g k (Some 60)) w = (Inr False, w\<lparr>w_step := Suc (w_step w)\<rparr>)"
  using assms by (simp add: on_redis_def attempt_def Let_def no_faults_def checkAndMark_def ig_ttl_def set_nx_cases)

definition request_key :: "'r EnricherWorkerOptions \<Rightarrow> NotificationRequestedPayload \<Rightarrow> enrich_message \<Rightarrow> string" where
  "request_key opts raw m = ig_key (ew_idempotency opts) (dedupe_id (nr_projectId raw) (nr_idempotencyKey raw) m)"

definition template_topics_of :: "database \<Rightarrow> NotificationRequestedPayload \<Rightarrow> string list" where
  "template_topics_of db raw =
     (if nr_templateId raw = [] then []
      else case template_findById db (nr_projectId raw) (nr_templateId raw) of None \<Rightarrow> [] | Some t \<Rightarrow> tr_topics t)"

definition target_ids :: "database \<Rightarrow> NotificationRequestedPayload \<Rightarrow> string list" where
  "target_ids db raw = (case nr_target raw of TUser u \<Rightarrow> [u]
     | TSegment s \<Rightarrow> findUsersBySegment db (nr_projectId raw) s | TTopic t \<Rightarrow> findUsersByTopic db (nr_projectId raw) t)"

lemma requested_body_lane:
  assumes "lane P R L [] w" "db_ok db" "enriched_producer opts (payload_bucket (nr_priority raw)) = P"
    and "length (target_ids db raw) \<le> ew_maxUsers opts" "ew_inlineNext opts = None"
  shows "\<exists>ps w'. requested_body r opts (db_reads now0 db (nr_projectId raw)) raw m now uuid ticks k w = (Inr (Some ps), w')
    \<and> lane P R (L @ map (Enrich P \<circ> enriched_event m) (fan_out db raw m (template_topics_of db raw) (target_ids db raw))) ps w'"
proof -
  let ?rd = "db_reads now0 db (nr_projectId raw)"
  have ids: "target_users ?rd (nr_target raw) = Inr (target_ids db raw)"
    by (simp add: target_users_def target_ids_def db_reads_def split: NotificationTarget.split)
  have topics: "template_topics_read ?rd (nr_templateId raw) = Inr (template_topics_of db raw)"
    by (simp add: template_topics_read_def template_topics_of_def db_reads_def split: option.split)
  have inline: "(case nr_target raw of TUser _ \<Rightarrow> ew_inlineNext opts | _ \<Rightarrow> None) = None"
    using assms(5) by (simp split: NotificationTarget.split)
  from enrich_chunks_lane [OF assms(1-3), of now0 m "template_topics_of db raw" now uuid ticks "chunk_array 500 (target_ids db raw)"]
  obtain ps w' where 1: "enrich_chunks opts ?rd raw m (template_topics_of db raw) None now uuid ticks
        (chunk_array 500 (target_ids db raw)) [] w = (Inr ps, w')"
      "lane P R (L @ map (Enrich P \<circ> enriched_event m) (fan_out db raw m (template_topics_of db raw) (target_ids db raw))) ps w'"
    by (auto simp: chunk_array_concat)
  show ?thesis unfolding requested_body_def bindA_def awaited_def ids topics inline Let_def
    using 1 assms(4) by (simp add: bindA_def awaited_def inline ret_def)
qed

text \<open>
  C2: Fan-out. When no call fails and the target has at most the allowed number of users, a
  request that is not a duplicate publishes exactly one event for every user of the project
  the target names, every channel that applies (with fallback the first reachable one, the
  rest behind it) and every active address there that has not opted out of the template's
  topics, in that order, to the lane of its priority: whatever the chunks, the batches of the
  loaders and the flushes of the buffer. Nothing is left in the buffer.
\<close>
theorem enricher_reaches_every_address:
  assumes "redis_string_laws r" "db_ok db" "no_faults w" "en_buffer w = []"
    and "\<And>t. en_tickets w \<le> t \<Longrightarrow> jm_get (en_settled w) t = None"
    and "GET r (request_key opts raw m) (w_redis w) = None"
    and "length (target_ids db raw) \<le> ew_maxUsers opts" "ew_inlineNext opts = None"
    and "process_requested r opts (db_reads now0 db (nr_projectId raw)) raw m now uuid ticks w = (res, w')"
  shows "res = Inr () \<and> en_buffer w' = [] \<and> w_log w' = w_log w
    @ map (Enrich (enriched_producer opts (payload_bucket (nr_priority raw))) \<circ> enriched_event m)
        (fan_out db raw m (template_topics_of db raw) (target_ids db raw))"
proof -
  let ?P = "enriched_producer opts (payload_bucket (nr_priority raw))"
  let ?k = "dedupe_id (nr_projectId raw) (nr_idempotencyKey raw) m" and ?rd = "db_reads now0 db (nr_projectId raw)"
  let ?L = "w_log w @ map (Enrich ?P \<circ> enriched_event m) (fan_out db raw m (template_topics_of db raw) (target_ids db raw))"
  define w1 where "w1 = w\<lparr>w_step := Suc (w_step w), w_redis := SET_EX r (request_key opts raw m) ''1'' 60 (w_redis w)\<rparr>"
  have check: "on_redis (checkAndMark r (ew_idempotency opts) ?k (Some 60)) w = (Inr True, w1)"
    using check_fresh [OF assms(1,3)] assms(6) by (simp add: request_key_def w1_def)
  have "lane ?P (w_redis w1) (w_log w) [] w1"
    using assms(3,4,5) by (auto simp: lane_def w1_def no_faults_def outbox_def)
  from requested_body_lane [OF this assms(2) refl assms(7,8), of r now0 m now uuid ticks ?k]
  obtain ps w2 where 2: "requested_body r opts ?rd raw m now uuid ticks ?k w1 = (Inr (Some ps), w2)"
    "lane ?P (w_redis w1) ?L ps w2" by blast
  from await_all_lane [OF 2(2)] obtain w3 where 3: "await_all ps w2 = (Inr (), w3)" "lane ?P (w_redis w1) ?L ps w3"
    "en_buffer w3 = []" by blast
  have "process_requested r opts ?rd raw m now uuid ticks w =
      mark_done r opts ?k (dedupeTtl (nr_idempotencyKey raw)) w3"
    using check 2(1) 3(1) by (simp add: process_requested_def with_mark_def bindA_def catchA_def thenA_def Let_def)
  then show ?thesis using assms(9) 3(2,3)
    by (auto simp: mark_done_def on_redis_def attempt_def Let_def lane_def no_faults_def outbox_def)
qed

section \<open>Duplicates and redelivery\<close>

definition held :: "'r redis \<Rightarrow> string \<Rightarrow> 'r enricher_world \<Rightarrow> bool" where
  "held r k w \<longleftrightarrow> no_faults w \<and> GET r k (w_redis w) = Some ''1''"

lemma keep_start: "keeps P m \<Longrightarrow> keeps P (start m)"
  by (auto simp: keeps_def start_def split: prod.split)

lemma keep_held_buffer:
  "keeps (held r k) (push_event P e)" "keeps (held r k) (publish_events P b)"
  "keeps (held r k) (settle_events x b)" "keeps (held r k) (emit y)"
  "keeps (held r k) (modify (\<lambda>w. w\<lparr>en_buffer := []\<rparr>))"
  by (auto simp: keeps_def held_def no_faults_def push_event_def publish_events_def settle_events_def action_defs
      Let_def split: option.split)

lemma keep_held_flush: "keeps (held r k) flushWorkerBuffers"
  unfolding flushWorkerBuffers_def case_prod_unfold
  by (intro keep_intros keep_held_buffer)

lemma keep_held_send_events:
  "(\<And>f ev. inline = Some f \<Longrightarrow> keeps (held r k) (f ev)) \<Longrightarrow>
    keeps (held r k) (send_events opts inline producer now uuid evs promises)"
proof (induction evs arbitrary: promises)
  case (Cons ev evs)
  then show ?case
    by (cases inline) (auto intro!: keep_bind keep_start keep_held_buffer)
qed (simp add: keep_ret)

lemma keep_held_send_buckets:
  "(\<And>f ev. inline = Some f \<Longrightarrow> keeps (held r k) (f ev)) \<Longrightarrow>
    keeps (held r k) (send_buckets opts inline now uuid batched ps promises)"
proof (induction ps arbitrary: promises)
  case (Cons p ps)
  then show ?case
    by (auto simp: Let_def intro!: keep_bind keep_then keep_gets keep_if keep_ret keep_held_flush keep_held_send_events)
qed (simp add: keep_ret)

lemma keep_held_chunks:
  assumes "\<And>f ev. inline = Some f \<Longrightarrow> keeps (held r k) (f ev)"
  shows "keeps (held r k) (enrich_chunks opts rd raw m topics inline now uuid ticks cs promises)"
proof (induction cs arbitrary: promises)
  case (Cons c cs)
  then show ?case
    by (auto simp: enrich_chunk_def Let_def simp del: send_buckets.simps intro!: keep_bind keep_then keep_if keep_awaited keep_ret keep_held_flush
        keep_held_send_buckets assms)
qed (simp add: keep_ret)

lemma keep_held_redis:
  assumes "\<And>s. GET r k s = Some ''1'' \<Longrightarrow> GET r k (snd (f s)) = Some ''1''"
  shows "keeps (held r k) (on_redis f)"
  using assms by (auto simp: keeps_def held_def no_faults_def on_redis_def attempt_def Let_def split: prod.split)
    (metis snd_conv)

lemma ttl_positive: "0 < ig_ttlSeconds g \<Longrightarrow> 0 < ig_ttl g (dedupeTtl x)"
  by (auto simp: dedupeTtl_def ig_ttl_def CALLER_KEY_TTL_SECONDS_def split: option.split list.split)

lemma keep_held_done:
  assumes "redis_string_laws r" "0 < ig_ttlSeconds (ew_idempotency opts)"
  shows "keeps (held r (ig_key (ew_idempotency opts) i)) (mark_done r opts i (dedupeTtl x))"
  unfolding mark_done_def
  by (rule keep_held_redis) (simp add: markProcessed_def get_set [OF assms(1)] ttl_positive [OF assms(2)])

lemma keep_held_body:
  assumes "redis_string_laws r" "0 < ig_ttlSeconds (ew_idempotency opts)"
    and "\<And>f ev. ew_inlineNext opts = Some f \<Longrightarrow> keeps (held r (ig_key (ew_idempotency opts) i)) (f ev)"
  shows "keeps (held r (ig_key (ew_idempotency opts) i)) (requested_body r opts rd raw m now uuid ticks i)"
  unfolding requested_body_def Let_def
  by (intro keep_bind keep_awaited keep_if keep_then keep_held_buffer keep_held_done [OF assms(1,2)] keep_ret
      keep_held_chunks) (simp split: NotificationTarget.splits add: assms(3))

lemma keep_held_await: "keeps (held r k) (await_all promises)"
  unfolding await_all_def
  by (intro keep_then keep_if keep_held_flush keep_ret) (simp add: keeps_def)

lemma unmark_then_throw:
  assumes "redis_string_laws r" "held r (ig_key (ew_idempotency opts) i) v"
  shows "\<exists>w. thenA (unmark_quietly r opts i) (throw err) v = (Inl err, w)
    \<and> GET r (ig_key (ew_idempotency opts) i) (w_redis w) = None"
  using assms by (simp add: unmark_quietly_def ignore_errors_def catchA_def thenA_def bindA_def throw_def ret_def
      on_redis_def attempt_def Let_def held_def no_faults_def unmark_def get_del)

text \<open>A mark taken by a run whose body keeps it.\<close>

lemma with_mark_settles:
  assumes laws: "redis_string_laws r" "0 < ig_ttlSeconds (ew_idempotency opts)" and w: "no_faults w"
    and fresh: "GET r (ig_key (ew_idempotency opts) i) (w_redis w) = None"
    and body: "keeps (held r (ig_key (ew_idempotency opts) i)) body"
    and run: "with_mark r opts i (dedupeTtl x) body w = (res, w')"
  shows "case res of
      Inr _ \<Rightarrow> held r (ig_key (ew_idempotency opts) i) w'
    | Inl _ \<Rightarrow> GET r (ig_key (ew_idempotency opts) i) (w_redis w') = None"
proof -
  let ?k = "ig_key (ew_idempotency opts) i"
  note undo = unmark_then_throw [OF laws(1)]
  define w1 where "w1 = w\<lparr>w_step := Suc (w_step w), w_redis := SET_EX r ?k ''1'' 60 (w_redis w)\<rparr>"
  have check: "on_redis (checkAndMark r (ew_idempotency opts) i (Some 60)) w = (Inr True, w1)"
    using check_fresh [OF laws(1) w fresh] by (simp add: w1_def)
  have h1: "held r ?k w1" using laws w by (simp add: held_def w1_def no_faults_def get_set)
  obtain br w2 where b: "body w1 = (br, w2)" by force
  have h2: "held r ?k w2" by (rule keeps_run [OF body h1 b])
  show ?thesis
  proof (cases br)
    case (Inl e)
    obtain v where "thenA (unmark_quietly r opts i) (throw e) w2 = (Inl e :: exn + publish_promise list option, v)"
      "GET r ?k (w_redis v) = None" using undo [OF h2] by blast
    with Inl show ?thesis using run check b by (auto simp: with_mark_def bindA_def catchA_def)
  next
    case (Inr p)
    show ?thesis
    proof (cases p)
      case None
      then show ?thesis using run check b Inr h2 by (auto simp: with_mark_def bindA_def catchA_def ret_def)
    next
      case (Some promises)
      obtain ar w3 where a: "await_all promises w2 = (ar, w3)" by force
      have h3: "held r ?k w3" by (rule keeps_run [OF keep_held_await h2 a])
      show ?thesis
      proof (cases ar)
        case (Inl e)
        obtain v where "thenA (unmark_quietly r opts i) (throw e) w3 = (Inl e :: exn + unit, v)"
          "GET r ?k (w_redis v) = None" using undo [OF h3] by blast
        then show ?thesis using run check b \<open>br = Inr p\<close> Some a Inl
          by (auto simp: with_mark_def bindA_def catchA_def thenA_def [of _ "mark_done r opts i (dedupeTtl x)"])
      next
        case (Inr u)
        obtain dr w4 where d: "mark_done r opts i (dedupeTtl x) w3 = (dr, w4)" by force
        have "held r ?k w4" by (rule keeps_run [OF keep_held_done [OF laws] h3 d])
        moreover have "dr = Inr ()" using d h3
          by (auto simp: mark_done_def on_redis_def attempt_def Let_def held_def no_faults_def)
        ultimately show ?thesis using run check b \<open>br = Inr p\<close> Some a Inr d
          by (auto simp: with_mark_def bindA_def catchA_def thenA_def)
      qed
    qed
  qed
qed

lemma with_mark_duplicate:
  assumes "redis_string_laws r" "held r (ig_key (ew_idempotency opts) i) w"
  shows "with_mark r opts i ttl body w = (Inr (), w\<lparr>w_step := Suc (w_step w)\<rparr>)"
  using check_taken [OF assms(1), of w "ew_idempotency opts" i "''1''"] assms(2)
  by (simp add: with_mark_def bindA_def held_def ret_def)


text \<open>
  Batching users across messages changes no answer: in a batch of requests of several
  projects, every request is settled with the record of its own user in its own project, or
  with the error of its own project's query; no other request of the batch matters.
\<close>
theorem user_batch_isolates_projects:
  assumes "db_ok db" "q \<in> set batch" "distinct (map uq_ticket batch)"
  shows "map_of (flushUserBatch (\<lambda>p ids. case down p of Some e \<Rightarrow> Inl e
        | None \<Rightarrow> Inr (fst (findRecordsByIds now db p ids new_repo_cache))) batch) (uq_ticket q)
    = Some (case down (uq_projectId q) of Some e \<Rightarrow> Inl e
        | None \<Rightarrow> Inr (map_option (user_record db) (find_user db (uq_projectId q) (uq_userId q))))"
  using assms by (rule dir.user_batch)

section \<open>A concrete run\<close>

definition ex_users :: database where
  "ex_users = \<lparr>db_users = [\<lparr>us_id = ''i1'', us_projectId = ''p1'', us_externalId = ''u1'', us_attributes = []\<rparr>,
       \<lparr>us_id = ''i2'', us_projectId = ''p2'', us_externalId = ''u1'', us_attributes = []\<rparr>],
     db_segments = [(''i1'', ''beta''), (''i2'', ''beta'')], db_topics = [], db_channels = [], db_quietHours = [],
     db_contacts = [\<lparr>uc_id = ''c1'', uc_userId = ''i1'', uc_channel = Email, uc_target = ''a@b.c'', uc_enabled = True\<rparr>,
       \<lparr>uc_id = ''c2'', uc_userId = ''i1'', uc_channel = Sms, uc_target = ''5550100'', uc_enabled = True\<rparr>,
       \<lparr>uc_id = ''c3'', uc_userId = ''i2'', uc_channel = Sms, uc_target = ''5550199'', uc_enabled = True\<rparr>],
     db_contactTopics = [], db_templates = [], db_suppressions = []\<rparr>"

definition ex_request :: NotificationRequestedPayload where
  "ex_request = \<lparr>nr_projectId = ''p1'', nr_target = TSegment ''beta'', nr_templateId = ''t'', nr_priority = PCritical,
     nr_channels = Some [Sms, Email], nr_data = [], nr_fallback = True, nr_aiPrompts = None, nr_scheduledAt = None,
     nr_idempotencyKey = Some ''k1'', nr_campaignId = None, nr_workflowInstanceId = None\<rparr>"

definition ex_enrich_message :: enrich_message where
  "ex_enrich_message = \<lparr>eg_eventId = ''e1'', eg_eventType = ''notification.requested'', eg_traceId = ''t1'', eg_payload = JNull\<rparr>"

definition ex_enricher :: "mem_store EnricherWorkerOptions" where
  "ex_enricher = \<lparr>ew_producers = (\<lambda>b. Some (ENRICHED b)),
     ew_idempotency = idempotency_guard_new ''notif:processed:enricher'' None, ew_concurrency = 10,
     ew_inlineNext = None, ew_maxUsers = 10000\<rparr>"

definition ex_enricher_world :: "mem_store enricher_world" where
  "ex_enricher_world = \<lparr>w_redis = mem_empty, w_log = [], w_step = 0, w_faults = (\<lambda>_. None), en_buffer = [],
     en_tickets = 0, en_settled = []\<rparr>"

abbreviation ex_enrich :: "(exn + unit) \<times> mem_store enricher_world" where
  "ex_enrich \<equiv> process_requested mem_redis ex_enricher (db_reads 0 ex_users (nr_projectId ex_request)) ex_request
     ex_enrich_message 0 (\<lambda>_. []) (\<lambda>_. False) ex_enricher_world"

lemma ex_db_ok: "db_ok ex_users"
  by (simp add: db_ok_def ex_users_def)

lemma ex_fan_out:
  "map (\<lambda>p. (en_destination p, en_fallbackChain p)) (fan_out ex_users ex_request ex_enrich_message
     (template_topics_of ex_users ex_request) (target_ids ex_users ex_request)) = [(Some ''5550100'', Some [Email])]"
  by code_simp

lemma ex_fresh: "GET mem_redis k (w_redis ex_enricher_world) = None"
  by (simp add: mem_redis_def ex_enricher_world_def mem_empty_def)

theorem enricher_reaches_every_address_witness:
  "\<exists>ev p. w_log (snd ex_enrich) = [Enrich (ENRICHED Critical) ev] \<and> ne_payload ev = Enriched p
    \<and> en_destination p = Some ''5550100'' \<and> en_fallbackChain p = Some [Email]"
proof -
  have "fst ex_enrich = Inr () \<and> en_buffer (snd ex_enrich) = [] \<and> w_log (snd ex_enrich) = w_log ex_enricher_world
    @ map (Enrich (enriched_producer ex_enricher (payload_bucket (nr_priority ex_request))) \<circ> enriched_event ex_enrich_message)
        (fan_out ex_users ex_request ex_enrich_message (template_topics_of ex_users ex_request) (target_ids ex_users ex_request))"
  proof (rule enricher_reaches_every_address [OF mem_string_laws ex_db_ok _ _ _ ex_fresh])
    show "length (target_ids ex_users ex_request) \<le> ew_maxUsers ex_enricher" by code_simp
  qed (simp_all add: no_faults_def ex_enricher_world_def ex_enricher_def)
  moreover have "enriched_producer ex_enricher (payload_bucket (nr_priority ex_request)) = ENRICHED Critical"
    by (simp add: enriched_producer_def ex_enricher_def payload_bucket_def ex_request_def getPriorityBucket_def)
  ultimately show ?thesis using ex_fan_out
    by (auto simp: ex_enricher_world_def map_eq_Cons_conv enriched_event_def)
qed


theorem user_batch_isolates_projects_witness:
  "map_of (flushUserBatch (\<lambda>p ids. case (if p = ''p2'' then Some (Error ''down'') else None) of Some e \<Rightarrow> Inl e
        | None \<Rightarrow> Inr (fst (findRecordsByIds 0 ex_users p ids new_repo_cache)))
      [\<lparr>uq_projectId = ''p2'', uq_userId = ''u1'', uq_ticket = 0\<rparr>, \<lparr>uq_projectId = ''p1'', uq_userId = ''u1'', uq_ticket = 1\<rparr>]) 1
    = Some (Inr (Some (user_record ex_users \<lparr>us_id = ''i1'', us_projectId = ''p1'', us_externalId = ''u1'', us_attributes = []\<rparr>)))"
proof -
  let ?q = "\<lparr>uq_projectId = ''p1'', uq_userId = ''u1'', uq_ticket = 1\<rparr>"
  have "find_user ex_users ''p1'' ''u1'' = Some \<lparr>us_id = ''i1'', us_projectId = ''p1'', us_externalId = ''u1'', us_attributes = []\<rparr>"
    by (simp add: find_user_def ex_users_def)
  with user_batch_isolates_projects [OF ex_db_ok, of ?q
      "[\<lparr>uq_projectId = ''p2'', uq_userId = ''u1'', uq_ticket = 0\<rparr>, ?q]" 0 "\<lambda>p. if p = ''p2'' then Some (Error ''down'') else None"]
  show ?thesis by (simp del: One_nat_def)
qed

end
