(* ===== verification/Duration.thy ===== *)
theory Duration
  imports Json_Codec Effects
begin

text \<open>
  The durations of workflow steps (\<open>src/src/services/workflow/duration.ts\<close>). A duration
  is kept exactly, as a fraction of a millisecond; the code computes it in doubles and rounds
  at the end.
\<close>

record fraction =
  fr_num :: nat
  fr_den :: nat

definition DURATION_UNIT_MS :: "(string, nat) jsmap" where
  "DURATION_UNIT_MS = [(''ms'', 1), (''s'', 1000), (''m'', 60000), (''h'', 3600000), (''d'', 86400000)]"

text \<open>
  \<open>\d+(?:\.\d+)?|\.\d+\<close> at the front of the text: the digits read as one number, how many of
  them follow the point, and the rest. A point needs a digit behind it.
\<close>

definition parse_decimal :: "string \<Rightarrow> (nat \<times> nat \<times> string) option" where
  "parse_decimal s =
     (let whole = takeWhile js_digit s
      in case dropWhile js_digit s of
           c # r \<Rightarrow>
             let frac = takeWhile js_digit r
             in if c = CHR ''.'' \<and> frac \<noteq> []
                then Some (digits_val 0 (whole @ frac), length frac, dropWhile js_digit r)
                else if whole = [] then None
                else Some (digits_val 0 whole, 0, c # r)
         | [] \<Rightarrow> if whole = [] then None else Some (digits_val 0 whole, 0, []))"

definition parseDurationSeconds :: "string \<Rightarrow> string \<Rightarrow> exn + fraction" where
  "parseDurationSeconds value what =
     (case parse_decimal (js_trim value) of
        Some (n, places, unit) \<Rightarrow>
          (case jm_get DURATION_UNIT_MS unit of
             Some ms \<Rightarrow> Inr \<lparr>fr_num = n * ms, fr_den = 10 ^ places\<rparr>
           | None \<Rightarrow> Inl (Error (''Invalid '' @ what @ '': '' @ value)))
      | None \<Rightarrow> Inl (Error (''Invalid '' @ what @ '': '' @ value)))"

text \<open>\<open>Math.round\<close> takes a half up.\<close>

definition math_round :: "fraction \<Rightarrow> nat" where
  "math_round q = (2 * fr_num q + fr_den q) div (2 * fr_den q)"

definition durationToMs :: "string \<Rightarrow> string \<Rightarrow> exn + nat" where
  "durationToMs value what = (case parseDurationSeconds value what of Inl e \<Rightarrow> Inl e | Inr q \<Rightarrow> Inr (math_round q))"

text \<open>A whole number of units, written as the code writes numbers, is that many units.\<close>

lemma duration_unit_start:
  assumes "jm_get DURATION_UNIT_MS u = Some ms"
  shows "u \<noteq> []" "\<not> js_digit (hd u)" "hd u \<noteq> CHR ''.''" "\<not> js_space (last u)"
  using assms by (auto simp: DURATION_UNIT_MS_def js_digit_def js_space_def split: if_splits)

lemma digit_not_space: "js_digit c \<Longrightarrow> \<not> js_space c"
  by (auto simp: js_digit_def js_space_def Let_def)

lemma trim_duration:
  assumes "list_all js_digit d" "d \<noteq> []" "jm_get DURATION_UNIT_MS u = Some ms"
  shows "js_trim (d @ u) = d @ u"
proof (rule js_trim_trimmed)
  have "js_digit (hd d)" using assms(1,2) by (cases d) auto
  then show "js_trimmed (d @ u)"
    using duration_unit_start [OF assms(3)] assms(2) by (simp add: js_trimmed_def digit_not_space)
qed

lemma parse_decimal_whole:
  assumes "list_all js_digit d" "d \<noteq> []" "u \<noteq> []" "\<not> js_digit (hd u)" "hd u \<noteq> CHR ''.''"
  shows "parse_decimal (d @ u) = Some (digits_val 0 d, 0, u)"
proof -
  have "takeWhile js_digit (d @ u) = d" "dropWhile js_digit (d @ u) = u"
    using assms by (auto simp: list_all_iff takeWhile_append dropWhile_append)
      (cases u; simp)+
  then show ?thesis using assms by (cases u) (auto simp: parse_decimal_def Let_def)
qed

lemma duration_whole_units:
  assumes "jm_get DURATION_UNIT_MS u = Some ms"
  shows "durationToMs (show_nat n @ u) what = Inr (n * ms)"
  using duration_unit_start [OF assms] show_nat_digits [of n] assms
  by (simp add: durationToMs_def parseDurationSeconds_def trim_duration [OF _ _ assms] parse_decimal_whole
      digits_val_show math_round_def)

text \<open>Rounding is to the nearest millisecond.\<close>

lemma math_round_nearest:
  assumes "0 < fr_den q"
  shows "2 * fr_num q \<le> 2 * fr_den q * math_round q + fr_den q"
    and "2 * fr_den q * math_round q \<le> 2 * fr_num q + fr_den q"
proof -
  let ?x = "2 * fr_num q + fr_den q" and ?d = "2 * fr_den q"
  have "?d * (?x div ?d) + ?x mod ?d = ?x" "?x mod ?d < ?d" using assms by simp_all
  then show "2 * fr_num q \<le> ?d * math_round q + fr_den q" "?d * math_round q \<le> 2 * fr_num q + fr_den q"
    unfolding math_round_def by linarith+
qed

end
