(* ===== verification/Workflow_Store.thy ===== *)
theory Workflow_Store
  imports Contracts Json_Codec Redis_Scripts
begin

text \<open>
  The tables of the workflow engine (\<open>src/src/db/schema.ts\<close>), the repository the API reads
  and cancels instances through (\<open>src/src/repositories/workflow.ts\<close>), and the world that the
  workflow worker, its timers and the event worker share. A table is the list of its rows; a
  nullable JSON column is an \<open>option\<close>.
\<close>

section \<open>Tables\<close>

datatype workflow_status = WPending | WRunning | WCompleted | WFailed | WCanceled

record wf_instance =
  wi_id :: string
  wi_projectId :: string
  wi_name :: string
  wi_status :: workflow_status
  wi_input :: json

record wf_step =
  ws_projectId :: string
  ws_instanceId :: string
  ws_stepIndex :: string
  ws_action :: string
  ws_output :: "json option"

record wf_waiter =
  ww_id :: string
  ww_projectId :: string
  ww_instanceId :: string
  ww_eventName :: string
  ww_matchCriteria :: "(string \<times> json) list"
  ww_expiresAt :: ms

text \<open>\<open>notify\<close> of the SDK, as a step of a workflow takes it.\<close>

datatype user_ref = UserId string | UserObject string | UserList

record WorkflowNotifyInput =
  na_user :: "user_ref option"
  na_segment :: "string option"
  na_topic :: "string option"
  na_template :: string
  na_data :: "(string \<times> json) list option"
  na_aiPrompts :: "(string \<times> string) list option"
  na_priority :: "NotificationPriority option"
  na_channels :: "NotificationChannel list option"
  na_fallback :: "bool option"
  na_sendAt :: "ms option"
  na_campaign :: "string option"

record wait_options =
  wo_timeout :: "string option"
  wo_match :: "(string \<times> json) list option"

datatype WorkflowStepDef =
    StepNotify WorkflowNotifyInput
  | StepWait string
  | StepWaitForEvent string "wait_options option"
  | StepUnknown string

record wf_definition =
  wd_projectId :: string
  wd_name :: string
  wd_steps :: "WorkflowStepDef list"

section \<open>The world\<close>

text \<open>An event of the workflow stream, its payload as JSON fields.\<close>

record workflow_event =
  we_type :: string
  we_payload :: "(string \<times> json) list"
  we_source :: string
  we_traceId :: "string option"

datatype workflow_effect =
    RequestNotification NotificationRequestedPayload string
  | PublishWorkflow workflow_event
  | RunStep string
  | LogRows "string list"

record 'r workflow_world = "('r, workflow_effect) world" +
  wf_instances :: "wf_instance list"
  wf_steps :: "wf_step list"
  wf_waiters :: "wf_waiter list"
  wf_definitions :: "wf_definition list"

type_synonym ('r, 'a) wf_act = "('r workflow_world, 'a) act"

definition find_instance :: "string \<Rightarrow> 'r workflow_world \<Rightarrow> wf_instance option" where
  "find_instance i w = find (\<lambda>x. wi_id x = i) (wf_instances w)"

definition instance_status :: "string \<Rightarrow> 'r workflow_world \<Rightarrow> workflow_status option" where
  "instance_status i w = map_option wi_status (find_instance i w)"

text \<open>\<open>update \<dots> set status where id = i and status = old\<close>; the number of rows.\<close>

definition set_status ::
  "string \<Rightarrow> workflow_status \<Rightarrow> workflow_status \<Rightarrow> 'r workflow_world \<Rightarrow> nat \<times> 'r workflow_world" where
  "set_status i old new w =
     (length (filter (\<lambda>x. wi_id x = i \<and> wi_status x = old) (wf_instances w)),
      w\<lparr>wf_instances := map (\<lambda>x. if wi_id x = i \<and> wi_status x = old then x\<lparr>wi_status := new\<rparr> else x) (wf_instances w)\<rparr>)"

definition instance_steps :: "string \<Rightarrow> 'r workflow_world \<Rightarrow> wf_step list" where
  "instance_steps i w = filter (\<lambda>s. ws_instanceId s = i) (wf_steps w)"

text \<open>The unique key of a step is its instance and index.\<close>

definition insert_step :: "wf_step \<Rightarrow> ('r, unit) wf_act" where
  "insert_step s =
     bindA (attempt (\<lambda>w. if \<exists>t \<in> set (wf_steps w). ws_instanceId t = ws_instanceId s \<and> ws_stepIndex t = ws_stepIndex s
         then (False, w) else (True, w\<lparr>wf_steps := wf_steps w @ [s]\<rparr>)))
       (\<lambda>ok. if ok then ret () else throw (Error ''duplicate key value violates unique constraint''))"

definition set_output :: "string \<Rightarrow> string \<Rightarrow> json \<Rightarrow> ('r, unit) wf_act" where
  "set_output i stepIndex out = attempt (\<lambda>w. ((), w\<lparr>wf_steps :=
     map (\<lambda>s. if ws_instanceId s = i \<and> ws_stepIndex s = stepIndex then s\<lparr>ws_output := Some out\<rparr> else s) (wf_steps w)\<rparr>))"

section \<open>The repository\<close>

definition listDefinitions :: "'r workflow_world \<Rightarrow> string \<Rightarrow> wf_definition list" where
  "listDefinitions w projectId = rev (filter (\<lambda>d. wd_projectId d = projectId) (wf_definitions w))"

definition getInstance ::
  "'r workflow_world \<Rightarrow> string \<Rightarrow> string \<Rightarrow> (wf_instance \<times> wf_step list \<times> wf_waiter list) option" where
  "getInstance w projectId i =
     (case find (\<lambda>x. wi_id x = i \<and> wi_projectId x = projectId) (wf_instances w) of
        None \<Rightarrow> None
      | Some x \<Rightarrow> Some (x, instance_steps i w, filter (\<lambda>t. ww_instanceId t = i) (wf_waiters w)))"

text \<open>One transaction.\<close>

definition cancelInstance :: "string \<Rightarrow> string \<Rightarrow> ('r, bool) wf_act" where
  "cancelInstance projectId i = attempt (\<lambda>w.
     let hit = (\<lambda>x. wi_id x = i \<and> wi_projectId x = projectId \<and> wi_status x \<in> {WPending, WRunning})
     in if \<exists>x \<in> set (wf_instances w). hit x
        then (True, w\<lparr>wf_instances := map (\<lambda>x. if hit x then x\<lparr>wi_status := WCanceled\<rparr> else x) (wf_instances w),
                     wf_waiters := filter (\<lambda>t. ww_instanceId t \<noteq> i) (wf_waiters w)\<rparr>)
        else (False, w))"

text \<open>The text of a field: what the workers read \<open>name\<close>, \<open>instanceId\<close> and \<open>projectId\<close> with.\<close>

definition payload_text :: "(string \<times> json) list \<Rightarrow> string \<Rightarrow> string option" where
  "payload_text kvs k = (case jm_get kvs k of Some (JStr (c # cs)) \<Rightarrow> Some (c # cs) | _ \<Rightarrow> None)"

definition WORKFLOW_TIMERS_KEY :: string where
  "WORKFLOW_TIMERS_KEY = ''notif:workflow:timers''"

end
