(* ===== verification/Workflow.thy ===== *)
theory Workflow
  imports Workflow_Store Duration Throttle_Idempotency
begin

text \<open>
  The workflow worker (\<open>src/src/services/workflow/main.ts\<close>, \<open>src/src/workflows/\<close>). A
  handler runs from its start on every resume; a step that is recorded gives its recorded
  output, and the first one that must wait suspends the run. A handler, which is a function of
  the host language, is the tree of the steps it takes: each constructor is a call of the step
  context, with what the handler does with the result. Handlers that catch the errors of the
  step context are not such trees.
\<close>

section \<open>Handlers\<close>

datatype workflow_handler =
    HReturn
  | HThrow exn
  | HNotify WorkflowNotifyInput "json \<Rightarrow> workflow_handler"
  | HWait string workflow_handler
  | HWaitForEvent string "wait_options option" "json \<Rightarrow> workflow_handler"
  | HRun string "exn + json" "json \<Rightarrow> workflow_handler"

type_synonym workflow_registry = "(string, json \<Rightarrow> workflow_handler) jsmap"

definition workflow_register :: "string \<Rightarrow> (json \<Rightarrow> workflow_handler) \<Rightarrow> workflow_registry \<Rightarrow> workflow_registry" where
  "workflow_register n h registry = jm_set n h registry"

definition workflow_get :: "string \<Rightarrow> workflow_registry \<Rightarrow> (json \<Rightarrow> workflow_handler) option" where
  "workflow_get n registry = jm_get registry n"

text \<open>The handler of a definition stored in the database.\<close>

fun definition_handler :: "WorkflowStepDef list \<Rightarrow> workflow_handler" where
  "definition_handler [] = HReturn"
| "definition_handler (StepNotify payload # ds) = HNotify payload (\<lambda>_. definition_handler ds)"
| "definition_handler (StepWait duration # ds) = HWait duration (definition_handler ds)"
| "definition_handler (StepWaitForEvent event options # ds) = HWaitForEvent event options (\<lambda>_. definition_handler ds)"
| "definition_handler (StepUnknown action # ds) = definition_handler ds"

section \<open>The notify step\<close>

text \<open>\<open>(instanceInput as any)?.user?.id\<close>, when it is a text.\<close>

definition input_user_id :: "json \<Rightarrow> string option" where
  "input_user_id input = (case input of
     JObj kvs \<Rightarrow> (case jm_get kvs ''user'' of Some (JObj u) \<Rightarrow> payload_text u ''id'' | _ \<Rightarrow> None)
   | _ \<Rightarrow> None)"

definition resolveStepTarget :: "WorkflowNotifyInput \<Rightarrow> json \<Rightarrow> exn + NotificationTarget" where
  "resolveStepTarget args instanceInput =
     (case na_segment args of
        Some s \<Rightarrow> Inr (TSegment s)
      | None \<Rightarrow> (case na_topic args of
          Some t \<Rightarrow> Inr (TTopic t)
        | None \<Rightarrow> (case na_user args of
            Some UserList \<Rightarrow> Inl (Error (''step.notify() takes a single `user`. To reach several people from one workflow, ''
                @ ''use one notify step each, or target a `segment`.''))
          | Some (UserId u) \<Rightarrow> Inr (TUser u)
          | Some (UserObject u) \<Rightarrow> Inr (TUser u)
          | None \<Rightarrow> (case input_user_id instanceInput of
              Some u \<Rightarrow> Inr (TUser u)
            | None \<Rightarrow> Inl (Error (''step.notify() has no target: the step payload names no `user`, `segment` or `topic`, ''
                @ ''and the workflow instance was triggered without `input.user.id`.''))))))"

definition buildStepNotifyPayload ::
  "WorkflowNotifyInput \<Rightarrow> json \<Rightarrow> string \<Rightarrow> string \<Rightarrow> string option \<Rightarrow> exn + NotificationRequestedPayload" where
  "buildStepNotifyPayload args instanceInput projectId idempotencyKey workflowInstanceId =
     (case resolveStepTarget args instanceInput of
        Inl e \<Rightarrow> Inl e
      | Inr target \<Rightarrow> Inr \<lparr>nr_projectId = projectId, nr_target = target, nr_templateId = na_template args,
          nr_priority = (case na_priority args of Some p \<Rightarrow> p | None \<Rightarrow> PNormal), nr_channels = na_channels args,
          nr_data = (case na_data args of Some d \<Rightarrow> d | None \<Rightarrow> []),
          nr_fallback = (case na_fallback args of Some b \<Rightarrow> b | None \<Rightarrow> False), nr_aiPrompts = na_aiPrompts args,
          nr_scheduledAt = na_sendAt args, nr_idempotencyKey = Some idempotencyKey,
          nr_campaignId = na_campaign args, nr_workflowInstanceId = workflowInstanceId\<rparr>)"

text \<open>\<open>UUID_RE\<close>\<close>

definition is_uuid :: "string \<Rightarrow> bool" where
  "is_uuid s \<longleftrightarrow> length s = 36
     \<and> list_all (\<lambda>i. if i \<in> {8, 13, 18, 23} then s ! i = CHR ''-'' else hex_val (s ! i) \<noteq> None) [0..<36]"

section \<open>The step context\<close>

text \<open>
  What a run knows: its instance and project as read, the outputs recorded so far, the clock,
  the ids the queue and the database give to what is published and inserted.
\<close>

record workflow_run =
  wr_instance :: wf_instance
  wr_projectId :: string
  wr_outputs :: "(string, json option) jsmap"
  wr_traceId :: string
  wr_now :: ms
  wr_published :: "nat \<Rightarrow> string \<times> string"
  wr_waiterId :: "nat \<Rightarrow> string"

datatype step_result = StepValue json | StepSuspends | StepCanceled

definition recorded :: "workflow_run \<Rightarrow> nat \<Rightarrow> json option option" where
  "recorded run i = jm_get (wr_outputs run) (show_nat i)"

definition nullish :: "json option \<Rightarrow> json" where
  "nullish out = (case out of Some v \<Rightarrow> v | None \<Rightarrow> JNull)"

definition run_id :: "workflow_run \<Rightarrow> string" where
  "run_id run = wi_id (wr_instance run)"

definition step_row :: "workflow_run \<Rightarrow> nat \<Rightarrow> string \<Rightarrow> json option \<Rightarrow> wf_step" where
  "step_row run i action out = \<lparr>ws_projectId = wr_projectId run, ws_instanceId = run_id run,
     ws_stepIndex = show_nat i, ws_action = action, ws_output = out\<rparr>"

definition canceled_now :: "workflow_run \<Rightarrow> ('r, bool) wf_act" where
  "canceled_now run = attempt (\<lambda>w. (instance_status (run_id run) w = Some WCanceled, w))"

text \<open>A step that is not recorded: stops if the instance was canceled, else does its work.\<close>

definition new_step :: "workflow_run \<Rightarrow> ('r, step_result) wf_act \<Rightarrow> ('r, step_result) wf_act" where
  "new_step run work = bindA (canceled_now run) (\<lambda>c. if c then ret StepCanceled else work)"

definition step_key :: "string \<Rightarrow> nat \<Rightarrow> string" where
  "step_key instanceId i = ''wf-'' @ instanceId @ ''-'' @ show_nat i"

definition lift_error :: "exn + 'a \<Rightarrow> ('w, 'a) act" where
  "lift_error r = (case r of Inl e \<Rightarrow> throw e | Inr a \<Rightarrow> ret a)"

definition step_notify :: "workflow_run \<Rightarrow> WorkflowNotifyInput \<Rightarrow> nat \<Rightarrow> ('r, step_result) wf_act" where
  "step_notify run args i =
     (case recorded run i of
        Some out \<Rightarrow> ret (StepValue (nullish out))
      | None \<Rightarrow> new_step run
          (bindA (lift_error (buildStepNotifyPayload args (wi_input (wr_instance run)) (wr_projectId run)
              (step_key (run_id run) i) (if is_uuid (run_id run) then Some (run_id run) else None))) (\<lambda>requested.
           thenA (perform (RequestNotification requested (wr_traceId run)))
             (let output = JObj [(''success'', JBool True), (''messageId'', JStr (fst (wr_published run i))),
                    (''notificationId'', JStr (snd (wr_published run i)))]
              in thenA (insert_step (step_row run i ''notify'' (Some output))) (ret (StepValue output))))))"

definition timer_fields :: "workflow_run \<Rightarrow> (string \<times> json) list" where
  "timer_fields run = [(''instanceId'', JStr (run_id run)), (''name'', JStr (wi_name (wr_instance run))),
     (''projectId'', JStr (wr_projectId run)), (''input'', wi_input (wr_instance run))]"

definition add_timer :: "'r redis \<Rightarrow> ms \<Rightarrow> (string \<times> json) list \<Rightarrow> ('r, unit) wf_act" where
  "add_timer r due kvs = on_redis (\<lambda>s. ((), ZADD r WORKFLOW_TIMERS_KEY due (json_stringify (JObj kvs)) s))"

text \<open>The recorded wake-up time of a wait, when it is a number still ahead.\<close>

definition still_asleep :: "ms \<Rightarrow> json option \<Rightarrow> bool" where
  "still_asleep now out = (case out of
     Some (JObj kvs) \<Rightarrow> (case jm_get kvs ''scheduledAt'' of Some (JInt until) \<Rightarrow> until > now | _ \<Rightarrow> False)
   | _ \<Rightarrow> False)"

definition step_wait :: "'r redis \<Rightarrow> workflow_run \<Rightarrow> string \<Rightarrow> nat \<Rightarrow> ('r, step_result) wf_act" where
  "step_wait r run duration i =
     (case recorded run i of
        Some out \<Rightarrow> ret (if still_asleep (wr_now run) out then StepSuspends else StepValue JNull)
      | None \<Rightarrow> new_step run
          (bindA (lift_error (durationToMs duration ''wait duration'')) (\<lambda>ms.
             let resumeAt = wr_now run + int ms
             in thenA (add_timer r resumeAt (timer_fields run))
               (thenA (insert_step (step_row run i ''wait'' (Some (JObj [(''scheduledAt'', JInt resumeAt)]))))
                 (ret StepSuspends)))))"

text \<open>An empty timeout is no timeout.\<close>

definition event_timeout :: "wait_options option \<Rightarrow> string" where
  "event_timeout options = (case Option.bind options wo_timeout of Some (c # cs) \<Rightarrow> c # cs | _ \<Rightarrow> ''24h'')"

definition event_match :: "wait_options option \<Rightarrow> (string \<times> json) list" where
  "event_match options = (case Option.bind options wo_match of Some m \<Rightarrow> m | None \<Rightarrow> [])"

definition event_result :: "json option \<Rightarrow> step_result" where
  "event_result out = (case out of
     None \<Rightarrow> StepSuspends
   | Some JNull \<Rightarrow> StepSuspends
   | Some (JObj kvs) \<Rightarrow> if jm_get kvs ''timedOut'' = Some (JBool True) then StepValue JNull else StepValue (JObj kvs)
   | Some v \<Rightarrow> StepValue v)"

definition waiter_row :: "workflow_run \<Rightarrow> string \<Rightarrow> (string \<times> json) list \<Rightarrow> nat \<Rightarrow> ms \<Rightarrow> wf_waiter" where
  "waiter_row run eventName m i resumeAt = \<lparr>ww_id = wr_waiterId run i, ww_projectId = wr_projectId run,
     ww_instanceId = run_id run, ww_eventName = eventName, ww_matchCriteria = m, ww_expiresAt = resumeAt\<rparr>"

definition step_waitForEvent ::
  "'r redis \<Rightarrow> workflow_run \<Rightarrow> string \<Rightarrow> wait_options option \<Rightarrow> nat \<Rightarrow> ('r, step_result) wf_act" where
  "step_waitForEvent r run eventName options i =
     (case recorded run i of
        Some out \<Rightarrow> ret (event_result out)
      | None \<Rightarrow> new_step run
          (bindA (lift_error (durationToMs (event_timeout options) ''waitForEvent timeout'')) (\<lambda>ms.
             let resumeAt = wr_now run + int ms
             in thenA (add_timer r resumeAt (timer_fields run @ [(''isEventTimeout'', JBool True),
                    (''eventName'', JStr eventName), (''stepId'', JStr (show_nat i))]))
               (thenA (insert_step (step_row run i ''waitForEvent'' None))
               (thenA (attempt (\<lambda>w. ((), w\<lparr>wf_waiters := wf_waiters w
                    @ [waiter_row run eventName (event_match options) i resumeAt]\<rparr>)))
                 (ret StepSuspends))))))"

text \<open>\<open>run\<close>: the function is called once, and its result recorded.\<close>

definition step_run :: "workflow_run \<Rightarrow> string \<Rightarrow> exn + json \<Rightarrow> nat \<Rightarrow> ('r, step_result) wf_act" where
  "step_run run stepName fn i =
     (case recorded run i of
        Some out \<Rightarrow> ret (StepValue (nullish out))
      | None \<Rightarrow> new_step run
          (thenA (emit (RunStep stepName)) (bindA (lift_error fn) (\<lambda>result.
             thenA (insert_step (step_row run i ''run'' (if result = JNull then None else Some result)))
               (ret (StepValue result))))))"

datatype run_outcome = RunFinished | RunSuspended | RunCanceled | RunFailed

definition continue_with ::
  "('r, step_result) wf_act \<Rightarrow> (json \<Rightarrow> ('r, run_outcome) wf_act) \<Rightarrow> ('r, run_outcome) wf_act" where
  "continue_with step k = bindA step (\<lambda>res. case res of
     StepValue v \<Rightarrow> k v | StepSuspends \<Rightarrow> ret RunSuspended | StepCanceled \<Rightarrow> ret RunCanceled)"

primrec run_handler :: "'r redis \<Rightarrow> workflow_run \<Rightarrow> workflow_handler \<Rightarrow> nat \<Rightarrow> ('r, run_outcome) wf_act" where
  "run_handler r run HReturn = (\<lambda>i. ret RunFinished)"
| "run_handler r run (HThrow e) = (\<lambda>i. throw e)"
| "run_handler r run (HNotify args k) = (\<lambda>i.
     continue_with (step_notify run args i) (\<lambda>v. run_handler r run (k v) (Suc i)))"
| "run_handler r run (HWait duration h) = (\<lambda>i.
     continue_with (step_wait r run duration i) (\<lambda>_. run_handler r run h (Suc i)))"
| "run_handler r run (HWaitForEvent eventName options k) = (\<lambda>i.
     continue_with (step_waitForEvent r run eventName options i) (\<lambda>v. run_handler r run (k v) (Suc i)))"
| "run_handler r run (HRun stepName fn k) = (\<lambda>i.
     continue_with (step_run run stepName fn i) (\<lambda>v. run_handler r run (k v) (Suc i)))"

section \<open>process\<close>

definition WORKFLOW_LOCK_TTL_SECONDS :: int where
  "WORKFLOW_LOCK_TTL_SECONDS = 60"

definition WORKFLOW_RESUME_RETRY_MS :: int where
  "WORKFLOW_RESUME_RETRY_MS = 2000"

definition lock_key :: "string \<Rightarrow> string" where
  "lock_key instanceId = ''lock:workflow:'' @ instanceId"

text \<open>\<open>payload.input ?? {}\<close> and \<open>payload.input || {}\<close>\<close>

definition input_or_empty :: "(string \<times> json) list \<Rightarrow> json" where
  "input_or_empty payload = (case jm_get payload ''input'' of Some JNull \<Rightarrow> JObj [] | Some v \<Rightarrow> v | None \<Rightarrow> JObj [])"

definition falsy :: "json \<Rightarrow> bool" where
  "falsy v \<longleftrightarrow> v \<in> {JNull, JBool False, JInt 0, JStr []}"

definition truthy_input :: "(string \<times> json) list \<Rightarrow> json" where
  "truthy_input payload = (case jm_get payload ''input'' of
     Some v \<Rightarrow> if falsy v then JObj [] else v | None \<Rightarrow> JObj [])"

record workflow_message =
  wm_instanceId :: string
  wm_name :: string
  wm_projectId :: string
  wm_payload :: "(string \<times> json) list"
  wm_traceId :: string

definition deferResume :: "'r redis \<Rightarrow> ms \<Rightarrow> workflow_message \<Rightarrow> ('r, unit) wf_act" where
  "deferResume r now m = add_timer r (now + WORKFLOW_RESUME_RETRY_MS)
     [(''instanceId'', JStr (wm_instanceId m)), (''name'', JStr (wm_name m)), (''projectId'', JStr (wm_projectId m)),
      (''input'', input_or_empty (wm_payload m)), (''deferred'', JBool True)]"

text \<open>The clock, the lock token and the ids of a run.\<close>

record run_context =
  rx_now :: ms
  rx_token :: string
  rx_published :: "nat \<Rightarrow> string \<times> string"
  rx_waiterId :: "nat \<Rightarrow> string"

definition find_handler :: "workflow_registry \<Rightarrow> workflow_message \<Rightarrow> ('r, (json \<Rightarrow> workflow_handler) option) wf_act" where
  "find_handler registry m =
     (case workflow_get (wm_name m) registry of
        Some h \<Rightarrow> ret (Some h)
      | None \<Rightarrow> attempt (\<lambda>w.
          (map_option (\<lambda>d _. definition_handler (wd_steps d))
             (find (\<lambda>d. wd_projectId d = wm_projectId m \<and> wd_name d = wm_name m) (wf_definitions w)), w)))"

text \<open>The row of the instance, inserted when it is not there.\<close>

definition load_instance :: "workflow_message \<Rightarrow> ('r, wf_instance) wf_act" where
  "load_instance m =
     bindA (attempt (\<lambda>w. (find_instance (wm_instanceId m) w, w))) (\<lambda>found. case found of
       Some x \<Rightarrow> ret x
     | None \<Rightarrow> attempt (\<lambda>w.
         let x = \<lparr>wi_id = wm_instanceId m, wi_projectId = wm_projectId m, wi_name = wm_name m,
                  wi_status = WPending, wi_input = truthy_input (wm_payload m)\<rparr>
         in (x, w\<lparr>wf_instances := wf_instances w @ [x]\<rparr>)))"

definition finish :: "string \<Rightarrow> workflow_status \<Rightarrow> ('r, unit) wf_act" where
  "finish i status = attempt (\<lambda>w. ((), snd (set_status i WRunning status w)))"

definition handler_input :: "wf_instance \<Rightarrow> json" where
  "handler_input x = (if falsy (wi_input x) then JObj [(''user'', JObj [(''id'', JStr ''unknown'')])] else wi_input x)"

definition start_run :: "run_context \<Rightarrow> workflow_message \<Rightarrow> wf_instance \<Rightarrow> wf_step list \<Rightarrow> workflow_run" where
  "start_run rx m x existingSteps = \<lparr>wr_instance = x, wr_projectId = wm_projectId m,
     wr_outputs = foldl (\<lambda>o' s. jm_set (ws_stepIndex s) (ws_output s) o') [] existingSteps,
     wr_traceId = wm_traceId m, wr_now = rx_now rx, wr_published = rx_published rx, wr_waiterId = rx_waiterId rx\<rparr>"

text \<open>The handler and the status it leaves; completing is inside the same try block.\<close>

definition run_claimed :: "'r redis \<Rightarrow> workflow_run \<Rightarrow> workflow_handler \<Rightarrow> ('r, unit) wf_act" where
  "run_claimed r run h =
     bindA (catchA
         (bindA (run_handler r run h 0) (\<lambda>o'. if o' = RunFinished
            then thenA (finish (run_id run) WCompleted) (ret RunFinished) else ret o'))
         (\<lambda>err. thenA (finish (run_id run) WFailed) (ret RunFailed)))
       (\<lambda>o'. if o' = RunSuspended then finish (run_id run) WPending else ret ())"

definition run_instance ::
  "'r redis \<Rightarrow> run_context \<Rightarrow> workflow_message \<Rightarrow> (json \<Rightarrow> workflow_handler) \<Rightarrow> ('r, unit) wf_act" where
  "run_instance r rx m handler =
     bindA (load_instance m) (\<lambda>x.
       if wi_status x = WRunning then deferResume r (rx_now rx) m
       else if wi_status x \<noteq> WPending then ret ()
       else bindA (attempt (set_status (wm_instanceId m) WPending WRunning)) (\<lambda>claimed.
         if claimed = 0 then ret ()
         else bindA (attempt (\<lambda>w. (instance_steps (wm_instanceId m) w, w))) (\<lambda>existingSteps.
           run_claimed r (start_run rx m x existingSteps) (handler (handler_input x)))))"

definition under_lock :: "'r redis \<Rightarrow> string \<Rightarrow> string \<Rightarrow> ('r, unit) wf_act \<Rightarrow> ('r, unit) wf_act \<Rightarrow> ('r, unit) wf_act" where
  "under_lock r instanceId token body busy =
     bindA (on_redis (SET_EX_NX r (lock_key instanceId) token WORKFLOW_LOCK_TTL_SECONDS)) (\<lambda>acquired.
       if \<not> acquired then busy
       else finallyA body (thenA (on_redis (lua_release_lock r (lock_key instanceId) token)) (ret ())))"

definition parse_workflow_event :: "workflow_event \<Rightarrow> workflow_message option" where
  "parse_workflow_event e =
     (if we_type e \<noteq> ''workflow.triggered'' \<and> we_type e \<noteq> ''workflow.resumed'' then None
      else case (payload_text (we_payload e) ''name'', payload_text (we_payload e) ''instanceId'',
                 payload_text (we_payload e) ''projectId'') of
        (Some n, Some i, Some p) \<Rightarrow> Some \<lparr>wm_instanceId = i, wm_name = n, wm_projectId = p, wm_payload = we_payload e,
          wm_traceId = (case we_traceId e of Some t \<Rightarrow> t | None \<Rightarrow> [])\<rparr>
      | _ \<Rightarrow> None)"

definition workflow_process ::
  "'r redis \<Rightarrow> workflow_registry \<Rightarrow> run_context \<Rightarrow> workflow_event \<Rightarrow> ('r, unit) wf_act" where
  "workflow_process r registry rx e =
     (case parse_workflow_event e of
        None \<Rightarrow> ret ()
      | Some m \<Rightarrow> bindA (find_handler registry m) (\<lambda>handler. case handler of
          None \<Rightarrow> ret ()
        | Some h \<Rightarrow> under_lock r (wm_instanceId m) (rx_token rx) (run_instance r rx m h) (deferResume r (rx_now rx) m)))"

text \<open>\<open>renewTimer\<close>, every third of the time to live.\<close>

definition renew_lock_tick :: "'r redis \<Rightarrow> string \<Rightarrow> string \<Rightarrow> ('r, unit) wf_act" where
  "renew_lock_tick r instanceId token =
     ignore_errors (thenA (on_redis (lua_renew_lock r (lock_key instanceId) token WORKFLOW_LOCK_TTL_SECONDS)) (ret ()))"


section \<open>A final status is final\<close>

definition terminal :: "workflow_status \<Rightarrow> bool" where
  "terminal s \<longleftrightarrow> s \<in> {WCompleted, WFailed, WCanceled}"

text \<open>The instance has reached \<open>s\<close>, with this much published, recorded and waited for.\<close>

definition settled_at ::
  "string \<Rightarrow> workflow_status \<Rightarrow> workflow_effect list \<times> wf_step list \<times> wf_waiter list \<Rightarrow> 'r workflow_world \<Rightarrow> bool" where
  "settled_at i s rest w \<longleftrightarrow> terminal s \<and> instance_status i w = Some s \<and> rest = (w_log w, wf_steps w, wf_waiters w)"

lemma keep_settled_redis: "keeps (settled_at i s rest) (on_redis f)"
  by (rule keep_on_redis) (simp_all add: settled_at_def instance_status_def find_instance_def)

lemma settled_step [simp]: "settled_at i s rest (w\<lparr>w_step := n\<rparr>) = settled_at i s rest w"
  by (simp add: settled_at_def instance_status_def find_instance_def)

lemma set_status_other:
  "instance_status i (snd (set_status j old new w)) =
     (if i = j \<and> instance_status i w = Some old then Some new else instance_status i w)"
proof -
  let ?f = "\<lambda>x. if wi_id x = j \<and> wi_status x = old then x\<lparr>wi_status := new\<rparr> else x"
  have "find (\<lambda>x. wi_id x = i) (map ?f (wf_instances w)) = map_option ?f (find (\<lambda>x. wi_id x = i) (wf_instances w))"
    by (rule find_update) simp
  then have m: "find_instance i (snd (set_status j old new w)) = map_option ?f (find_instance i w)"
    by (simp add: find_instance_def set_status_def)
  show ?thesis
  proof (cases "find_instance i w")
    case (Some x)
    then have "wi_id x = i" by (auto simp: find_instance_def find_Some_iff)
    with m Some show ?thesis by (simp add: instance_status_def)
  qed (simp add: instance_status_def m)
qed

lemma settled_set_status: "settled_at i s rest w \<Longrightarrow> \<not> terminal old \<Longrightarrow> settled_at i s rest (snd (set_status j old new w))"
  by (auto simp: settled_at_def set_status_other) (simp_all add: set_status_def)

lemma keep_settled_finish: "keeps (settled_at i s rest) (finish j status)"
  unfolding finish_def by (rule keep_attempt) (simp_all add: settled_set_status terminal_def)

lemma keep_settled_load: "keeps (settled_at i s rest) (load_instance m)"
  unfolding load_instance_def
  by (intro keep_bind keep_option keep_ret keep_attempt)
     (auto simp: settled_at_def instance_status_def find_instance_def find_append Let_def split: option.splits)

text \<open>A run on an instance that has a final status stops before the handler.\<close>

lemma load_instance_finds:
  assumes "load_instance m w = (Inr x, w')" "instance_status (wm_instanceId m) w = Some s"
  shows "wi_status x = s"
  using assms by (auto simp: load_instance_def instance_status_def find_instance_def bindA_def attempt_def ret_def Let_def
      split: option.splits)

lemma keep_settled_instance:
  "keeps (settled_at (wm_instanceId m) s rest) (run_instance r rx m handler)"
proof (rule keepsI)
  fix w :: "'a workflow_world" assume w: "settled_at (wm_instanceId m) s rest w"
  obtain l w1 where l: "load_instance m w = (l, w1)" by force
  have w1: "settled_at (wm_instanceId m) s rest w1" by (rule keeps_run [OF keep_settled_load w l])
  show "settled_at (wm_instanceId m) s rest (snd (run_instance r rx m handler w))"
  proof (cases l)
    case (Inl e)
    then show ?thesis using l w1 by (simp add: run_instance_def bindA_def)
  next
    case (Inr x)
    have "wi_status x = s" using load_instance_finds [OF l [unfolded Inr]] w by (simp add: settled_at_def)
    moreover have "terminal s" using w by (simp add: settled_at_def)
    ultimately have "wi_status x \<noteq> WRunning" "wi_status x \<noteq> WPending" by (auto simp: terminal_def)
    then show ?thesis using l Inr w1 by (simp add: run_instance_def bindA_def ret_def)
  qed
qed

lemma keep_settled_under_lock:
  assumes "keeps (settled_at i s rest) body" "keeps (settled_at i s rest) busy"
  shows "keeps (settled_at i s rest) (under_lock r j token body busy)"
  unfolding under_lock_def
  by (intro keep_bind keep_if keep_finally keep_then keep_ret keep_settled_redis assms)

lemma keep_settled_handler: "keeps (settled_at i s rest) (find_handler registry m)"
  unfolding find_handler_def by (intro keep_option keep_ret keep_attempt) simp_all

text \<open>
  A final status is final. Whatever event arrives for an instance that is completed,
  failed or canceled, and whatever fails while it is handled, the instance keeps its status,
  no step runs, nothing is published and nothing is recorded.
\<close>
theorem workflow_final_status_stands:
  assumes "parse_workflow_event e = Some m" "instance_status (wm_instanceId m) w = Some s" "terminal s"
    and "workflow_process r registry rx e w = (res, w')"
  shows "instance_status (wm_instanceId m) w' = Some s
    \<and> w_log w' = w_log w \<and> wf_steps w' = wf_steps w \<and> wf_waiters w' = wf_waiters w"
proof -
  let ?P = "settled_at (wm_instanceId m) s (w_log w, wf_steps w, wf_waiters w)"
  have "keeps ?P (workflow_process r registry rx e)"
    unfolding workflow_process_def assms(1) option.case deferResume_def add_timer_def
    by (intro keep_bind keep_option keep_ret keep_settled_handler keep_settled_under_lock keep_settled_instance
        keep_settled_redis)
  moreover have "?P w" using assms(2,3) by (simp add: settled_at_def)
  ultimately have "?P w'" using assms(4) by (rule keeps_run)
  then show ?thesis by (simp add: settled_at_def)
qed

section \<open>A step runs once\<close>

lemma digits_no_dash: "list_all js_digit s \<Longrightarrow> CHR ''-'' \<notin> set s"
  by (auto simp: list_all_iff js_digit_def)

lemma step_key_inj: "step_key i j = step_key i' j' \<longleftrightarrow> i = i' \<and> j = j'"
proof
  assume eq: "step_key i j = step_key i' j'"
  have split: "takeWhile (\<lambda>c. c \<noteq> CHR ''-'') (rev (step_key a b)) = rev (show_nat b)"
    "dropWhile (\<lambda>c. c \<noteq> CHR ''-'') (rev (step_key a b)) = CHR ''-'' # rev (''wf-'' @ a)" for a b
    using digits_no_dash [OF show_nat_digits, of b]
    by (auto simp: step_key_def takeWhile_append dropWhile_append)
  have "rev (show_nat j) = rev (show_nat j')" "CHR ''-'' # rev (''wf-'' @ i) = CHR ''-'' # rev (''wf-'' @ i')"
    using eq split [of i j] split [of i' j'] by simp_all
  then have "show_nat j = show_nat j'" and "i = i'" by simp_all
  moreover from \<open>show_nat j = show_nat j'\<close> have "j = j'" by (metis digits_val_show)
  ultimately show "i = i' \<and> j = j'" by simp
qed simp

definition notified :: "string \<Rightarrow> nat \<Rightarrow> workflow_effect \<Rightarrow> bool" where
  "notified i j e = (case e of RequestNotification p _ \<Rightarrow> nr_idempotencyKey p = Some (step_key i j) | _ \<Rightarrow> False)"

definition has_step :: "string \<Rightarrow> nat \<Rightarrow> wf_step list \<Rightarrow> bool" where
  "has_step i j steps \<longleftrightarrow> list_ex (\<lambda>s. ws_instanceId s = i \<and> ws_stepIndex s = show_nat j) steps"

text \<open>Every notification requested is recorded, and none was requested twice.\<close>

definition notified_once :: "workflow_effect list \<Rightarrow> wf_step list \<Rightarrow> bool" where
  "notified_once log steps \<longleftrightarrow> (\<forall>i j. length (filter (notified i j) log) \<le> (if has_step i j steps then 1 else 0))"

lemma has_step_snoc: "has_step i j (steps @ [s]) \<longleftrightarrow> has_step i j steps \<or> ws_instanceId s = i \<and> ws_stepIndex s = show_nat j"
  by (auto simp: has_step_def)

lemma notified_once_more_steps: "notified_once log steps \<Longrightarrow> notified_once log (steps @ [s])"
  unfolding notified_once_def has_step_snoc by (metis (full_types) le_zero_eq le0)

lemma notified_once_other: "notified_once log steps \<Longrightarrow> (\<And>i j. \<not> notified i j e) \<Longrightarrow> notified_once (log @ [e]) steps"
  by (simp add: notified_once_def)

lemma notified_once_both:
  assumes "notified_once log steps" "\<not> has_step i j steps" "nr_idempotencyKey p = Some (step_key i j)"
    and "ws_instanceId s = i" "ws_stepIndex s = show_nat j"
  shows "notified_once (log @ [RequestNotification p t]) (steps @ [s])"
  unfolding notified_once_def
proof (intro allI)
  fix i' j'
  have n: "notified i' j' (RequestNotification p t) \<longleftrightarrow> i' = i \<and> j' = j"
    using assms(3) step_key_inj by (auto simp: notified_def)
  have "length (filter (notified i' j') log) \<le> (if has_step i' j' steps then 1 else 0)"
    using assms(1) by (simp add: notified_once_def)
  then show "length (filter (notified i' j') (log @ [RequestNotification p t]))
      \<le> (if has_step i' j' (steps @ [s]) then 1 else 0)"
    using assms(2,4,5) by (auto simp: n has_step_snoc split: if_splits)
qed

definition once_ok :: "'r workflow_world \<Rightarrow> bool" where
  "once_ok w \<longleftrightarrow> no_faults w \<and> notified_once (w_log w) (wf_steps w)"

text \<open>In a run at step \<open>i\<close>: what was not recorded when it began, from \<open>i\<close> on, is still not there.\<close>

definition run_ok :: "workflow_run \<Rightarrow> nat \<Rightarrow> 'r workflow_world \<Rightarrow> bool" where
  "run_ok run i w \<longleftrightarrow> once_ok w \<and> (\<forall>j \<ge> i. recorded run j = None \<longrightarrow> \<not> has_step (run_id run) j (wf_steps w))"

text \<open>A step leaves a run in order, or at least the log.\<close>

definition step_ok :: "workflow_run \<Rightarrow> nat \<Rightarrow> ('r, 'a) wf_act \<Rightarrow> bool" where
  "step_ok run i m \<longleftrightarrow> (\<forall>w. run_ok run i w \<longrightarrow> (case m w of
     (Inl _, w') \<Rightarrow> once_ok w' | (Inr _, w') \<Rightarrow> run_ok run (Suc i) w'))"

lemma run_ok_frame:
  "run_ok run i w \<Longrightarrow> w_faults w' = w_faults w \<Longrightarrow> w_log w' = w_log w \<Longrightarrow> wf_steps w' = wf_steps w \<Longrightarrow> run_ok run i w'"
  by (simp add: run_ok_def once_ok_def no_faults_def)

lemma run_ok_suc: "run_ok run i w \<Longrightarrow> run_ok run (Suc i) w"
  by (simp add: run_ok_def)

lemma insert_step_run:
  assumes "no_faults w" "\<not> has_step (ws_instanceId s) j (wf_steps w)" "ws_stepIndex s = show_nat j"
  shows "insert_step s w = (Inr (), w\<lparr>w_step := Suc (w_step w), wf_steps := wf_steps w @ [s]\<rparr>)"
  using assms by (auto simp: insert_step_def action_defs no_faults_def has_step_def list_ex_iff Let_def)

lemma show_nat_inj: "show_nat j = show_nat j' \<longleftrightarrow> j = j'"
  by (metis digits_val_show)

lemma run_ok_insert:
  assumes "run_ok run i w" "ws_instanceId s = run_id run" "ws_stepIndex s = show_nat i"
    and "w_faults w' = w_faults w" "w_log w' = w_log w" "wf_steps w' = wf_steps w @ [s]"
  shows "run_ok run (Suc i) w'"
  using assms by (auto simp: run_ok_def once_ok_def no_faults_def notified_once_more_steps has_step_snoc show_nat_inj)

lemma step_ok_recorded: "step_ok run i (ret a)"
  by (auto simp: step_ok_def ret_def run_ok_suc)

lemma step_ok_new:
  assumes "step_ok run i work"
  shows "step_ok run i (new_step run work)"
  unfolding step_ok_def
proof (intro allI impI)
  fix w :: "'a workflow_world" assume w: "run_ok run i w"
  define w1 where "w1 = w\<lparr>w_step := Suc (w_step w)\<rparr>"
  have w1: "run_ok run i w1" by (rule run_ok_frame [OF w]) (simp_all add: w1_def)
  have "new_step run work w = (if instance_status (run_id run) w1 = Some WCanceled then (Inr StepCanceled, w1) else work w1)"
    using w by (simp add: new_step_def canceled_now_def action_defs Let_def run_ok_def once_ok_def no_faults_def w1_def)
  then show "case new_step run work w of (Inl _, w') \<Rightarrow> once_ok w' | (Inr _, w') \<Rightarrow> run_ok run (Suc i) w'"
    using assms w1 run_ok_suc [OF w1] by (simp add: step_ok_def)
qed

lemma step_ok_error: "(\<And>a. r = Inr a \<Longrightarrow> step_ok run i (f a)) \<Longrightarrow> step_ok run i (bindA (lift_error r) f)"
  by (cases r) (auto simp: lift_error_def step_ok_def bindA_def throw_def run_ok_def)

text \<open>Actions before the insertion that touch neither the log nor the steps.\<close>

lemma step_ok_before:
  assumes "\<And>w. no_faults w \<Longrightarrow> \<exists>w1. m w = (Inr (), w1) \<and> w_faults w1 = w_faults w \<and> w_log w1 = w_log w \<and> wf_steps w1 = wf_steps w"
    and "step_ok run i n"
  shows "step_ok run i (thenA m n)"
  unfolding step_ok_def
proof (intro allI impI)
  fix w :: "'a workflow_world" assume w: "run_ok run i w"
  from assms(1) [of w] w obtain w1 where 1: "m w = (Inr (), w1)" "w_faults w1 = w_faults w" "w_log w1 = w_log w"
    "wf_steps w1 = wf_steps w" by (auto simp: run_ok_def once_ok_def)
  then have "run_ok run i w1" by (intro run_ok_frame [OF w])
  with assms(2) 1(1) show "case thenA m n w of (Inl _, w') \<Rightarrow> once_ok w' | (Inr _, w') \<Rightarrow> run_ok run (Suc i) w'"
    by (simp add: step_ok_def thenA_def bindA_def)
qed

lemma add_timer_runs:
  "no_faults w \<Longrightarrow> \<exists>w1. add_timer r due kvs w = (Inr (), w1) \<and> w_faults w1 = w_faults w \<and> w_log w1 = w_log w \<and> wf_steps w1 = wf_steps w"
  by (simp add: add_timer_def on_redis_def attempt_def Let_def no_faults_def)

lemma step_ok_insert_then:
  assumes "recorded run i = None" "\<And>w. no_faults w \<Longrightarrow> \<exists>a w1. n w = (Inr a, w1) \<and> w_faults w1 = w_faults w \<and> w_log w1 = w_log w \<and> wf_steps w1 = wf_steps w"
  shows "step_ok run i (thenA (insert_step (step_row run i action out)) n)"
  unfolding step_ok_def
proof (intro allI impI)
  fix w :: "'a workflow_world" assume w: "run_ok run i w"
  let ?s = "step_row run i action out"
  have "\<not> has_step (run_id run) i (wf_steps w)" using w assms(1) by (simp add: run_ok_def)
  then have ins: "insert_step ?s w = (Inr (), w\<lparr>w_step := Suc (w_step w), wf_steps := wf_steps w @ [?s]\<rparr>)" (is "_ = (_, ?w1)")
    using w by (intro insert_step_run) (simp_all add: run_ok_def once_ok_def step_row_def)
  have "no_faults ?w1" using w by (simp add: run_ok_def once_ok_def no_faults_def)
  from assms(2) [OF this] obtain a w2 where 2: "n ?w1 = (Inr a, w2)" "w_faults w2 = w_faults ?w1" "w_log w2 = w_log ?w1"
    "wf_steps w2 = wf_steps ?w1" by blast
  then have "run_ok run (Suc i) w2"
    by (intro run_ok_insert [OF w, of ?s]) (simp_all add: step_row_def)
  then show "case thenA (insert_step ?s) n w of (Inl _, w') \<Rightarrow> once_ok w' | (Inr _, w') \<Rightarrow> run_ok run (Suc i) w'"
    using ins 2(1) by (simp add: thenA_def bindA_def)
qed

lemma step_ok_notify: "step_ok run i (step_notify run args i)"
proof (cases "recorded run i")
  case None
  have publish: "step_ok run i (thenA (perform (RequestNotification requested t))
      (thenA (insert_step (step_row run i ''notify'' (Some out))) (ret (StepValue out))) :: ('a, step_result) wf_act)"
    if key: "nr_idempotencyKey requested = Some (step_key (run_id run) i)" for requested t out
    unfolding step_ok_def
  proof (intro allI impI)
    fix w :: "'a workflow_world" assume w: "run_ok run i w"
    let ?e = "RequestNotification requested t" and ?s = "step_row run i ''notify'' (Some out)"
    define w1 where "w1 = w\<lparr>w_step := Suc (w_step w), w_log := w_log w @ [?e]\<rparr>"
    have p: "perform ?e w = (Inr (), w1)"
      using w by (simp add: perform_def attempt_def record_effect_def Let_def run_ok_def once_ok_def no_faults_def w1_def)
    have fresh: "\<not> has_step (run_id run) i (wf_steps w)" using w None by (simp add: run_ok_def)
    have ins: "insert_step ?s w1 = (Inr (), w1\<lparr>w_step := Suc (w_step w1), wf_steps := wf_steps w1 @ [?s]\<rparr>)"
      using w fresh by (intro insert_step_run) (simp_all add: run_ok_def once_ok_def no_faults_def step_row_def w1_def)
    have "notified_once (w_log w @ [?e]) (wf_steps w @ [?s])"
      using w fresh key by (intro notified_once_both) (simp_all add: run_ok_def once_ok_def step_row_def)
    then have "run_ok run (Suc i) (w1\<lparr>w_step := Suc (w_step w1), wf_steps := wf_steps w1 @ [?s]\<rparr>)"
      using w by (auto simp: run_ok_def once_ok_def no_faults_def w1_def has_step_snoc step_row_def show_nat_inj)
    then show "case thenA (perform ?e) (thenA (insert_step ?s) (ret (StepValue out))) w of
        (Inl _, w') \<Rightarrow> once_ok w' | (Inr _, w') \<Rightarrow> run_ok run (Suc i) w'"
      using p ins by (simp add: thenA_def bindA_def ret_def)
  qed
  show ?thesis unfolding step_notify_def None option.case Let_def
    by (intro step_ok_new step_ok_error publish) (auto simp: buildStepNotifyPayload_def split: sum.splits)
qed (simp add: step_notify_def step_ok_recorded)

lemma step_ok_wait: "step_ok run i (step_wait r run duration i)"
proof (cases "recorded run i")
  case None
  then show ?thesis unfolding step_wait_def None option.case Let_def
    by (intro step_ok_new step_ok_error step_ok_before [OF add_timer_runs] step_ok_insert_then [OF None]) (auto simp: ret_def)
qed (simp add: step_wait_def step_ok_recorded)

lemma step_ok_event: "step_ok run i (step_waitForEvent r run eventName options i)"
proof (cases "recorded run i")
  case None
  then show ?thesis unfolding step_waitForEvent_def None option.case Let_def
    by (intro step_ok_new step_ok_error step_ok_before [OF add_timer_runs] step_ok_insert_then [OF None])
       (auto simp: thenA_def bindA_def ret_def attempt_def Let_def no_faults_def)
qed (simp add: step_waitForEvent_def step_ok_recorded)

lemma once_ok_emit: "run_ok run i w \<Longrightarrow> run_ok run i (record_effect (RunStep s) w)"
  by (simp add: run_ok_def once_ok_def no_faults_def record_effect_def notified_once_other notified_def)

lemma step_ok_fn: "step_ok run i (step_run run stepName fn i)"
proof (cases "recorded run i")
  case None
  have emitted: "step_ok run i (thenA (emit (RunStep stepName)) m)" if "step_ok run i m" for m :: "('a, step_result) wf_act"
    unfolding step_ok_def
  proof (intro allI impI)
    fix w :: "'a workflow_world" assume "run_ok run i w"
    from once_ok_emit [OF this, of stepName] that
    show "case thenA (emit (RunStep stepName)) m w of (Inl _, w') \<Rightarrow> once_ok w' | (Inr _, w') \<Rightarrow> run_ok run (Suc i) w'"
      by (simp add: step_ok_def thenA_def bindA_def emit_def)
  qed
  show ?thesis unfolding step_run_def None option.case
    by (intro step_ok_new emitted step_ok_error step_ok_insert_then [OF None]) (simp add: ret_def)
qed (simp add: step_run_def step_ok_recorded)

lemma continue_ok:
  assumes "step_ok run i m" "\<And>v. leads (run_ok run (Suc i)) (k v) once_ok"
  shows "leads (run_ok run i) (continue_with m k) once_ok"
proof (rule leadsI)
  fix w :: "'a workflow_world" assume w: "run_ok run i w"
  with assms(1) have "case m w of (Inl _, w') \<Rightarrow> once_ok w' | (Inr _, w') \<Rightarrow> run_ok run (Suc i) w'"
    by (simp add: step_ok_def)
  then show "once_ok (snd (continue_with m k w))"
    using assms(2) by (auto simp: continue_with_def bindA_def ret_def run_ok_def leads_def
        split: prod.splits sum.splits step_result.splits)
qed

lemma run_handler_once: "leads (run_ok run i) (run_handler r run h i) once_ok"
proof (induction h arbitrary: i)
  case HReturn
  then show ?case by (simp add: leads_def ret_def run_ok_def)
next
  case (HThrow x)
  then show ?case by (simp add: leads_def throw_def run_ok_def)
next
  case (HNotify args k)
  then show ?case by (auto intro!: continue_ok step_ok_notify)
next
  case (HWait d h)
  then show ?case by (auto intro!: continue_ok step_ok_wait)
next
  case (HWaitForEvent ev options k)
  then show ?case by (auto intro!: continue_ok step_ok_event)
next
  case (HRun s fn k)
  then show ?case by (auto intro!: continue_ok step_ok_fn)
qed

lemma recorded_start:
  "(recorded (start_run rx m x steps) j = None) \<longleftrightarrow> \<not> list_ex (\<lambda>s. ws_stepIndex s = show_nat j) steps"
proof -
  have "(jm_get (foldl (\<lambda>o' s. jm_set (ws_stepIndex s) (ws_output s) o') m0 steps) k = None)
      \<longleftrightarrow> jm_get m0 k = None \<and> \<not> list_ex (\<lambda>s. ws_stepIndex s = k) steps" for k m0
    by (induction steps arbitrary: m0) (auto simp: update_conv')
  then show ?thesis by (simp add: recorded_def start_run_def)
qed

lemma start_run_ok:
  assumes "once_ok w" "wi_id x = i"
  shows "run_ok (start_run rx m x (instance_steps i w)) 0 w"
proof -
  have "run_id (start_run rx m x (instance_steps i w)) = i" using assms(2) by (simp add: run_id_def start_run_def)
  then show ?thesis using assms(1)
    by (auto simp: run_ok_def recorded_start instance_steps_def has_step_def list_ex_iff)
qed

lemma once_ok_frame [simp]:
  "once_ok (w\<lparr>w_step := n\<rparr>) = once_ok w" "once_ok (w\<lparr>w_redis := s\<rparr>) = once_ok w"
  "once_ok (w\<lparr>wf_instances := xs\<rparr>) = once_ok w" "once_ok (w\<lparr>wf_waiters := ys\<rparr>) = once_ok w"
  by (simp_all add: once_ok_def no_faults_def)

lemma keep_once_redis: "keeps once_ok (on_redis f)"
  by (rule keep_on_redis) simp_all

lemma keep_once_finish: "keeps once_ok (finish i st)"
  unfolding finish_def set_status_def by (rule keep_attempt) simp_all

lemma keep_once_load: "keeps once_ok (load_instance m)"
  unfolding load_instance_def by (intro keep_bind keep_option keep_ret keep_attempt) (simp_all add: Let_def)

lemma load_instance_id: "load_instance m w = (Inr x, w') \<Longrightarrow> wi_id x = wm_instanceId m"
  by (auto simp: load_instance_def find_instance_def bindA_def attempt_def ret_def Let_def find_Some_iff
      split: option.splits)

lemma leads_bind_keep:
  "leads P m Q \<Longrightarrow> (\<And>a. keeps Q (f a)) \<Longrightarrow> leads P (bindA m f) Q"
  by (fastforce simp: leads_def keeps_def bindA_def split: prod.split sum.split)

lemma keep_bind_value:
  assumes "keeps P m" "\<And>a w w'. m w = (Inr a, w') \<Longrightarrow> keeps P (f a)"
  shows "keeps P (bindA m f)"
proof (rule keepsI)
  fix w assume w: "P w"
  obtain r w1 where m: "m w = (r, w1)" by force
  have w1: "P w1" by (rule keeps_run [OF assms(1) w m])
  show "P (snd (bindA m f w))"
  proof (cases r)
    case (Inr a)
    from keepsD [OF assms(2) [OF m [unfolded Inr]] w1] show ?thesis using m Inr by (simp add: bindA_def)
  qed (use m w1 in \<open>simp add: bindA_def\<close>)
qed

lemma run_claimed_once: "leads (run_ok run 0) (run_claimed r run h) once_ok"
  unfolding run_claimed_def
  by (intro leads_bind_keep leads_catch run_handler_once keep_if keep_then keep_once_finish keep_ret)

lemma run_read_steps_once:
  assumes "wi_id x = i"
  shows "keeps once_ok (bindA (attempt (\<lambda>w. (instance_steps i w, w))) (\<lambda>steps. run_claimed r (start_run rx m x steps) h))"
proof (rule keepsI)
  fix w :: "'a workflow_world" assume w: "once_ok w"
  let ?v = "w\<lparr>w_step := Suc (w_step w)\<rparr>"
  have "once_ok ?v" using w by simp
  from leadsD [OF run_claimed_once start_run_ok [OF this assms], of r rx m h]
  show "once_ok (snd (bindA (attempt (\<lambda>w. (instance_steps i w, w))) (\<lambda>steps. run_claimed r (start_run rx m x steps) h) w))"
    using w by (simp add: bindA_def attempt_def Let_def once_ok_def no_faults_def)
qed

lemma run_instance_once: "keeps once_ok (run_instance r rx m handler)"
proof -
  have set: "keeps once_ok (attempt (set_status i a b))" for i a b
    by (rule keep_attempt) (simp_all add: set_status_def)
  show ?thesis
    unfolding run_instance_def deferResume_def add_timer_def
    by (intro keep_bind_value [OF keep_once_load] keep_if keep_ret keep_once_redis run_read_steps_once
        keep_bind [OF set]) (rule load_instance_id)
qed

lemma workflow_process_once: "keeps once_ok (workflow_process r registry rx e)"
proof -
  have "keeps once_ok (find_handler registry m)" for m :: workflow_message
    unfolding find_handler_def by (intro keep_option keep_ret keep_attempt) simp_all
  then show ?thesis
    unfolding workflow_process_def under_lock_def deferResume_def add_timer_def
    by (intro keep_option keep_ret keep_bind keep_if keep_finally keep_then keep_once_redis run_instance_once)
qed

definition workflow_runs ::
  "'r redis \<Rightarrow> workflow_registry \<Rightarrow> (run_context \<times> workflow_event) list \<Rightarrow> 'r workflow_world \<Rightarrow> 'r workflow_world" where
  "workflow_runs r registry es w = foldl (\<lambda>w (rx, e). snd (workflow_process r registry rx e w)) w es"

text \<open>
  C14: However often instances are triggered and resumed, early, twice or out of order, and
  whatever their handlers do, a notify step of an instance requests its notification at most
  once, as long as no outside call fails: a later run replays the recorded output. (When the
  recording fails after the publish, the request carries the same idempotency key, and the
  enricher drops the second one.)
\<close>
theorem workflow_step_notifies_once:
  assumes "no_faults w" "w_log w = []"
  shows "length (filter (notified i j) (w_log (workflow_runs r registry es w))) \<le> 1"
proof -
  have "once_ok w" using assms by (simp add: once_ok_def notified_once_def)
  then have "once_ok (workflow_runs r registry es w)"
    unfolding workflow_runs_def
    by (induction es arbitrary: w) (auto intro: keepsD [OF workflow_process_once])
  then show ?thesis by (auto simp: once_ok_def notified_once_def dest!: spec [of _ i] spec [of _ j] split: if_splits)
qed


section \<open>A pending instance has its wake-up\<close>

definition has_timer :: "(string \<Rightarrow> 'r \<Rightarrow> zset) \<Rightarrow> string \<Rightarrow> 'r workflow_world \<Rightarrow> bool" where
  "has_timer view i w \<longleftrightarrow> (\<exists>kvs due. (json_stringify (JObj kvs), due) \<in> set (view WORKFLOW_TIMERS_KEY (w_redis w))
     \<and> jm_get kvs ''instanceId'' = Some (JStr i))"

text \<open>A step whose wake-up was arranged when it was recorded: a wait still ahead, an event not yet there.\<close>

definition waiting_step :: "ms \<Rightarrow> json option \<Rightarrow> bool" where
  "waiting_step now out \<longleftrightarrow> still_asleep now out \<or> event_result out = StepSuspends"

definition awaits_recorded :: "workflow_run \<Rightarrow> bool" where
  "awaits_recorded run \<longleftrightarrow> (\<exists>j out. recorded run j = Some out \<and> waiting_step (wr_now run) out)"

definition asleep_ok :: "(string \<Rightarrow> 'r \<Rightarrow> zset) \<Rightarrow> workflow_run \<Rightarrow> step_result \<Rightarrow> 'r workflow_world \<Rightarrow> bool" where
  "asleep_ok view run res w \<longleftrightarrow> no_faults w \<and> (res = StepSuspends \<longrightarrow> has_timer view (run_id run) w \<or> awaits_recorded run)"

definition sleeps_ok :: "(string \<Rightarrow> 'r \<Rightarrow> zset) \<Rightarrow> workflow_run \<Rightarrow> ('r, step_result) wf_act \<Rightarrow> bool" where
  "sleeps_ok view run m \<longleftrightarrow> (\<forall>w res w'. no_faults w \<longrightarrow> m w = (Inr res, w') \<longrightarrow> asleep_ok view run res w')"

lemma add_timer_has:
  assumes "redis_zset_laws r view" "no_faults w" "jm_get kvs ''instanceId'' = Some (JStr i)"
    and "add_timer r due kvs w = (res, w')"
  shows "has_timer view i w'" "no_faults w'"
proof -
  have z: "set (view k (ZADD r k x mem s)) = insert (mem, x) (set (AList.delete mem (view k s)))" for k x mem s
    using assms(1) by (simp add: redis_zset_laws_def)
  have w': "w' = w\<lparr>w_step := Suc (w_step w), w_redis := ZADD r WORKFLOW_TIMERS_KEY due (json_stringify (JObj kvs)) (w_redis w)\<rparr>"
    using assms(2,4) by (simp add: add_timer_def on_redis_def attempt_def Let_def no_faults_def)
  then show "no_faults w'" using assms(2) by (simp add: no_faults_def)
  show "has_timer view i w'" using w' assms(3) z by (auto simp: has_timer_def)
qed

lemma sleeps_new:
  assumes "sleeps_ok view run work"
  shows "sleeps_ok view run (new_step run work)"
  unfolding sleeps_ok_def
proof (intro allI impI)
  fix w res w' assume w: "no_faults w" and run: "new_step run work w = (Inr res, w')"
  let ?v = "w\<lparr>w_step := Suc (w_step w)\<rparr>"
  have v: "no_faults ?v" using w by (simp add: no_faults_def)
  have "new_step run work w = (if instance_status (run_id run) ?v = Some WCanceled then (Inr StepCanceled, ?v) else work ?v)"
    using w by (simp add: new_step_def canceled_now_def bindA_def attempt_def Let_def ret_def no_faults_def)
  with run assms v show "asleep_ok view run res w'"
    by (auto simp: sleeps_ok_def asleep_ok_def split: if_splits)
qed

lemma sleeps_error: "(\<And>a. sleeps_ok view run (f a)) \<Longrightarrow> sleeps_ok view run (bindA (lift_error x) f)"
  by (cases x) (auto simp: lift_error_def sleeps_ok_def bindA_def throw_def)

definition timer_set :: "(string \<Rightarrow> 'r \<Rightarrow> zset) \<Rightarrow> string \<Rightarrow> 'r workflow_world \<Rightarrow> bool" where
  "timer_set view i w \<longleftrightarrow> no_faults w \<and> has_timer view i w"

lemma keep_timer_insert: "keeps (timer_set view i) (insert_step s)"
  unfolding insert_step_def
  by (intro keep_bind keep_attempt keep_if keep_ret keep_throw) (auto simp: timer_set_def no_faults_def has_timer_def)

lemma keep_timer_waiter: "keeps (timer_set view i) (attempt (\<lambda>w. ((), w\<lparr>wf_waiters := f w\<rparr>)))"
  by (rule keep_attempt) (auto simp: timer_set_def no_faults_def has_timer_def)

lemma sleeps_after_timer:
  assumes "redis_zset_laws r view" "jm_get kvs ''instanceId'' = Some (JStr (run_id run))"
    and "keeps (timer_set view (run_id run)) n"
  shows "sleeps_ok view run (thenA (add_timer r due kvs) n)"
  unfolding sleeps_ok_def
proof (intro allI impI)
  fix w res w' assume w: "no_faults w" and run: "thenA (add_timer r due kvs) n w = (Inr res, w')"
  obtain t w1 where t: "add_timer r due kvs w = (t, w1)" by force
  have "timer_set view (run_id run) w1" using add_timer_has [OF assms(1) w assms(2) t] by (simp add: timer_set_def)
  then have "timer_set view (run_id run) (snd (n w1))" by (rule keepsD [OF assms(3)])
  moreover have "w' = snd (n w1)" using run t by (auto simp: thenA_def bindA_def split: sum.splits)
  ultimately show "asleep_ok view run res w'" by (simp add: asleep_ok_def timer_set_def)
qed

lemma sleeps_recorded:
  "recorded run i = Some out \<Longrightarrow> (res = StepSuspends \<Longrightarrow> waiting_step (wr_now run) out) \<Longrightarrow> sleeps_ok view run (ret res)"
  by (auto simp: sleeps_ok_def ret_def asleep_ok_def awaits_recorded_def)

lemma timer_fields_id: "jm_get (timer_fields run @ kvs) ''instanceId'' = Some (JStr (run_id run))"
  by (simp add: timer_fields_def)

lemma sleeps_wait: "redis_zset_laws r view \<Longrightarrow> sleeps_ok view run (step_wait r run duration i)"
  unfolding step_wait_def Let_def using timer_fields_id [of run "[]"]
  by (cases "recorded run i")
     (auto intro!: sleeps_new sleeps_error sleeps_after_timer keep_then keep_timer_insert keep_ret sleeps_recorded
       simp: waiting_step_def split: if_splits)

lemma sleeps_event: "redis_zset_laws r view \<Longrightarrow> sleeps_ok view run (step_waitForEvent r run eventName options i)"
  unfolding step_waitForEvent_def Let_def
  by (cases "recorded run i")
     (auto intro!: sleeps_new sleeps_error sleeps_after_timer keep_then keep_timer_insert keep_timer_waiter keep_ret
       sleeps_recorded timer_fields_id simp: waiting_step_def)

lemma keep_nf: "keeps no_faults (insert_step s)" "keeps no_faults (lift_error x)"
  "keeps no_faults (canceled_now run)"
  unfolding insert_step_def canceled_now_def lift_error_def
  by (auto simp: no_faults_def split: sum.split intro!: keep_bind keep_attempt keep_if keep_ret keep_throw)

lemma sleeps_value:
  assumes "keeps no_faults m" "\<And>w. fst (m w) \<noteq> Inr StepSuspends"
  shows "sleeps_ok view run m"
  unfolding sleeps_ok_def asleep_ok_def
  using assms keeps_run [OF assms(1)] by (metis fst_conv)

lemma never_suspends_new: "(\<And>w. fst (work w) \<noteq> Inr StepSuspends) \<Longrightarrow> fst (new_step run work w) \<noteq> Inr StepSuspends"
  by (auto simp: new_step_def bindA_def ret_def split: prod.split sum.split)

lemma never_suspends_bind: "(\<And>a w. fst (f a w) \<noteq> Inr StepSuspends) \<Longrightarrow> fst (bindA m f w) \<noteq> Inr StepSuspends"
  by (auto simp: bindA_def split: prod.split sum.split)

lemma never_suspends_ret: "v \<noteq> StepSuspends \<Longrightarrow> fst (ret v w) \<noteq> Inr StepSuspends"
  by (simp add: ret_def)

lemma sleeps_notify: "sleeps_ok view run (step_notify run args i)"
proof (rule sleeps_value)
  show "keeps no_faults (step_notify run args i)"
    unfolding step_notify_def new_step_def Let_def
    by (intro keep_option keep_ret keep_bind keep_if keep_then keep_nf keep_no_faults)
  show "fst (step_notify run args i w) \<noteq> Inr StepSuspends" for w
    unfolding step_notify_def thenA_def Let_def
    by (cases "recorded run i") (auto intro!: never_suspends_new never_suspends_bind never_suspends_ret simp: ret_def)
qed

lemma sleeps_fn: "sleeps_ok view run (step_run run stepName fn i)"
proof (rule sleeps_value)
  show "keeps no_faults (step_run run stepName fn i)"
    unfolding step_run_def new_step_def
    by (intro keep_option keep_ret keep_bind keep_if keep_then keep_nf keep_no_faults)
  show "fst (step_run run stepName fn i w) \<noteq> Inr StepSuspends" for w
    unfolding step_run_def thenA_def
    by (cases "recorded run i") (auto intro!: never_suspends_new never_suspends_bind never_suspends_ret simp: ret_def)
qed

lemma continue_sleeps:
  assumes "sleeps_ok view run m" "no_faults w" "continue_with m k w = (Inr RunSuspended, w')"
    and "\<And>v w1. no_faults w1 \<Longrightarrow> k v w1 = (Inr RunSuspended, w') \<Longrightarrow> asleep_ok view run StepSuspends w'"
  shows "asleep_ok view run StepSuspends w'"
proof -
  obtain r1 w1 where m: "m w = (r1, w1)" by force
  then show ?thesis
    using assms by (auto simp: continue_with_def bindA_def ret_def sleeps_ok_def asleep_ok_def
        split: sum.splits step_result.splits)
qed

lemma run_handler_sleeps:
  assumes "redis_zset_laws r view"
  shows "no_faults w \<Longrightarrow> run_handler r run h i w = (Inr RunSuspended, w') \<Longrightarrow> asleep_ok view run StepSuspends w'"
proof (induction h arbitrary: i w)
  case (HNotify args k)
  from HNotify.prems(2) show ?case unfolding run_handler.simps
    by (rule continue_sleeps [OF sleeps_notify HNotify.prems(1)]) (rule HNotify.IH [OF rangeI])
next
  case (HWait d h)
  from HWait.prems(2) show ?case unfolding run_handler.simps
    by (rule continue_sleeps [OF sleeps_wait [OF assms] HWait.prems(1)]) (rule HWait.IH)
next
  case (HWaitForEvent ev options k)
  from HWaitForEvent.prems(2) show ?case unfolding run_handler.simps
    by (rule continue_sleeps [OF sleeps_event [OF assms] HWaitForEvent.prems(1)]) (rule HWaitForEvent.IH [OF rangeI])
next
  case (HRun s fn k)
  from HRun.prems(2) show ?case unfolding run_handler.simps
    by (rule continue_sleeps [OF sleeps_fn HRun.prems(1)]) (rule HRun.IH [OF rangeI])
qed (simp_all add: ret_def throw_def)


definition status_is :: "string \<Rightarrow> workflow_status \<Rightarrow> 'r workflow_world \<Rightarrow> bool" where
  "status_is i st w \<longleftrightarrow> no_faults w \<and> instance_status i w = Some st"

lemma status_is_frame [simp]:
  "status_is i st (w\<lparr>w_step := n\<rparr>) = status_is i st w" "status_is i st (w\<lparr>w_redis := s\<rparr>) = status_is i st w"
  "status_is i st (w\<lparr>w_log := l\<rparr>) = status_is i st w" "status_is i st (w\<lparr>wf_steps := ss\<rparr>) = status_is i st w"
  "status_is i st (w\<lparr>wf_waiters := ys\<rparr>) = status_is i st w"
  by (simp_all add: status_is_def no_faults_def instance_status_def find_instance_def)

lemma keep_status_basic:
  "keeps (status_is i st) (on_redis f)" "keeps (status_is i st) (perform e)" "keeps (status_is i st) (emit e)"
  "keeps (status_is i st) (insert_step s)" "keeps (status_is i st) (lift_error x)"
  "keeps (status_is i st) (canceled_now run)"
proof -
  show "keeps (status_is i st) (on_redis f)" by (rule keep_on_redis) simp_all
  show "keeps (status_is i st) (perform e)" unfolding perform_def
    by (rule keep_attempt) (simp_all add: record_effect_def)
  show "keeps (status_is i st) (emit e)" by (simp add: keeps_def emit_def record_effect_def)
  show "keeps (status_is i st) (insert_step s)" unfolding insert_step_def
    by (intro keep_bind keep_attempt keep_if keep_ret keep_throw) auto
  show "keeps (status_is i st) (lift_error x)" unfolding lift_error_def
    by (simp add: keep_ret keep_throw split: sum.split)
  show "keeps (status_is i st) (canceled_now run)" unfolding canceled_now_def by (rule keep_attempt) simp_all
qed

lemma keep_status_steps:
  "keeps (status_is i st) (step_notify run args j)" "keeps (status_is i st) (step_wait r run duration j)"
  "keeps (status_is i st) (step_waitForEvent r run eventName options j)" "keeps (status_is i st) (step_run run stepName fn j)"
proof -
  have w: "keeps (status_is i st) (attempt (\<lambda>w. ((), w\<lparr>wf_waiters := f w\<rparr>)))" for f
    by (rule keep_attempt) simp_all
  note basic = keep_option keep_ret keep_bind keep_if keep_then keep_status_basic w
  show "keeps (status_is i st) (step_notify run args j)" unfolding step_notify_def new_step_def Let_def by (intro basic)
  show "keeps (status_is i st) (step_wait r run duration j)"
    unfolding step_wait_def new_step_def Let_def add_timer_def by (intro basic)
  show "keeps (status_is i st) (step_waitForEvent r run eventName options j)"
    unfolding step_waitForEvent_def new_step_def Let_def add_timer_def by (intro basic)
  show "keeps (status_is i st) (step_run run stepName fn j)" unfolding step_run_def new_step_def by (intro basic)
qed

lemma keep_continue:
  assumes "keeps P m" "\<And>v. keeps P (k v)"
  shows "keeps P (continue_with m k)"
  unfolding continue_with_def
  by (rule keep_bind [OF assms(1)]) (simp add: assms(2) keep_ret split: step_result.split)

lemma keep_status_handler: "keeps (status_is i st) (run_handler r run h j)"
  by (induction h arbitrary: j) (auto intro!: keep_continue keep_status_steps keep_ret keep_throw)

lemma finish_status:
  assumes "status_is i WRunning w"
  shows "\<exists>w'. finish i new w = (Inr (), w') \<and> status_is i new w' \<and> w_redis w' = w_redis w"
proof -
  let ?v = "w\<lparr>w_step := Suc (w_step w)\<rparr>"
  have "instance_status i ?v = Some WRunning" using assms by (simp add: status_is_def instance_status_def find_instance_def)
  then have "instance_status i (snd (set_status i WRunning new ?v)) = Some new" by (simp add: set_status_other)
  then show ?thesis using assms
    by (auto simp: finish_def attempt_def Let_def status_is_def no_faults_def set_status_def)
qed

text \<open>What a claimed instance becomes, and the timer it has when that is pending.\<close>

lemma run_claimed_status:
  assumes "redis_zset_laws r view" "status_is (run_id run) WRunning w" "run_claimed r run h w = (res, w')"
  shows "no_faults w' \<and> (instance_status (run_id run) w' = Some WPending \<longrightarrow> has_timer view (run_id run) w' \<or> awaits_recorded run)"
proof -
  obtain o' w1 where h: "run_handler r run h 0 w = (o', w1)" by force
  have s1: "status_is (run_id run) WRunning w1" by (rule keeps_run [OF keep_status_handler assms(2) h])
  show ?thesis
  proof (cases o')
    case (Inl e)
    from finish_status [OF s1, of WFailed] obtain v where "finish (run_id run) WFailed w1 = (Inr (), v)"
      "status_is (run_id run) WFailed v" by blast
    then show ?thesis using assms(3) h Inl
      by (auto simp: run_claimed_def bindA_def catchA_def thenA_def ret_def status_is_def)
  next
    case (Inr out)
    show ?thesis
    proof (cases out)
      case RunFinished
      from finish_status [OF s1, of WCompleted] obtain v where "finish (run_id run) WCompleted w1 = (Inr (), v)"
        "status_is (run_id run) WCompleted v" by blast
      then show ?thesis using assms(3) h Inr RunFinished
        by (auto simp: run_claimed_def bindA_def catchA_def thenA_def ret_def status_is_def)
    next
      case RunSuspended
      have "no_faults w" using assms(2) by (simp add: status_is_def)
      from run_handler_sleeps [OF assms(1) this] h Inr RunSuspended
      have a: "asleep_ok view run StepSuspends w1" by blast
      from finish_status [OF s1, of WPending] obtain v where "finish (run_id run) WPending w1 = (Inr (), v)"
        "status_is (run_id run) WPending v" "w_redis v = w_redis w1" by blast
      with a show ?thesis using assms(3) h Inr RunSuspended
        by (auto simp: run_claimed_def bindA_def catchA_def thenA_def ret_def status_is_def asleep_ok_def has_timer_def)
    next
      case RunCanceled
      then show ?thesis using assms(3) h Inr s1
        by (auto simp: run_claimed_def bindA_def catchA_def thenA_def ret_def status_is_def)
    next
      case RunFailed
      then show ?thesis using assms(3) h Inr s1
        by (auto simp: run_claimed_def bindA_def catchA_def thenA_def ret_def status_is_def)
    qed
  qed
qed

lemma recorded_row:
  assumes "recorded (start_run rx m x steps) j = Some out"
  shows "\<exists>s \<in> set steps. ws_output s = out"
proof -
  have "jm_get (foldl (\<lambda>o' s. jm_set (ws_stepIndex s) (ws_output s) o') m0 steps) k = Some out
      \<Longrightarrow> jm_get m0 k = Some out \<or> (\<exists>s \<in> set steps. ws_output s = out)" for m0 k
    by (induction steps arbitrary: m0) (fastforce simp: update_conv' split: if_splits)+
  from this [of "[]" "show_nat j"] show ?thesis using assms by (simp add: recorded_def start_run_def)
qed

definition wakes :: "(string \<Rightarrow> 'r \<Rightarrow> zset) \<Rightarrow> ms \<Rightarrow> string \<Rightarrow> wf_step list \<Rightarrow> 'r workflow_world \<Rightarrow> bool" where
  "wakes view now i steps w \<longleftrightarrow> no_faults w \<and> (instance_status i w = Some WPending \<longrightarrow> has_timer view i w
     \<or> (\<exists>s \<in> set steps. ws_instanceId s = i \<and> waiting_step now (ws_output s)))"

lemma load_instance_run:
  assumes "no_faults w"
  shows "\<exists>x w'. load_instance m w = (Inr x, w') \<and> status_is (wm_instanceId m) (wi_status x) w'
    \<and> wi_id x = wm_instanceId m \<and> wf_steps w' = wf_steps w"
proof (cases "find_instance (wm_instanceId m) w")
  case None
  then show ?thesis using assms
    by (auto simp: load_instance_def bindA_def attempt_def ret_def Let_def no_faults_def find_instance_def find_append
        status_is_def instance_status_def)
next
  case (Some x)
  moreover have "wi_id x = wm_instanceId m" using Some by (auto simp: find_instance_def find_Some_iff)
  ultimately show ?thesis using assms
    by (auto simp: load_instance_def bindA_def attempt_def ret_def Let_def no_faults_def find_instance_def
        status_is_def instance_status_def)
qed

lemma claim_run:
  assumes "status_is i WPending w"
  shows "\<exists>n w'. attempt (set_status i WPending WRunning) w = (Inr (Suc n), w') \<and> status_is i WRunning w'
    \<and> wf_steps w' = wf_steps w"
proof -
  let ?v = "w\<lparr>w_step := Suc (w_step w)\<rparr>"
  define w' where "w' = snd (set_status i WPending WRunning ?v)"
  obtain x where "find_instance i w = Some x" "wi_status x = WPending"
    using assms by (auto simp: status_is_def instance_status_def)
  then have "x \<in> set (filter (\<lambda>x. wi_id x = i \<and> wi_status x = WPending) (wf_instances w))"
    by (auto simp: find_instance_def find_Some_iff)
  then obtain n where "length (filter (\<lambda>x. wi_id x = i \<and> wi_status x = WPending) (wf_instances w)) = Suc n"
    by (metis length_pos_if_in_set gr0_conv_Suc)
  then have "set_status i WPending WRunning ?v = (Suc n, w')" by (simp add: w'_def set_status_def)
  then have "attempt (set_status i WPending WRunning) w = (Inr (Suc n), w')"
    using assms by (simp add: attempt_def Let_def status_is_def no_faults_def)
  moreover have "status_is i WPending ?v" using assms by simp
  then have "instance_status i w' = Some WRunning" by (simp add: w'_def set_status_other status_is_def)
  moreover have "no_faults w'" "wf_steps w' = wf_steps w"
    using assms by (simp_all add: w'_def set_status_def status_is_def no_faults_def)
  ultimately show ?thesis by (simp add: status_is_def)
qed

lemma run_instance_wakes:
  assumes laws: "redis_zset_laws r view" and w: "no_faults w" and run: "run_instance r rx m handler w = (res, w')"
  shows "wakes view (rx_now rx) (wm_instanceId m) (wf_steps w) w'"
proof -
  let ?i = "wm_instanceId m"
  from load_instance_run [OF w, of m] obtain x w1 where l: "load_instance m w = (Inr x, w1)"
    "status_is ?i (wi_status x) w1" "wi_id x = ?i" "wf_steps w1 = wf_steps w" by blast
  have nf: "no_faults w1" using l(2) by (simp add: status_is_def)
  show ?thesis
  proof (cases "wi_status x")
    case WRunning
    obtain d w2 where d: "deferResume r (rx_now rx) m w1 = (d, w2)" by force
    have "has_timer view ?i w2" "no_faults w2"
      using add_timer_has [OF laws nf _ d [unfolded deferResume_def], of ?i] by simp_all
    then show ?thesis using run l(1) d WRunning by (simp add: run_instance_def bindA_def wakes_def)
  next
    case WPending
    from claim_run [of ?i w1] l(2) WPending obtain n w2 where c: "attempt (set_status ?i WPending WRunning) w1 = (Inr (Suc n), w2)"
      "status_is ?i WRunning w2" "wf_steps w2 = wf_steps w1" by auto
    let ?v = "w2\<lparr>w_step := Suc (w_step w2)\<rparr>" and ?run = "start_run rx m x (instance_steps ?i w2)"
    have id: "run_id ?run = ?i" using l(3) by (simp add: run_id_def start_run_def)
    have v: "status_is (run_id ?run) WRunning ?v" using c(2) id by simp
    have st: "instance_steps ?i ?v = instance_steps ?i w2" by (simp add: instance_steps_def)
    have "run_instance r rx m handler w = run_claimed r ?run (handler (handler_input x)) ?v"
      using l(1) c(1,2) WPending
      by (simp add: run_instance_def bindA_def attempt_def [of "\<lambda>w. (instance_steps ?i w, w)"] Let_def status_is_def
          no_faults_def st)
    with run have "run_claimed r ?run (handler (handler_input x)) ?v = (res, w')" by simp
    from run_claimed_status [OF laws v this] id
    have r': "no_faults w'" "instance_status ?i w' = Some WPending \<Longrightarrow> has_timer view ?i w' \<or> awaits_recorded ?run"
      by simp_all
    moreover have "\<exists>s \<in> set (wf_steps w). ws_instanceId s = ?i \<and> waiting_step (rx_now rx) (ws_output s)"
      if "awaits_recorded ?run"
    proof -
      from that obtain j out where "recorded ?run j = Some out" "waiting_step (wr_now ?run) out"
        unfolding awaits_recorded_def by blast
      moreover have "wr_now ?run = rx_now rx" by (simp add: start_run_def)
      ultimately show ?thesis using recorded_row [of rx m x "instance_steps ?i w2" j out] c(3) l(4)
        by (auto simp: instance_steps_def)
    qed
    ultimately show ?thesis by (auto simp: wakes_def)
  next
    case WCompleted
    then show ?thesis using run l(1,2) by (simp add: run_instance_def bindA_def ret_def wakes_def status_is_def)
  next
    case WFailed
    then show ?thesis using run l(1,2) by (simp add: run_instance_def bindA_def ret_def wakes_def status_is_def)
  next
    case WCanceled
    then show ?thesis using run l(1,2) by (simp add: run_instance_def bindA_def ret_def wakes_def status_is_def)
  qed
qed

text \<open>Deleting the lock leaves the timers alone.\<close>

definition timers_apart :: "'r redis \<Rightarrow> (string \<Rightarrow> 'r \<Rightarrow> zset) \<Rightarrow> bool" where
  "timers_apart r view \<longleftrightarrow> (\<forall>k s. k \<noteq> WORKFLOW_TIMERS_KEY \<longrightarrow> view WORKFLOW_TIMERS_KEY (snd (DEL r k s)) = view WORKFLOW_TIMERS_KEY s)"

lemma wakes_redis:
  assumes "wakes view now i steps w" "view WORKFLOW_TIMERS_KEY (snd (f (w_redis w))) = view WORKFLOW_TIMERS_KEY (w_redis w)"
  shows "wakes view now i steps (snd (on_redis f w))"
proof -
  let ?v = "snd (on_redis f w)"
  have w: "?v = w\<lparr>w_step := Suc (w_step w), w_redis := snd (f (w_redis w))\<rparr>"
    using assms(1) by (simp add: wakes_def on_redis_ok)
  then have "has_timer view i ?v = has_timer view i w" using assms(2) by (simp add: has_timer_def)
  moreover have "instance_status i ?v = instance_status i w" "no_faults ?v = no_faults w"
    using w by (simp_all add: instance_status_def find_instance_def no_faults_def)
  ultimately show ?thesis using assms(1) by (simp add: wakes_def)
qed

lemma release_wakes:
  assumes "timers_apart r view" "wakes view now i steps w"
  shows "wakes view now i steps (snd (on_redis (lua_release_lock r (lock_key j) token) w))"
proof (rule wakes_redis [OF assms(2)])
  have "lock_key j \<noteq> WORKFLOW_TIMERS_KEY" by (simp add: lock_key_def WORKFLOW_TIMERS_KEY_def)
  then show "view WORKFLOW_TIMERS_KEY (snd (lua_release_lock r (lock_key j) token (w_redis w))) = view WORKFLOW_TIMERS_KEY (w_redis w)"
    using assms(1) by (simp add: lua_release_lock_def timers_apart_def)
qed


section \<open>A cancel stops the run\<close>

text \<open>Every step that is not recorded reads the status first, so a canceled instance takes none.\<close>

definition canceled_at ::
  "string \<Rightarrow> workflow_effect list \<times> wf_step list \<times> wf_waiter list \<Rightarrow> 'r workflow_world \<Rightarrow> bool" where
  "canceled_at i rest w \<longleftrightarrow> settled_at i WCanceled rest w"

lemma keep_canceled_new_step: "keeps (canceled_at (run_id run) rest) (new_step run work)"
proof (rule keepsI)
  fix w :: "'a workflow_world" assume w: "canceled_at (run_id run) rest w"
  then have "settled_at (run_id run) WCanceled rest (w\<lparr>w_step := Suc (w_step w)\<rparr>)"
    and "instance_status (run_id run) (w\<lparr>w_step := Suc (w_step w)\<rparr>) = Some WCanceled"
    by (simp_all add: canceled_at_def settled_at_def instance_status_def find_instance_def)
  then show "canceled_at (run_id run) rest (snd (new_step run work w))"
    by (simp add: new_step_def canceled_now_def bindA_def attempt_def Let_def ret_def canceled_at_def split: option.split)
qed

lemma keep_canceled_step:
  "keeps (canceled_at (run_id run) rest) (step_notify run args i)"
  "keeps (canceled_at (run_id run) rest) (step_wait r run duration i)"
  "keeps (canceled_at (run_id run) rest) (step_waitForEvent r run eventName options i)"
  "keeps (canceled_at (run_id run) rest) (step_run run stepName fn i)"
  unfolding step_notify_def step_wait_def step_waitForEvent_def step_run_def
  by (intro keep_option keep_ret keep_canceled_new_step)+

lemma keep_canceled_handler: "keeps (canceled_at (run_id run) rest) (run_handler r run h i)"
  by (induction h arbitrary: i)
     (auto simp: continue_with_def intro!: keep_bind keep_canceled_step keep_ret keep_throw split: step_result.split)

lemma keep_canceled_run: "keeps (canceled_at (run_id run) rest) (run_claimed r run h)"
proof -
  have "keeps (canceled_at (run_id run) rest) (finish (run_id run) st)" for st
    using keep_settled_finish [of "run_id run" WCanceled rest] by (simp add: canceled_at_def [abs_def])
  then show ?thesis unfolding run_claimed_def
    by (intro keep_bind keep_catch keep_if keep_then keep_ret keep_canceled_handler)
qed

lemma cancel_sets_status:
  assumes "distinct (map wi_id (wf_instances w))" "cancelInstance projectId i w = (Inr True, w')"
  shows "instance_status i w' = Some WCanceled \<and> w_log w' = w_log w \<and> wf_steps w' = wf_steps w
    \<and> wf_waiters w' = filter (\<lambda>t. ww_instanceId t \<noteq> i) (wf_waiters w)"
proof -
  let ?hit = "\<lambda>x. wi_id x = i \<and> wi_projectId x = projectId \<and> wi_status x \<in> {WPending, WRunning}"
  let ?f = "\<lambda>x. if ?hit x then x\<lparr>wi_status := WCanceled\<rparr> else x"
  have w': "\<exists>x \<in> set (wf_instances w). ?hit x" "wf_instances w' = map ?f (wf_instances w)" "w_log w' = w_log w"
    "wf_steps w' = wf_steps w" "wf_waiters w' = filter (\<lambda>t. ww_instanceId t \<noteq> i) (wf_waiters w)"
    using assms(2) by (auto simp: cancelInstance_def attempt_def Let_def split: option.splits if_splits)
  then obtain x where x: "x \<in> set (wf_instances w)" "?hit x" by blast
  have "find (\<lambda>x. wi_id x = i) xs = Some x" if "distinct (map wi_id xs)" "x \<in> set xs" for xs
    using that x(2) by (induction xs) (auto simp: image_iff)
  then have "find (\<lambda>x. wi_id x = i) (wf_instances w) = Some x" using assms(1) x(1) by blast
  moreover have "find (\<lambda>x. wi_id x = i) (map ?f (wf_instances w)) = map_option ?f (find (\<lambda>x. wi_id x = i) (wf_instances w))"
    by (rule find_update) simp
  ultimately show ?thesis using w' x(2) by (simp add: instance_status_def find_instance_def)
qed

text \<open>
  C25: A cancel stops the run. Once the cancel of an instance has been accepted, a run that is
  in the middle of its handler takes no further step, whatever the handler does and whichever call fails: nothing
  is published, recorded or waited for, and the instance stays canceled when the run ends.
\<close>
theorem workflow_cancel_stops_run:
  assumes "distinct (map wi_id (wf_instances w))" "cancelInstance projectId (run_id run) w = (Inr True, w1)"
    and "run_claimed r run h w1 = (res, w2)"
  shows "instance_status (run_id run) w2 = Some WCanceled \<and> w_log w2 = w_log w \<and> wf_steps w2 = wf_steps w
    \<and> wf_waiters w2 = filter (\<lambda>t. ww_instanceId t \<noteq> run_id run) (wf_waiters w)"
proof -
  let ?rest = "(w_log w, wf_steps w, filter (\<lambda>t. ww_instanceId t \<noteq> run_id run) (wf_waiters w))"
  have "canceled_at (run_id run) ?rest w1"
    using cancel_sets_status [OF assms(1,2)] by (simp add: canceled_at_def settled_at_def terminal_def)
  from keeps_run [OF keep_canceled_run this assms(3)] show ?thesis by (simp add: canceled_at_def settled_at_def)
qed

section \<open>Witnesses\<close>

definition ex_wf_event :: workflow_event where
  "ex_wf_event = \<lparr>we_type = ''workflow.resumed'',
     we_payload = [(''instanceId'', JStr ''i1''), (''name'', JStr ''welcome''), (''projectId'', JStr ''p1'')],
     we_source = ''api'', we_traceId = None\<rparr>"

definition ex_wf_message :: workflow_message where
  "ex_wf_message = \<lparr>wm_instanceId = ''i1'', wm_name = ''welcome'', wm_projectId = ''p1'',
     wm_payload = we_payload ex_wf_event, wm_traceId = []\<rparr>"

definition ex_wf_context :: run_context where
  "ex_wf_context = \<lparr>rx_now = 1000, rx_token = ''t1'', rx_published = (\<lambda>_. (''m1'', ''n1'')), rx_waiterId = (\<lambda>_. ''v1'')\<rparr>"

definition ex_wf_world :: "wf_instance list \<Rightarrow> mem_store workflow_world" where
  "ex_wf_world xs = \<lparr>w_redis = mem_empty, w_log = [], w_step = 0, w_faults = (\<lambda>_. None), wf_instances = xs,
     wf_steps = [], wf_waiters = [], wf_definitions = []\<rparr>"

definition ex_wf_instance :: "workflow_status \<Rightarrow> wf_instance" where
  "ex_wf_instance st = \<lparr>wi_id = ''i1'', wi_projectId = ''p1'', wi_name = ''welcome'', wi_status = st,
     wi_input = JObj [(''user'', JObj [(''id'', JStr ''u1'')])]\<rparr>"

definition ex_notify :: WorkflowNotifyInput where
  "ex_notify = \<lparr>na_user = None, na_segment = None, na_topic = None, na_template = ''hello'', na_data = None,
     na_aiPrompts = None, na_priority = None, na_channels = None, na_fallback = None, na_sendAt = None, na_campaign = None\<rparr>"

definition ex_wf_registry :: workflow_registry where
  "ex_wf_registry = [(''welcome'', \<lambda>_. HNotify ex_notify (\<lambda>_. HWait ''2h'' HReturn))]"

lemma ex_wf_parse: "parse_workflow_event ex_wf_event = Some ex_wf_message"
  by (simp add: parse_workflow_event_def ex_wf_event_def ex_wf_message_def payload_text_def)

lemma ex_wf_handler:
  "find_handler ex_wf_registry ex_wf_message w = (Inr (Some (\<lambda>_. HNotify ex_notify (\<lambda>_. HWait ''2h'' HReturn))), w)"
  by (simp add: find_handler_def workflow_get_def ex_wf_registry_def ex_wf_message_def ret_def)

lemma workflow_final_status_stands_witness:
  "instance_status ''i1'' (snd (workflow_process mem_redis ex_wf_registry ex_wf_context ex_wf_event
     (ex_wf_world [ex_wf_instance WCanceled]))) = Some WCanceled"
proof -
  obtain res w' where run: "workflow_process mem_redis ex_wf_registry ex_wf_context ex_wf_event
     (ex_wf_world [ex_wf_instance WCanceled]) = (res, w')" by force
  have "instance_status (wm_instanceId ex_wf_message) (ex_wf_world [ex_wf_instance WCanceled]) = Some WCanceled"
    by (simp add: instance_status_def find_instance_def ex_wf_world_def ex_wf_instance_def ex_wf_message_def)
  from workflow_final_status_stands [OF ex_wf_parse this _ run] run show ?thesis
    by (simp add: terminal_def ex_wf_message_def)
qed

lemma workflow_step_notifies_once_witness:
  "length (filter (notified ''i1'' 0) (w_log (workflow_runs mem_redis ex_wf_registry
     [(ex_wf_context, ex_wf_event), (ex_wf_context, ex_wf_event)] (ex_wf_world [ex_wf_instance WPending])))) \<le> 1"
  by (rule workflow_step_notifies_once) (simp_all add: no_faults_def ex_wf_world_def)

lemma ex_two_hours: "durationToMs ''2h'' what = Inr 7200000"
proof -
  have "show_nat 2 = ''2''" by code_simp
  then show ?thesis using duration_whole_units [of "''h''" 3600000 2 what] by (simp add: DURATION_UNIT_MS_def)
qed

lemma ex_digits: "show_nat 0 = ''0''" "show_nat (Suc 0) = ''1''"
  by code_simp+

lemma mem_commands:
  "SET_EX_NX mem_redis k v t s = (if mem_strings s k = None then (True, mem_set k v s) else (False, s))"
  "GET mem_redis k s = mem_strings s k"
  "DEL mem_redis k s = (if mem_strings s k = None then 0 else 1, s\<lparr>mem_strings := (mem_strings s)(k := None)\<rparr>)"
  "ZADD mem_redis k x m s = mem_zset k (\<lambda>z. (m, x) # z) s"
  by (simp_all add: mem_redis_def)

lemma ex_wf_asleep: "instance_status ''i1'' (snd (workflow_process mem_redis ex_wf_registry ex_wf_context ex_wf_event
     (ex_wf_world [ex_wf_instance WPending]))) = Some WPending"
  by (simp add: workflow_process_def ex_wf_parse find_handler_def workflow_get_def ex_wf_registry_def bindA_def under_lock_def thenA_def finallyA_def ret_def
     run_instance_def load_instance_def attempt_def on_redis_def find_instance_def ex_wf_world_def ex_wf_instance_def Let_def
     mem_commands mem_empty_def mem_set_def ex_wf_message_def ex_wf_context_def set_status_def instance_steps_def
     run_claimed_def start_run_def run_id_def continue_with_def
      step_notify_def recorded_def step_wait_def new_step_def canceled_now_def catchA_def
       instance_status_def  lift_error_def buildStepNotifyPayload_def resolveStepTarget_def
      ex_notify_def input_user_id_def payload_text_def  perform_def record_effect_def insert_step_def step_row_def ex_two_hours
      add_timer_def  mem_zset_def finish_def  lua_release_lock_def throw_def ex_digits)

lemma mem_timers_apart: "timers_apart mem_redis mem_view"
  by (simp add: timers_apart_def mem_redis_def mem_view_def)


lemma workflow_cancel_stops_run_witness:
  "instance_status ''i1'' (snd (run_claimed mem_redis (start_run ex_wf_context ex_wf_message (ex_wf_instance WRunning) [])
       (HNotify ex_notify (\<lambda>_. HReturn)) (snd (cancelInstance ''p1'' ''i1'' (ex_wf_world [ex_wf_instance WRunning])))))
     = Some WCanceled"
proof -
  let ?run = "start_run ex_wf_context ex_wf_message (ex_wf_instance WRunning) []" and ?w = "ex_wf_world [ex_wf_instance WRunning]"
  have i: "run_id ?run = ''i1''" by (simp add: run_id_def start_run_def ex_wf_instance_def)
  have "fst (cancelInstance ''p1'' ''i1'' ?w) = Inr True"
    by (simp add: cancelInstance_def attempt_def ex_wf_world_def ex_wf_instance_def)
  then obtain w1 where c: "cancelInstance ''p1'' (run_id ?run) ?w = (Inr True, w1)" unfolding i by (metis prod.collapse)
  obtain res w2 where run: "run_claimed mem_redis ?run (HNotify ex_notify (\<lambda>_. HReturn)) w1 = (res, w2)" by force
  have "distinct (map wi_id (wf_instances ?w))" by (simp add: ex_wf_world_def)
  from workflow_cancel_stops_run [OF this c run] c run i show ?thesis by simp
qed

end
