(* ===== verification/Workflow_Timers.thy ===== *)
theory Workflow_Timers
  imports Workflow Template_Render
begin

text \<open>
  The timers of the workflow engine (\<open>src/src/services/workflow/timers.ts\<close>): the poll that
  wakes sleeping instances, and the reaper of those whose worker died. A member of the sorted
  set is the text of a JSON object, as the workflow worker writes it; a query with a missing
  parameter rejects.
\<close>

definition WORKFLOW_TIMER_VISIBILITY_MS :: int where
  "WORKFLOW_TIMER_VISIBILITY_MS = 60000"

section \<open>One timer\<close>

definition task_field :: "json \<Rightarrow> string \<Rightarrow> json option" where
  "task_field task k = (case task of JObj kvs \<Rightarrow> jm_get kvs k | _ \<Rightarrow> None)"

definition task_flag :: "json \<Rightarrow> string \<Rightarrow> bool" where
  "task_flag task k = (case task_field task k of Some v \<Rightarrow> \<not> falsy v | None \<Rightarrow> False)"

definition query :: "('r workflow_world \<Rightarrow> 'a) \<Rightarrow> ('r, 'a) wf_act" where
  "query f = attempt (\<lambda>w. (f w, w))"

definition query_text :: "json option \<Rightarrow> (string \<Rightarrow> 'r workflow_world \<Rightarrow> 'a) \<Rightarrow> ('r, 'a) wf_act" where
  "query_text v f = (case v of
     None \<Rightarrow> throw (Error ''UNDEFINED_VALUE: Undefined values are not allowed'')
   | Some x \<Rightarrow> query (f (js_String x)))"

definition drop_timer :: "'r redis \<Rightarrow> string \<Rightarrow> ('r, unit) wf_act" where
  "drop_timer r taskStr = on_redis (\<lambda>s. ((), ZREM r WORKFLOW_TIMERS_KEY taskStr s))"

text \<open>The step named by the timer has an output, or is not there.\<close>

definition own_step_settled :: "string \<Rightarrow> string \<Rightarrow> 'r workflow_world \<Rightarrow> bool" where
  "own_step_settled i stepId w =
     (case find (\<lambda>s. ws_stepIndex s = stepId) (instance_steps i w) of
        None \<Rightarrow> True | Some own \<Rightarrow> ws_output own \<noteq> None)"

definition delete_waiters :: "string \<Rightarrow> string \<Rightarrow> ('r, nat) wf_act" where
  "delete_waiters i eventName = attempt (\<lambda>w.
     (length (filter (\<lambda>t. ww_instanceId t = i \<and> ww_eventName t = eventName) (wf_waiters w)),
      w\<lparr>wf_waiters := filter (\<lambda>t. \<not> (ww_instanceId t = i \<and> ww_eventName t = eventName)) (wf_waiters w)\<rparr>))"

definition waiting_steps :: "string \<Rightarrow> 'r workflow_world \<Rightarrow> wf_step list" where
  "waiting_steps i w = filter (\<lambda>s. ws_action s = ''waitForEvent'') (instance_steps i w)"

definition pending_step :: "string option \<Rightarrow> wf_step list \<Rightarrow> wf_step option" where
  "pending_step stepId steps =
     find (\<lambda>s. (case stepId of Some k \<Rightarrow> ws_stepIndex s = k | None \<Rightarrow> True) \<and> ws_output s = None) steps"

definition timed_out :: json where
  "timed_out = JObj [(''timedOut'', JBool True)]"

text \<open>
  The timeout of a \<open>waitForEvent\<close> step: false when the timer is stale, else the step is
  recorded as timed out.
\<close>

definition time_out_step :: "string \<Rightarrow> json \<Rightarrow> ('r, bool) wf_act" where
  "time_out_step i task =
     (let stepId = map_option js_String (task_field task ''stepId'')
      in bindA (case stepId of None \<Rightarrow> ret False | Some k \<Rightarrow> query (own_step_settled i k)) (\<lambda>settled.
         if settled then ret False
         else bindA (case task_field task ''eventName'' of
                None \<Rightarrow> throw (Error ''UNDEFINED_VALUE: Undefined values are not allowed'')
              | Some v \<Rightarrow> delete_waiters i (js_String v)) (\<lambda>deleted.
           if deleted = 0 then ret False
           else bindA (query (waiting_steps i)) (\<lambda>steps.
             case pending_step stepId steps of
               None \<Rightarrow> ret True
             | Some s \<Rightarrow> thenA (set_output i (ws_stepIndex s) timed_out) (ret True)))))"

definition resumed_event :: "json \<Rightarrow> workflow_event" where
  "resumed_event task = \<lparr>we_type = ''workflow.resumed'', we_payload = (case task of JObj kvs \<Rightarrow> kvs | _ \<Rightarrow> []),
     we_source = ''scheduler'', we_traceId = None\<rparr>"

definition resume_timer :: "'r redis \<Rightarrow> string \<Rightarrow> json \<Rightarrow> ('r, unit) wf_act" where
  "resume_timer r taskStr task = thenA (perform (PublishWorkflow (resumed_event task))) (drop_timer r taskStr)"

definition poll_timer :: "'r redis \<Rightarrow> string \<Rightarrow> ('r, unit) wf_act" where
  "poll_timer r taskStr =
     (case json_parse taskStr of
        None \<Rightarrow> throw (Error ''SyntaxError'')
      | Some task \<Rightarrow> bindA (query_text (task_field task ''instanceId'') instance_status) (\<lambda>status.
          case status of
            Some WRunning \<Rightarrow> ret ()
          | Some WPending \<Rightarrow>
              if task_flag task ''isEventTimeout''
              then bindA (time_out_step (js_String (the (task_field task ''instanceId''))) task) (\<lambda>due.
                     if due then resume_timer r taskStr task else drop_timer r taskStr)
              else resume_timer r taskStr task
          | _ \<Rightarrow> drop_timer r taskStr))"

definition pollWorkflowTimers :: "'r redis \<Rightarrow> ms \<Rightarrow> ('r, unit) wf_act" where
  "pollWorkflowTimers r now =
     ignore_errors (bindA (on_redis (lua_scheduler_poll r WORKFLOW_TIMERS_KEY now 100 WORKFLOW_TIMER_VISIBILITY_MS))
       (\<lambda>tasks. for_each tasks (poll_timer r)))"

section \<open>The reaper\<close>

text \<open>\<open>exists\<close> of a key that holds a text.\<close>

definition reap_instance :: "'r redis \<Rightarrow> string \<Rightarrow> ('r, unit) wf_act" where
  "reap_instance r i =
     bindA (on_redis (\<lambda>s. (GET r (lock_key i) s \<noteq> None, s))) (\<lambda>hasLock.
       if hasLock then ret () else attempt (\<lambda>w. ((), snd (set_status i WRunning WPending w))))"

definition reapStuckInstances :: "'r redis \<Rightarrow> ('r, unit) wf_act" where
  "reapStuckInstances r =
     ignore_errors (bindA (query (\<lambda>w. map wi_id (filter (\<lambda>x. wi_status x = WRunning) (wf_instances w))))
       (\<lambda>is. for_each is (reap_instance r)))"

section \<open>No wake-up is lost\<close>

text \<open>
  The wake-up \<open>t\<close> of an instance with status \<open>st\<close> is still in the set, or was
  published.
\<close>

definition wake_kept ::
  "(string \<Rightarrow> 'r \<Rightarrow> zset) \<Rightarrow> string \<Rightarrow> json \<Rightarrow> string \<Rightarrow> workflow_status \<Rightarrow> 'r workflow_world \<Rightarrow> bool" where
  "wake_kept view t task i st w \<longleftrightarrow> instance_status i w = Some st
     \<and> (t \<in> fst ` set (view WORKFLOW_TIMERS_KEY (w_redis w)) \<or> PublishWorkflow (resumed_event task) \<in> set (w_log w))"

lemma wake_kept_frame [simp]:
  "wake_kept view t task i st (w\<lparr>w_step := n\<rparr>) = wake_kept view t task i st w"
  "wake_kept view t task i st (w\<lparr>wf_steps := ss\<rparr>) = wake_kept view t task i st w"
  "wake_kept view t task i st (w\<lparr>wf_waiters := ys\<rparr>) = wake_kept view t task i st w"
  by (simp_all add: wake_kept_def instance_status_def find_instance_def)

lemma keep_wake_query: "keeps (wake_kept view t task i st) (query f)"
  unfolding query_def by (rule keep_attempt) simp_all

lemma keep_wake_rows:
  "keeps (wake_kept view t task i st) (delete_waiters j ev)" "keeps (wake_kept view t task i st) (set_output j k out)"
  unfolding delete_waiters_def set_output_def by (rule keep_attempt; simp)+

lemma keep_wake_publish: "keeps (wake_kept view t task i st) (perform e)"
  unfolding perform_def
  by (rule keep_attempt) (auto simp: record_effect_def wake_kept_def instance_status_def find_instance_def)

lemma keep_wake_drop:
  assumes "redis_member_laws r view" "t' \<noteq> t"
  shows "keeps (wake_kept view t task i st) (drop_timer r t')"
proof -
  have z: "set (view k (ZREM r k m s)) = set (AList.delete m (view k s))" for k m s
    using assms(1) by (simp add: redis_member_laws_def)
  have "(t \<in> fst ` set (AList.delete t' z)) = (t \<in> fst ` set z)" for z :: zset
    using assms(2) by (force simp: AList.delete_eq)
  then show ?thesis unfolding drop_timer_def
    by (intro keep_on_redis) (simp_all add: wake_kept_def z instance_status_def find_instance_def)
qed

lemma keep_wake_timeout: "keeps (wake_kept view t task i st) (time_out_step j task')"
  unfolding time_out_step_def Let_def
  by (intro keep_bind keep_if keep_option keep_ret keep_throw keep_then keep_wake_query keep_wake_rows)

text \<open>The poll of another timer leaves this one alone.\<close>

lemma keep_wake_other:
  assumes "redis_member_laws r view" "t' \<noteq> t"
  shows "keeps (wake_kept view t task i st) (poll_timer r t')"
proof -
  note drop = keep_wake_drop [OF assms]
  have status: "keeps P m \<Longrightarrow> keeps P m' \<Longrightarrow> keeps P m'' \<Longrightarrow>
     keeps P (case x of None \<Rightarrow> m | Some WPending \<Rightarrow> m' | Some WRunning \<Rightarrow> m'' | _ \<Rightarrow> m)"
    for P :: "'r workflow_world \<Rightarrow> bool" and m m' m'' :: "('r, unit) wf_act" and x
    by (cases x) (auto split: workflow_status.split)
  show ?thesis
    unfolding poll_timer_def query_text_def resume_timer_def
    by (intro keep_option keep_throw keep_bind keep_wake_query status keep_ret keep_if keep_wake_timeout keep_then
        keep_wake_publish drop)
qed

text \<open>Its own poll, when it is not the timeout of an event.\<close>

lemma keep_wake_own:
  assumes laws: "redis_member_laws r view"
    and t: "json_parse t = Some task" "task_field task ''instanceId'' = Some (JStr i)" "\<not> task_flag task ''isEventTimeout''"
    and st: "st = WPending \<or> st = WRunning"
  shows "keeps (wake_kept view t task i st) (poll_timer r t)"
proof (rule keepsI)
  fix w assume w: "wake_kept view t task i st w"
  let ?v = "w\<lparr>w_step := Suc (w_step w)\<rparr>"
  have v: "wake_kept view t task i st ?v" using w by simp
  then have sv: "instance_status i ?v = Some st" by (simp add: wake_kept_def)
  have pub: "wake_kept view t task i st (snd (resume_timer r t task w1))" if "wake_kept view t task i st w1" for w1
  proof -
    obtain a w2 where p: "perform (PublishWorkflow (resumed_event task)) w1 = (a, w2)" by force
    have w2: "wake_kept view t task i st w2" by (rule keeps_run [OF keep_wake_publish that p])
    show ?thesis
    proof (cases a)
      case (Inr u)
      then have "PublishWorkflow (resumed_event task) \<in> set (w_log w2)"
        using p by (auto simp: perform_def attempt_def record_effect_def Let_def split: option.splits)
      with w2 have "wake_kept view t task i st (snd (drop_timer r t w2))"
        by (auto simp: wake_kept_def drop_timer_def on_redis_def attempt_def Let_def instance_status_def find_instance_def
            split: option.split)
      then show ?thesis using p Inr by (simp add: resume_timer_def thenA_def bindA_def)
    qed (use p w2 in \<open>simp add: resume_timer_def thenA_def bindA_def\<close>)
  qed
  show "wake_kept view t task i st (snd (poll_timer r t w))"
  proof (cases "w_faults w (w_step w)")
    case (Some e)
    then show ?thesis using v
      by (simp add: poll_timer_def t query_text_def query_def bindA_def attempt_def Let_def)
  next
    case None
    then have "poll_timer r t w = (case st of WPending \<Rightarrow> resume_timer r t task ?v | _ \<Rightarrow> (Inr (), ?v))"
      using st sv t by (auto simp: poll_timer_def query_text_def query_def bindA_def attempt_def Let_def ret_def)
    then show ?thesis using st v pub [OF v] by auto
  qed
qed

lemma keep_wake_claim:
  assumes "redis_zset_laws r view"
  shows "keeps (wake_kept view t task i st) (on_redis (lua_scheduler_poll r WORKFLOW_TIMERS_KEY now n vis))"
proof -
  have z: "set (view k (ZADD r k x mem s)) = insert (mem, x) (set (AList.delete mem (view k s)))" for k x mem s
    using assms by (simp add: redis_zset_laws_def)
  have one: "t \<in> fst ` set (view k s) \<Longrightarrow> t \<in> fst ` set (view k (ZADD r k x m s))" for k x m s
    by (cases "m = t") (auto simp: z AList.delete_eq image_iff)
  have many: "t \<in> fst ` set (view k s) \<Longrightarrow> t \<in> fst ` set (view k (fold (\<lambda>m s. ZADD r k x m s) ms s))" for k x ms s
    by (induction ms arbitrary: s) (simp_all add: one)
  have "(t, b) \<in> set (view k s) \<Longrightarrow> t \<in> fst ` set (view k (fold (\<lambda>m s. ZADD r k x m s) ms s))" for b k x ms s
    by (rule many) force
  then show ?thesis
    by (intro keep_on_redis)
       (auto simp: wake_kept_def instance_status_def find_instance_def lua_scheduler_poll_def Let_def)
qed

text \<open>
  The poll loses no wake-up of a sleep. Whatever the sorted set holds, whatever timers are
  polled before it and whatever call fails, the timer of a wait (or a resume that was put off) whose
  instance is pending or running is afterwards still in the set, or its resume was published.
\<close>
theorem workflow_poll_keeps_wakeups:
  assumes "redis_zset_laws r view" "redis_member_laws r view"
    and "json_parse t = Some task" "task_field task ''instanceId'' = Some (JStr i)" "\<not> task_flag task ''isEventTimeout''"
    and "instance_status i w = Some st" "st = WPending \<or> st = WRunning"
    and "t \<in> fst ` set (view WORKFLOW_TIMERS_KEY (w_redis w))" "pollWorkflowTimers r now w = (res, w')"
  shows "t \<in> fst ` set (view WORKFLOW_TIMERS_KEY (w_redis w')) \<or> PublishWorkflow (resumed_event task) \<in> set (w_log w')"
proof -
  have "keeps (wake_kept view t task i st) (poll_timer r t')" for t'
    using keep_wake_own [OF assms(2-5,7)] keep_wake_other [OF assms(2)] by (cases "t' = t") auto
  then have "keeps (wake_kept view t task i st) (pollWorkflowTimers r now)"
    unfolding pollWorkflowTimers_def by (intro keep_ignore keep_bind keep_for_each keep_wake_claim [OF assms(1)])
  moreover have "wake_kept view t task i st w" using assms(6,8) by (simp add: wake_kept_def)
  ultimately have "wake_kept view t task i st w'" using assms(9) by (rule keeps_run)
  then show ?thesis by (simp add: wake_kept_def)
qed

section \<open>The timeout of an event\<close>

text \<open>A step waits for an event, and its waiter is there.\<close>

definition waits_for :: "string \<Rightarrow> string \<Rightarrow> string \<Rightarrow> 'r workflow_world \<Rightarrow> bool" where
  "waits_for i k eventName w \<longleftrightarrow> instance_status i w = Some WPending
     \<and> (\<exists>s. find (\<lambda>s. ws_stepIndex s = k) (instance_steps i w) = Some s
          \<and> ws_output s = None \<and> ws_action s = ''waitForEvent'')
     \<and> (\<exists>t \<in> set (wf_waiters w). ww_instanceId t = i \<and> ww_eventName t = eventName)"

definition event_timer :: "string \<Rightarrow> string \<Rightarrow> string \<Rightarrow> json \<Rightarrow> bool" where
  "event_timer i k eventName task \<longleftrightarrow> task_field task ''instanceId'' = Some (JStr i) \<and> task_flag task ''isEventTimeout''
     \<and> task_field task ''stepId'' = Some (JStr k) \<and> task_field task ''eventName'' = Some (JStr eventName)"

text \<open>What the timeout leaves of the tables.\<close>

definition timed_out_world :: "string \<Rightarrow> string \<Rightarrow> string \<Rightarrow> 'r workflow_world \<Rightarrow> 'r workflow_world" where
  "timed_out_world i k eventName w = w\<lparr>
     wf_waiters := filter (\<lambda>t. \<not> (ww_instanceId t = i \<and> ww_eventName t = eventName)) (wf_waiters w),
     wf_steps := map (\<lambda>s. if ws_instanceId s = i \<and> ws_stepIndex s = k then s\<lparr>ws_output := Some timed_out\<rparr> else s) (wf_steps w)\<rparr>"

text \<open>No call up to the publish fails, which is the sixth.\<close>

definition calm_until :: "nat \<Rightarrow> ('r, 'e, 'z) world_scheme \<Rightarrow> bool" where
  "calm_until n w \<longleftrightarrow> (\<forall>k < n. w_faults w (w_step w + k) = None)"

lemma attempt_calm:
  "calm_until (Suc n) w \<Longrightarrow> attempt f w =
     (Inr (fst (f (w\<lparr>w_step := Suc (w_step w)\<rparr>))), snd (f (w\<lparr>w_step := Suc (w_step w)\<rparr>)))"
  by (auto simp: calm_until_def attempt_def Let_def split: prod.split dest!: spec [of _ 0])

lemma calm_step: "calm_until (Suc n) w \<Longrightarrow> calm_until n (w\<lparr>w_step := Suc (w_step w)\<rparr>)"
  by (auto simp: calm_until_def dest: spec [of _ "Suc _"])

lemma find_pending:
  assumes "find (\<lambda>s. ws_stepIndex s = k) xs = Some s" "ws_output s = None" "ws_action s = ''waitForEvent''"
  shows "\<exists>s'. pending_step (Some k) (filter (\<lambda>s. ws_action s = ''waitForEvent'') xs) = Some s' \<and> ws_stepIndex s' = k"
  using assms by (induction xs) (auto simp: pending_step_def split: if_splits)

lemma time_out_waits:
  assumes "waits_for i k eventName w" "event_timer i k eventName task" "calm_until 4 w"
  shows "time_out_step i task w = (Inr True, (timed_out_world i k eventName w)\<lparr>w_step := w_step w + 4\<rparr>)"
proof -
  let ?w1 = "w\<lparr>w_step := Suc (w_step w)\<rparr>"
  let ?ws = "filter (\<lambda>t. \<not> (ww_instanceId t = i \<and> ww_eventName t = eventName)) (wf_waiters w)"
  have c: "w_faults w (w_step w) = None" "w_faults w (Suc (w_step w)) = None" "w_faults w (Suc (Suc (w_step w))) = None"
    "w_faults w (Suc (Suc (Suc (w_step w)))) = None"
    using assms(3) [unfolded calm_until_def, rule_format, of 0] assms(3) [unfolded calm_until_def, rule_format, of 1]
      assms(3) [unfolded calm_until_def, rule_format, of 2] assms(3) [unfolded calm_until_def, rule_format, of 3]
    by (simp_all add: eval_nat_numeral)
  from assms(1) obtain s where s: "find (\<lambda>s. ws_stepIndex s = k) (instance_steps i w) = Some s" "ws_output s = None"
    "ws_action s = ''waitForEvent''" by (auto simp: waits_for_def)
  from find_pending [OF s] obtain s' where s': "pending_step (Some k) (waiting_steps i w) = Some s'" "ws_stepIndex s' = k"
    by (auto simp: waiting_steps_def)
  obtain n where n: "length (filter (\<lambda>t. ww_instanceId t = i \<and> ww_eventName t = eventName) (wf_waiters w)) = Suc n"
  proof -
    from assms(1) obtain x where "x \<in> set (filter (\<lambda>t. ww_instanceId t = i \<and> ww_eventName t = eventName) (wf_waiters w))"
      by (auto simp: waits_for_def)
    then show ?thesis using that by (metis length_pos_if_in_set gr0_conv_Suc)
  qed
  have own: "own_step_settled i k (w\<lparr>w_step := m\<rparr>) = False" for m
    using s by (simp add: instance_steps_def own_step_settled_def)
  show ?thesis using assms(2) c n s' [unfolded waiting_steps_def instance_steps_def]
    by (simp add: time_out_step_def event_timer_def bindA_def thenA_def ret_def query_def attempt_def own delete_waiters_def
        set_output_def timed_out_world_def waiting_steps_def instance_steps_def add.commute)
qed

lemma timed_out_settled:
  assumes "waits_for i k eventName w"
  shows "own_step_settled i k ((timed_out_world i k eventName w)\<lparr>w_step := n\<rparr>)"
proof -
  have "find (\<lambda>s. ws_stepIndex s = k) (filter (\<lambda>s. ws_instanceId s = i)
      (map (\<lambda>s. if ws_instanceId s = i \<and> ws_stepIndex s = k then s\<lparr>ws_output := Some timed_out\<rparr> else s) xs))
    = map_option (\<lambda>s. s\<lparr>ws_output := Some timed_out\<rparr>) (find (\<lambda>s. ws_stepIndex s = k) (filter (\<lambda>s. ws_instanceId s = i) xs))"
    for xs by (induction xs) auto
  then have "find (\<lambda>s. ws_stepIndex s = k) (instance_steps i ((timed_out_world i k eventName w)\<lparr>w_step := n\<rparr>))
    = map_option (\<lambda>s. s\<lparr>ws_output := Some timed_out\<rparr>) (find (\<lambda>s. ws_stepIndex s = k) (instance_steps i w))"
    by (simp add: instance_steps_def timed_out_world_def)
  then show ?thesis by (auto simp: own_step_settled_def split: option.split)
qed

text \<open>The poll of such a timer, up to the publish.\<close>

lemma poll_waits:
  assumes "waits_for i k eventName w" "event_timer i k eventName task" "json_parse t = Some task" "calm_until 5 w"
  shows "poll_timer r t w = resume_timer r t task ((timed_out_world i k eventName w)\<lparr>w_step := w_step w + 5\<rparr>)"
proof -
  let ?v = "w\<lparr>w_step := Suc (w_step w)\<rparr>"
  have c: "w_faults w (w_step w) = None" using assms(4) by (auto simp: calm_until_def dest: spec [of _ 0])
  have "calm_until 4 ?v" using calm_step [of 4 w] assms(4) by simp
  moreover have v: "waits_for i k eventName ?v"
    using assms(1) by (simp add: waits_for_def instance_status_def find_instance_def instance_steps_def)
  ultimately have "time_out_step i task ?v = (Inr True, (timed_out_world i k eventName ?v)\<lparr>w_step := w_step ?v + 4\<rparr>)"
    by (intro time_out_waits assms(2))
  moreover have "instance_status i ?v = Some WPending" using v by (simp add: waits_for_def)
  ultimately show ?thesis using assms(2,3) c
    by (simp add: poll_timer_def event_timer_def query_text_def query_def bindA_def attempt_def timed_out_world_def add.commute)
qed

lemma resume_ok:
  "no_faults w \<Longrightarrow> resume_timer r t task w = (Inr (), w\<lparr>w_step := w_step w + 2,
     w_log := w_log w @ [PublishWorkflow (resumed_event task)], w_redis := ZREM r WORKFLOW_TIMERS_KEY t (w_redis w)\<rparr>)"
  by (simp add: resume_timer_def drop_timer_def thenA_def bindA_def perform_def on_redis_def attempt_def no_faults_def
      Let_def record_effect_def)

text \<open>
  The timeout of an event. When the time of a step that waits for an event is up and no
  call fails, the poll of its timer publishes the resume of the instance, records the step as timed out,
  deletes its waiter, and removes the timer.
\<close>
theorem event_timeout_wakes_instance:
  assumes "redis_member_laws r view" "no_faults w" "waits_for i k eventName w" "event_timer i k eventName task"
    and "json_parse t = Some task" "poll_timer r t w = (res, w')"
  shows "res = Inr () \<and> PublishWorkflow (resumed_event task) \<in> set (w_log w')
    \<and> wf_waiters w' = filter (\<lambda>t. \<not> (ww_instanceId t = i \<and> ww_eventName t = eventName)) (wf_waiters w)
    \<and> (\<forall>s \<in> set (wf_steps w'). ws_instanceId s = i \<and> ws_stepIndex s = k \<longrightarrow> ws_output s = Some timed_out)
    \<and> t \<notin> fst ` set (view WORKFLOW_TIMERS_KEY (w_redis w'))"
proof -
  have "calm_until 5 w" using assms(2) by (simp add: calm_until_def no_faults_def)
  let ?v = "(timed_out_world i k eventName w)\<lparr>w_step := w_step w + 5\<rparr>"
  have "no_faults ?v" using assms(2) by (simp add: no_faults_def timed_out_world_def)
  from resume_ok [OF this] poll_waits [OF assms(3,4,5) \<open>calm_until 5 w\<close>, of r] assms(6)
  have res: "res = Inr ()" and w': "w' = ?v\<lparr>w_step := w_step w + 7, w_log := w_log w @ [PublishWorkflow (resumed_event task)],
      w_redis := ZREM r WORKFLOW_TIMERS_KEY t (w_redis w)\<rparr>"
    by (auto simp: timed_out_world_def)
  have "set (view k (ZREM r k m s)) = set (AList.delete m (view k s))" for k m s
    using assms(1) by (simp add: redis_member_laws_def)
  then have "t \<notin> fst ` set (view WORKFLOW_TIMERS_KEY (w_redis w'))" using w' by (auto simp: AList.delete_eq)
  moreover have "\<forall>s \<in> set (wf_steps w'). ws_instanceId s = i \<and> ws_stepIndex s = k \<longrightarrow> ws_output s = Some timed_out"
  proof -
    have e: "wf_steps w' = wf_steps (timed_out_world i k eventName w)" using w' by simp
    show ?thesis unfolding e by (simp add: timed_out_world_def ball_Un) blast?
  qed
  moreover have "PublishWorkflow (resumed_event task) \<in> set (w_log w')" using w' by simp
  moreover have "wf_waiters w' = filter (\<lambda>t. \<not> (ww_instanceId t = i \<and> ww_eventName t = eventName)) (wf_waiters w)"
    using w' by (simp add: timed_out_world_def)
  ultimately show ?thesis using res by blast
qed

text \<open>
  When the publish fails, the step is timed out and its waiter gone, but the timer is claimed
  again a minute later; by then the step has an output, and the timer is dropped as stale.
\<close>

lemma poll_stale:
  assumes "event_timer i k eventName task" "json_parse t = Some task" "instance_status i w = Some WPending"
    and "own_step_settled i k w" "w_faults w (w_step w) = None" "w_faults w (Suc (w_step w)) = None"
  shows "poll_timer r t w = drop_timer r t (w\<lparr>w_step := w_step w + 2\<rparr>)"
proof -
  have "instance_status i (w\<lparr>w_step := n\<rparr>) = instance_status i w" "own_step_settled i k (w\<lparr>w_step := n\<rparr>) = own_step_settled i k w" for n
    by (simp_all add: instance_status_def find_instance_def own_step_settled_def instance_steps_def)
  then show ?thesis using assms
    by (simp add: poll_timer_def event_timer_def query_text_def query_def bindA_def attempt_def time_out_step_def ret_def Let_def)
qed

theorem event_timeout_lost_when_publish_fails:
  assumes "redis_member_laws r view" "waits_for i k eventName w" "event_timer i k eventName task" "json_parse t = Some task"
    and "w_faults w = (\<lambda>n. if n = w_step w + 5 then Some (Error ''XADD'') else None)"
    and "poll_timer r t w = (res1, w1)" "poll_timer r t w1 = (res2, w2)"
  shows "res1 = Inl (Error ''XADD'') \<and> res2 = Inr () \<and> instance_status i w2 = Some WPending \<and> w_log w2 = w_log w
    \<and> \<not> (\<exists>x \<in> set (wf_waiters w2). ww_instanceId x = i \<and> ww_eventName x = eventName)
    \<and> t \<notin> fst ` set (view WORKFLOW_TIMERS_KEY (w_redis w2))"
proof -
  let ?w = "timed_out_world i k eventName w"
  have "calm_until 5 w" using assms(5) by (auto simp: calm_until_def)
  from poll_waits [OF assms(2,3,4) this, of r]
  have one: "res1 = Inl (Error ''XADD'')" "w1 = ?w\<lparr>w_step := w_step w + 6\<rparr>"
    using assms(5,6) by (auto simp: resume_timer_def thenA_def bindA_def perform_def attempt_def timed_out_world_def)
  have st: "own_step_settled i k (?w\<lparr>w_step := n\<rparr>)" for n by (rule timed_out_settled [OF assms(2)])
  have "instance_status i (?w\<lparr>w_step := n\<rparr>) = Some WPending" for n
    using assms(2) by (simp add: waits_for_def timed_out_world_def instance_status_def find_instance_def)
  moreover have f: "w_faults ?w = w_faults w" by (simp add: timed_out_world_def)
  ultimately have two: "poll_timer r t w1 = drop_timer r t (?w\<lparr>w_step := w_step w + 8\<rparr>)"
    using poll_stale [OF assms(3,4), of w1 r] one st assms(5) by (simp add: add.commute)
  have "instance_status i ?w = Some WPending" if "instance_status i w = Some WPending"
    using that by (simp add: timed_out_world_def instance_status_def find_instance_def)
  then show ?thesis using one two assms(1,2,5,7) f
    by (auto simp: drop_timer_def on_redis_def attempt_def Let_def redis_member_laws_def AList.delete_eq waits_for_def
        instance_status_def find_instance_def timed_out_world_def)
qed

section \<open>The reaper frees what nobody holds\<close>

definition freed :: "'r redis \<Rightarrow> (string \<Rightarrow> bool) \<Rightarrow> 'r workflow_world \<Rightarrow> string \<Rightarrow> workflow_status option" where
  "freed r P w i = (if P i \<and> instance_status i w = Some WRunning \<and> GET r (lock_key i) (w_redis w) = None
     then Some WPending else instance_status i w)"

lemma reap_one:
  assumes "no_faults w" "reap_instance r j w = (res, w')"
  shows "res = Inr () \<and> no_faults w' \<and> w_redis w' = w_redis w \<and> (\<forall>i. instance_status i w' = freed r (\<lambda>i. i = j) w i)"
proof -
  let ?v = "w\<lparr>w_step := w_step w + 2\<rparr>"
  have v: "instance_status i (w\<lparr>w_step := n\<rparr>) = instance_status i w" for i n
    by (simp add: instance_status_def find_instance_def)
  have run: "reap_instance r j w = (if GET r (lock_key j) (w_redis w) \<noteq> None then (Inr (), w\<lparr>w_step := Suc (w_step w)\<rparr>)
      else (Inr (), snd (set_status j WRunning WPending ?v)))"
    using assms(1) by (simp add: reap_instance_def bindA_def on_redis_def attempt_def no_faults_def ret_def)
  have "no_faults (snd (set_status j WRunning WPending ?v))" "w_redis (snd (set_status j WRunning WPending ?v)) = w_redis w"
    using assms(1) by (simp_all add: set_status_def no_faults_def)
  then show ?thesis using assms run
    by (auto simp: freed_def v set_status_other no_faults_def split: if_splits)
qed

lemma freed_twice:
  assumes "instance_status i w1 = freed r (\<lambda>i. i = j) w i" "w_redis w1 = w_redis w"
  shows "freed r (\<lambda>i. i \<in> set js) w1 i = freed r (\<lambda>i. i \<in> set (j # js)) w i"
proof (cases "i = j")
  case True
  with assms show ?thesis by (simp add: freed_def)
next
  case False
  with assms show ?thesis by (simp add: freed_def)
qed

lemma reap_all:
  assumes "no_faults w" "for_each js (reap_instance r) w = (res, w')"
  shows "res = Inr () \<and> (\<forall>i. instance_status i w' = freed r (\<lambda>i. i \<in> set js) w i)"
  using assms
proof (induction js arbitrary: w)
  case (Cons j js)
  obtain a w1 where j: "reap_instance r j w = (a, w1)" by force
  from reap_one [OF Cons.prems(1) j]
  have one: "a = Inr ()" "no_faults w1" "w_redis w1 = w_redis w" "\<And>i. instance_status i w1 = freed r (\<lambda>i. i = j) w i"
    by simp_all
  have "for_each js (reap_instance r) w1 = (res, w')" using Cons.prems(2) j one(1) by (simp add: thenA_def bindA_def)
  from Cons.IH [OF one(2) this] have "res = Inr ()" "\<And>i. instance_status i w' = freed r (\<lambda>i. i \<in> set js) w1 i" by simp_all
  moreover have "freed r (\<lambda>i. i \<in> set js) w1 i = freed r (\<lambda>i. i \<in> set (j # js)) w i" for i
    by (rule freed_twice [OF one(4,3)])
  ultimately show ?case by simp
qed (simp add: ret_def freed_def)

text \<open>
  The reaper frees exactly the instances whose worker died. When no call fails, an
  instance that is running and whose lock has expired becomes pending, so that its next resume runs; any
  other instance, a run that still holds its lock among them, keeps its status.
\<close>
theorem reaper_frees_exactly_unlocked:
  assumes "no_faults w" "reapStuckInstances r w = (res, w')"
  shows "instance_status i w' = (if instance_status i w = Some WRunning \<and> GET r (lock_key i) (w_redis w) = None
    then Some WPending else instance_status i w)"
proof -
  let ?v = "w\<lparr>w_step := Suc (w_step w)\<rparr>" and ?js = "map wi_id (filter (\<lambda>x. wi_status x = WRunning) (wf_instances w))"
  have v: "no_faults ?v" "instance_status i ?v = instance_status i w"
    using assms(1) by (simp_all add: no_faults_def instance_status_def find_instance_def)
  obtain a w1 where f: "for_each ?js (reap_instance r) ?v = (a, w1)" by force
  from reap_all [OF v(1) f] have "a = Inr ()" "instance_status i w1 = freed r (\<lambda>i. i \<in> set ?js) ?v i" by simp_all
  moreover have "w' = w1" using assms f \<open>a = Inr ()\<close>
    by (simp add: reapStuckInstances_def ignore_errors_def catchA_def bindA_def query_def attempt_def no_faults_def)
  moreover have "i \<in> set ?js" if "instance_status i w = Some WRunning"
    using that by (auto simp: instance_status_def find_instance_def find_Some_iff)
  ultimately show ?thesis using v(2) by (auto simp: freed_def)
qed

section \<open>Witnesses\<close>

definition ex_timer_fields :: json where
  "ex_timer_fields = JObj [(''instanceId'', JStr ''i1''), (''name'', JStr ''welcome''), (''projectId'', JStr ''p1'')]"

definition ex_event_timer :: json where
  "ex_event_timer = JObj [(''instanceId'', JStr ''i1''), (''isEventTimeout'', JBool True), (''eventName'', JStr ''paid''),
     (''stepId'', JStr ''0'')]"

definition ex_timer_store :: "json \<Rightarrow> mem_store" where
  "ex_timer_store task = mem_zset WORKFLOW_TIMERS_KEY (\<lambda>_. [(json_stringify task, 500)]) mem_empty"

text \<open>A pending instance that waits for an event.\<close>

definition ex_waiting_world :: "(nat \<Rightarrow> exn option) \<Rightarrow> mem_store workflow_world" where
  "ex_waiting_world faults = \<lparr>w_redis = ex_timer_store ex_event_timer, w_log = [], w_step = 0, w_faults = faults,
     wf_instances = [ex_wf_instance WPending],
     wf_steps = [\<lparr>ws_projectId = ''p1'', ws_instanceId = ''i1'', ws_stepIndex = ''0'', ws_action = ''waitForEvent'', ws_output = None\<rparr>],
     wf_waiters = [\<lparr>ww_id = ''v1'', ww_projectId = ''p1'', ww_instanceId = ''i1'', ww_eventName = ''paid'',
       ww_matchCriteria = [(''order.id'', JInt 7)], ww_expiresAt = 5000\<rparr>],
     wf_definitions = []\<rparr>"

lemma ex_timer_parse: "json_parse (json_stringify ex_timer_fields) = Some ex_timer_fields"
  "json_parse (json_stringify ex_event_timer) = Some ex_event_timer"
  by (rule json_parse_stringify; simp add: ex_timer_fields_def ex_event_timer_def)+

lemma ex_waits: "waits_for ''i1'' ''0'' ''paid'' (ex_waiting_world f)"
  by (simp add: waits_for_def ex_waiting_world_def instance_status_def find_instance_def ex_wf_instance_def instance_steps_def)

lemma ex_is_event_timer: "event_timer ''i1'' ''0'' ''paid'' ex_event_timer"
  by (simp add: event_timer_def ex_event_timer_def task_field_def task_flag_def falsy_def)

lemma workflow_poll_keeps_wakeups_witness:
  "let w' = snd (pollWorkflowTimers mem_redis 1000
       ((ex_wf_world [ex_wf_instance WPending])\<lparr>w_redis := ex_timer_store ex_timer_fields\<rparr>))
   in json_stringify ex_timer_fields \<in> fst ` set (mem_view WORKFLOW_TIMERS_KEY (w_redis w'))
    \<or> PublishWorkflow (resumed_event ex_timer_fields) \<in> set (w_log w')"
proof -
  let ?w = "(ex_wf_world [ex_wf_instance WPending])\<lparr>w_redis := ex_timer_store ex_timer_fields\<rparr>"
  obtain res w' where run: "pollWorkflowTimers mem_redis 1000 ?w = (res, w')" by force
  have "task_field ex_timer_fields ''instanceId'' = Some (JStr ''i1'')" "\<not> task_flag ex_timer_fields ''isEventTimeout''"
    by (simp_all add: ex_timer_fields_def task_field_def task_flag_def)
  moreover have "instance_status ''i1'' ?w = Some WPending"
    by (simp add: instance_status_def find_instance_def ex_wf_world_def ex_wf_instance_def)
  moreover have "json_stringify ex_timer_fields \<in> fst ` set (mem_view WORKFLOW_TIMERS_KEY (w_redis ?w))"
    by (simp add: ex_timer_store_def mem_view_def mem_zset_def)
  ultimately show ?thesis
    using workflow_poll_keeps_wakeups [OF mem_zset_laws mem_member_laws ex_timer_parse(1) _ _ _ _ _ run] run by simp
qed

lemma event_timeout_wakes_instance_witness:
  "PublishWorkflow (resumed_event ex_event_timer)
     \<in> set (w_log (snd (poll_timer mem_redis (json_stringify ex_event_timer) (ex_waiting_world (\<lambda>_. None)))))"
proof -
  obtain res w' where run: "poll_timer mem_redis (json_stringify ex_event_timer) (ex_waiting_world (\<lambda>_. None)) = (res, w')"
    by force
  have "no_faults (ex_waiting_world (\<lambda>_. None))" by (simp add: no_faults_def ex_waiting_world_def)
  from event_timeout_wakes_instance [OF mem_member_laws this ex_waits ex_is_event_timer ex_timer_parse(2) run] run
  show ?thesis by simp
qed

lemma event_timeout_lost_when_publish_fails_witness:
  "let w = ex_waiting_world (\<lambda>n. if n = 5 then Some (Error ''XADD'') else None);
       t = json_stringify ex_event_timer; w1 = snd (poll_timer mem_redis t w); w2 = snd (poll_timer mem_redis t w1)
   in instance_status ''i1'' w2 = Some WPending \<and> t \<notin> fst ` set (mem_view WORKFLOW_TIMERS_KEY (w_redis w2))"
proof -
  let ?w = "ex_waiting_world (\<lambda>n. if n = 5 then Some (Error ''XADD'') else None)" and ?t = "json_stringify ex_event_timer"
  obtain res1 w1 where one: "poll_timer mem_redis ?t ?w = (res1, w1)" by force
  obtain res2 w2 where two: "poll_timer mem_redis ?t w1 = (res2, w2)" by force
  have "w_faults ?w = (\<lambda>n. if n = w_step ?w + 5 then Some (Error ''XADD'') else None)"
    by (simp add: ex_waiting_world_def)
  from event_timeout_lost_when_publish_fails
    [OF mem_member_laws ex_waits ex_is_event_timer ex_timer_parse(2) this one two] one two
  show ?thesis by (simp add: Let_def)
qed

lemma reaper_frees_exactly_unlocked_witness:
  "instance_status ''i1'' (snd (reapStuckInstances mem_redis (ex_wf_world [ex_wf_instance WRunning]))) = Some WPending"
proof -
  obtain res w' where run: "reapStuckInstances mem_redis (ex_wf_world [ex_wf_instance WRunning]) = (res, w')" by force
  have "no_faults (ex_wf_world [ex_wf_instance WRunning])" by (simp add: no_faults_def ex_wf_world_def)
  from reaper_frees_exactly_unlocked [OF this run, of "''i1''"] run show ?thesis
    by (simp add: instance_status_def find_instance_def ex_wf_world_def ex_wf_instance_def mem_redis_def mem_empty_def)
qed

end
