(* ===== verification/Event_Worker.thy ===== *)
theory Event_Worker
  imports Workflow_Timers
begin

text \<open>
  The event worker (\<open>src/src/services/events/main.ts\<close>): it writes the delivery log in
  batches, and wakes the workflows that wait for an event. The first half is the buffer of log rows as a
  state machine, whose steps are the turns of the event loop; the second is the handling of a
  received event on the tables of the workflow engine.
\<close>

section \<open>The delivery log\<close>

record log_row =
  lr_projectId :: string
  lr_taskId :: string
  lr_providerMessageId :: "string option"
  lr_channel :: string
  lr_attempt :: int
  lr_kind :: string
  lr_status :: string
  lr_templateId :: "string option"
  lr_workflowInstanceId :: "string option"
  lr_campaignId :: "string option"
  lr_timestamp :: "string option"

text \<open>The payload of a delivery event, empty fields as \<open>None\<close>.\<close>

record delivery_payload =
  dp_projectId :: string
  dp_taskId :: string
  dp_providerMessageId :: "string option"
  dp_channel :: string
  dp_attempt :: "int option"
  dp_templateId :: "string option"
  dp_workflowInstanceId :: "string option"
  dp_campaignId :: "string option"
  dp_dispatchedAt :: "string option"

datatype log_event = Dispatched | Delivered | Failed

definition delivery_status :: "log_event \<Rightarrow> string" where
  "delivery_status e = (case e of Dispatched \<Rightarrow> ''dispatched'' | Delivered \<Rightarrow> ''delivered'' | Failed \<Rightarrow> ''failed'')"

definition delivery_kind :: "log_event \<Rightarrow> string" where
  "delivery_kind e = (if e = Dispatched then ''dispatched'' else ''attempt'')"

definition log_row_of ::
  "delivery_payload \<Rightarrow> string \<Rightarrow> string \<Rightarrow> string option \<Rightarrow> string option \<Rightarrow> log_row" where
  "log_row_of p rowKind rowStatus providerMessageId timestamp =
     \<lparr>lr_projectId = dp_projectId p, lr_taskId = dp_taskId p, lr_providerMessageId = providerMessageId,
      lr_channel = dp_channel p, lr_attempt = (case dp_attempt p of Some n \<Rightarrow> if n = 0 then 1 else n | None \<Rightarrow> 1),
      lr_kind = rowKind, lr_status = rowStatus, lr_templateId = dp_templateId p,
      lr_workflowInstanceId = dp_workflowInstanceId p, lr_campaignId = dp_campaignId p, lr_timestamp = timestamp\<rparr>"

definition delivery_rows :: "log_event \<Rightarrow> delivery_payload \<Rightarrow> log_row list" where
  "delivery_rows e p =
     (case dp_dispatchedAt p of
        Some at \<Rightarrow> if delivery_kind e = ''attempt'' then [log_row_of p ''dispatched'' ''dispatched'' None (Some at)] else []
      | None \<Rightarrow> [])
     @ [log_row_of p (delivery_kind e) (delivery_status e) (dp_providerMessageId p) None]"

text \<open>
  The worker's buffers. An entry carries the number of its promise; \<open>el_written\<close> is the table,
  \<open>el_resolved\<close> and \<open>el_rejected\<close> are the promises settled so far. A flush is
  inserting its rows, or publishing its events.
\<close>

datatype 'v flush = Inserting "(nat \<times> log_row) list" "(nat \<times> 'v) list" | Publishing "(nat \<times> 'v) list"

record 'v event_log =
  el_rows :: "(nat \<times> log_row) list"
  el_events :: "(nat \<times> 'v) list"
  el_flushes :: "'v flush list"
  el_next :: nat
  el_written :: "log_row list"
  el_published :: "'v list"
  el_resolved :: "nat list"
  el_rejected :: "nat list"

definition MAX_CONCURRENT_FLUSHES :: nat where
  "MAX_CONCURRENT_FLUSHES = 4"

definition flushThreshold :: "nat \<Rightarrow> nat" where
  "flushThreshold concurrency = max 1 (min 500 (concurrency div 2))"

text \<open>\<open>flushLogs\<close> up to its first await.\<close>

definition flushLogs :: "'v event_log \<Rightarrow> 'v event_log" where
  "flushLogs s =
     (if MAX_CONCURRENT_FLUSHES \<le> length (el_flushes s) \<or> (el_rows s = [] \<and> el_events s = []) then s
      else s\<lparr>el_rows := [], el_events := [],
             el_flushes := el_flushes s @ [if el_rows s \<noteq> [] then Inserting (el_rows s) (el_events s)
                                            else Publishing (el_events s)]\<rparr>)"

text \<open>Its \<open>finally\<close> block.\<close>

definition end_flush :: "nat \<Rightarrow> nat \<Rightarrow> 'v event_log \<Rightarrow> 'v event_log" where
  "end_flush threshold k s =
     (let s = s\<lparr>el_flushes := take k (el_flushes s) @ drop (Suc k) (el_flushes s)\<rparr>
      in if threshold \<le> length (el_rows s) then flushLogs s else s)"

text \<open>The insert of flush \<open>k\<close> came back, and the publish of flush \<open>k\<close> came back.\<close>

definition insert_returned :: "nat \<Rightarrow> nat \<Rightarrow> bool \<Rightarrow> 'v event_log \<Rightarrow> 'v event_log" where
  "insert_returned threshold k ok s =
     (case el_flushes s ! k of
        Inserting rows evs \<Rightarrow>
          if \<not> ok then end_flush threshold k (s\<lparr>el_rejected := el_rejected s @ map fst rows @ map fst evs\<rparr>)
          else
            let s = s\<lparr>el_written := el_written s @ map snd rows, el_resolved := el_resolved s @ map fst rows\<rparr>
            in if evs = [] then end_flush threshold k s else s\<lparr>el_flushes := (el_flushes s)[k := Publishing evs]\<rparr>
      | Publishing evs \<Rightarrow> s)"

definition publish_returned :: "nat \<Rightarrow> nat \<Rightarrow> bool \<Rightarrow> 'v event_log \<Rightarrow> 'v event_log" where
  "publish_returned threshold k ok s =
     (case el_flushes s ! k of
        Publishing evs \<Rightarrow>
          if ok then end_flush threshold k (s\<lparr>el_published := el_published s @ map snd evs, el_resolved := el_resolved s @ map fst evs\<rparr>)
          else end_flush threshold k (s\<lparr>el_rejected := el_rejected s @ map fst evs\<rparr>)
      | Inserting rows evs \<Rightarrow> s)"

text \<open>Dropping the oldest row of a full buffer, then buffering the rows of an event.\<close>

definition drop_oldest :: "nat \<Rightarrow> 'v event_log \<Rightarrow> 'v event_log" where
  "drop_oldest maxSize s =
     (if length (el_rows s) < maxSize then s
      else case el_rows s of
        [] \<Rightarrow> s
      | (p, row) # rest \<Rightarrow> s\<lparr>el_rows := rest, el_rejected := el_rejected s @ [p]\<rparr>)"

definition push_rows :: "log_row list \<Rightarrow> 'v event_log \<Rightarrow> 'v event_log" where
  "push_rows rows s = s\<lparr>el_rows := el_rows s @ enumerate (el_next s) rows, el_next := el_next s + length rows\<rparr>"

definition process_delivery :: "nat \<Rightarrow> nat \<Rightarrow> log_event \<Rightarrow> delivery_payload \<Rightarrow> 'v event_log \<Rightarrow> 'v event_log" where
  "process_delivery maxSize threshold e p s =
     (let s = push_rows (delivery_rows e p) (drop_oldest maxSize s)
      in if threshold \<le> length (el_rows s) then flushLogs s else s)"

definition buffer_event :: "'v \<Rightarrow> 'v event_log \<Rightarrow> 'v event_log" where
  "buffer_event ev s = s\<lparr>el_events := el_events s @ [(el_next s, ev)], el_next := Suc (el_next s)\<rparr>"

text \<open>The turns of the event loop.\<close>

inductive event_log_step :: "nat \<Rightarrow> nat \<Rightarrow> 'v event_log \<Rightarrow> 'v event_log \<Rightarrow> bool" for maxSize threshold where
  step_delivery: "event_log_step maxSize threshold s (process_delivery maxSize threshold e p s)"
| step_resume: "event_log_step maxSize threshold s (buffer_event ev s)"
| step_tick: "event_log_step maxSize threshold s (flushLogs s)"
| step_inserted: "k < length (el_flushes s) \<Longrightarrow> event_log_step maxSize threshold s (insert_returned threshold k ok s)"
| step_published: "k < length (el_flushes s) \<Longrightarrow> event_log_step maxSize threshold s (publish_returned threshold k ok s)"

definition start_log :: "'v event_log" where
  "start_log = \<lparr>el_rows = [], el_events = [], el_flushes = [], el_next = 0, el_written = [], el_published = [],
     el_resolved = [], el_rejected = []\<rparr>"

section \<open>A received event\<close>

fun split_dots :: "string \<Rightarrow> string list" where
  "split_dots [] = [[]]"
| "split_dots (c # cs) =
     (if c = CHR ''.'' then [] # split_dots cs
      else case split_dots cs of [] \<Rightarrow> [[c]] | p # ps \<Rightarrow> (c # p) # ps)"

text \<open>
  \<open>v[p]\<close> of a truthy JSON value: the own properties of an object, the index and the length of an
  array or a text. Other values have none.
\<close>

definition index_of :: "string \<Rightarrow> nat option" where
  "index_of p = (if p \<noteq> [] \<and> list_all js_digit p \<and> show_nat (digits_val 0 p) = p then Some (digits_val 0 p) else None)"

definition js_property :: "json \<Rightarrow> string \<Rightarrow> json option" where
  "js_property v p = (case v of
     JObj kvs \<Rightarrow> jm_get kvs p
   | JArr xs \<Rightarrow> (case index_of p of Some i \<Rightarrow> if i < length xs then Some (xs ! i) else None
       | None \<Rightarrow> if p = ''length'' then Some (JInt (int (length xs))) else None)
   | JStr s \<Rightarrow> (case index_of p of Some i \<Rightarrow> if i < length s then Some (JStr [s ! i]) else None
       | None \<Rightarrow> if p = ''length'' then Some (JInt (int (length s))) else None)
   | _ \<Rightarrow> None)"

definition data_value :: "json \<Rightarrow> string \<Rightarrow> json option" where
  "data_value data k =
     (if CHR ''.'' \<in> set k
      then foldl (\<lambda>v p. case v of Some x \<Rightarrow> if falsy x then v else js_property x p | None \<Rightarrow> None)
             (Some data) (split_dots k)
      else js_property data k)"

text \<open>\<open>===\<close>: an object or array of the event is never the one of the criteria.\<close>

definition strictly_equal :: "json option \<Rightarrow> json \<Rightarrow> bool" where
  "strictly_equal x v = (case v of JObj kvs \<Rightarrow> False | JArr xs \<Rightarrow> False | _ \<Rightarrow> x = Some v)"

definition waiter_matches :: "wf_waiter \<Rightarrow> json \<Rightarrow> bool" where
  "waiter_matches t data = list_all (\<lambda>(k, v). strictly_equal (data_value data k) v) (ww_matchCriteria t)"

text \<open>\<open>payload.payload\<close>, when it is an object.\<close>

definition event_data :: "(string \<times> json) list \<Rightarrow> json" where
  "event_data payload = (case jm_get payload ''payload'' of
     Some (JObj kvs) \<Rightarrow> JObj kvs | Some (JArr xs) \<Rightarrow> JArr xs | _ \<Rightarrow> JObj [])"

definition match_event :: "wf_instance \<Rightarrow> wf_waiter \<Rightarrow> string option \<Rightarrow> workflow_event" where
  "match_event x t traceId = \<lparr>we_type = ''workflow.resumed'',
     we_payload = [(''projectId'', JStr (wi_projectId x)), (''instanceId'', JStr (ww_instanceId t)),
       (''name'', JStr (wi_name x)), (''input'', if wi_input x = JNull then JObj [] else wi_input x),
       (''reason'', JStr ''event_matched'')],
     we_source = ''events'', we_traceId = traceId\<rparr>"

definition delete_waiter :: "string \<Rightarrow> ('r, unit) wf_act" where
  "delete_waiter i = attempt (\<lambda>w. ((), w\<lparr>wf_waiters := filter (\<lambda>t. ww_id t \<noteq> i) (wf_waiters w)\<rparr>))"

text \<open>What a call gave, its error as a value.\<close>

definition tryA :: "('w, 'a) act \<Rightarrow> ('w, exn + 'a) act" where
  "tryA m w = (case m w of (r, w') \<Rightarrow> (Inr r, w'))"

text \<open>One matched waiter, up to the resume it buffers; a waiter of no instance is deleted.\<close>

definition match_waiter :: "json \<Rightarrow> string option \<Rightarrow> wf_waiter \<Rightarrow> ('r, workflow_event option) wf_act" where
  "match_waiter data traceId t =
     bindA (query (find_instance (ww_instanceId t))) (\<lambda>found. case found of
       None \<Rightarrow> thenA (delete_waiter (ww_id t)) (ret None)
     | Some x \<Rightarrow> bindA (query (waiting_steps (ww_instanceId t))) (\<lambda>steps.
         thenA (case pending_step None steps of
             None \<Rightarrow> ret ()
           | Some s \<Rightarrow> set_output (ww_instanceId t) (ws_stepIndex s) data)
           (ret (Some (match_event x t traceId)))))"

text \<open>The loop over the waiters: the resumes buffered, and the error that ended it.\<close>

fun wake_waiters ::
  "json \<Rightarrow> string option \<Rightarrow> wf_waiter list \<Rightarrow> workflow_event list \<Rightarrow> ('r, workflow_event list \<times> exn option) wf_act" where
  "wake_waiters data traceId [] evs = ret (evs, None)"
| "wake_waiters data traceId (t # ts) evs =
     (if \<not> waiter_matches t data then wake_waiters data traceId ts evs
      else bindA (tryA (match_waiter data traceId t)) (\<lambda>m. case m of
          Inl e \<Rightarrow> ret (evs, Some e)
        | Inr None \<Rightarrow> wake_waiters data traceId ts evs
        | Inr (Some ev) \<Rightarrow> bindA (tryA (delete_waiter (ww_id t))) (\<lambda>d. case d of
            Inl e \<Rightarrow> ret (evs @ [ev], Some e)
          | Inr u \<Rightarrow> wake_waiters data traceId ts (evs @ [ev]))))"

text \<open>What is buffered is flushed, also when the loop ended early.\<close>

definition publish_resumes :: "workflow_event list \<Rightarrow> ('r, unit) wf_act" where
  "publish_resumes evs =
     (if evs = [] then ret () else attempt (\<lambda>w. ((), w\<lparr>w_log := w_log w @ map PublishWorkflow evs\<rparr>)))"

definition due_waiters :: "string \<Rightarrow> string \<Rightarrow> ms \<Rightarrow> 'r workflow_world \<Rightarrow> wf_waiter list" where
  "due_waiters eventName projectId now w =
     filter (\<lambda>t. ww_eventName t = eventName \<and> ww_projectId t = projectId \<and> now < ww_expiresAt t) (wf_waiters w)"

definition process_received :: "ms \<Rightarrow> string option \<Rightarrow> (string \<times> json) list \<Rightarrow> ('r, unit) wf_act" where
  "process_received now traceId payload =
     (case (payload_text payload ''eventName'', payload_text payload ''projectId'') of
        (Some eventName, Some projectId) \<Rightarrow>
          bindA (query (due_waiters eventName projectId now)) (\<lambda>waiters.
          bindA (wake_waiters (event_data payload) traceId waiters []) (\<lambda>(evs, err).
          bindA (tryA (publish_resumes evs)) (\<lambda>published. case err of
            Some e \<Rightarrow> throw e
          | None \<Rightarrow> lift_error published)))
      | _ \<Rightarrow> ret ())"

section \<open>Every promise is settled once\<close>

fun flush_ids :: "'v flush \<Rightarrow> nat list" where
  "flush_ids (Inserting rows evs) = map fst rows @ map fst evs"
| "flush_ids (Publishing evs) = map fst evs"

fun flush_rows :: "'v flush \<Rightarrow> (nat \<times> log_row) list" where
  "flush_rows (Inserting rows evs) = rows"
| "flush_rows (Publishing evs) = []"

definition log_held :: "'v event_log \<Rightarrow> nat list" where
  "log_held s = map fst (el_rows s) @ map fst (el_events s) @ concat (map flush_ids (el_flushes s))"

definition settled :: "'v event_log \<Rightarrow> nat list" where
  "settled s = el_resolved s @ el_rejected s"

definition promises_ok :: "'v event_log \<Rightarrow> bool" where
  "promises_ok s \<longleftrightarrow> mset (log_held s) + mset (settled s) = mset [0..<el_next s]
     \<and> length (el_flushes s) \<le> MAX_CONCURRENT_FLUSHES"

text \<open>A row is on its way to the table, or in it, or its promise was rejected.\<close>

definition row_known :: "nat \<Rightarrow> log_row \<Rightarrow> 'v event_log \<Rightarrow> bool" where
  "row_known p row s \<longleftrightarrow> (p, row) \<in> set (el_rows s) \<or> (\<exists>f \<in> set (el_flushes s). (p, row) \<in> set (flush_rows f))
     \<or> row \<in> set (el_written s) \<or> p \<in> set (el_rejected s)"

lemma flushLogs_frame [simp]:
  "mset (log_held (flushLogs s)) = mset (log_held s)" "settled (flushLogs s) = settled s" "el_next (flushLogs s) = el_next s"
  "length (el_flushes s) \<le> MAX_CONCURRENT_FLUSHES \<Longrightarrow> length (el_flushes (flushLogs s)) \<le> MAX_CONCURRENT_FLUSHES"
  "row_known p row s \<Longrightarrow> row_known p row (flushLogs s)"
  by (auto simp: flushLogs_def log_held_def settled_def row_known_def)

lemma concat_without:
  "k < length xs \<Longrightarrow> mset (concat (map f xs)) = mset (f (xs ! k)) + mset (concat (map f (take k xs @ drop (Suc k) xs)))"
  by (subst (1) id_take_nth_drop [of k xs]) simp_all

lemma set_without: "k < length xs \<Longrightarrow> set xs = insert (xs ! k) (set (take k xs @ drop (Suc k) xs))"
  by (subst (1) id_take_nth_drop [of k xs]) auto

lemma end_flush_frame:
  assumes "k < length (el_flushes s)"
  shows "mset (log_held s) = mset (flush_ids (el_flushes s ! k)) + mset (log_held (end_flush t k s))"
    "settled (end_flush t k s) = settled s" "el_next (end_flush t k s) = el_next s"
    "length (el_flushes s) \<le> MAX_CONCURRENT_FLUSHES \<Longrightarrow> length (el_flushes (end_flush t k s)) \<le> MAX_CONCURRENT_FLUSHES"
  using concat_without [OF assms, of flush_ids] assms
  by (auto simp: end_flush_def Let_def log_held_def settled_def flushLogs_def)

lemma end_flush_row:
  assumes "k < length (el_flushes s)" "row_known p row s"
    "(p, row) \<in> set (flush_rows (el_flushes s ! k)) \<Longrightarrow> row \<in> set (el_written s) \<or> p \<in> set (el_rejected s)"
  shows "row_known p row (end_flush t k s)"
proof -
  let ?s = "s\<lparr>el_flushes := take k (el_flushes s) @ drop (Suc k) (el_flushes s)\<rparr>"
  have "row_known p row ?s" using assms(2,3) set_without [OF assms(1)] by (auto simp: row_known_def)
  then show ?thesis by (simp add: end_flush_def Let_def)
qed

lemma promises_end_flush:
  assumes "k < length (el_flushes s)" "length (el_flushes s) \<le> MAX_CONCURRENT_FLUSHES"
    and "mset (log_held s) + mset (settled s) = mset (flush_ids (el_flushes s ! k)) + mset [0..<el_next s]"
  shows "promises_ok (end_flush t k s)"
  using end_flush_frame [OF assms(1), of t] assms(2,3) by (simp add: promises_ok_def)

text \<open>The steps keep both.\<close>

lemma drop_oldest_ok: "promises_ok s \<Longrightarrow> promises_ok (drop_oldest m s)"
  by (auto simp: drop_oldest_def promises_ok_def log_held_def settled_def split: list.split)

lemma drop_oldest_row: "row_known p row s \<Longrightarrow> row_known p row (drop_oldest m s)"
  by (auto simp: drop_oldest_def row_known_def split: list.split)

lemma push_rows_ok: "promises_ok s \<Longrightarrow> promises_ok (push_rows rows s)"
proof -
  have e: "map fst (enumerate n rows) = [n..<n + length rows]" for n by (simp add: enumerate_eq_zip)
  have "[0..<el_next s + length rows] = [0..<el_next s] @ [el_next s..<el_next s + length rows]"
    by (rule upt_add_eq_append) simp
  then show "promises_ok s \<Longrightarrow> promises_ok (push_rows rows s)"
    by (auto simp: promises_ok_def push_rows_def log_held_def settled_def e ac_simps)
qed

lemma insert_returned_ok:
  assumes "promises_ok s" "k < length (el_flushes s)"
  shows "promises_ok (insert_returned t k ok s)"
proof (cases "el_flushes s ! k")
  case (Inserting rows evs)
  let ?w = "s\<lparr>el_written := el_written s @ map snd rows, el_resolved := el_resolved s @ map fst rows\<rparr>"
  have upd: "mset (concat (map flush_ids ((el_flushes s)[k := Publishing evs]))) + mset (map fst rows)
      = mset (concat (map flush_ids (el_flushes s)))"
    using assms(2) Inserting concat_without [of k "(el_flushes s)[k := Publishing evs]" flush_ids]
      concat_without [of k "el_flushes s" flush_ids] by (simp add: take_update_cancel drop_update_cancel)
  show ?thesis
    using assms Inserting upd promises_end_flush [of k "s\<lparr>el_rejected := el_rejected s @ map fst rows @ map fst evs\<rparr>" t]
      promises_end_flush [of k ?w t]
    by (auto simp: insert_returned_def Let_def promises_ok_def log_held_def settled_def ac_simps)
qed (use assms in \<open>simp add: insert_returned_def\<close>)

lemma set_update_keeps: "k < length xs \<Longrightarrow> f \<in> set xs \<Longrightarrow> f = xs ! k \<or> f \<in> set (xs[k := x])"
  using set_without [of k xs] by (auto simp: upd_conv_take_nth_drop)

lemma insert_returned_row:
  assumes "row_known p row s" "k < length (el_flushes s)"
  shows "row_known p row (insert_returned t k ok s)"
proof (cases "el_flushes s ! k")
  case (Inserting rows evs)
  let ?f = "s\<lparr>el_rejected := el_rejected s @ map fst rows @ map fst evs\<rparr>"
  let ?w = "s\<lparr>el_written := el_written s @ map snd rows, el_resolved := el_resolved s @ map fst rows\<rparr>"
  have w: "row_known p row ?w" and f: "row_known p row ?f" using assms(1) by (auto simp: row_known_def)
  have inw: "(p, row) \<in> set rows \<Longrightarrow> row \<in> set (el_written ?w)" by force
  have inf: "(p, row) \<in> set rows \<Longrightarrow> p \<in> set (el_rejected ?f)" by force
  have "row_known p row (end_flush t k ?f)" "row_known p row (end_flush t k ?w)"
    by (rule end_flush_row; use f w inf inw assms(2) Inserting in simp)+
  moreover have "row_known p row (?w\<lparr>el_flushes := (el_flushes s)[k := Publishing evs]\<rparr>)"
    using w inw Inserting set_update_keeps [OF assms(2)] unfolding row_known_def by fastforce
  ultimately show ?thesis using Inserting by (simp add: insert_returned_def Let_def)
qed (use assms in \<open>simp add: insert_returned_def\<close>)

lemma publish_returned_ok:
  assumes "promises_ok s" "k < length (el_flushes s)"
  shows "promises_ok (publish_returned t k ok s)"
proof (cases "el_flushes s ! k")
  case (Publishing evs)
  let ?p = "s\<lparr>el_published := el_published s @ map snd evs, el_resolved := el_resolved s @ map fst evs\<rparr>"
  show ?thesis
    using assms Publishing promises_end_flush [of k "s\<lparr>el_rejected := el_rejected s @ map fst evs\<rparr>" t]
      promises_end_flush [of k ?p t]
    by (auto simp: publish_returned_def promises_ok_def log_held_def settled_def ac_simps)
qed (use assms in \<open>simp add: publish_returned_def\<close>)

lemma publish_returned_row:
  assumes "row_known p row s" "k < length (el_flushes s)"
  shows "row_known p row (publish_returned t k ok s)"
proof (cases "el_flushes s ! k")
  case (Publishing evs)
  let ?f = "s\<lparr>el_rejected := el_rejected s @ map fst evs\<rparr>"
  let ?p = "s\<lparr>el_published := el_published s @ map snd evs, el_resolved := el_resolved s @ map fst evs\<rparr>"
  have p: "row_known p row ?p" and f: "row_known p row ?f" using assms(1) by (auto simp: row_known_def)
  have "row_known p row (end_flush t k ?f)" "row_known p row (end_flush t k ?p)"
    by (rule end_flush_row; use p f assms(2) Publishing in simp)+
  then show ?thesis using Publishing by (simp add: publish_returned_def)
qed (use assms in \<open>simp add: publish_returned_def\<close>)

lemma step_promises: "event_log_step m t s s' \<Longrightarrow> promises_ok s \<Longrightarrow> promises_ok s'"
proof (induction rule: event_log_step.induct)
  case (step_delivery s e p)
  then have "promises_ok (push_rows (delivery_rows e p) (drop_oldest m s))" by (intro push_rows_ok drop_oldest_ok)
  then show ?case by (simp add: process_delivery_def Let_def promises_ok_def)
next
  case (step_resume s ev)
  then show ?case by (simp add: buffer_event_def promises_ok_def log_held_def settled_def)
qed (simp_all add: promises_ok_def insert_returned_ok [unfolded promises_ok_def] publish_returned_ok [unfolded promises_ok_def])

lemma push_rows_row: "row_known p row s \<Longrightarrow> row_known p row (push_rows rows s)"
  by (auto simp: push_rows_def row_known_def)

lemma step_row: "event_log_step m t s s' \<Longrightarrow> row_known p row s \<Longrightarrow> row_known p row s'"
proof (induction rule: event_log_step.induct)
  case (step_delivery s e pl)
  then have "row_known p row (push_rows (delivery_rows e pl) (drop_oldest m s))" by (intro push_rows_row drop_oldest_row)
  then show ?case by (simp add: process_delivery_def Let_def)
next
  case (step_resume s ev)
  then show ?case by (simp add: buffer_event_def row_known_def)
qed (simp_all add: insert_returned_row publish_returned_row)

abbreviation event_log_steps :: "nat \<Rightarrow> nat \<Rightarrow> 'v event_log \<Rightarrow> 'v event_log \<Rightarrow> bool" where
  "event_log_steps m t \<equiv> (event_log_step m t)\<^sup>*\<^sup>*"

lemma steps_promises: "event_log_steps m t s s' \<Longrightarrow> promises_ok s \<Longrightarrow> promises_ok s'"
  by (induction rule: rtranclp_induct) (auto intro: step_promises)

lemma steps_row: "event_log_steps m t s s' \<Longrightarrow> row_known p row s \<Longrightarrow> row_known p row s'"
  by (induction rule: rtranclp_induct) (auto intro: step_row)

lemma start_promises: "promises_ok start_log"
  by (simp add: promises_ok_def start_log_def log_held_def settled_def)

text \<open>
  In every reachable state of the event worker, each promise it gave out is log_held in a
  buffer or a flush, or was resolved, or was rejected, exactly one of these and once; and at most four
  flushes run at a time.
\<close>
theorem event_log_settles_once:
  assumes "event_log_steps maxSize threshold start_log s"
  shows "mset (log_held s) + mset (el_resolved s) + mset (el_rejected s) = mset [0..<el_next s]
    \<and> length (el_flushes s) \<le> MAX_CONCURRENT_FLUSHES"
  using steps_promises [OF assms start_promises] by (simp add: promises_ok_def settled_def ac_simps)

lemma promise_apart:
  assumes "promises_ok s" "p \<in> set (el_resolved s)"
  shows "p \<notin> set (log_held s)" "p \<notin> set (el_rejected s)"
proof -
  have "distinct (log_held s @ el_resolved s @ el_rejected s)"
    using assms(1) mset_eq_imp_distinct_iff [of "log_held s @ el_resolved s @ el_rejected s" "[0..<el_next s]"]
    by (simp add: promises_ok_def settled_def)
  then show "p \<notin> set (log_held s)" "p \<notin> set (el_rejected s)" using assms(2) by auto
qed

lemma row_held: "(p, row) \<in> set (el_rows s) \<or> (\<exists>f \<in> set (el_flushes s). (p, row) \<in> set (flush_rows f)) \<Longrightarrow> p \<in> set (log_held s)"
proof -
  have "(p, row) \<in> set (flush_rows f) \<Longrightarrow> p \<in> set (flush_ids f)" for f :: "'a flush" by (cases f) force+
  then show "(p, row) \<in> set (el_rows s) \<or> (\<exists>f \<in> set (el_flushes s). (p, row) \<in> set (flush_rows f)) \<Longrightarrow> p \<in> set (log_held s)"
    by (force simp: log_held_def)
qed

text \<open>
  A delivery event is acknowledged only when its rows are in the table. The promise of
  each row of the event is resolved, however the flushes interleave and whichever of them fail, only after
  that row was inserted; a row dropped from a full buffer, or lost with its batch, has its promise
  rejected, so the event stays pending and is delivered again.
\<close>
theorem event_log_acks_written_rows:
  assumes "event_log_steps maxSize threshold start_log s"
    and "event_log_steps maxSize threshold (process_delivery maxSize threshold e p s) s'"
    and "n < length (delivery_rows e p)" "el_next s + n \<in> set (el_resolved s')"
  shows "delivery_rows e p ! n \<in> set (el_written s')"
proof -
  let ?rows = "delivery_rows e p" and ?s1 = "process_delivery maxSize threshold e p s"
  have nxt: "el_next (drop_oldest maxSize s) = el_next s" by (simp add: drop_oldest_def split: list.split)
  have "(el_next s + n, ?rows ! n) \<in> set (enumerate (el_next s) ?rows)"
    using assms(3) by (auto simp: in_set_enumerate_eq)
  then have "row_known (el_next s + n) (?rows ! n) (push_rows ?rows (drop_oldest maxSize s))"
    by (simp add: row_known_def push_rows_def nxt)
  then have "row_known (el_next s + n) (?rows ! n) ?s1" by (simp add: process_delivery_def Let_def)
  then have known: "row_known (el_next s + n) (?rows ! n) s'" by (rule steps_row [OF assms(2)])
  have "promises_ok ?s1" by (rule step_promises [OF step_delivery steps_promises [OF assms(1) start_promises]])
  then have "promises_ok s'" by (rule steps_promises [OF assms(2)])
  from promise_apart [OF this assms(4)] known row_held show ?thesis unfolding row_known_def by blast
qed

text \<open>
  The bound is not kept: when the flushes are busy, an event that carries its dispatch time adds
  two rows to a full buffer, after one is dropped.
\<close>

theorem log_buffer_outgrows_max:
  assumes "maxSize \<le> length (el_rows s)" "0 < maxSize" "length (el_flushes s) = MAX_CONCURRENT_FLUSHES"
    and "e \<noteq> Dispatched" "dp_dispatchedAt p = Some time"
  shows "length (el_rows (process_delivery maxSize threshold e p s)) = Suc (length (el_rows s))"
  using assms
  by (auto simp: process_delivery_def drop_oldest_def push_rows_def delivery_rows_def delivery_kind_def flushLogs_def Let_def
      split: list.split)

section \<open>An event wakes the workflows that wait for it\<close>

definition matched :: "string \<Rightarrow> string \<Rightarrow> ms \<Rightarrow> json \<Rightarrow> 'r workflow_world \<Rightarrow> wf_waiter list" where
  "matched eventName projectId now data w =
     filter (\<lambda>t. waiter_matches t data) (due_waiters eventName projectId now w)"

definition resumes :: "string option \<Rightarrow> 'r workflow_world \<Rightarrow> wf_waiter list \<Rightarrow> workflow_event list" where
  "resumes traceId w ts = concat (map (\<lambda>t. case find_instance (ww_instanceId t) w of
     None \<Rightarrow> [] | Some x \<Rightarrow> [match_event x t traceId]) ts)"

text \<open>The first step of the instance that waits for an event gets the data.\<close>

definition record_data :: "json \<Rightarrow> string \<Rightarrow> wf_step list \<Rightarrow> wf_step list" where
  "record_data data i steps =
     (case pending_step None (filter (\<lambda>s. ws_action s = ''waitForEvent'') (filter (\<lambda>s. ws_instanceId s = i) steps)) of
        None \<Rightarrow> steps
      | Some p \<Rightarrow> map (\<lambda>s. if ws_instanceId s = i \<and> ws_stepIndex s = ws_stepIndex p then s\<lparr>ws_output := Some data\<rparr> else s) steps)"

definition record_for :: "json \<Rightarrow> 'r workflow_world \<Rightarrow> wf_waiter \<Rightarrow> wf_step list \<Rightarrow> wf_step list" where
  "record_for data w t steps =
     (if find_instance (ww_instanceId t) w = None then steps else record_data data (ww_instanceId t) steps)"

text \<open>What the loop leaves: the waiters \<open>ts\<close> gone, their steps recorded.\<close>

definition woken :: "json \<Rightarrow> wf_waiter list \<Rightarrow> 'r workflow_world \<Rightarrow> 'r workflow_world \<Rightarrow> bool" where
  "woken data ts w w' \<longleftrightarrow> no_faults w' \<and> w_log w' = w_log w \<and> w_redis w' = w_redis w \<and> wf_instances w' = wf_instances w
     \<and> wf_waiters w' = filter (\<lambda>t. ww_id t \<notin> ww_id ` set ts) (wf_waiters w)
     \<and> wf_steps w' = fold (record_for data w) ts (wf_steps w)"

lemma wake_one:
  assumes "no_faults w"
  shows "\<exists>w1 w2. match_waiter data traceId t w = (Inr (map_option (\<lambda>x. match_event x t traceId) (find_instance (ww_instanceId t) w)), w1)
    \<and> (if find_instance (ww_instanceId t) w = None then w2 = w1 else delete_waiter (ww_id t) w1 = (Inr (), w2))
    \<and> woken data [t] w w2"
  using assms
  by (cases "find_instance (ww_instanceId t) w";
      cases "pending_step None (filter (\<lambda>s. ws_action s = ''waitForEvent'') (filter (\<lambda>s. ws_instanceId s = ww_instanceId t) (wf_steps w)))")
     (simp_all add: match_waiter_def query_def bindA_def thenA_def ret_def attempt_ok no_faults_def delete_waiter_def
       find_instance_def waiting_steps_def instance_steps_def set_output_def woken_def record_for_def record_data_def attempt_def)

lemma wake_rest:
  assumes "woken data [t] w v" "woken data ts v w'"
  shows "woken data (t # ts) w w'"
proof -
  have "record_for data v = record_for data w" using assms(1) by (simp add: record_for_def woken_def find_instance_def fun_eq_iff)
  then show ?thesis using assms by (auto simp: woken_def intro: filter_cong)
qed

lemma wake_all:
  assumes "no_faults w"
  shows "\<exists>w'. wake_waiters data traceId ts evs w =
      (Inr (evs @ resumes traceId w (filter (\<lambda>t. waiter_matches t data) ts), None), w')
    \<and> woken data (filter (\<lambda>t. waiter_matches t data) ts) w w'"
  using assms
proof (induction ts arbitrary: w evs)
  case Nil
  then show ?case by (simp add: ret_def resumes_def woken_def)
next
  case (Cons t ts)
  show ?case
  proof (cases "waiter_matches t data")
    case False
    then show ?thesis using Cons by simp
  next
    case True
    let ?x = "find_instance (ww_instanceId t) w" and ?ts = "filter (\<lambda>t. waiter_matches t data) ts"
    from wake_one [OF Cons.prems, of data traceId t] obtain w1 w2
      where m: "match_waiter data traceId t w = (Inr (map_option (\<lambda>x. match_event x t traceId) ?x), w1)"
        and d: "if ?x = None then w2 = w1 else delete_waiter (ww_id t) w1 = (Inr (), w2)"
        and one: "woken data [t] w w2" by blast
    have nf: "no_faults w2" and same: "wf_instances w2 = wf_instances w" using one by (simp_all add: woken_def)
    have r: "resumes traceId w2 xs = resumes traceId w xs" for xs by (simp add: resumes_def find_instance_def same)
    from Cons.IH [OF nf, of "evs @ resumes traceId w [t]"] obtain w'
      where w': "wake_waiters data traceId ts (evs @ resumes traceId w [t]) w2 =
          (Inr ((evs @ resumes traceId w [t]) @ resumes traceId w2 ?ts, None), w')" "woken data ?ts w2 w'" by blast
    have "wake_waiters data traceId (t # ts) evs w = wake_waiters data traceId ts (evs @ resumes traceId w [t]) w2"
      using True m d by (cases ?x) (simp_all add: bindA_def tryA_def resumes_def)
    with w' r wake_rest [OF one w'(2)] True show ?thesis by (simp add: resumes_def)
  qed
qed

lemma process_received_until_publish:
  assumes "payload_text payload ''eventName'' = Some eventName" "payload_text payload ''projectId'' = Some projectId"
    and "no_faults w"
  shows "\<exists>w1. process_received now traceId payload w =
      publish_resumes (resumes traceId w (matched eventName projectId now (event_data payload) w)) w1
    \<and> woken (event_data payload) (matched eventName projectId now (event_data payload) w) w w1"
proof -
  let ?v = "w\<lparr>w_step := Suc (w_step w)\<rparr>" and ?data = "event_data payload"
  have v: "no_faults ?v" using assms(3) by (simp add: no_faults_def)
  have due: "due_waiters eventName projectId now ?v = due_waiters eventName projectId now w" by (simp add: due_waiters_def)
  have r: "resumes traceId ?v ts = resumes traceId w ts" for ts by (simp add: resumes_def find_instance_def)
  from wake_all [OF v, of ?data traceId "due_waiters eventName projectId now w" "[]"] obtain w1
    where w1: "wake_waiters ?data traceId (due_waiters eventName projectId now w) [] ?v =
        (Inr (resumes traceId w (matched eventName projectId now ?data w), None), w1)"
      "woken ?data (matched eventName projectId now ?data w) ?v w1"
    by (auto simp: matched_def r)
  have "process_received now traceId payload w = publish_resumes (resumes traceId w (matched eventName projectId now ?data w)) w1"
    using assms w1(1) due
    by (auto simp: process_received_def query_def bindA_def attempt_ok tryA_def lift_error_def throw_def ret_def
        split: prod.split sum.split)
  moreover have "woken ?data ts w w1" if "woken ?data ts ?v w1" for ts
  proof -
    have "record_for ?data ?v = record_for ?data w" by (simp add: record_for_def find_instance_def fun_eq_iff)
    with that show ?thesis by (simp add: woken_def)
  qed
  ultimately show ?thesis using w1(2) by blast
qed

text \<open>
  C16: A received event wakes exactly the workflows that wait for it. When no call fails, the
  event publishes one resume for each waiter of its name and project that has not expired, whose
  criteria its data meet and whose instance exists, in their order; it records the data in the step each of
  these instances waits at; it deletes the waiters it matched, and leaves every other waiter and step.
\<close>
theorem event_wakes_matching_waiters:
  assumes "payload_text payload ''eventName'' = Some eventName" "payload_text payload ''projectId'' = Some projectId"
    and "no_faults w" "process_received now traceId payload w = (res, w')"
  shows "let ts = matched eventName projectId now (event_data payload) w
    in res = Inr () \<and> w_log w' = w_log w @ map PublishWorkflow (resumes traceId w ts)
      \<and> wf_waiters w' = filter (\<lambda>t. ww_id t \<notin> ww_id ` set ts) (wf_waiters w)
      \<and> wf_steps w' = fold (record_for (event_data payload) w) ts (wf_steps w)"
proof -
  from process_received_until_publish [OF assms(1-3), of now traceId] obtain w1
    where "process_received now traceId payload w =
        publish_resumes (resumes traceId w (matched eventName projectId now (event_data payload) w)) w1"
      "woken (event_data payload) (matched eventName projectId now (event_data payload) w) w w1" by blast
  then show ?thesis using assms(4)
    by (auto simp: publish_resumes_def Let_def woken_def attempt_ok ret_def split: if_splits)
qed

text \<open>
  The comment above the wake-up says that the resume is published before the waiter is deleted.
  It is only buffered by then: when the flush fails, the waiter is gone and the step is recorded, so the
  retry of the event finds nothing to wake, and the timeout finds the step settled and is dropped.
\<close>

lemma recorded_settled:
  "own_step_settled i k (w\<lparr>w_step := n, wf_steps :=
     map (\<lambda>s. if ws_instanceId s = i \<and> ws_stepIndex s = k then s\<lparr>ws_output := Some data\<rparr> else s) ss, wf_waiters := ys\<rparr>)"
proof -
  have "find (\<lambda>s. ws_stepIndex s = k) (filter (\<lambda>s. ws_instanceId s = i)
      (map (\<lambda>s. if ws_instanceId s = i \<and> ws_stepIndex s = k then s\<lparr>ws_output := Some data\<rparr> else s) ss))
    = map_option (\<lambda>s. s\<lparr>ws_output := Some data\<rparr>) (find (\<lambda>s. ws_stepIndex s = k) (filter (\<lambda>s. ws_instanceId s = i) ss))"
    by (induction ss) auto
  then show ?thesis by (simp add: own_step_settled_def instance_steps_def split: option.split)
qed

lemma received_by_nobody:
  assumes "payload_text payload ''eventName'' = Some eventName" "payload_text payload ''projectId'' = Some projectId"
    and "due_waiters eventName projectId now w = []" "w_faults w (w_step w) = None"
  shows "process_received now traceId payload w = (Inr (), w\<lparr>w_step := Suc (w_step w)\<rparr>)"
proof -
  have "due_waiters eventName projectId now (w\<lparr>w_step := n\<rparr>) = []" for n using assms(3) by (simp add: due_waiters_def)
  then show ?thesis using assms
    by (simp add: process_received_def query_def bindA_def attempt_def tryA_def ret_def publish_resumes_def lift_error_def)
qed

theorem event_resume_lost_when_flush_fails:
  assumes laws: "redis_member_laws r view"
    and payload: "payload_text payload ''eventName'' = Some eventName" "payload_text payload ''projectId'' = Some projectId"
    and waiter: "due_waiters eventName projectId now w = [t]" "waiter_matches t (event_data payload)" "ww_instanceId t = i"
    and inst: "find_instance i w = Some x" "wi_status x = WPending"
    and step: "pending_step None (waiting_steps i w) = Some s" "ws_stepIndex s = k"
    and timer: "event_timer i k eventName task" "json_parse member = Some task"
    and fault: "w_faults w = (\<lambda>n. if n = w_step w + 5 then Some (Error ''XADD'') else None)"
    and runs: "process_received now traceId payload w = (res1, w1)" "process_received now traceId payload w1 = (res2, w2)"
      "poll_timer r member w2 = (res3, w3)"
  shows "res1 = Inl (Error ''XADD'') \<and> res2 = Inr () \<and> res3 = Inr () \<and> instance_status i w3 = Some WPending
    \<and> w_log w3 = w_log w \<and> due_waiters eventName projectId now w3 = []
    \<and> member \<notin> fst ` set (view WORKFLOW_TIMERS_KEY (w_redis w3))"
proof -
  let ?ys = "filter (\<lambda>y. ww_id y \<noteq> ww_id t) (wf_waiters w)"
  let ?ss = "map (\<lambda>s. if ws_instanceId s = i \<and> ws_stepIndex s = k then s\<lparr>ws_output := Some (event_data payload)\<rparr> else s) (wf_steps w)"
  let ?v = "\<lambda>n. w\<lparr>w_step := n, wf_steps := ?ss, wf_waiters := ?ys\<rparr>"
  have "filter (\<lambda>y. ww_id y \<noteq> ww_id t) (due_waiters eventName projectId now w) = []" using waiter(1) by simp
  then have none: "due_waiters eventName projectId now (?v n) = []" for n
    by (simp add: due_waiters_def filter_empty_conv) blast
  have stable: "due_waiters eventName projectId now (w\<lparr>w_step := n\<rparr>) = [t]" "find_instance i (w\<lparr>w_step := n\<rparr>) = Some x"
    "waiting_steps i (w\<lparr>w_step := n\<rparr>) = waiting_steps i w" for n
    using waiter(1) inst(1) by (simp_all add: due_waiters_def find_instance_def waiting_steps_def instance_steps_def)
  have one: "res1 = Inl (Error ''XADD'')" "w1 = ?v (w_step w + 6)"
    using runs(1) payload waiter(2,3) step fault
    by (auto simp: process_received_def query_def bindA_def attempt_def stable match_waiter_def tryA_def thenA_def ret_def
        set_output_def delete_waiter_def publish_resumes_def lift_error_def throw_def eval_nat_numeral)
  have f: "w_faults (?v n) = w_faults w" for n by simp
  have again: "process_received now traceId payload (?v (w_step w + 6)) = (Inr (), ?v (w_step w + 6)\<lparr>w_step := Suc (w_step w + 6)\<rparr>)"
    using received_by_nobody [OF payload none [of "w_step w + 6"], of traceId] fault by simp
  have two: "res2 = Inr ()" "w2 = ?v (w_step w + 7)"
    using runs(2) again unfolding one(2) by (auto simp: add.commute)
  have st: "instance_status i (?v n) = Some WPending" for n using inst by (simp add: instance_status_def find_instance_def)
  have "own_step_settled i k w2" using recorded_settled [of i k ?ys "event_data payload" "wf_steps w" _ w] by (simp add: two(2))
  then have "poll_timer r member w2 = drop_timer r member (w2\<lparr>w_step := w_step w2 + 2\<rparr>)"
    using st fault by (intro poll_stale [OF timer]) (simp_all add: two(2))
  then have three: "res3 = Inr ()" "w3 = ?v (w_step w + 10)\<lparr>w_redis := ZREM r WORKFLOW_TIMERS_KEY member (w_redis w)\<rparr>"
    using runs(3) fault two(2) by (auto simp: drop_timer_def on_redis_def attempt_def add.commute)
  have "set (view WORKFLOW_TIMERS_KEY (w_redis w3)) = set (AList.delete member (view WORKFLOW_TIMERS_KEY (w_redis w)))"
    using laws three(2) by (simp add: redis_member_laws_def)
  moreover have "instance_status i w3 = Some WPending" "due_waiters eventName projectId now w3 = []"
    using st [of 0] none [of 0] three(2) by (simp_all add: instance_status_def find_instance_def due_waiters_def)
  ultimately show ?thesis using one two three by (auto simp: AList.delete_eq)
qed

section \<open>Witnesses\<close>

lemma event_log_settles_once_witness:
  "mset (log_held (buffer_event () start_log)) + mset (el_resolved (buffer_event () start_log))
     + mset (el_rejected (buffer_event () start_log)) = mset [0..<el_next (buffer_event () start_log)]"
proof -
  have "event_log_steps 5 2 start_log (buffer_event () start_log)" by (rule r_into_rtranclp) (rule step_resume)
  from event_log_settles_once [OF this] show ?thesis by blast
qed

definition ex_delivery :: delivery_payload where
  "ex_delivery = \<lparr>dp_projectId = ''p1'', dp_taskId = ''t1'', dp_providerMessageId = Some ''m1'', dp_channel = ''email'',
     dp_attempt = None, dp_templateId = None, dp_workflowInstanceId = None, dp_campaignId = None, dp_dispatchedAt = Some ''d''\<rparr>"

lemma event_log_acks_written_rows_witness:
  "delivery_rows Delivered ex_delivery ! 1
     \<in> set (el_written (insert_returned 2 0 True (process_delivery 5 2 Delivered ex_delivery (start_log :: unit event_log))))"
proof -
  let ?s = "process_delivery 5 2 Delivered ex_delivery (start_log :: unit event_log)"
  have s: "el_flushes ?s \<noteq> []" "el_resolved (insert_returned 2 0 True ?s) = [0, 1]" "length (delivery_rows Delivered ex_delivery) = 2"
    by (simp_all add: process_delivery_def drop_oldest_def start_log_def push_rows_def delivery_rows_def delivery_kind_def
        ex_delivery_def flushLogs_def MAX_CONCURRENT_FLUSHES_def insert_returned_def end_flush_def Let_def)
  then have "event_log_steps 5 2 ?s (insert_returned 2 0 True ?s)" by (intro r_into_rtranclp step_inserted) simp
  from event_log_acks_written_rows [OF rtranclp.rtrancl_refl this, of 1] s show ?thesis by (simp add: start_log_def)
qed

definition ex_received :: "(string \<times> json) list" where
  "ex_received = [(''eventName'', JStr ''paid''), (''projectId'', JStr ''p1''),
     (''payload'', JObj [(''order'', JObj [(''id'', JInt 7)])])]"

lemma ex_received_fields:
  "payload_text ex_received ''eventName'' = Some ''paid''" "payload_text ex_received ''projectId'' = Some ''p1''"
  "event_data ex_received = JObj [(''order'', JObj [(''id'', JInt 7)])]"
  by (simp_all add: payload_text_def ex_received_def event_data_def)

lemma event_wakes_matching_waiters_witness:
  "wf_waiters (snd (process_received 1000 None ex_received (ex_waiting_world (\<lambda>_. None)))) = []"
proof -
  obtain res w' where run: "process_received 1000 None ex_received (ex_waiting_world (\<lambda>_. None)) = (res, w')" by force
  have "no_faults (ex_waiting_world (\<lambda>_. None))" by (simp add: no_faults_def ex_waiting_world_def)
  from event_wakes_matching_waiters [OF ex_received_fields(1,2) this run] run show ?thesis
    by (simp add: Let_def ex_received_fields(3) matched_def due_waiters_def ex_waiting_world_def waiter_matches_def data_value_def
        split_dots.simps js_property_def falsy_def strictly_equal_def)
qed

lemma event_resume_lost_when_flush_fails_witness:
  "let w = ex_waiting_world (\<lambda>n. if n = 5 then Some (Error ''XADD'') else None);
       w1 = snd (process_received 1000 None ex_received w); w2 = snd (process_received 1000 None ex_received w1);
       w3 = snd (poll_timer mem_redis (json_stringify ex_event_timer) w2)
   in instance_status ''i1'' w3 = Some WPending \<and> w_log w3 = []
     \<and> json_stringify ex_event_timer \<notin> fst ` set (mem_view WORKFLOW_TIMERS_KEY (w_redis w3))"
proof -
  let ?w = "ex_waiting_world (\<lambda>n. if n = 5 then Some (Error ''XADD'') else None)"
  obtain res1 w1 where one: "process_received 1000 None ex_received ?w = (res1, w1)" by force
  obtain res2 w2 where two: "process_received 1000 None ex_received w1 = (res2, w2)" by force
  obtain res3 w3 where three: "poll_timer mem_redis (json_stringify ex_event_timer) w2 = (res3, w3)" by force
  have "due_waiters ''paid'' ''p1'' 1000 ?w = [hd (wf_waiters ?w)]" "waiter_matches (hd (wf_waiters ?w)) (event_data ex_received)"
    "ww_instanceId (hd (wf_waiters ?w)) = ''i1''"
    by (simp_all add: due_waiters_def ex_waiting_world_def waiter_matches_def data_value_def split_dots.simps js_property_def
        falsy_def strictly_equal_def ex_received_fields(3))
  note hyps = this
  have inst: "find_instance ''i1'' ?w = Some (ex_wf_instance WPending)" "wi_status (ex_wf_instance WPending) = WPending"
    by (simp_all add: ex_waiting_world_def find_instance_def ex_wf_instance_def)
  have step: "pending_step None (waiting_steps ''i1'' ?w) = Some (hd (wf_steps ?w))" "ws_stepIndex (hd (wf_steps ?w)) = ''0''"
    by (simp_all add: ex_waiting_world_def waiting_steps_def instance_steps_def pending_step_def)
  have "w_faults ?w = (\<lambda>n. if n = w_step ?w + 5 then Some (Error ''XADD'') else None)" "w_log ?w = []"
    by (simp_all add: ex_waiting_world_def)
  with event_resume_lost_when_flush_fails [OF mem_member_laws ex_received_fields(1,2) hyps inst step
      ex_is_event_timer ex_timer_parse(2) _ one two three] one two three
  show ?thesis by (simp add: Let_def)
qed

end
