(* ===== verification/AI_Worker.thy ===== *)
theory AI_Worker
  imports Engine Delivery Template_Render
begin

text \<open>
  The AI worker (\<open>src/src/services/ai/main.ts\<close>): the prompts of a notification become
  template variables, the template is rendered, and the task goes to \<open>scheduleOrDispatch\<close>. The
  language model is outside the program: what a call answered is an input of the run, by the key
  of the prompt and its text. A
  call is an entry of the log, since each is billed.
\<close>

section \<open>Generating\<close>

text \<open>The error of a model call: its class, its name, and the status it carries.\<close>

record ai_error =
  ae_permanent :: bool
  ae_name :: "string option"
  ae_statusCode :: "int option"
  ae_status :: "int option"
  ae_message :: string

definition isRetryableAiError :: "ai_error \<Rightarrow> bool" where
  "isRetryableAiError e =
     (if ae_permanent e then False
      else if ae_name e = Some ''TimeoutError'' \<or> ae_name e = Some ''AbortError'' then True
      else case (case ae_statusCode e of Some s \<Rightarrow> Some s | None \<Rightarrow> ae_status e) of
          Some status \<Rightarrow> status = 408 \<or> status = 409 \<or> status = 429 \<or> status \<ge> 500
        | None \<Rightarrow> True)"

record ai_config =
  ac_hasModel :: bool
  ac_maxPrompts :: "nat option"
  ac_timeoutMs :: "nat option"

definition AI_DEFAULT_MAX_PROMPTS :: nat where
  "AI_DEFAULT_MAX_PROMPTS = 5"

definition AI_DEFAULT_TIMEOUT_MS :: nat where
  "AI_DEFAULT_TIMEOUT_MS = 30000"

definition ai_max_prompts :: "ai_config \<Rightarrow> nat" where
  "ai_max_prompts c = (case ac_maxPrompts c of Some n \<Rightarrow> n | None \<Rightarrow> AI_DEFAULT_MAX_PROMPTS)"

definition ai_lease_seconds :: "ai_config \<Rightarrow> nat" where
  "ai_lease_seconds c =
     (((case ac_timeoutMs c of Some t \<Rightarrow> t | None \<Rightarrow> AI_DEFAULT_TIMEOUT_MS) * ai_max_prompts c + 999) div 1000 + 30)"

text \<open>\<open>prompt.replace(/\{\{(\w+)\}\}/g, \<dots>)\<close>\<close>

definition interpolate_prompt :: "string \<Rightarrow> (string \<times> json) list \<Rightarrow> string" where
  "interpolate_prompt prompt vars =
     replace_placeholders 2 (\<lambda>k. case jm_get vars k of None \<Rightarrow> [] | Some JNull \<Rightarrow> [] | Some v \<Rightarrow> js_String v) prompt"

text \<open>A failure that a retry cannot fix is \<open>Inl\<close>, the \<open>PermanentAiError\<close>.\<close>

definition generateAiContent ::
  "ai_config \<Rightarrow> (string \<Rightarrow> ai_error + string) \<Rightarrow> string \<Rightarrow> (string \<times> json) list \<Rightarrow> ('r, string + string) pipe_act" where
  "generateAiContent c model prompt vars =
     (let interpolated = interpolate_prompt prompt vars
      in if \<not> ac_hasModel c then ret (Inr (''[AI Disabled] '' @ interpolated))
         else thenA (emit (ModelCall interpolated))
           (case model interpolated of
              Inr text \<Rightarrow> ret (Inr text)
            | Inl err \<Rightarrow> if isRetryableAiError err then throw (Error (ae_message err)) else ret (Inl (ae_message err))))"

fun generate_all ::
  "ai_config \<Rightarrow> (string \<Rightarrow> string \<Rightarrow> ai_error + string) \<Rightarrow> (string \<times> json) list \<Rightarrow> (string \<times> string) list
    \<Rightarrow> (string, string) jsmap \<Rightarrow> ('r, string + (string, string) jsmap) pipe_act" where
  "generate_all c model vars [] generated = ret (Inr generated)"
| "generate_all c model vars ((k, prompt) # ps) generated =
     bindA (generateAiContent c (model k) prompt vars) (\<lambda>g. case g of
       Inl e \<Rightarrow> ret (Inl e)
     | Inr text \<Rightarrow> generate_all c model vars ps (jm_set k text generated))"

section \<open>The task\<close>

definition ai_task_id :: "NotificationAiPendingPayload \<Rightarrow> string" where
  "ai_task_id p = (case ap_taskId p of
     Some t \<Rightarrow> t
   | None \<Rightarrow> ap_enrichedEventId p @ '':'' @ ap_recipientId p @ '':'' @ channel_text (ap_channel p))"

definition ai_key :: "NotificationAiPendingPayload \<Rightarrow> string" where
  "ai_key p = ai_task_id p @ '':ai''"

text \<open>\<open>{...templateVariables, ...generatedVars}\<close>\<close>

definition merge_vars :: "(string \<times> json) list \<Rightarrow> (string \<times> string) list \<Rightarrow> (string, json) jsmap" where
  "merge_vars vars generated = foldl (\<lambda>m (k, v). jm_set k (JStr v) m) vars generated"

definition profile_address :: "RecipientProfile \<Rightarrow> NotificationChannel \<Rightarrow> string option" where
  "profile_address u ch =
     (case ch of
        Email \<Rightarrow> rp_email u
      | Sms \<Rightarrow> rp_phone u
      | Whatsapp \<Rightarrow> rp_phone u
      | Webhook \<Rightarrow> rp_webhook u
      | Telegram \<Rightarrow> rp_telegram u
      | Discord \<Rightarrow> rp_discord u
      | Slack \<Rightarrow> rp_slack u
      | Push \<Rightarrow> (case rp_pushTokens u of Some (t # ts) \<Rightarrow> Some t | _ \<Rightarrow> rp_pushToken u)
      | InApp \<Rightarrow> None)"

definition ai_destination :: "NotificationAiPendingPayload \<Rightarrow> string option" where
  "ai_destination p =
     (case ap_destination p of
        Some d \<Rightarrow> Some d
      | None \<Rightarrow> (case profile_address (ap_recipient p) (ap_channel p) of
            Some d \<Rightarrow> Some d
          | None \<Rightarrow> if ap_channel p = Push then None else Some (ap_recipientId p)))"

definition ai_task :: "NotificationAiPendingPayload \<Rightarrow> json \<Rightarrow> DispatchedTaskPayload" where
  "ai_task p rendered =
     \<lparr>dt_projectId = ap_projectId p, dt_taskId = ai_task_id p, dt_enrichedEventId = ap_enrichedEventId p,
      dt_recipientId = ap_recipientId p, dt_channel = ap_channel p, dt_priority = ap_priority p,
      dt_templateId = ap_templateId p, dt_templateVariables = ap_templateVariables p,
      dt_aiPrompts = Some (ap_aiPrompts p), dt_recipient = Some (ap_recipient p),
      dt_renderedContent = Some \<lparr>rc_content = rendered, rc_attachments = None\<rparr>, dt_destination = ai_destination p,
      dt_deliveryOptions = \<lparr>do_maxAttempts = 3, do_timeoutMs = 10000, do_headers = ap_deliveryHeaders p\<rparr>,
      dt_fallbackChain = ap_fallbackChain p, dt_throttleAttemptCount = None, dt_deliveryAttemptCount = None,
      dt_campaignId = ap_campaignId p, dt_workflowInstanceId = ap_workflowInstanceId p\<rparr>"

section \<open>process\<close>

text \<open>
  \<open>ai_config\<close>, what the model answers, what the template cache answers, the clock and the random
  ids of the run.
\<close>

record ai_reads =
  ar_config :: ai_config
  ar_model :: "string \<Rightarrow> string \<Rightarrow> ai_error + string"
  ar_template :: "exn + json option option"
  ar_now :: ms
  ar_uuid :: "nat \<Rightarrow> string"

record 'r AiWorkerOptions =
  ao_redis :: "'r redis"
  ao_idempotency :: idempotency_guard
  ao_env1 :: "'r \<Rightarrow> 'r"
  ao_env2 :: "'r \<Rightarrow> 'r"
  ao_dispatch :: "'r ScheduleOrDispatchDeps"

definition ai_unmark :: "'r AiWorkerOptions \<Rightarrow> string \<Rightarrow> ('r, unit) pipe_act" where
  "ai_unmark opts key = on_redis (\<lambda>s. ((), unmark (ao_redis opts) (ao_idempotency opts) key s))"

definition ai_mark :: "'r AiWorkerOptions \<Rightarrow> string \<Rightarrow> ('r, unit) pipe_act" where
  "ai_mark opts key = on_redis (\<lambda>s. ((), markProcessed (ao_redis opts) (ao_idempotency opts) key None s))"

definition ai_send ::
  "'r AiWorkerOptions \<Rightarrow> ai_reads \<Rightarrow> NotificationAiPendingPayload \<Rightarrow> string \<Rightarrow> (string, string) jsmap \<Rightarrow> ('r, unit) pipe_act" where
  "ai_send opts rd p traceId generated =
     bindA (if ap_templateId p = None \<or> ap_templateId p = Some [] then ret None else awaited (ar_template rd)) (\<lambda>dbTemplate.
       scheduleOrDispatch (ao_dispatch opts)
         (ai_task p (renderWithTemplate dbTemplate (merge_vars (ap_templateVariables p) generated)))
         \<lparr>so_source = ''ai-worker'', so_scheduledAt = ap_scheduledAt p, so_traceId = Some traceId\<rparr>
         (ar_now rd) (ar_uuid rd))"

text \<open>The try block: the message of a permanent failure, or nothing.\<close>

definition ai_run ::
  "'r AiWorkerOptions \<Rightarrow> ai_reads \<Rightarrow> NotificationAiPendingPayload \<Rightarrow> string \<Rightarrow> ('r, string option) pipe_act" where
  "ai_run opts rd p traceId =
     bindA (generate_all (ar_config rd) (ar_model rd) (ap_templateVariables p)
              (take (ai_max_prompts (ar_config rd)) (ap_aiPrompts p)) []) (\<lambda>g. case g of
       Inl message \<Rightarrow> ret (Some message)
     | Inr generated \<Rightarrow>
         thenA (ai_send opts rd p traceId generated) (thenA (ai_mark opts (ai_key p)) (ret None)))"

definition ai_under_lease ::
  "'r AiWorkerOptions \<Rightarrow> ai_reads \<Rightarrow> NotificationAiPendingPayload \<Rightarrow> string \<Rightarrow> ('r, process_result) pipe_act" where
  "ai_under_lease opts rd p traceId =
     bindA (catchA (ai_run opts rd p traceId) (\<lambda>err. thenA (ai_unmark opts (ai_key p)) (throw err))) (\<lambda>failure.
       case failure of
         None \<Rightarrow> ret Ack
       | Some message \<Rightarrow> thenA (ai_unmark opts (ai_key p))
           (thenA (emit (EmitAiFailed (ap_enrichedEventId p) message (ap_channel p))) (ret Ack)))"

definition ai_process ::
  "'r AiWorkerOptions \<Rightarrow> ai_reads \<Rightarrow> NotificationAiPendingPayload option \<Rightarrow> string \<Rightarrow> ('r, process_result) pipe_act" where
  "ai_process opts rd payload traceId =
     (case payload of
        None \<Rightarrow> ret Ack
      | Some p \<Rightarrow>
          bindA (on_redis (acquireLease (ao_redis opts) (ao_idempotency opts) (ai_key p)
                   (int (ai_lease_seconds (ar_config rd))) (ao_env1 opts) (ao_env2 opts))) (\<lambda>lease. case lease of
            Completed \<Rightarrow> ret Ack
          | Locked \<Rightarrow> ret NoAck
          | Acquired \<Rightarrow> ai_under_lease opts rd p traceId))"

section \<open>What a run bills and sends\<close>

text \<open>Without a fused next stage, which this worker never has.\<close>

definition no_inline :: "'r AiWorkerOptions \<Rightarrow> bool" where
  "no_inline opts \<longleftrightarrow> dd_inlineNext (ao_dispatch opts) = None"

definition model_call :: "effect \<Rightarrow> bool" where
  "model_call e = (case e of ModelCall p \<Rightarrow> True | _ \<Rightarrow> False)"

definition sends_task :: "effect \<Rightarrow> bool" where
  "sends_task e \<longleftrightarrow> carries e \<noteq> None"

text \<open>Generating touches the log only, one call for each prompt at most.\<close>

lemma generate_one:
  "\<exists>r calls. generateAiContent c model prompt vars w = (r, w\<lparr>w_log := w_log w @ map ModelCall calls\<rparr>)
     \<and> length calls \<le> 1 \<and> (ac_hasModel c \<longrightarrow> length calls = 1)"
proof (cases "ac_hasModel c")
  case True
  let ?p = "interpolate_prompt prompt vars"
  have "\<exists>r. generateAiContent c model prompt vars w = (r, w\<lparr>w_log := w_log w @ map ModelCall [?p]\<rparr>)"
    using True by (simp add: generateAiContent_def Let_def thenA_def bindA_def emit_def record_effect_def ret_def throw_def
        split: sum.split)
  then show ?thesis by fastforce
next
  case False
  then have "generateAiContent c model prompt vars w = (Inr (Inr (''[AI Disabled] '' @ interpolate_prompt prompt vars)), w)"
    by (simp add: generateAiContent_def Let_def ret_def)
  then show ?thesis using False by (intro exI [of _ "Inr (Inr _)"] exI [of _ "[]"]) simp
qed

lemma generate_all_calls:
  "\<exists>r calls. generate_all c model vars ps g w = (r, w\<lparr>w_log := w_log w @ map ModelCall calls\<rparr>) \<and> length calls \<le> length ps"
proof (induction ps arbitrary: g w)
  case Nil
  show ?case by (intro exI [of _ "Inr (Inr g)"] exI [of _ "[]"]) (simp add: ret_def)
next
  case (Cons kp ps)
  obtain k prompt where kp: "kp = (k, prompt)" by (cases kp)
  obtain r1 calls where one: "generateAiContent c (model k) prompt vars w = (r1, w\<lparr>w_log := w_log w @ map ModelCall calls\<rparr>)"
    "length calls \<le> 1" using generate_one by blast
  let ?v = "w\<lparr>w_log := w_log w @ map ModelCall calls\<rparr>"
  show ?case
  proof (cases "\<exists>answer. r1 = Inr (Inr answer)")
    case True
    then obtain answer where r1: "r1 = Inr (Inr answer)" by blast
    obtain r calls' where rest: "generate_all c model vars ps (jm_set k answer g) ?v = (r, ?v\<lparr>w_log := w_log ?v @ map ModelCall calls'\<rparr>)"
      "length calls' \<le> length ps" using Cons.IH by blast
    then have "generate_all c model vars (kp # ps) g w = (r, w\<lparr>w_log := w_log w @ map ModelCall (calls @ calls')\<rparr>)"
      using one(1) r1 kp by (simp add: bindA_def)
    then show ?thesis using one(2) rest(2) by (intro exI [of _ r] exI [of _ "calls @ calls'"]) simp
  next
    case False
    then have "(\<exists>e. r1 = Inl e) \<or> (\<exists>m. r1 = Inr (Inl m))" by (metis sum.exhaust)
    then obtain r where "generate_all c model vars (kp # ps) g w = (r, ?v)"
      using one(1) kp by (auto simp: bindA_def ret_def)
    then show ?thesis using one(2) by (intro exI [of _ r] exI [of _ calls]) simp
  qed
qed

text \<open>What the rest adds to the log calls no model; a send that returns has gone out.\<close>

definition no_call :: "effect \<Rightarrow> bool" where
  "no_call e \<longleftrightarrow> \<not> model_call e"

lemma no_call_effects [simp]:
  "no_call (Publish s e)" "no_call (Park t)" "no_call (HandInline ev)" "no_call (EmitAiFailed a b ch)"
  by (simp_all add: no_call_def model_call_def)

text \<open>The log after, up to the calls of the model.\<close>

definition adds :: "(effect \<Rightarrow> bool) \<Rightarrow> ('r, 'a) pipe_act \<Rightarrow> bool" where
  "adds Q m \<longleftrightarrow> (\<forall>w. \<exists>log. w_log (snd (m w)) = w_log w @ log \<and> list_all Q log)"

lemma adds_ret: "adds Q (ret a)" and adds_throw: "adds Q (throw e)" and adds_awaited: "adds Q (awaited x)"
  by (simp_all add: adds_def ret_def throw_def awaited_def)

lemma adds_bind:
  assumes "adds Q m" "\<And>a. adds Q (f a)"
  shows "adds Q (bindA m f)"
  unfolding adds_def
proof
  fix w
  obtain r w1 where m: "m w = (r, w1)" by force
  obtain l1 where l1: "w_log w1 = w_log w @ l1" "list_all Q l1" using assms(1) m unfolding adds_def by (metis snd_conv)
  show "\<exists>log. w_log (snd (bindA m f w)) = w_log w @ log \<and> list_all Q log"
  proof (cases r)
    case (Inl e)
    then show ?thesis using m l1 by (simp add: bindA_def)
  next
    case (Inr a)
    obtain l2 where "w_log (snd (f a w1)) = w_log w1 @ l2" "list_all Q l2" using assms(2) unfolding adds_def by blast
    then show ?thesis using m l1 Inr by (simp add: bindA_def)
  qed
qed

lemma adds_then: "adds Q m \<Longrightarrow> adds Q n \<Longrightarrow> adds Q (thenA m n)"
  by (simp add: thenA_def adds_bind)

lemma adds_redis: "adds Q (on_redis f)"
  by (auto simp: adds_def on_redis_def attempt_def Let_def split: option.split prod.split)

lemma adds_emit: "Q e \<Longrightarrow> adds Q (emit e)"
  by (auto simp: adds_def emit_def record_effect_def)

lemma adds_perform: "Q e \<Longrightarrow> adds Q (perform e)"
  by (auto simp: adds_def perform_def attempt_def record_effect_def Let_def split: option.split)

lemma adds_catch:
  assumes "adds Q m" "\<And>e. adds Q (h e)"
  shows "adds Q (catchA m h)"
  unfolding adds_def
proof
  fix w
  obtain r w1 where m: "m w = (r, w1)" by force
  obtain l1 where l1: "w_log w1 = w_log w @ l1" "list_all Q l1" using assms(1) m unfolding adds_def by (metis snd_conv)
  show "\<exists>log. w_log (snd (catchA m h w)) = w_log w @ log \<and> list_all Q log"
  proof (cases r)
    case (Inl e)
    obtain l2 where "w_log (snd (h e w1)) = w_log w1 @ l2" "list_all Q l2" using assms(2) unfolding adds_def by blast
    then show ?thesis using m l1 Inl by (simp add: catchA_def)
  next
    case (Inr a)
    then show ?thesis using m l1 by (simp add: catchA_def)
  qed
qed

lemma adds_dispatch:
  assumes "dd_inlineNext deps = None" "\<And>s e. Q (Publish s e)" "\<And>t. Q (Park t)"
  shows "adds Q (scheduleOrDispatch deps task opts now uuid)"
proof -
  have "adds Q (park_if_absent i row)" for i row
    using assms(3) by (auto simp: adds_def park_if_absent_def attempt_def record_effect_def Let_def split: option.split)
  then show ?thesis using assms(1,2)
    by (auto simp: scheduleOrDispatch_def Let_def intro!: adds_then adds_perform)
qed

lemma adds_send: "no_inline opts \<Longrightarrow> adds no_call (ai_send opts rd p traceId g)"
  unfolding ai_send_def no_inline_def by (intro adds_bind adds_dispatch) (auto intro: adds_ret adds_awaited)

lemma filter_calls: "list_all no_call l \<Longrightarrow> filter model_call l = []"
  by (simp add: list_all_iff no_call_def filter_empty_conv)

lemma run_bills:
  assumes "no_inline opts"
  shows "\<exists>log. w_log (snd (ai_run opts rd p traceId w)) = w_log w @ log
    \<and> length (filter model_call log) \<le> ai_max_prompts (ar_config rd)"
proof -
  let ?ps = "take (ai_max_prompts (ar_config rd)) (ap_aiPrompts p)"
  obtain r calls where g: "generate_all (ar_config rd) (ar_model rd) (ap_templateVariables p) ?ps [] w
      = (r, w\<lparr>w_log := w_log w @ map ModelCall calls\<rparr>)" "length calls \<le> length ?ps" using generate_all_calls by blast
  let ?v = "w\<lparr>w_log := w_log w @ map ModelCall calls\<rparr>"
  have c: "filter model_call (map ModelCall calls) = map ModelCall calls" by (induction calls) (simp_all add: model_call_def)
  have "\<exists>l. w_log (snd (ai_run opts rd p traceId w)) = w_log ?v @ l \<and> list_all no_call l"
  proof (cases "\<exists>vars. r = Inr (Inr vars)")
    case True
    then obtain vars where "r = Inr (Inr vars)" by blast
    then have "ai_run opts rd p traceId w = thenA (ai_send opts rd p traceId vars) (thenA (ai_mark opts (ai_key p)) (ret None)) ?v"
      using g(1) by (simp add: ai_run_def bindA_def)
    moreover have "adds no_call (thenA (ai_send opts rd p traceId vars) (thenA (ai_mark opts (ai_key p)) (ret None)))"
      unfolding ai_mark_def by (intro adds_then adds_send assms adds_redis adds_ret)
    ultimately show ?thesis unfolding adds_def by metis
  next
    case False
    then have "snd (ai_run opts rd p traceId w) = ?v"
      using g(1) by (cases r) (auto simp: ai_run_def bindA_def ret_def split: sum.splits)
    then show ?thesis by (intro exI [of _ "[]"]) simp
  qed
  then obtain l where "w_log (snd (ai_run opts rd p traceId w)) = w_log w @ map ModelCall calls @ l" "list_all no_call l" by auto
  moreover have "length calls \<le> ai_max_prompts (ar_config rd)" using g(2) by simp
  ultimately show ?thesis by (intro exI [of _ "map ModelCall calls @ l"]) (simp add: c filter_calls)
qed

lemma bills_then:
  assumes "\<exists>log. w_log (snd (m w)) = w_log w @ log \<and> length (filter model_call log) \<le> n" "\<And>a. adds no_call (f a)"
  shows "\<exists>log. w_log (snd (bindA m f w)) = w_log w @ log \<and> length (filter model_call log) \<le> n"
proof -
  obtain r w1 where m: "m w = (r, w1)" by force
  obtain l1 where l1: "w_log w1 = w_log w @ l1" "length (filter model_call l1) \<le> n" using assms(1) m by auto
  show ?thesis
  proof (cases r)
    case (Inl e)
    then show ?thesis using m l1 by (simp add: bindA_def)
  next
    case (Inr a)
    obtain l2 where "w_log (snd (f a w1)) = w_log w1 @ l2" "list_all no_call l2" using assms(2) unfolding adds_def by blast
    then show ?thesis using m l1 Inr by (intro exI [of _ "l1 @ l2"]) (simp add: bindA_def filter_calls)
  qed
qed

lemma lease_bills:
  assumes "no_inline opts"
  shows "\<exists>log. w_log (snd (ai_under_lease opts rd p traceId w)) = w_log w @ log
    \<and> length (filter model_call log) \<le> ai_max_prompts (ar_config rd)"
  unfolding ai_under_lease_def
proof (rule bills_then)
  let ?h = "\<lambda>err. thenA (ai_unmark opts (ai_key p)) (throw err :: ('a, string option) pipe_act)"
  have h: "adds no_call (?h e)" for e unfolding ai_unmark_def by (intro adds_then adds_redis adds_throw)
  obtain r w1 where m: "ai_run opts rd p traceId w = (r, w1)" by force
  obtain l1 where l1: "w_log w1 = w_log w @ l1" "length (filter model_call l1) \<le> ai_max_prompts (ar_config rd)"
    using run_bills [OF assms, of rd p traceId w] m by auto
  show "\<exists>log. w_log (snd (catchA (ai_run opts rd p traceId) ?h w)) = w_log w @ log
      \<and> length (filter model_call log) \<le> ai_max_prompts (ar_config rd)"
  proof (cases r)
    case (Inl e)
    obtain l2 where "w_log (snd (?h e w1)) = w_log w1 @ l2" "list_all no_call l2" using h unfolding adds_def by blast
    then show ?thesis using m l1 Inl by (intro exI [of _ "l1 @ l2"]) (simp add: catchA_def filter_calls)
  next
    case (Inr a)
    then show ?thesis using m l1 by (simp add: catchA_def)
  qed
  show "adds no_call (case failure of None \<Rightarrow> ret Ack
      | Some message \<Rightarrow> thenA (ai_unmark opts (ai_key p))
          (thenA (emit (EmitAiFailed (ap_enrichedEventId p) message (ap_channel p))) (ret Ack)))" for failure
    unfolding ai_unmark_def by (cases failure) (auto intro!: adds_ret adds_then adds_redis adds_emit)
qed

text \<open>
  The bill of a message is capped. However many prompts the caller sent and whatever fails,
  one run of the AI worker calls the model at most \<open>maxPromptsPerNotification\<close> times, and only after it
  was granted the lease.
\<close>
theorem ai_calls_within_cap:
  assumes "no_inline opts" "ai_process opts rd payload traceId w = (r, w')"
  shows "\<exists>log. w_log w' = w_log w @ log \<and> length (filter model_call log) \<le> ai_max_prompts (ar_config rd)"
proof (cases payload)
  case None
  then show ?thesis using assms(2) by (simp add: ai_process_def ret_def)
next
  case (Some p)
  let ?acquire = "acquireLease (ao_redis opts) (ao_idempotency opts) (ai_key p)
     (int (ai_lease_seconds (ar_config rd))) (ao_env1 opts) (ao_env2 opts)"
  obtain a w1 where a: "on_redis ?acquire w = (a, w1)" by force
  have same: "w_log w1 = w_log w"
    using a by (auto simp: on_redis_def attempt_def Let_def split: option.splits prod.splits)
  show ?thesis
  proof (cases "a = Inr Acquired")
    case True
    then have "w' = snd (ai_under_lease opts rd p traceId w1)" using assms(2) a Some by (simp add: ai_process_def bindA_def)
    then show ?thesis using lease_bills [OF assms(1), of rd p traceId w1] same by simp
  next
    case False
    then have "w' = w1" using assms(2) a Some
      by (auto simp: ai_process_def bindA_def ret_def split: sum.splits lease_result.splits)
    then show ?thesis using same by simp
  qed
qed

section \<open>A sent message is never billed again\<close>

lemma generate_silent: "generate_all c model vars ps g w = (r, w') \<Longrightarrow> w' = w\<lparr>w_log := w_log w'\<rparr> \<and> (\<exists>calls. w_log w' = w_log w @ map ModelCall calls)"
  using generate_all_calls [of c model vars ps g w] by auto

lemma mark_marks:
  assumes "redis_string_laws (ao_redis opts)" "0 < ig_ttlSeconds (ao_idempotency opts)" "ai_mark opts k w = (Inr u, w')"
  shows "GET (ao_redis opts) (ig_key (ao_idempotency opts) k) (w_redis w') = Some ''1''"
  using assms by (auto simp: ai_mark_def on_redis_def attempt_def Let_def markProcessed_def ig_ttl_def get_set
      split: option.splits)

lemma run_marks:
  assumes "redis_string_laws (ao_redis opts)" "0 < ig_ttlSeconds (ao_idempotency opts)"
    and "ai_run opts rd p traceId w = (Inr failure, w')"
  shows "(failure = None \<longrightarrow> GET (ao_redis opts) (ig_key (ao_idempotency opts) (ai_key p)) (w_redis w') = Some ''1'')
    \<and> (failure \<noteq> None \<longrightarrow> (\<exists>calls. w_log w' = w_log w @ map ModelCall calls))"
proof -
  obtain g w1 where g: "generate_all (ar_config rd) (ar_model rd) (ap_templateVariables p)
      (take (ai_max_prompts (ar_config rd)) (ap_aiPrompts p)) [] w = (g, w1)" by force
  show ?thesis
  proof (cases "\<exists>vars. g = Inr (Inr vars)")
    case True
    then obtain vars where "g = Inr (Inr vars)" by blast
    then have run: "bindA (thenA (ai_send opts rd p traceId vars) (ai_mark opts (ai_key p))) (\<lambda>_. ret None) w1 = (Inr failure, w')"
      using g assms(3) by (simp add: ai_run_def bindA_def thenA_def split: prod.splits sum.splits)
    then obtain u where "ai_mark opts (ai_key p) (snd (ai_send opts rd p traceId vars w1)) = (Inr u, w')" "failure = None"
      by (auto simp: bindA_def thenA_def ret_def split: prod.splits sum.splits)
    then show ?thesis using mark_marks [OF assms(1,2)] by blast
  next
    case False
    then obtain m where "g = Inr (Inl m)" "failure = Some m" "w' = w1"
      using g assms(3) by (cases g) (auto simp: ai_run_def bindA_def ret_def split: sum.splits)
    then show ?thesis using generate_silent [OF g] by auto
  qed
qed

lemma lease_marks:
  assumes "redis_string_laws (ao_redis opts)" "0 < ig_ttlSeconds (ao_idempotency opts)"
    and run: "ai_under_lease opts rd p traceId w = (Inr res, w')"
    and sent: "\<exists>e \<in> set (drop (length (w_log w)) (w_log w')). sends_task e"
  shows "GET (ao_redis opts) (ig_key (ao_idempotency opts) (ai_key p)) (w_redis w') = Some ''1''"
proof -
  obtain r w1 where r: "ai_run opts rd p traceId w = (r, w1)" by force
  have err: "thenA (ai_unmark opts (ai_key p)) (throw e :: ('a, string option) pipe_act) w1 = (q, w2) \<Longrightarrow> \<exists>x. q = Inl x" for e q w2
    by (auto simp: thenA_def bindA_def throw_def split: prod.splits sum.splits)
  obtain failure where failure: "r = Inr failure"
    using run r by (cases r) (auto simp: ai_under_lease_def bindA_def catchA_def split: prod.splits sum.splits dest!: err)
  note marks = run_marks [OF assms(1,2) r [unfolded failure]]
  show ?thesis
  proof (cases failure)
    case None
    then show ?thesis using run r failure marks by (simp add: ai_under_lease_def bindA_def catchA_def ret_def)
  next
    case (Some m)
    then obtain calls where calls: "w_log w1 = w_log w @ map ModelCall calls" using marks by auto
    have "adds (\<lambda>e. \<not> sends_task e) (thenA (ai_unmark opts (ai_key p))
        (thenA (emit (EmitAiFailed (ap_enrichedEventId p) m (ap_channel p))) (ret Ack)))"
      unfolding ai_unmark_def by (intro adds_then adds_redis adds_emit adds_ret) (simp add: sends_task_def)
    then obtain l where l: "w_log w' = w_log w1 @ l" "list_all (\<lambda>e. \<not> sends_task e) l"
      using run r failure Some unfolding adds_def by (simp add: ai_under_lease_def bindA_def catchA_def) (metis snd_conv)
    have "\<forall>e \<in> set (map ModelCall calls @ l). \<not> sends_task e" using l(2) by (auto simp: sends_task_def list_all_iff)
    then show ?thesis using sent calls l(1) by simp
  qed
qed

text \<open>
  C29: A sent notification is never billed again. When a run of the AI worker has handed the task
  on and was acknowledged, whatever happened on the way, a later delivery of the same message
  calls no model and sends nothing, under any configuration.
\<close>
theorem ai_sent_never_billed_again:
  assumes laws: "redis_string_laws (ao_redis opts)" "0 < ig_ttlSeconds (ao_idempotency opts)"
    and env: "\<And>s. GET (ao_redis opts) (ig_key (ao_idempotency opts) (ai_key p)) (ao_env1 opts s) = GET (ao_redis opts) (ig_key (ao_idempotency opts) (ai_key p)) s"
      "\<And>s. GET (ao_redis opts) (ig_key (ao_idempotency opts) (ai_key p)) (ao_env2 opts s) = GET (ao_redis opts) (ig_key (ao_idempotency opts) (ai_key p)) s"
    and first: "ai_process opts rd (Some p) traceId w = (Inr res, w1)"
    and sent: "\<exists>e \<in> set (drop (length (w_log w)) (w_log w1)). sends_task e"
    and again: "ai_process opts rd' (Some p) traceId' w1 = (r2, w2)"
  shows "w_log w2 = w_log w1"
proof -
  let ?g = "ao_idempotency opts" and ?r = "ao_redis opts"
  let ?acquire = "\<lambda>rd. acquireLease ?r ?g (ai_key p) (int (ai_lease_seconds (ar_config rd))) (ao_env1 opts) (ao_env2 opts)"
  have pos: "0 < int (ai_lease_seconds c)" for c by (simp add: ai_lease_seconds_def)
  have log: "w_log v' = w_log v" if "on_redis f v = (x, v')" for f :: "'a \<Rightarrow> lease_result \<times> 'a" and v x v'
    using that by (auto simp: on_redis_def attempt_def Let_def split: option.splits prod.splits)
  obtain a v where a: "on_redis (?acquire rd) w = (a, v)" by force
  have "a = Inr Acquired"
  proof (rule ccontr)
    assume "a \<noteq> Inr Acquired"
    then have "w1 = v" using first a
      by (auto simp: ai_process_def bindA_def ret_def split: sum.splits lease_result.splits)
    then show False using sent log [OF a] by simp
  qed
  then have "ai_under_lease opts rd p traceId v = (Inr res, w1)" using first a by (simp add: ai_process_def bindA_def)
  then have marked: "GET ?r (ig_key ?g (ai_key p)) (w_redis w1) = Some ''1''"
    by (rule lease_marks [OF laws]) (use sent log [OF a] in simp)
  obtain b v' where b: "on_redis (?acquire rd') w1 = (b, v')" by force
  have "fst (?acquire rd' (w_redis w1)) = Completed"
    using acquireLease_result(1) [OF laws(1) pos [of "ar_config rd'"] env, of "w_redis w1"] marked by simp
  then have "b = Inr Completed \<or> (\<exists>e. b = Inl e)"
    using b by (auto simp: on_redis_def attempt_def Let_def split: option.splits prod.splits)
  then have "w2 = v'" using again b by (auto simp: ai_process_def bindA_def ret_def)
  then show ?thesis using log [OF b] by simp
qed

section \<open>A failed generation\<close>

text \<open>The first prompt, of those the cap admits, that the model refuses.\<close>

definition failing_prompt :: "ai_reads \<Rightarrow> NotificationAiPendingPayload \<Rightarrow> (string \<times> string) option" where
  "failing_prompt rd p =
     find (\<lambda>(k, prompt). case ar_model rd k (interpolate_prompt prompt (ap_templateVariables p)) of Inl _ \<Rightarrow> True | Inr _ \<Rightarrow> False)
       (take (ai_max_prompts (ar_config rd)) (ap_aiPrompts p))"

lemma generate_fails:
  assumes "ac_hasModel c"
    and "find (\<lambda>(k, prompt). case model k (interpolate_prompt prompt vars) of Inl _ \<Rightarrow> True | Inr _ \<Rightarrow> False) ps = Some (k, prompt)"
    and "model k (interpolate_prompt prompt vars) = Inl err"
  shows "fst (generate_all c model vars ps g w) = (if isRetryableAiError err then Inl (Error (ae_message err)) else Inr (Inl (ae_message err)))"
  using assms(2)
proof (induction ps arbitrary: g w)
  case (Cons kp ps)
  obtain k' prompt' where kp: "kp = (k', prompt')" by (cases kp)
  show ?case
  proof (cases "model k' (interpolate_prompt prompt' vars)")
    case (Inl e)
    then have "k' = k" "prompt' = prompt" using Cons.prems kp by simp_all
    then show ?thesis using assms(1,3) kp
      by (simp add: generateAiContent_def Let_def thenA_def bindA_def emit_def ret_def throw_def)
  next
    case (Inr answer)
    then have "find (\<lambda>(k, prompt). case model k (interpolate_prompt prompt vars) of Inl _ \<Rightarrow> True | Inr _ \<Rightarrow> False) ps = Some (k, prompt)"
      using Cons.prems kp by simp
    from Cons.IH [OF this] show ?thesis using assms(1) kp Inr
      by (simp add: generateAiContent_def Let_def thenA_def bindA_def emit_def ret_def)
  qed
qed simp

lemma unmark_frees:
  assumes "redis_string_laws (ao_redis opts)" "no_faults w"
  shows "\<exists>w'. ai_unmark opts k w = (Inr (), w') \<and> w_log w' = w_log w \<and> no_faults w'
    \<and> GET (ao_redis opts) (ig_key (ao_idempotency opts) k) (w_redis w') = None"
  using assms by (simp add: ai_unmark_def on_redis_ok unmark_def get_del no_faults_def)

text \<open>
  A failed generation. When no outside call but the model fails and the lease is granted, a
  prompt that the model refuses sends nothing and frees the message: a transient failure is
  thrown, so that the message is retried, and a permanent one is reported once and acknowledged, so
  that it is never billed again.
\<close>
theorem ai_failure_sends_nothing:
  assumes laws: "redis_string_laws (ao_redis opts)" and w: "no_faults w"
    and env: "\<And>s. GET (ao_redis opts) (ig_key (ao_idempotency opts) (ai_key p)) (ao_env1 opts s) = GET (ao_redis opts) (ig_key (ao_idempotency opts) (ai_key p)) s"
      "\<And>s. GET (ao_redis opts) (ig_key (ao_idempotency opts) (ai_key p)) (ao_env2 opts s) = GET (ao_redis opts) (ig_key (ao_idempotency opts) (ai_key p)) s"
    and free: "GET (ao_redis opts) (ig_key (ao_idempotency opts) (ai_key p)) (w_redis w) = None"
    and model: "ac_hasModel (ar_config rd)" "failing_prompt rd p = Some (k, prompt)"
      "ar_model rd k (interpolate_prompt prompt (ap_templateVariables p)) = Inl err"
    and run: "ai_process opts rd (Some p) traceId w = (res, w')"
  shows "GET (ao_redis opts) (ig_key (ao_idempotency opts) (ai_key p)) (w_redis w') = None
    \<and> (\<exists>calls. if isRetryableAiError err then res = Inl (Error (ae_message err)) \<and> w_log w' = w_log w @ map ModelCall calls
        else res = Inr Ack \<and> w_log w' = w_log w @ map ModelCall calls
          @ [EmitAiFailed (ap_enrichedEventId p) (ae_message err) (ap_channel p)])"
proof -
  let ?acquire = "acquireLease (ao_redis opts) (ao_idempotency opts) (ai_key p) (int (ai_lease_seconds (ar_config rd))) (ao_env1 opts) (ao_env2 opts)"
  have pos: "0 < int (ai_lease_seconds (ar_config rd))" by (simp add: ai_lease_seconds_def)
  have "fst (?acquire (w_redis w)) = Acquired" using acquireLease_result(1) [OF laws pos env, of "w_redis w"] free by simp
  then obtain v where v: "on_redis ?acquire w = (Inr Acquired, v)" "no_faults v" "w_log v = w_log w"
    using on_redis_ok [OF w, of ?acquire] w by (auto simp: no_faults_def)
  then have lease: "ai_under_lease opts rd p traceId v = (res, w')" using run by (simp add: ai_process_def bindA_def)
  obtain g v1 where g: "generate_all (ar_config rd) (ar_model rd) (ap_templateVariables p)
      (take (ai_max_prompts (ar_config rd)) (ap_aiPrompts p)) [] v = (g, v1)" by force
  have gr: "g = (if isRetryableAiError err then Inl (Error (ae_message err)) else Inr (Inl (ae_message err)))"
    using generate_fails [OF model(1) model(2) [unfolded failing_prompt_def] model(3), of "[]" v] g by simp
  obtain calls where calls: "w_log v1 = w_log w @ map ModelCall calls" using generate_silent [OF g] v(3) by auto
  have "no_faults v1" using generate_silent [OF g] v(2) by (metis no_faults_def world.select_convs(4) world.surjective world.update_convs(2))
  from unmark_frees [OF laws this, of "ai_key p"] obtain v2 where v2: "ai_unmark opts (ai_key p) v1 = (Inr (), v2)"
    "w_log v2 = w_log v1" "GET (ao_redis opts) (ig_key (ao_idempotency opts) (ai_key p)) (w_redis v2) = None" by blast
  show ?thesis
  proof (cases "isRetryableAiError err")
    case True
    then have "res = Inl (Error (ae_message err))" "w' = v2"
      using lease g gr v2(1) by (simp_all add: ai_under_lease_def ai_run_def bindA_def catchA_def thenA_def throw_def)
    then show ?thesis using True v2 calls by (intro conjI exI [of _ calls]) simp_all
  next
    case False
    then have "res = Inr Ack" "w' = v2\<lparr>w_log := w_log v2 @ [EmitAiFailed (ap_enrichedEventId p) (ae_message err) (ap_channel p)]\<rparr>"
      using lease g gr v2(1)
      by (simp_all add: ai_under_lease_def ai_run_def bindA_def catchA_def thenA_def ret_def emit_def record_effect_def)
    then show ?thesis using False v2 calls by (intro conjI exI [of _ calls]) simp_all
  qed
qed

section \<open>The detour keeps the engine's task\<close>

text \<open>
  The detour through the AI worker keeps the task. The task sent for a message that the
  engine put on the AI stream is the one the engine would have dispatched itself, to the same address and
  under the same task id, with the prompts and the rendered content added.
\<close>
theorem ai_detour_keeps_the_task:
  "ai_task (engine_ai_pending m enriched prompts taskId target headers) rendered =
     (engine_task m enriched taskId target headers)\<lparr>dt_aiPrompts := Some prompts,
       dt_renderedContent := Some \<lparr>rc_content = rendered, rc_attachments = None\<rparr>\<rparr>"
  by (simp add: ai_task_def engine_ai_pending_def engine_task_def ai_task_id_def ai_destination_def)

text \<open>
  A template that was deleted after the engine had found it: delivery gives up on such a task,
  but this worker falls back to the body of a message without a template, the template variables as JSON.
\<close>

lemma missing_template_sends_variables:
  assumes "no_faults w" "no_inline opts" "ap_templateId p = Some tid" "tid \<noteq> []" "ar_template rd = Inr None"
    and "ap_scheduledAt p = None" "ai_send opts rd p traceId generated w = (res, w')"
  shows "res = Inr () \<and> (\<exists>ev task. last (w_log w') = Publish (outbound_producer (ao_dispatch opts) (ap_priority p)) ev
    \<and> carries (last (w_log w')) = Some task
    \<and> dt_renderedContent task = Some \<lparr>rc_content = JObj [(''subject'', JStr ''Notification''),
        (''body'', JStr (json_pretty 0 (JObj (merge_vars (ap_templateVariables p) generated))))], rc_attachments = None\<rparr>)"
proof -
  let ?task = "ai_task p (renderWithTemplate None (merge_vars (ap_templateVariables p) generated))"
  let ?opts = "\<lparr>so_source = ''ai-worker'', so_scheduledAt = ap_scheduledAt p, so_traceId = Some traceId\<rparr>"
  have run: "scheduleOrDispatch (ao_dispatch opts) ?task ?opts (ar_now rd) (ar_uuid rd) w = (res, w')"
    using assms(3,4,5,7) by (simp add: ai_send_def bindA_def awaited_def)
  have due: "case so_scheduledAt ?opts of Some t \<Rightarrow> t \<le> ar_now rd | None \<Rightarrow> True" by (simp add: assms(6))
  from scheduleOrDispatch_now [OF assms(1) due _ run] assms(2) show ?thesis
    by (simp add: no_inline_def ai_task_def renderWithTemplate_def)
qed

section \<open>Witnesses\<close>

definition ex_ai_pending :: NotificationAiPendingPayload where
  "ex_ai_pending = \<lparr>ap_projectId = ''p1'', ap_enrichedEventId = ''e1'', ap_recipientId = ''u1'', ap_channel = Email,
     ap_priority = PNormal, ap_templateId = None, ap_templateVariables = [], ap_recipient = ex_profile,
     ap_aiPrompts = [(''intro'', ''Greet them'')], ap_scheduledAt = None, ap_fallbackChain = None, ap_taskId = Some ''t1'',
     ap_destination = Some ''a@b.c'', ap_deliveryHeaders = None, ap_campaignId = None, ap_workflowInstanceId = None\<rparr>"

definition ex_ai_options :: "mem_store AiWorkerOptions" where
  "ex_ai_options = \<lparr>ao_redis = mem_redis, ao_idempotency = idempotency_guard_new ''notif:processed:ai'' None,
     ao_env1 = (\<lambda>s. s), ao_env2 = (\<lambda>s. s), ao_dispatch = \<lparr>dd_outbound = (\<lambda>b. Some (OUTBOUND b)), dd_inlineNext = None\<rparr>\<rparr>"

definition ex_ai_reads :: "bool \<Rightarrow> (string \<Rightarrow> string \<Rightarrow> ai_error + string) \<Rightarrow> ai_reads" where
  "ex_ai_reads on model = \<lparr>ar_config = \<lparr>ac_hasModel = on, ac_maxPrompts = None, ac_timeoutMs = None\<rparr>, ar_model = model,
     ar_template = Inr None, ar_now = 0, ar_uuid = (\<lambda>_. ''id'')\<rparr>"

definition ex_ai_world :: "mem_store pipe_world" where
  "ex_ai_world = \<lparr>w_redis = mem_empty, w_log = [], w_step = 0, w_faults = (\<lambda>_. None), w_parked = [], w_breakers = []\<rparr>"

definition ex_ai_error :: ai_error where
  "ex_ai_error = \<lparr>ae_permanent = False, ae_name = None, ae_statusCode = Some 400, ae_status = None, ae_message = ''bad prompt''\<rparr>"

lemma ex_ai_no_inline: "no_inline ex_ai_options"
  by (simp add: no_inline_def ex_ai_options_def)

lemma ai_calls_within_cap_witness:
  "\<exists>log. w_log (snd (ai_process ex_ai_options (ex_ai_reads True (\<lambda>_ _. Inr ''Hi'')) (Some ex_ai_pending) ''tr'' ex_ai_world)) = log
     \<and> length (filter model_call log) \<le> 5"
proof -
  obtain r w' where run: "ai_process ex_ai_options (ex_ai_reads True (\<lambda>_ _. Inr ''Hi'')) (Some ex_ai_pending) ''tr'' ex_ai_world = (r, w')"
    by force
  from ai_calls_within_cap [OF ex_ai_no_inline run] run show ?thesis
    by (auto simp: ex_ai_world_def ex_ai_reads_def ai_max_prompts_def AI_DEFAULT_MAX_PROMPTS_def)
qed

lemma ex_ai_sends:
  "\<exists>w1. ai_process ex_ai_options (ex_ai_reads False (\<lambda>_ _. Inr [])) (Some ex_ai_pending) ''tr'' ex_ai_world = (Inr Ack, w1)
     \<and> (\<exists>e \<in> set (drop (length (w_log ex_ai_world)) (w_log w1)). sends_task e)"
  by (simp add: ai_process_def ex_ai_options_def ex_ai_reads_def ex_ai_pending_def ex_ai_world_def bindA_def on_redis_def
      attempt_def acquireLease_def mem_redis_def mem_empty_def Let_def ai_under_lease_def ai_run_def ai_max_prompts_def
      AI_DEFAULT_MAX_PROMPTS_def generateAiContent_def ret_def thenA_def catchA_def ai_send_def scheduleOrDispatch_def
      perform_def record_effect_def ai_mark_def sends_task_def ai_task_def)

lemma ai_sent_never_billed_again_witness:
  "\<exists>w1. snd (ai_process ex_ai_options (ex_ai_reads False (\<lambda>_ _. Inr [])) (Some ex_ai_pending) ''tr'' ex_ai_world) = w1
     \<and> w_log (snd (ai_process ex_ai_options (ex_ai_reads True (\<lambda>_ _. Inr ''Hi'')) (Some ex_ai_pending) ''tr'' w1)) = w_log w1"
proof -
  obtain w1 where first: "ai_process ex_ai_options (ex_ai_reads False (\<lambda>_ _. Inr [])) (Some ex_ai_pending) ''tr'' ex_ai_world = (Inr Ack, w1)"
    and sent: "\<exists>e \<in> set (drop (length (w_log ex_ai_world)) (w_log w1)). sends_task e" using ex_ai_sends by blast
  obtain r2 w2 where again: "ai_process ex_ai_options (ex_ai_reads True (\<lambda>_ _. Inr ''Hi'')) (Some ex_ai_pending) ''tr'' w1 = (r2, w2)"
    by force
  have "redis_string_laws (ao_redis ex_ai_options)" "0 < ig_ttlSeconds (ao_idempotency ex_ai_options)"
    by (simp_all add: ex_ai_options_def mem_string_laws idempotency_guard_new_def)
  from ai_sent_never_billed_again [OF this _ _ first sent again] first again show ?thesis
    by (simp add: ex_ai_options_def)
qed

lemma ai_failure_sends_nothing_witness:
  "fst (ai_process ex_ai_options (ex_ai_reads True (\<lambda>_ _. Inl ex_ai_error)) (Some ex_ai_pending) ''tr'' ex_ai_world) = Inr Ack"
proof -
  let ?rd = "ex_ai_reads True (\<lambda>_ _. Inl ex_ai_error)"
  obtain res w' where run: "ai_process ex_ai_options ?rd (Some ex_ai_pending) ''tr'' ex_ai_world = (res, w')" by force
  have laws: "redis_string_laws (ao_redis ex_ai_options)" by (simp add: ex_ai_options_def mem_string_laws)
  have "no_faults ex_ai_world"
    "GET (ao_redis ex_ai_options) (ig_key (ao_idempotency ex_ai_options) (ai_key ex_ai_pending)) (w_redis ex_ai_world) = None"
    "ac_hasModel (ar_config ?rd)" "failing_prompt ?rd ex_ai_pending = Some (''intro'', ''Greet them'')"
    "ar_model ?rd ''intro'' (interpolate_prompt ''Greet them'' (ap_templateVariables ex_ai_pending)) = Inl ex_ai_error"
    by (simp_all add: ex_ai_options_def no_faults_def ex_ai_world_def mem_redis_def mem_empty_def
        ex_ai_reads_def failing_prompt_def ex_ai_pending_def ai_max_prompts_def AI_DEFAULT_MAX_PROMPTS_def)
  note hyps = this
  have "\<not> isRetryableAiError ex_ai_error" by (simp add: isRetryableAiError_def ex_ai_error_def)
  with ai_failure_sends_nothing [OF laws hyps(1) _ _ hyps(2-5) run] run show ?thesis by (simp add: ex_ai_options_def)
qed

end
