(* ===== verification/Uri_Codec.thy ===== *)
theory Uri_Codec
  imports Json_Codec Unsubscribe
begin

text \<open>
  The string operations of the language that the HTTP API calls: \<open>String.prototype.split\<close>
  with a separator of one character, and \<open>decodeURIComponent\<close> as ECMAScript defines it. A
  well-formed escape of a code point above 255 decodes to question marks, one per code unit,
  which the string model has no characters for.
\<close>

section \<open>Splitting\<close>

fun js_split :: "char \<Rightarrow> string \<Rightarrow> string list" where
  "js_split sep [] = [[]]"
| "js_split sep (c # cs) =
     (if c = sep then [] # js_split sep cs
      else (case js_split sep cs of p # ps \<Rightarrow> (c # p) # ps | [] \<Rightarrow> [[c]]))"

lemma js_split_ne [simp]: "js_split sep s \<noteq> []"
  by (induction s) (auto split: list.split)

lemma js_split_single: "sep \<notin> set p \<Longrightarrow> js_split sep p = [p]"
  by (induction p) auto

lemma js_split_append: "sep \<notin> set p \<Longrightarrow> js_split sep (p @ sep # s) = p # js_split sep s"
  by (induction p) auto

lemma js_split_no_sep: "p \<in> set (js_split sep s) \<Longrightarrow> sep \<notin> set p"
  by (induction s arbitrary: p) (auto split: list.splits if_splits)

section \<open>decodeURIComponent\<close>

fun escaped_byte :: "string \<Rightarrow> (nat \<times> string) option" where
  "escaped_byte (p # a # b # r) =
     (if p = CHR ''%'' then
        (case (hex_val a, hex_val b) of (Some h, Some l) \<Rightarrow> Some (16 * h + l, r) | _ \<Rightarrow> None)
      else None)"
| "escaped_byte _ = None"

fun continuation_bytes :: "nat \<Rightarrow> nat \<Rightarrow> string \<Rightarrow> (nat \<times> string) option" where
  "continuation_bytes 0 cp s = Some (cp, s)"
| "continuation_bytes (Suc k) cp s =
     (case escaped_byte s of
        Some (n, r) \<Rightarrow> if 128 \<le> n \<and> n < 192 then continuation_bytes k (cp * 64 + (n - 128)) r else None
      | None \<Rightarrow> None)"

text \<open>A lead byte: how many bytes follow, the bits it gives, and the range of its code points.\<close>

definition lead_byte :: "nat \<Rightarrow> (nat \<times> nat \<times> (nat \<Rightarrow> bool)) option" where
  "lead_byte n =
     (if n < 128 then Some (0, n, \<lambda>cp. True)
      else if 192 \<le> n \<and> n < 224 then Some (1, n - 192, \<lambda>cp. 128 \<le> cp)
      else if 224 \<le> n \<and> n < 240 then Some (2, n - 224, \<lambda>cp. 2048 \<le> cp \<and> (cp < 55296 \<or> 57344 \<le> cp))
      else if 240 \<le> n \<and> n < 248 then Some (3, n - 240, \<lambda>cp. 65536 \<le> cp \<and> cp < 1114112)
      else None)"

definition code_units :: "nat \<Rightarrow> string" where
  "code_units cp = (if cp < 256 then [char_of cp] else if cp < 65536 then ''?'' else ''??'')"

definition escaped_char :: "string \<Rightarrow> (string \<times> string) option" where
  "escaped_char s =
     (case escaped_byte s of
        None \<Rightarrow> None
      | Some (n, r) \<Rightarrow>
          (case lead_byte n of
             None \<Rightarrow> None
           | Some (k, bits, valid) \<Rightarrow>
               (case continuation_bytes k bits r of
                  None \<Rightarrow> None
                | Some (cp, r) \<Rightarrow> if valid cp then Some (code_units cp, r) else None)))"

lemma escaped_byte_shorter: "escaped_byte s = Some (n, r) \<Longrightarrow> length r < length s"
  by (induction s rule: escaped_byte.induct) (auto split: option.splits if_splits)

lemma continuation_shorter: "continuation_bytes k cp s = Some (cp', r) \<Longrightarrow> length r \<le> length s"
proof (induction k cp s rule: continuation_bytes.induct)
  case (2 k cp s)
  then show ?case
    by (auto split: option.splits if_splits dest!: escaped_byte_shorter)
       (meson le_less_trans less_imp_le)
qed simp

lemma escaped_char_shorter: "escaped_char s = Some (u, r) \<Longrightarrow> length r < length s"
  by (auto simp: escaped_char_def split: option.splits prod.splits if_splits
      dest!: escaped_byte_shorter continuation_shorter)

function decodeURIComponent :: "string \<Rightarrow> string option" where
  "decodeURIComponent [] = Some []"
| "decodeURIComponent (c # cs) =
     (if c \<noteq> CHR ''%'' then map_option ((#) c) (decodeURIComponent cs)
      else (case escaped_char (c # cs) of
              None \<Rightarrow> None
            | Some (u, r) \<Rightarrow> map_option ((@) u) (decodeURIComponent r)))"
  by pat_completeness auto
termination
  by (relation "measure length") (auto dest: escaped_char_shorter)

declare decodeURIComponent.simps(2) [simp del]

section \<open>Decoding what was encoded\<close>

lemma hex_val_upper: "n < 16 \<Longrightarrow> hex_val (upper_hex n) = Some n"
  by (auto simp: hex_val_def upper_hex_def Let_def)

lemma escaped_byte_encoded:
  "n < 256 \<Longrightarrow> escaped_byte (CHR ''%'' # upper_hex (n div 16) # upper_hex (n mod 16) # r) = Some (n, r)"
  using hex_val_upper [of "n div 16"] hex_val_upper [of "n mod 16"] by simp

lemma unreserved_not_percent [simp]: "\<not> uri_unreserved (CHR ''%'')"
  by (simp add: uri_unreserved_def)

lemma encode_Cons: "encodeURIComponent (c # cs) = encodeURIComponent [c] @ encodeURIComponent cs"
  by (simp add: encodeURIComponent_def)

lemma escaped_char_encoded:
  assumes "\<not> uri_unreserved c"
  shows "escaped_char (encodeURIComponent [c] @ r) = Some ([c], r)"
proof -
  have n: "(of_char c :: nat) < 256" by (rule of_char_bound)
  show ?thesis
  proof (cases "(of_char c :: nat) < 128")
    case True
    then show ?thesis using assms
      by (simp add: encodeURIComponent_def Let_def escaped_char_def escaped_byte_encoded lead_byte_def
          code_units_def del: escaped_byte.simps)
  next
    case False
    let ?n = "of_char c :: nat"
    have d: "?n div 64 = 2 \<or> ?n div 64 = 3" using high_byte [of ?n] False n by simp
    have b: "192 + ?n div 64 < 256" "128 + ?n mod 64 < 256" using d by auto
    have e: "encodeURIComponent [c] @ r =
        CHR ''%'' # upper_hex ((192 + ?n div 64) div 16) # upper_hex ((192 + ?n div 64) mod 16)
        # CHR ''%'' # upper_hex ((128 + ?n mod 64) div 16) # upper_hex ((128 + ?n mod 64) mod 16) # r"
      using assms False b by (simp add: encodeURIComponent_def Let_def)
    have m: "?n mod 64 < 64" by simp
    have "(?n div 64) * 64 + ?n mod 64 = ?n" by simp
    then show ?thesis
      unfolding e escaped_char_def escaped_byte_encoded [OF b(1)]
      using d m n False
      by (auto simp: lead_byte_def escaped_byte_encoded [OF b(2)] code_units_def simp del: escaped_byte.simps)
  qed
qed

lemma decode_encode_char:
  "decodeURIComponent (encodeURIComponent [c] @ r) = map_option ((#) c) (decodeURIComponent r)"
proof (cases "uri_unreserved c")
  case True
  then have "encodeURIComponent [c] = [c]" "c \<noteq> CHR ''%''" by (auto simp: encodeURIComponent_def)
  then show ?thesis by (simp add: decodeURIComponent.simps(2))
next
  case False
  then obtain x xs where x: "encodeURIComponent [c] @ r = CHR ''%'' # xs"
    by (cases "(of_char c :: nat) < 128") (auto simp: encodeURIComponent_def Let_def)
  show ?thesis using escaped_char_encoded [OF False, of r] unfolding x
    by (simp add: decodeURIComponent.simps(2) split: option.split)
       (metis append_Cons append_Nil option.map_cong0)
qed

lemma decode_encode [simp]: "decodeURIComponent (encodeURIComponent s) = Some s"
proof (induction s)
  case Nil
  then show ?case by (simp add: encodeURIComponent_def)
next
  case (Cons c cs)
  then show ?case by (subst encode_Cons) (simp add: decode_encode_char)
qed

text \<open>The encoding has no slash, and is empty only for the empty string.\<close>

lemma upper_hex_slash: "n < 16 \<Longrightarrow> upper_hex n \<noteq> CHR ''/''"
proof -
  have "\<forall>n \<in> set [0..<16]. upper_hex n \<noteq> CHR ''/''" by code_simp
  then show "n < 16 \<Longrightarrow> upper_hex n \<noteq> CHR ''/''" by simp
qed

lemma escapes_no_slash:
  "CHR ''/'' \<notin> set (concat (map (\<lambda>b. let n = (of_char b :: nat)
      in [CHR ''%'', upper_hex (n div 16), upper_hex (n mod 16)]) bs))"
proof (induction bs)
  case (Cons b bs)
  have "(of_char b :: nat) div 16 < 16" using of_char_bound [of b] by (simp add: less_mult_imp_div_less)
  then have "upper_hex (of_char b div 16) \<noteq> CHR ''/''" "upper_hex (of_char b mod 16) \<noteq> CHR ''/''"
    by (simp_all add: upper_hex_slash)
  with Cons show ?case by (simp add: Let_def)
qed simp

lemma encode_no_slash: "CHR ''/'' \<notin> set (encodeURIComponent s)"
proof (induction s)
  case Nil
  then show ?case by (simp add: encodeURIComponent_def)
next
  case (Cons c cs)
  have "CHR ''/'' \<notin> set (encodeURIComponent [c])"
  proof (cases "uri_unreserved c")
    case True
    then have "c \<noteq> CHR ''/''" by (auto simp: uri_unreserved_def)
    with True show ?thesis by (simp add: encodeURIComponent_def)
  next
    case False
    then show ?thesis using escapes_no_slash [of "utf8_encode [c]"]
      by (simp add: encodeURIComponent_def del: utf8_encode.simps)
  qed
  with Cons show ?case by (subst encode_Cons) simp
qed

lemma encode_eq_Nil [simp]: "encodeURIComponent s = [] \<longleftrightarrow> s = []"
  by (cases s) (auto simp: encodeURIComponent_def Let_def)

end
