(* ===== verification/Api_Router.thy ===== *)
theory Api_Router
  imports Uri_Codec
begin

text \<open>
  The path router of the HTTP API (\<open>src/src/services/api/router.ts\<close>): routes are kept in
  buckets under the method and the number of segments, and the first route of the bucket whose
  segments match wins. The handler of a route is any value.
\<close>

section \<open>The router\<close>

definition split_path :: "string \<Rightarrow> string list" where
  "split_path path = filter (\<lambda>s. s \<noteq> []) (js_split (CHR ''/'') path)"

record 'h Route =
  rt_method :: string
  rt_segments :: "string list"
  rt_handler :: 'h

type_synonym 'h Router = "(string, 'h Route list) jsmap"

type_synonym route_params = "(string, string) jsmap"

definition route_key :: "string \<Rightarrow> nat \<Rightarrow> string" where
  "route_key mth count = mth @ '':'' @ show_nat count"

definition router_add :: "string \<Rightarrow> string \<Rightarrow> 'h \<Rightarrow> 'h Router \<Rightarrow> 'h Router" where
  "router_add mth pattern handler index =
     (let route = \<lparr>rt_method = mth, rt_segments = split_path pattern, rt_handler = handler\<rparr>;
          key = route_key mth (length (rt_segments route));
          bucket = (case jm_get index key of Some rs \<Rightarrow> rs | None \<Rightarrow> [])
      in jm_set key (bucket @ [route]) index)"

definition router_get :: "string \<Rightarrow> 'h \<Rightarrow> 'h Router \<Rightarrow> 'h Router" where
  "router_get = router_add ''GET''"
definition router_post :: "string \<Rightarrow> 'h \<Rightarrow> 'h Router \<Rightarrow> 'h Router" where
  "router_post = router_add ''POST''"
definition router_patch :: "string \<Rightarrow> 'h \<Rightarrow> 'h Router \<Rightarrow> 'h Router" where
  "router_patch = router_add ''PATCH''"
definition router_put :: "string \<Rightarrow> 'h \<Rightarrow> 'h Router \<Rightarrow> 'h Router" where
  "router_put = router_add ''PUT''"
definition router_delete :: "string \<Rightarrow> 'h \<Rightarrow> 'h Router \<Rightarrow> 'h Router" where
  "router_delete = router_add ''DELETE''"

text \<open>
  The loop over the segments of a route. A bucket holds routes with as many segments as the
  path, so the last case is never reached by \<open>router_match\<close>.
\<close>

fun match_segments :: "string list \<Rightarrow> string list \<Rightarrow> route_params \<Rightarrow> route_params option" where
  "match_segments [] parts params = Some params"
| "match_segments (seg # segs) (part # parts) params =
     (if js_startsWith seg '':'' then
        (case decodeURIComponent part of
           Some v \<Rightarrow> match_segments segs parts (jm_set (drop 1 seg) v params)
         | None \<Rightarrow> None)
      else if seg \<noteq> part then None
      else match_segments segs parts params)"
| "match_segments (seg # segs) [] params = None"

fun first_match :: "'h Route list \<Rightarrow> string list \<Rightarrow> ('h \<times> route_params) option" where
  "first_match [] parts = None"
| "first_match (route # routes) parts =
     (case match_segments (rt_segments route) parts [] of
        Some params \<Rightarrow> Some (rt_handler route, params)
      | None \<Rightarrow> first_match routes parts)"

definition router_match :: "string \<Rightarrow> string \<Rightarrow> 'h Router \<Rightarrow> ('h \<times> route_params) option" where
  "router_match mth pathname index =
     (let parts = split_path pathname
      in case jm_get index (route_key mth (length parts)) of
           None \<Rightarrow> None
         | Some candidates \<Rightarrow> first_match candidates parts)"

section \<open>The reference: a scan over all routes in the order they were added\<close>

type_synonym 'h route_entry = "string \<times> string \<times> 'h"

definition router_of :: "'h route_entry list \<Rightarrow> 'h Router" where
  "router_of routes = foldl (\<lambda>index (mth, pattern, handler). router_add mth pattern handler index) [] routes"

fun scan_routes :: "string \<Rightarrow> string list \<Rightarrow> 'h route_entry list \<Rightarrow> ('h \<times> route_params) option" where
  "scan_routes mth parts [] = None"
| "scan_routes mth parts ((m, pattern, handler) # routes) =
     (if m = mth \<and> length (split_path pattern) = length parts
      then (case match_segments (split_path pattern) parts [] of
              Some params \<Rightarrow> Some (handler, params)
            | None \<Rightarrow> scan_routes mth parts routes)
      else scan_routes mth parts routes)"

section \<open>Buckets\<close>

lemma digits_no_colon: "list_all js_digit s \<Longrightarrow> CHR '':'' \<notin> set s"
  by (auto simp: list_all_iff js_digit_def Let_def)

lemma append_sep_eq:
  "x \<notin> set a \<Longrightarrow> x \<notin> set b \<Longrightarrow> a @ x # c = b @ x # d \<longleftrightarrow> a = b \<and> c = d"
  by (induction a arbitrary: b) (case_tac b; auto)+

lemma route_key_eq: "route_key m n = route_key m' n' \<longleftrightarrow> m = m' \<and> n = n'"
proof
  assume "route_key m n = route_key m' n'"
  then have "rev (route_key m n) = rev (route_key m' n')" by (rule arg_cong)
  then have e: "rev (show_nat n) @ CHR '':'' # rev m = rev (show_nat n') @ CHR '':'' # rev m'"
    by (simp add: route_key_def)
  have "CHR '':'' \<notin> set (rev (show_nat n))" "CHR '':'' \<notin> set (rev (show_nat n'))"
    using digits_no_colon [OF show_nat_digits] by simp_all
  with e have "show_nat n = show_nat n'" "m = m'" by (auto simp: append_sep_eq)
  then show "m = m' \<and> n = n'" by (metis digits_val_show)
qed simp

definition route_of :: "'h route_entry \<Rightarrow> 'h Route" where
  "route_of e = (case e of (mth, pattern, handler) \<Rightarrow>
     \<lparr>rt_method = mth, rt_segments = split_path pattern, rt_handler = handler\<rparr>)"

definition bucket_of :: "string \<Rightarrow> nat \<Rightarrow> 'h route_entry list \<Rightarrow> 'h Route list" where
  "bucket_of mth n routes =
     map route_of (filter (\<lambda>(m, pattern, h). m = mth \<and> length (split_path pattern) = n) routes)"

lemma bucket_of_snoc:
  "bucket_of mth n (routes @ [(m, p, h)]) =
     bucket_of mth n routes @ (if m = mth \<and> length (split_path p) = n then [route_of (m, p, h)] else [])"
  by (simp add: bucket_of_def)

lemma router_of_bucket:
  "jm_get (router_of routes) (route_key mth n) =
     (if bucket_of mth n routes = [] then None else Some (bucket_of mth n routes))"
proof (induction routes rule: rev_induct)
  case Nil
  then show ?case by (simp add: router_of_def bucket_of_def)
next
  case (snoc e routes)
  obtain m p h where e: "e = (m, p, h)" by (cases e)
  have s: "router_of (routes @ [e]) = router_add m p h (router_of routes)"
    by (simp add: router_of_def e)
  show ?case
  proof (cases "m = mth \<and> length (split_path p) = n")
    case True
    then have "route_key m (length (split_path p)) = route_key mth n" by simp
    with True snoc s [unfolded e] show ?thesis
      by (simp add: e router_add_def Let_def bucket_of_snoc route_of_def jm_get_set)
  next
    case False
    then have "route_key m (length (split_path p)) \<noteq> route_key mth n" by (auto simp: route_key_eq)
    with False snoc show ?thesis
      by (simp add: s [unfolded e] router_add_def Let_def bucket_of_snoc e jm_get_set)
  qed
qed

lemma first_match_bucket: "first_match (bucket_of mth (length parts) routes) parts = scan_routes mth parts routes"
proof (induction routes)
  case (Cons e routes)
  obtain m p h where e: "e = (m, p, h)" by (cases e)
  have "bucket_of mth n (e # routes) =
      (if m = mth \<and> length (split_path p) = n then [route_of e] else []) @ bucket_of mth n routes" for n
    by (simp add: bucket_of_def e)
  with Cons show ?case by (simp add: e route_of_def split: option.split)
qed (simp add: bucket_of_def)

lemma router_match_scan:
  "router_match mth pathname (router_of routes) = scan_routes mth (split_path pathname) routes"
  using first_match_bucket [of mth "split_path pathname" routes]
  by (auto simp: router_match_def router_of_bucket Let_def)

text \<open>
  C35: The index of the router changes nothing but the cost of a lookup: over any sequence of
  registered routes a match is the one of the scan over all routes in the order of their
  registration, so the first registered route of the method that matches wins.
\<close>

theorem router_index_is_first_match:
  "router_match mth pathname (router_of routes) = scan_routes mth (split_path pathname) routes"
  by (rule router_match_scan)

section \<open>Paths\<close>

text \<open>Slashes at the front of a path, and doubled ones, make no difference to the router.\<close>

lemma split_path_slash: "split_path (CHR ''/'' # path) = split_path path"
  by (simp add: split_path_def)

lemma split_path_segment:
  "seg \<noteq> [] \<Longrightarrow> CHR ''/'' \<notin> set seg \<Longrightarrow> split_path (seg @ CHR ''/'' # path) = seg # split_path path"
  by (simp add: split_path_def js_split_append)

lemma split_path_one: "seg \<noteq> [] \<Longrightarrow> CHR ''/'' \<notin> set seg \<Longrightarrow> split_path seg = [seg]"
  by (simp add: split_path_def js_split_single)

lemma router_match_slash: "router_match mth (CHR ''/'' # path) index = router_match mth path index"
  by (simp add: router_match_def split_path_slash)

definition path_of :: "string list \<Rightarrow> string" where
  "path_of segs = concat (map (\<lambda>s. CHR ''/'' # s) segs)"

lemma split_path_of:
  "\<forall>s \<in> set segs. s \<noteq> [] \<and> CHR ''/'' \<notin> set s \<Longrightarrow> split_path (path_of segs) = segs"
proof (induction segs)
  case Nil
  then show ?case by (simp add: path_of_def split_path_def)
next
  case (Cons s segs)
  show ?case
  proof (cases segs)
    case Nil
    then show ?thesis using Cons.prems by (simp add: path_of_def split_path_slash split_path_one)
  next
    case (Cons t ts)
    then have "path_of (s # segs) = CHR ''/'' # s @ CHR ''/'' # drop 1 (path_of segs)"
      by (simp add: path_of_def)
    moreover have "split_path (CHR ''/'' # drop 1 (path_of segs)) = split_path (path_of segs)"
      using Cons by (simp add: path_of_def)
    ultimately show ?thesis using Cons.IH Cons.prems
      by (simp add: split_path_slash split_path_segment)
  qed
qed

text \<open>A client fills the parameters of a pattern with encoded values.\<close>

fun fill_pattern :: "string list \<Rightarrow> (string \<Rightarrow> string) \<Rightarrow> string list" where
  "fill_pattern [] v = []"
| "fill_pattern (seg # segs) v =
     (if js_startsWith seg '':'' then encodeURIComponent (v (drop 1 seg)) else seg) # fill_pattern segs v"

definition pattern_params :: "string list \<Rightarrow> string list" where
  "pattern_params segs = map (drop 1) (filter (\<lambda>s. js_startsWith s '':'') segs)"

lemma match_filled:
  "match_segments segs (fill_pattern segs v) params =
     Some (foldl (\<lambda>m k. jm_set k (v k) m) params (pattern_params segs))"
  by (induction segs arbitrary: params) (simp_all add: pattern_params_def)

lemma params_get:
  "jm_get (foldl (\<lambda>m k. jm_set k (v k) m) params ks) k = (if k \<in> set ks then Some (v k) else jm_get params k)"
  by (induction ks arbitrary: params) (auto simp: jm_get_set)

lemma fill_pattern_segments:
  assumes "\<forall>s \<in> set segs. s \<noteq> [] \<and> CHR ''/'' \<notin> set s" "\<forall>k \<in> set (pattern_params segs). v k \<noteq> []"
  shows "\<forall>s \<in> set (fill_pattern segs v). s \<noteq> [] \<and> CHR ''/'' \<notin> set s"
  using assms by (induction segs) (auto simp: pattern_params_def encode_no_slash)

lemma split_path_segments: "\<forall>s \<in> set (split_path p). s \<noteq> [] \<and> CHR ''/'' \<notin> set s"
  using js_split_no_sep by (auto simp: split_path_def)

text \<open>
  A path that a client builds from a route's pattern by putting the encoded values into
  its parameters is matched by that route, and the handler is given exactly those values,
  whatever characters they hold.
\<close>

theorem route_params_roundtrip:
  assumes "\<forall>k \<in> set (pattern_params (split_path pattern)). v k \<noteq> []"
  shows "\<exists>params. router_match mth (path_of (fill_pattern (split_path pattern) v))
            (router_of [(mth, pattern, h)]) = Some (h, params)
      \<and> (\<forall>k. jm_get params k = (if k \<in> set (pattern_params (split_path pattern)) then Some (v k) else None))"
proof -
  let ?segs = "split_path pattern"
  have "split_path (path_of (fill_pattern ?segs v)) = fill_pattern ?segs v"
    by (rule split_path_of) (rule fill_pattern_segments [OF split_path_segments assms])
  moreover have "length (fill_pattern segs v) = length segs" for segs by (induction segs) auto
  ultimately have "router_match mth (path_of (fill_pattern ?segs v)) (router_of [(mth, pattern, h)])
      = Some (h, foldl (\<lambda>m k. jm_set k (v k) m) [] (pattern_params ?segs))"
    unfolding router_match_def router_of_bucket
    by (simp add: Let_def bucket_of_def route_of_def match_filled)
  then show ?thesis using params_get [of v "[]" "pattern_params ?segs"] by auto
qed

theorem route_params_roundtrip_witness:
  "\<exists>params. router_match ''GET'' ''/v1/users/a%2Fb%20c''
      (router_of [(''GET'', ''/v1/users/:id'', ())]) = Some ((), params)
      \<and> (\<forall>k. jm_get params k = (if k = ''id'' then Some ''a/b c'' else None))"
proof -
  have s: "split_path ''/v1/users/:id'' = [''v1'', ''users'', '':id'']" by code_simp
  have p: "pattern_params [''v1'', ''users'', '':id''] = [''id'']" by code_simp
  have f: "path_of (fill_pattern [''v1'', ''users'', '':id''] (\<lambda>_. ''a/b c'')) = ''/v1/users/a%2Fb%20c''" by code_simp
  show ?thesis
    using route_params_roundtrip [of "''/v1/users/:id''" "\<lambda>_. ''a/b c''" "''GET''" "()", unfolded s p f]
    by simp
qed

end
