(* ===== verification/Http.thy ===== *)
theory Http
  imports Uri_Codec Effects
begin

text \<open>
  What the HTTP API reads of a request and writes as a reply (\<open>src/src/services/api/http.ts\<close>,
  with the query helpers of \<open>handlers/shared.ts\<close> and \<open>getClientIp\<close> of
  \<open>main.ts\<close>). A header is one string, or a list of strings as Node gives it for some
  repeated headers. Whether \<open>new URL\<close> accepts a request target is an argument
  (\<open>url_ok\<close>): the host syntax of the URL standard is not modelled. The bytes of a body
  arrive in chunks.
\<close>

section \<open>Requests and replies\<close>

datatype header_value = HeaderOne string | HeaderMany "string list"

record http_request =
  rq_method :: "string option"
  rq_url :: "string option"
  rq_headers :: "(string, header_value) jsmap"
  rq_remoteAddress :: "string option"

definition header_string :: "string \<Rightarrow> http_request \<Rightarrow> string option" where
  "header_string k req = (case jm_get (rq_headers req) k of Some (HeaderOne v) \<Rightarrow> Some v | _ \<Rightarrow> None)"

datatype reply_body = NoBody | JsonBody json | HtmlBody string | TextBody string

record http_reply =
  rp_status :: nat
  rp_headers :: "(string \<times> string) list"
  rp_body :: reply_body

definition sendJson :: "nat \<Rightarrow> json \<Rightarrow> http_reply" where
  "sendJson status body = \<lparr>rp_status = status,
     rp_headers = [(''Content-Type'', ''application/json''),
                   (''Content-Length'', show_nat (length (utf8_encode (json_stringify body))))],
     rp_body = JsonBody body\<rparr>"

definition sendNoContent :: http_reply where
  "sendNoContent = \<lparr>rp_status = 204, rp_headers = [], rp_body = NoBody\<rparr>"

text \<open>An issue of a failed validation: its path and its message.\<close>

type_synonym issue = "string list \<times> string"

definition sendValidationError :: "issue list \<Rightarrow> http_reply" where
  "sendValidationError issues = sendJson 400 (JObj [(''error'', JStr ''validation_error''),
     (''issues'', JArr (map (\<lambda>(path, message).
        JObj [(''path'', JStr (join ''.'' path)), (''message'', JStr message)]) issues))])"

definition reply_error :: "nat \<Rightarrow> string \<Rightarrow> http_reply" where
  "reply_error status code = sendJson status (JObj [(''error'', JStr code)])"

definition reply_message :: "nat \<Rightarrow> string \<Rightarrow> string \<Rightarrow> http_reply" where
  "reply_message status code message =
     sendJson status (JObj [(''error'', JStr code), (''message'', JStr message)])"

lemma reply_status [simp]:
  "rp_status (sendJson s b) = s" "rp_status sendNoContent = 204"
  "rp_status (sendValidationError is) = 400" "rp_status (reply_error s c) = s" "rp_status (reply_message s c m) = s"
  by (simp_all add: sendJson_def sendNoContent_def sendValidationError_def reply_error_def reply_message_def)

section \<open>Bodies\<close>

record http_error =
  he_status :: nat
  he_code :: string
  he_message :: "string option"

definition MAX_PAYLOAD_SIZE :: nat where
  "MAX_PAYLOAD_SIZE = 5 * 1024 * 1024"

datatype body_event = BodyData string | BodyEnd | BodyFailed exn

text \<open>
  The promise of a body: not settled when neither the end nor an error has come. A request over
  the limit is destroyed, so nothing after it counts.
\<close>

fun read_bytes :: "string \<Rightarrow> body_event list \<Rightarrow> ((http_error + exn) + string) option" where
  "read_bytes body [] = None"
| "read_bytes body (BodyData chunk # es) =
     (if MAX_PAYLOAD_SIZE < length body + length chunk
      then Some (Inl (Inl \<lparr>he_status = 413, he_code = ''payload_too_large'', he_message = None\<rparr>))
      else read_bytes (body @ chunk) es)"
| "read_bytes body (BodyEnd # es) = Some (Inr body)"
| "read_bytes body (BodyFailed e # es) = Some (Inl (Inr e))"

definition readRawBody :: "body_event list \<Rightarrow> ((http_error + exn) + string) option" where
  "readRawBody es = map_option (map_sum id utf8_decode) (read_bytes [] es)"

text \<open>An empty body is \<open>undefined\<close>, here \<open>None\<close>.\<close>

definition parse_body :: "string \<Rightarrow> (http_error + exn) + json option" where
  "parse_body body =
     (let trimmed = js_trim body
      in if trimmed = [] then Inr None
         else case json_parse trimmed of
                Some v \<Rightarrow> Inr (Some v)
              | None \<Rightarrow> Inl (Inl \<lparr>he_status = 400, he_code = ''malformed_json'', he_message = None\<rparr>))"

definition readJsonBody :: "body_event list \<Rightarrow> ((http_error + exn) + json option) option" where
  "readJsonBody es = map_option (\<lambda>r. case r of Inl e \<Rightarrow> Inl e | Inr body \<Rightarrow> parse_body body) (readRawBody es)"

text \<open>The catch around a handler: an \<open>HttpError\<close> has its own reply, anything else is a 500.\<close>

definition error_reply :: "http_error + exn \<Rightarrow> http_reply" where
  "error_reply e = (case e of
     Inl h \<Rightarrow> reply_message (he_status h) (he_code h) (case he_message h of Some m \<Rightarrow> m | None \<Rightarrow> he_code h)
   | Inr _ \<Rightarrow> reply_error 500 ''internal_error'')"

lemma read_bytes_whole:
  "length body + length (concat chunks) \<le> MAX_PAYLOAD_SIZE \<Longrightarrow>
     read_bytes body (map BodyData chunks @ [BodyEnd]) = Some (Inr (body @ concat chunks))"
  by (induction chunks arbitrary: body) auto

lemma read_bytes_too_large:
  "length body \<le> MAX_PAYLOAD_SIZE \<Longrightarrow> MAX_PAYLOAD_SIZE < length body + length (concat chunks) \<Longrightarrow>
     read_bytes body (map BodyData chunks @ es) =
       Some (Inl (Inl \<lparr>he_status = 413, he_code = ''payload_too_large'', he_message = None\<rparr>))"
  by (induction chunks arbitrary: body) auto

text \<open>How the chunks are cut makes no difference to what is read.\<close>

lemma body_chunks_irrelevant:
  "concat cs = concat ds \<Longrightarrow> readJsonBody (map BodyData cs @ [BodyEnd]) = readJsonBody (map BodyData ds @ [BodyEnd])"
  using read_bytes_whole [of "[]" cs] read_bytes_whole [of "[]" ds]
    read_bytes_too_large [of "[]" cs] read_bytes_too_large [of "[]" ds]
  by (cases "length (concat cs) \<le> MAX_PAYLOAD_SIZE") (simp_all add: readJsonBody_def readRawBody_def)

section \<open>Tokens\<close>

definition extractAuthToken :: "http_request \<Rightarrow> string option" where
  "extractAuthToken req =
     (case header_string ''authorization'' req of
        Some h \<Rightarrow>
          if js_startsWith (js_lower h) ''bearer '' then Some (js_trim (drop 7 h))
          else map_option js_trim (header_string ''x-api-key'' req)
      | None \<Rightarrow> map_option js_trim (header_string ''x-api-key'' req))"

section \<open>The query\<close>

text \<open>
  \<open>URLSearchParams\<close>: pairs are separated by ampersands, empty ones are skipped, a plus is a
  space, and the bytes are decoded leniently.
\<close>

fun form_bytes :: "string \<Rightarrow> string" where
  "form_bytes [] = []"
| "form_bytes (c # cs) =
     (if c = CHR ''+'' then CHR '' '' # form_bytes cs
      else if c = CHR ''%'' then
        (case escaped_byte (c # cs) of
           Some (n, _) \<Rightarrow> char_of n # form_bytes (drop 2 cs)
         | None \<Rightarrow> c # form_bytes cs)
      else utf8_encode [c] @ form_bytes cs)"

definition form_decode :: "string \<Rightarrow> string" where
  "form_decode s = utf8_decode (form_bytes s)"

definition form_pair :: "string \<Rightarrow> string \<times> string" where
  "form_pair s = (form_decode (takeWhile ((\<noteq>) CHR ''='') s), form_decode (drop 1 (dropWhile ((\<noteq>) CHR ''='') s)))"

type_synonym query_params = "(string \<times> string) list"

definition parse_query :: "string \<Rightarrow> query_params" where
  "parse_query s = map form_pair (filter (\<lambda>p. p \<noteq> []) (js_split (CHR ''&'') s))"

text \<open>The query of a target is what follows its first question mark, up to a hash.\<close>

definition query_string :: "string \<Rightarrow> string" where
  "query_string url = drop 1 (dropWhile ((\<noteq>) CHR ''?'') (takeWhile ((\<noteq>) CHR ''#'') url))"

definition search_params :: "(string \<Rightarrow> bool) \<Rightarrow> string \<Rightarrow> query_params option" where
  "search_params url_ok url = (if url_ok url then Some (parse_query (query_string url)) else None)"

definition getQueryParam :: "query_params \<Rightarrow> string \<Rightarrow> string option" where
  "getQueryParam query key = map_of query key"

text \<open>\<open>parseInt(s, 10)\<close>: white space, a sign, and the digits in front; \<open>None\<close> is NaN.\<close>

definition parse_int :: "string \<Rightarrow> int option" where
  "parse_int s =
     (let t = dropWhile js_space s;
          neg = (case t of c # _ \<Rightarrow> c = CHR ''-'' | [] \<Rightarrow> False);
          signed = (case t of c # _ \<Rightarrow> c = CHR ''-'' \<or> c = CHR ''+'' | [] \<Rightarrow> False);
          ds = takeWhile js_digit (if signed then drop 1 t else t)
      in if ds = [] then None else Some (if neg then - int (digits_val 0 ds) else int (digits_val 0 ds)))"

definition parseLimit :: "query_params \<Rightarrow> 'f \<Rightarrow> (int \<Rightarrow> 'f) \<Rightarrow> int \<Rightarrow> 'f" where
  "parseLimit query fallback given maximum =
     (case parse_int (case getQueryParam query ''limit'' of Some s \<Rightarrow> s | None \<Rightarrow> '''') of
        None \<Rightarrow> fallback
      | Some n \<Rightarrow> given (min (max n 1) maximum))"

lemma parseLimit_bounds:
  "1 \<le> fallback \<Longrightarrow> fallback \<le> maximum \<Longrightarrow> 1 \<le> parseLimit q fallback id maximum \<and> parseLimit q fallback id maximum \<le> maximum"
  by (auto simp: parseLimit_def split: option.split)

section \<open>The address of the client\<close>

definition getClientIp :: "http_request \<Rightarrow> int \<Rightarrow> string" where
  "getClientIp req trustedHops =
     (let peer = (case rq_remoteAddress req of Some a \<Rightarrow> if a = [] then ''unknown'' else a | None \<Rightarrow> ''unknown'')
      in if trustedHops \<le> 0 then peer
         else case header_string ''x-forwarded-for'' req of
                None \<Rightarrow> peer
              | Some forwarded \<Rightarrow>
                  let chain = filter (\<lambda>s. s \<noteq> []) (map js_trim (js_split (CHR '','') forwarded)) @ [peer]
                  in chain ! nat (max (int (length chain) - 1 - trustedHops) 0))"

text \<open>
  The entries that the trusted proxies appended are the last ones. With \<open>hops\<close> of them, the
  entry the outermost wrote is the client, whatever the client put in front.
\<close>

lemma js_split_joined:
  "\<forall>a \<in> set as. sep \<notin> set a \<Longrightarrow> js_split sep (forged @ concat (map (\<lambda>a. sep # a) as)) = js_split sep forged @ as"
proof (induction as arbitrary: forged)
  case (Cons a as)
  have one: "sep \<notin> set a \<Longrightarrow> js_split sep (f @ sep # a) = js_split sep f @ [a]" for f
    by (induction f) (auto simp: js_split_single split: list.split)
  show ?case using Cons.IH [of "forged @ sep # a"] Cons.prems one by simp
qed simp

lemma client_ip_not_forged:
  assumes "as \<noteq> []"
    and "\<forall>a \<in> set as. CHR '','' \<notin> set a \<and> js_trim a \<noteq> []"
    and "jm_get (rq_headers req) ''x-forwarded-for'' = Some (HeaderOne (forged @ concat (map (\<lambda>a. CHR '','' # a) as)))"
  shows "getClientIp req (int (length as)) = js_trim (hd as)"
proof -
  have s: "js_split (CHR '','') (forged @ concat (map (\<lambda>a. CHR '','' # a) as)) = js_split (CHR '','') forged @ as"
    using assms(2) by (intro js_split_joined) blast
  have f: "filter (\<lambda>s. s \<noteq> []) (map js_trim as) = map js_trim as"
    using assms(2) by (induction as) auto
  have "(map js_trim xs @ map js_trim as @ [p]) ! length xs = js_trim (hd as)" for xs p
    using assms(1) by (cases as) (simp_all add: nth_append)
  then show ?thesis using assms(1)
    by (simp add: getClientIp_def header_string_def assms(3) s f Let_def)
       (simp add: filter_map)
qed

end
