(* ===== verification/Project_Store.thy ===== *)
theory Project_Store
  imports Event_Worker User_Store Http
begin

text \<open>
  The projects, their API keys and the admin users: the tables, the repositories
  (\<open>src/src/repositories/project.ts\<close>, \<open>admin-user.ts\<close>, \<open>segment.ts\<close>), and the
  world of the API process: every table of the schema, the Redis store, and the cache of
  authenticated keys. A transaction is one call, which commits or throws. Ids and times that the
  database generates, and random keys, are arguments.
\<close>

section \<open>Tables\<close>

datatype key_role = KeyAdmin | KeyReadOnly

fun role_text :: "key_role \<Rightarrow> string" where
  "role_text KeyAdmin = ''admin''"
| "role_text KeyReadOnly = ''read_only''"

record project_row =
  pj_id :: string
  pj_name :: string
  pj_rateLimitRpm :: "int option"
  pj_throttleLimit :: "int option"
  pj_throttleWindowHours :: "int option"
  pj_createdAt :: ms

record api_key_row =
  ak_id :: string
  ak_projectId :: string
  ak_keyHash :: string
  ak_role :: key_role
  ak_createdAt :: ms

record admin_user =
  au_id :: string
  au_email :: string
  au_username :: "string option"
  au_passwordHash :: string
  au_role :: string

text \<open>
  The column \<open>created_at\<close> of a user's row is a function of its id, in microseconds, and that of
  a parked send a function of its task. A row of the outbox is a task, its channel and its
  destination; the user and contact repositories cache what they read; the dead letters are a
  stream in Redis, whose entries have an id and the list of their fields and values.

  A row of the delivery log with what the database adds; the time is in microseconds.\<close>

record message_log =
  ml_id :: string
  ml_time :: int
  ml_row :: log_row
  ml_metadata :: "json option"

record suppression_row =
  sp_projectId :: string
  sp_channel :: NotificationChannel
  sp_target :: string
  sp_reason :: string
  sp_source :: "string option"
  sp_taskId :: "string option"
  sp_createdAt :: ms

record CachedAuthKey =
  ca_projectId :: string
  ca_rateLimitRpm :: int
  ca_keyRole :: key_role
  ca_tokenHash :: string

section \<open>The world of the API\<close>

datatype api_effect =
    RedisPublish string string
  | PublishRequests string "new_event list"
  | PublishTo string workflow_event
  | EmitCanceled "string option" string
  | StreamAdd string "string list"

record 'r api_world = "('r, api_effect) world" +
  aw_db :: database
  aw_projects :: "project_row list"
  aw_keys :: "api_key_row list"
  aw_userCreatedAt :: "string \<Rightarrow> int"
  aw_userCache :: "UserRecord repo_cache"
  aw_contactCache :: "UserContact list repo_cache"
  aw_outbox :: "(string \<times> NotificationChannel \<times> string) list"
  aw_parkedAt :: "string \<Rightarrow> ms"
  aw_deadLetters :: "(string \<times> string list) list"
  aw_admins :: "admin_user list"
  aw_logs :: "message_log list"
  aw_suppressions :: "suppression_row list"
  aw_parked :: "(string, json) jsmap"
  aw_instances :: "wf_instance list"
  aw_definitions :: "wf_definition list"
  aw_steps :: "wf_step list"
  aw_waiters :: "wf_waiter list"
  aw_authCache :: "(string, CachedAuthKey) lru"
  aw_tokenHashes :: "(string, string) jsmap"

type_synonym ('r, 'a) api_act = "('r api_world, 'a) act"

text \<open>A store with nothing in it, and a process that has just started.\<close>

definition empty_database :: database where
  "empty_database = \<lparr>db_users = [], db_segments = [], db_topics = [], db_channels = [], db_quietHours = [],
     db_contacts = [], db_contactTopics = [], db_templates = [], db_suppressions = []\<rparr>"

definition empty_api_world :: "'r \<Rightarrow> 'r api_world" where
  "empty_api_world store = \<lparr>w_redis = store, w_log = [], w_step = 0, w_faults = (\<lambda>_. None),
     aw_db = empty_database, aw_projects = [], aw_keys = [], aw_userCreatedAt = (\<lambda>_. 0),
     aw_userCache = new_repo_cache, aw_contactCache = new_repo_cache, aw_outbox = [],
     aw_parkedAt = (\<lambda>_. 0), aw_deadLetters = [], aw_admins = [], aw_logs = [], aw_suppressions = [],
     aw_parked = [], aw_instances = [], aw_definitions = [], aw_steps = [], aw_waiters = [],
     aw_authCache = lru_new 1000 60000, aw_tokenHashes = []\<rparr>"

text \<open>A query, and a statement.\<close>

definition select :: "('r api_world \<Rightarrow> 'a) \<Rightarrow> ('r, 'a) api_act" where
  "select f = attempt (\<lambda>w. (f w, w))"

definition redis_publish :: "string \<Rightarrow> string \<Rightarrow> ('r, unit) api_act" where
  "redis_publish channel message = perform (RedisPublish channel message)"

section \<open>Projects and keys\<close>

definition newest_first :: "('a \<Rightarrow> ms) \<Rightarrow> 'a list \<Rightarrow> 'a list" where
  "newest_first f xs = sort_key (\<lambda>x. - f x) xs"

definition project_list :: "('r, project_row list) api_act" where
  "project_list = select (\<lambda>w. newest_first pj_createdAt (aw_projects w))"

text \<open>Deleting a project: its own rows, and what references them.\<close>

definition drop_project :: "string \<Rightarrow> 'r api_world \<Rightarrow> 'r api_world" where
  "drop_project i w =
     (let users = map us_id (filter (\<lambda>r. us_projectId r = i) (db_users (aw_db w)));
          gone = map wi_id (filter (\<lambda>x. wi_projectId x = i) (aw_instances w));
          db = cascade_users users (aw_db w)
      in w\<lparr>aw_db := db\<lparr>db_suppressions := filter (\<lambda>(p, c, t). p \<noteq> i) (db_suppressions db),
                       db_templates := filter (\<lambda>t. tm_projectId t \<noteq> i) (db_templates db)\<rparr>,
           aw_suppressions := filter (\<lambda>s. sp_projectId s \<noteq> i) (aw_suppressions w),
           aw_logs := filter (\<lambda>l. lr_projectId (ml_row l) \<noteq> i) (aw_logs w),
           aw_instances := filter (\<lambda>x. wi_projectId x \<noteq> i) (aw_instances w),
           aw_steps := filter (\<lambda>s. ws_instanceId s \<notin> set gone) (aw_steps w),
           aw_waiters := filter (\<lambda>t. ww_instanceId t \<notin> set gone) (aw_waiters w),
           aw_definitions := filter (\<lambda>d. wd_projectId d \<noteq> i) (aw_definitions w),
           aw_projects := filter (\<lambda>p. pj_id p \<noteq> i) (aw_projects w),
           aw_keys := filter (\<lambda>k. ak_projectId k \<noteq> i) (aw_keys w)\<rparr>)"

definition project_delete :: "string \<Rightarrow> ('r, bool) api_act" where
  "project_delete i = attempt (\<lambda>w.
     if list_ex (\<lambda>p. pj_id p = i) (aw_projects w) then (True, drop_project i w)
     else (False, drop_project i w))"

definition project_insert :: "string \<Rightarrow> string \<Rightarrow> ms \<Rightarrow> ('r, unit) api_act" where
  "project_insert i name now = attempt (\<lambda>w. ((), w\<lparr>aw_projects := aw_projects w @
     [\<lparr>pj_id = i, pj_name = name, pj_rateLimitRpm = None, pj_throttleLimit = None,
       pj_throttleWindowHours = None, pj_createdAt = now\<rparr>]\<rparr>))"

definition findThrottleSettings :: "string \<Rightarrow> ('r, (int option \<times> int option) option) api_act" where
  "findThrottleSettings i = select (\<lambda>w.
     map_option (\<lambda>p. (pj_throttleLimit p, pj_throttleWindowHours p)) (find (\<lambda>p. pj_id p = i) (aw_projects w)))"

text \<open>A setting that is left out keeps its column; null clears it.\<close>

record project_settings =
  ps_rateLimitRpm :: "int option option"
  ps_throttleLimit :: "int option option"
  ps_throttleWindowHours :: "int option option"

definition keep_or :: "'a \<Rightarrow> 'a option \<Rightarrow> 'a" where
  "keep_or old new = (case new of Some v \<Rightarrow> v | None \<Rightarrow> old)"

definition set_project :: "project_settings \<Rightarrow> project_row \<Rightarrow> project_row" where
  "set_project s p = p\<lparr>pj_rateLimitRpm := keep_or (pj_rateLimitRpm p) (ps_rateLimitRpm s),
     pj_throttleLimit := keep_or (pj_throttleLimit p) (ps_throttleLimit s),
     pj_throttleWindowHours := keep_or (pj_throttleWindowHours p) (ps_throttleWindowHours s)\<rparr>"

text \<open>An update that sets no column is an error of the query builder.\<close>

definition updateSettings :: "string \<Rightarrow> project_settings \<Rightarrow> ('r, bool) api_act" where
  "updateSettings i s =
     (if ps_rateLimitRpm s = None \<and> ps_throttleLimit s = None \<and> ps_throttleWindowHours s = None
      then throw (Error ''No values to set'')
      else attempt (\<lambda>w. (list_ex (\<lambda>p. pj_id p = i) (aw_projects w),
             w\<lparr>aw_projects := map (\<lambda>p. if pj_id p = i then set_project s p else p) (aw_projects w)\<rparr>)))"

text \<open>The unique key of a key row is its hash, and its project must exist.\<close>

definition createApiKey :: "string \<Rightarrow> string \<Rightarrow> string \<Rightarrow> key_role \<Rightarrow> ms \<Rightarrow> ('r, string) api_act" where
  "createApiKey keyId projectId keyHash role now =
     bindA (attempt (\<lambda>w.
       if list_ex (\<lambda>k. ak_keyHash k = keyHash) (aw_keys w) \<or> \<not> list_ex (\<lambda>p. pj_id p = projectId) (aw_projects w)
       then (False, w)
       else (True, w\<lparr>aw_keys := aw_keys w @ [\<lparr>ak_id = keyId, ak_projectId = projectId, ak_keyHash = keyHash,
               ak_role = role, ak_createdAt = now\<rparr>]\<rparr>)))
       (\<lambda>ok. if ok then ret keyId else throw (Error ''insert or update on table project_api_keys violates a constraint''))"

definition listApiKeys :: "string \<Rightarrow> ('r, api_key_row list) api_act" where
  "listApiKeys i = select (\<lambda>w. newest_first ak_createdAt (filter (\<lambda>k. ak_projectId k = i) (aw_keys w)))"

definition deleteApiKey :: "string \<Rightarrow> string \<Rightarrow> ('r, bool) api_act" where
  "deleteApiKey projectId keyId = attempt (\<lambda>w.
     (list_ex (\<lambda>k. ak_id k = keyId \<and> ak_projectId k = projectId) (aw_keys w),
      w\<lparr>aw_keys := filter (\<lambda>k. \<not> (ak_id k = keyId \<and> ak_projectId k = projectId)) (aw_keys w)\<rparr>))"

text \<open>The join of a key with its project, by hash.\<close>

definition key_of_hash :: "string \<Rightarrow> 'r api_world \<Rightarrow> (project_row \<times> key_role) option" where
  "key_of_hash h w =
     (case find (\<lambda>k. ak_keyHash k = h \<and> list_ex (\<lambda>p. pj_id p = ak_projectId k) (aw_projects w)) (aw_keys w) of
        None \<Rightarrow> None
      | Some k \<Rightarrow> map_option (\<lambda>p. (p, ak_role k)) (find (\<lambda>p. pj_id p = ak_projectId k) (aw_projects w)))"

section \<open>Admin users and segments\<close>

definition findByEmailOrUsername :: "string \<Rightarrow> ('r, admin_user option) api_act" where
  "findByEmailOrUsername identifier = select (\<lambda>w.
     find (\<lambda>u. au_email u = js_lower (js_trim identifier) \<or> au_username u = Some (js_trim identifier)) (aw_admins w))"

definition admin_findById :: "string \<Rightarrow> ('r, admin_user option) api_act" where
  "admin_findById i = select (\<lambda>w. find (\<lambda>u. au_id u = i) (aw_admins w))"

definition admin_create ::
  "string \<Rightarrow> string \<Rightarrow> string option \<Rightarrow> string \<Rightarrow> string option \<Rightarrow> ('r, admin_user) api_act" where
  "admin_create i email username passwordHash role =
     (let u = \<lparr>au_id = i, au_email = js_lower (js_trim email),
               au_username = (case username of Some n \<Rightarrow> if n = [] then None else Some (js_trim n) | None \<Rightarrow> None),
               au_passwordHash = passwordHash,
               au_role = (case role of Some r \<Rightarrow> if r = [] then ''admin'' else r | None \<Rightarrow> ''admin'')\<rparr>
      in bindA (attempt (\<lambda>w.
           if list_ex (\<lambda>v. au_email v = au_email u \<or> au_username u \<noteq> None \<and> au_username v = au_username u) (aw_admins w)
           then (False, w) else (True, w\<lparr>aw_admins := aw_admins w @ [u]\<rparr>)))
           (\<lambda>ok. if ok then ret u else throw (Error ''duplicate key value violates unique constraint'')))"

definition listSegments :: "string \<Rightarrow> ('r, string list) api_act" where
  "listSegments projectId = select (\<lambda>w. remdups (map snd (filter (\<lambda>(u, s).
     list_ex (\<lambda>r. us_id r = u \<and> us_projectId r = projectId) (db_users (aw_db w))) (db_segments (aw_db w)))))"

section \<open>Deleting a project leaves nothing of it\<close>

definition project_traces :: "string \<Rightarrow> 'r api_world \<Rightarrow> bool" where
  "project_traces i w \<longleftrightarrow>
     (\<exists>r \<in> set (db_users (aw_db w)). us_projectId r = i)
     \<or> (\<exists>t \<in> set (db_templates (aw_db w)). tm_projectId t = i)
     \<or> (\<exists>s \<in> set (db_suppressions (aw_db w)). fst s = i)
     \<or> (\<exists>s \<in> set (aw_suppressions w). sp_projectId s = i)
     \<or> (\<exists>l \<in> set (aw_logs w). lr_projectId (ml_row l) = i)
     \<or> (\<exists>x \<in> set (aw_instances w). wi_projectId x = i)
     \<or> (\<exists>d \<in> set (aw_definitions w). wd_projectId d = i)
     \<or> (\<exists>p \<in> set (aw_projects w). pj_id p = i)
     \<or> (\<exists>k \<in> set (aw_keys w). ak_projectId k = i)"

text \<open>Every row that references a user, a contact, an instance or a project references one that is there.\<close>

definition user_references :: "database \<Rightarrow> bool" where
  "user_references db \<longleftrightarrow>
     (let users = us_id ` set (db_users db); contacts = uc_id ` set (db_contacts db)
      in fst ` set (db_segments db) \<subseteq> users
         \<and> fst ` fst ` set (db_topics db) \<subseteq> users
         \<and> fst ` fst ` set (db_channels db) \<subseteq> users
         \<and> contact_row.uc_userId ` set (db_contacts db) \<subseteq> users
         \<and> fst ` fst ` set (db_contactTopics db) \<subseteq> contacts)"

definition references_kept :: "'r api_world \<Rightarrow> bool" where
  "references_kept w \<longleftrightarrow> user_references (aw_db w)
     \<and> ws_instanceId ` set (aw_steps w) \<subseteq> wi_id ` set (aw_instances w)
     \<and> ww_instanceId ` set (aw_waiters w) \<subseteq> wi_id ` set (aw_instances w)
     \<and> ak_projectId ` set (aw_keys w) \<subseteq> pj_id ` set (aw_projects w)"

lemma drop_project_traces: "\<not> project_traces i (drop_project i w)"
  by (auto simp: project_traces_def drop_project_def Let_def cascade_users_def cascade_contacts_def)

lemma filter_references:
  "f ` set xs \<subseteq> g ` set ys \<Longrightarrow>
     f ` set (filter (\<lambda>x. f x \<notin> set (map g (filter P ys))) xs) \<subseteq> g ` set (filter (\<lambda>y. \<not> P y) ys)"
  by (auto simp: image_subset_iff)

lemma kept_references:
  assumes "f ` set xs \<subseteq> g ` set ys" "\<And>x y. P x \<Longrightarrow> f x = g y \<Longrightarrow> Q y"
  shows "f ` set (filter P xs) \<subseteq> g ` set (filter Q ys)"
proof
  fix k assume "k \<in> f ` set (filter P xs)"
  then obtain x where x: "x \<in> set xs" "P x" "k = f x" by auto
  with assms(1) obtain y where "y \<in> set ys" "f x = g y" by blast
  with x assms(2) show "k \<in> g ` set (filter Q ys)" by auto
qed

lemma cascade_references:
  assumes "user_references db"
  shows "user_references (cascade_users gone db)"
  using assms unfolding user_references_def cascade_users_def cascade_contacts_def Let_def image_image
  by (simp add: split_beta)
    (intro conjI kept_references; (simp; fail)?; force simp: image_subset_iff)

lemma drop_project_references:
  assumes "references_kept w"
  shows "references_kept (drop_project i w)"
proof -
  let ?users = "map us_id (filter (\<lambda>r. us_projectId r = i) (db_users (aw_db w)))"
  have "user_references (cascade_users ?users (aw_db w))"
    using assms by (intro cascade_references) (simp add: references_kept_def)
  moreover have "user_references (db\<lparr>db_suppressions := s, db_templates := t\<rparr>) = user_references db" for db s t
    by (simp add: user_references_def)
  ultimately have "user_references (aw_db (drop_project i w))" by (simp add: drop_project_def Let_def)
  moreover have "ak_projectId ` set (aw_keys (drop_project i w)) \<subseteq> pj_id ` set (aw_projects (drop_project i w))"
    using assms by (auto simp: references_kept_def drop_project_def Let_def)
  ultimately show ?thesis
    using assms filter_references [of ws_instanceId "aw_steps w" wi_id "aw_instances w" "\<lambda>x. wi_projectId x = i"]
      filter_references [of ww_instanceId "aw_waiters w" wi_id "aw_instances w" "\<lambda>x. wi_projectId x = i"]
    by (simp add: references_kept_def drop_project_def Let_def)
qed

end
