(* ===== verification/Admin_Session.thy ===== *)
theory Admin_Session
  imports Project_Store
begin

text \<open>
  Admin sessions and passwords (\<open>src/src/services/auth/index.ts\<close>) and the login routes
  (\<open>handlers/auth.ts\<close>). The key derivation \<open>scrypt\<close> and random tokens are
  arguments. A session is the JSON text under its key in Redis.
\<close>

definition DEFAULT_SESSION_TTL_SECONDS :: int where
  "DEFAULT_SESSION_TTL_SECONDS = 7 * 24 * 60 * 60"

definition SESSION_PREFIX :: string where
  "SESSION_PREFIX = ''notif:session:''"

definition DUMMY_PASSWORD_HASH :: string where
  "DUMMY_PASSWORD_HASH = replicate 32 (CHR ''0'') @ '':'' @ replicate 128 (CHR ''0'')"

text \<open>\<open>Buffer.from(s, "hex")\<close> stops at the first pair that is not two hex digits.\<close>

fun hex_decode :: "string \<Rightarrow> string" where
  "hex_decode (a # b # s) =
     (case (hex_val a, hex_val b) of (Some h, Some l) \<Rightarrow> char_of (16 * h + l) # hex_decode s | _ \<Rightarrow> [])"
| "hex_decode _ = []"

definition hex_encode :: "string \<Rightarrow> string" where
  "hex_encode bs = concat (map (\<lambda>b. [hex_digit (of_char b div 16), hex_digit (of_char b mod 16)]) bs)"

type_synonym kdf = "string \<Rightarrow> string \<Rightarrow> nat \<Rightarrow> string"

definition hashPassword :: "kdf \<Rightarrow> string \<Rightarrow> string \<Rightarrow> string" where
  "hashPassword scrypt saltBytes password =
     (let salt = hex_encode saltBytes in salt @ '':'' @ hex_encode (scrypt password salt 64))"

definition verifyPassword :: "kdf \<Rightarrow> string \<Rightarrow> string \<Rightarrow> bool" where
  "verifyPassword scrypt password storedHash =
     (case js_split (CHR '':'') storedHash of
        salt # key # _ \<Rightarrow>
          if salt = [] \<or> key = [] then False
          else
            let keyBuffer = hex_decode key; derivedKey = scrypt password salt (length keyBuffer)
            in length derivedKey = length keyBuffer \<and> derivedKey = keyBuffer
      | _ \<Rightarrow> False)"

definition session_json :: "string \<Rightarrow> admin_user \<Rightarrow> ms \<Rightarrow> int \<Rightarrow> json" where
  "session_json token u now ttlSeconds = JObj [(''token'', JStr token), (''adminId'', JStr (au_id u)),
     (''email'', JStr (au_email u)),
     (''username'', case au_username u of Some n \<Rightarrow> JStr n | None \<Rightarrow> JNull),
     (''role'', JStr (au_role u)), (''createdAt'', JInt now), (''expiresAt'', JInt (now + ttlSeconds * 1000))]"

definition session_token :: "string \<Rightarrow> string" where
  "session_token randomHex = ''nk_sess_'' @ randomHex"

definition createAdminSession ::
  "'r redis \<Rightarrow> ms \<Rightarrow> string \<Rightarrow> admin_user \<Rightarrow> int \<Rightarrow> ('r, json) api_act" where
  "createAdminSession r now randomHex user ttlSeconds =
     (let token = session_token randomHex; session = session_json token user now ttlSeconds
      in thenA (on_redis (\<lambda>s. ((), SET_EX r (SESSION_PREFIX @ token) (json_stringify session) ttlSeconds s)))
           (ret session))"

definition session_field :: "json \<Rightarrow> string \<Rightarrow> json option" where
  "session_field session k = (case session of JObj kvs \<Rightarrow> jm_get kvs k | _ \<Rightarrow> None)"

text \<open>
  \<open>session.expiresAt <= now\<close>: a missing field compares as false, null as zero. Reading a
  field of null throws, which the code catches. Fractions and strings do not occur.
\<close>

definition session_expired :: "ms \<Rightarrow> json \<Rightarrow> bool" where
  "session_expired now session = (case session_field session ''expiresAt'' of
     Some (JInt e) \<Rightarrow> e \<le> now | Some JNull \<Rightarrow> 0 \<le> now | _ \<Rightarrow> False)"

definition getAdminSession :: "'r redis \<Rightarrow> ms \<Rightarrow> string \<Rightarrow> ('r, json option) api_act" where
  "getAdminSession r now token =
     (if \<not> js_startsWith token ''nk_sess_'' then ret None
      else bindA (on_redis (\<lambda>s. (GET r (SESSION_PREFIX @ token) s, s))) (\<lambda>raw.
        case raw of
          None \<Rightarrow> ret None
        | Some t \<Rightarrow>
            (case json_parse t of
               None \<Rightarrow> ret None
             | Some JNull \<Rightarrow> ret None
             | Some session \<Rightarrow>
                 if session_expired now session
                 then thenA (ignore_errors (on_redis (\<lambda>s. ((), snd (DEL r (SESSION_PREFIX @ token) s))))) (ret None)
                 else ret (Some session))))"

definition revokeAdminSession :: "'r redis \<Rightarrow> string \<Rightarrow> ('r, unit) api_act" where
  "revokeAdminSession r token =
     (if token = [] then ret () else on_redis (\<lambda>s. ((), snd (DEL r (SESSION_PREFIX @ token) s))))"

text \<open>What a session text stands for: the session it holds, unless it has expired.\<close>

definition live_session :: "ms \<Rightarrow> string option \<Rightarrow> json option" where
  "live_session now raw =
     (case raw of
        None \<Rightarrow> None
      | Some t \<Rightarrow> (case json_parse t of
            None \<Rightarrow> None | Some JNull \<Rightarrow> None
          | Some session \<Rightarrow> if session_expired now session then None else Some session))"

lemma getAdminSession_answer:
  "getAdminSession r now token w = (Inr s, w') \<Longrightarrow> js_startsWith token ''nk_sess_'' \<Longrightarrow>
     s = live_session now (GET r (SESSION_PREFIX @ token) (w_redis w))"
  by (auto simp: getAdminSession_def live_session_def action_defs Let_def
      split: option.splits prod.splits sum.splits json.splits if_splits)

text \<open>Nothing but the Redis store and the call count changes.\<close>

definition same_api :: "'r api_world \<Rightarrow> 'r api_world \<Rightarrow> bool" where
  "same_api w w' \<longleftrightarrow> w_log w' = w_log w \<and> w_faults w' = w_faults w \<and> aw_db w' = aw_db w
     \<and> aw_projects w' = aw_projects w \<and> aw_keys w' = aw_keys w \<and> aw_admins w' = aw_admins w
     \<and> aw_authCache w' = aw_authCache w \<and> aw_tokenHashes w' = aw_tokenHashes w"

lemma getAdminSession_frame: "getAdminSession r now token w = (s, w') \<Longrightarrow> same_api w w'"
  by (auto simp: getAdminSession_def same_api_def action_defs Let_def
      split: option.splits prod.splits sum.splits json.splits if_splits)

section \<open>The login routes\<close>

record login_body =
  lb_identifier :: string
  lb_password :: string

definition nullable :: "string option \<Rightarrow> json" where
  "nullable s = (case s of Some t \<Rightarrow> JStr t | None \<Rightarrow> JNull)"

definition login ::
  "'r redis \<Rightarrow> kdf \<Rightarrow> ms \<Rightarrow> string \<Rightarrow> (http_error + exn) + issue list + login_body \<Rightarrow> ('r, http_reply) api_act" where
  "login r scrypt now randomHex body =
     (case body of
        Inl e \<Rightarrow> ret (error_reply e)
      | Inr (Inl issues) \<Rightarrow> ret (sendValidationError issues)
      | Inr (Inr b) \<Rightarrow>
          bindA (findByEmailOrUsername (lb_identifier b)) (\<lambda>user.
            let targetHash = (case user of Some u \<Rightarrow> au_passwordHash u | None \<Rightarrow> DUMMY_PASSWORD_HASH);
                password = lb_password b;
                isValid = verifyPassword scrypt password targetHash
                  \<or> js_trim password \<noteq> password \<and> js_trim password \<noteq> []
                      \<and> verifyPassword scrypt (js_trim password) targetHash
            in case user of
                 Some u \<Rightarrow>
                   if isValid
                   then bindA (createAdminSession r now randomHex u DEFAULT_SESSION_TTL_SECONDS) (\<lambda>session.
                     ret (sendJson 200 (JObj [(''token'', JStr (session_token randomHex)),
                       (''user'', JObj [(''id'', JStr (au_id u)), (''email'', JStr (au_email u)),
                          (''username'', nullable (au_username u)), (''role'', JStr (au_role u))]),
                       (''expiresAt'', JInt (now + DEFAULT_SESSION_TTL_SECONDS * 1000))])))
                   else ret (reply_message 401 ''unauthorized'' ''Invalid credentials'')
               | None \<Rightarrow> ret (reply_message 401 ''unauthorized'' ''Invalid credentials'')))"

definition logout :: "'r redis \<Rightarrow> http_request \<Rightarrow> ('r, http_reply) api_act" where
  "logout r req =
     thenA (case extractAuthToken req of
              Some token \<Rightarrow> if token = [] then ret () else revokeAdminSession r token
            | None \<Rightarrow> ret ())
       (ret (sendJson 200 (JObj [(''message'', JStr ''Logged out successfully'')])))"

text \<open>A field that the session lacks is left out of the reply.\<close>

definition json_fields :: "(string \<times> json option) list \<Rightarrow> json" where
  "json_fields kvs = JObj (List.map_filter (\<lambda>(k, v). map_option (Pair k) v) kvs)"

definition getMe :: "'r redis \<Rightarrow> ms \<Rightarrow> http_request \<Rightarrow> ('r, http_reply) api_act" where
  "getMe r now req =
     (case extractAuthToken req of
        None \<Rightarrow> ret (reply_message 401 ''unauthorized'' ''Missing token'')
      | Some token \<Rightarrow>
          if token = [] then ret (reply_message 401 ''unauthorized'' ''Missing token'')
          else bindA (getAdminSession r now token) (\<lambda>s. case s of
            None \<Rightarrow> ret (reply_message 401 ''unauthorized'' ''Invalid or expired session'')
          | Some session \<Rightarrow> ret (sendJson 200 (JObj [(''user'', json_fields
               [(''id'', session_field session ''adminId''), (''email'', session_field session ''email''),
                (''username'', session_field session ''username''), (''role'', session_field session ''role'')])]))))"

section \<open>A login opens a session that reads back and that a logout ends\<close>

lemma hex_digit_val: "n < 16 \<Longrightarrow> hex_val (hex_digit n) = Some n"
  by (auto simp: hex_val_def hex_digit_def Let_def)

lemma hex_roundtrip [simp]: "hex_decode (hex_encode bs) = bs"
proof (induction bs)
  case (Cons b bs)
  have "(of_char b :: nat) div 16 < 16" using of_char_bound [of b] by (simp add: less_mult_imp_div_less)
  then show ?case using Cons by (simp add: hex_encode_def hex_digit_val)
qed (simp add: hex_encode_def)

lemma hex_encode_chars: "CHR '':'' \<notin> set (hex_encode bs)"
proof -
  have "\<forall>n \<in> set [0..<16]. hex_digit n \<noteq> CHR '':''" by code_simp
  then have "n < 16 \<Longrightarrow> hex_digit n \<noteq> CHR '':''" for n by simp
  moreover have "(of_char b :: nat) div 16 < 16" for b using of_char_bound [of b] by (simp add: less_mult_imp_div_less)
  moreover have "(of_char b :: nat) mod 16 < 16" for b by simp
  ultimately have "CHR '':'' \<noteq> hex_digit (of_char b div 16)" "CHR '':'' \<noteq> hex_digit (of_char b mod 16)" for b
    by metis+
  then show ?thesis by (auto simp: hex_encode_def)
qed

lemma hex_encode_eq_Nil [simp]: "hex_encode bs = [] \<longleftrightarrow> bs = []"
  by (cases bs) (auto simp: hex_encode_def)

text \<open>A hashed password verifies, and only a password with the same derived key does.\<close>

lemma password_roundtrip:
  assumes "saltBytes \<noteq> []" and key: "\<And>p s. length (scrypt p s 64) = 64"
  shows "verifyPassword scrypt p' (hashPassword scrypt saltBytes p)
      \<longleftrightarrow> scrypt p' (hex_encode saltBytes) 64 = scrypt p (hex_encode saltBytes) 64"
proof -
  have "js_split (CHR '':'') (hashPassword scrypt saltBytes p)
      = [hex_encode saltBytes, hex_encode (scrypt p (hex_encode saltBytes) 64)]"
    using js_split_append [OF hex_encode_chars, of saltBytes "hex_encode (scrypt p (hex_encode saltBytes) 64)"]
    by (simp add: hashPassword_def Let_def js_split_single hex_encode_chars)
  moreover have "scrypt p (hex_encode saltBytes) 64 \<noteq> []" using key [of p "hex_encode saltBytes"] by auto
  ultimately show ?thesis using assms(1) by (simp add: verifyPassword_def key)
qed

lemma session_plain: "json_plain (session_json token u now ttl)"
  by (simp add: session_json_def split: option.split)

lemma session_reads_back:
  assumes "redis_string_laws r" "0 < ttl" "now' < now + ttl * 1000"
  shows "live_session now' (GET r (SESSION_PREFIX @ token)
      (SET_EX r (SESSION_PREFIX @ token) (json_stringify (session_json token u now ttl)) ttl s))
      = Some (session_json token u now ttl)"
proof -
  have "json_parse (json_stringify (session_json token u now ttl)) = Some (session_json token u now ttl)"
    by (rule json_parse_stringify) (rule session_plain)
  moreover have "\<not> session_expired now' (session_json token u now ttl)"
    using assms(3) by (simp add: session_expired_def session_field_def session_json_def)
  ultimately show ?thesis using assms(1,2)
    by (simp add: live_session_def redis_string_laws_def session_json_def)
qed

end
