(* ===== verification/Api_Gate.thy ===== *)
theory Api_Gate
  imports Admin_Session Api_Router
begin

text \<open>
  The entry of the HTTP API (\<open>handleRequest\<close> of \<open>src/src/services/api/main.ts\<close>): CORS,
  authentication by admin session, admin key or project key, the read-only check, the rate
  limits, and the dispatch to a route; and the invalidation of cached keys.

  \<open>gate_env\<close> holds what a request meets: the Redis commands, SHA-256, the clock, whether the
  URL parser takes a target, the answer of the project's rate limiter (\<open>Rate_Limiter\<close>), and of
  the dashboard's file server.
\<close>

record api_config =
  cf_ADMIN_API_KEY :: "string option"
  cf_TRUST_PROXY :: int
  cf_CORS_ORIGIN :: "string option"

record 'r gate_env =
  ge_redis :: "'r redis"
  ge_sha256 :: "string \<Rightarrow> string"
  ge_now :: ms
  ge_url_ok :: "string \<Rightarrow> bool"
  ge_limiter :: "string \<Rightarrow> int \<Rightarrow> exn + bool"
  ge_static :: "exn + bool"

record RouteContext =
  rc_params :: route_params
  rc_query :: query_params
  rc_projectId :: "string option"
  rc_role :: key_role
  rc_isAdmin :: bool

datatype 'h gate_outcome = Replied http_reply | Routed 'h RouteContext | ServedStatic

section \<open>Which paths need what\<close>

definition isProjectManagement :: "string \<Rightarrow> bool" where
  "isProjectManagement path = (path = ''/v1/projects'' \<or> js_startsWith path ''/v1/projects/'')"

definition isPublicUnsubscribe :: "string \<Rightarrow> bool" where
  "isPublicUnsubscribe path = (path = ''/v1/unsubscribe'')"

definition isPublicAuth :: "string \<Rightarrow> bool" where
  "isPublicAuth path = (path = ''/v1/auth/login'')"

definition needs_key :: "string \<Rightarrow> bool" where
  "needs_key path = (js_startsWith path ''/v1/'' \<and> \<not> isProjectManagement path
     \<and> \<not> isPublicUnsubscribe path \<and> \<not> isPublicAuth path)"

definition isProjectAgnostic :: "string \<Rightarrow> bool" where
  "isProjectAgnostic path = (js_startsWith path ''/v1/auth/'' \<or> js_startsWith path ''/v1/system/''
     \<or> js_startsWith path ''/v1/dlq'')"

definition isSessionRoute :: "string \<Rightarrow> bool" where
  "isSessionRoute path = (js_startsWith path ''/v1/auth/'' \<or> isProjectManagement path
     \<or> js_startsWith path ''/v1/system/'' \<or> js_startsWith path ''/v1/dlq'')"

definition cors_headers :: "api_config \<Rightarrow> http_request \<Rightarrow> string \<Rightarrow> (string \<times> string) list" where
  "cors_headers cfg req path =
     (let allowedOrigins = filter (\<lambda>s. s \<noteq> []) (map js_trim (js_split (CHR '','')
            (case cf_CORS_ORIGIN cfg of Some o' \<Rightarrow> o' | None \<Rightarrow> '''')))
      in (if isSessionRoute path
          then (case header_string ''origin'' req of
                  Some origin \<Rightarrow> if origin \<noteq> [] \<and> origin \<in> set allowedOrigins
                    then [(''Access-Control-Allow-Origin'', origin), (''Vary'', ''Origin'')] else []
                | None \<Rightarrow> [])
          else [(''Access-Control-Allow-Origin'', ''*'')])
         @ [(''Access-Control-Allow-Methods'', ''GET, POST, PUT, PATCH, DELETE, OPTIONS''),
            (''Access-Control-Allow-Headers'',
             ''Content-Type, Authorization, x-api-key, x-project-id, x-idempotency-key'')])"

section \<open>Credentials\<close>

definition isAdminApiKey :: "api_config \<Rightarrow> string \<Rightarrow> bool" where
  "isAdminApiKey cfg token = (case cf_ADMIN_API_KEY cfg of
     Some k \<Rightarrow> k \<noteq> [] \<and> length (utf8_encode k) = length (utf8_encode token) \<and> utf8_encode k = utf8_encode token
   | None \<Rightarrow> False)"

definition sessionKeyRole :: "json option \<Rightarrow> key_role" where
  "sessionKeyRole role = (if role = Some (JStr ''superadmin'') \<or> role = Some (JStr ''admin'') then KeyAdmin else KeyReadOnly)"

definition given :: "string option \<Rightarrow> string option" where
  "given s = (case s of Some [] \<Rightarrow> None | _ \<Rightarrow> s)"

text \<open>The parsed query, or the TypeError of the URL parser.\<close>

definition query_of :: "'r gate_env \<Rightarrow> string \<Rightarrow> ('r, query_params) api_act" where
  "query_of e url = (case search_params (ge_url_ok e) url of
     Some q \<Rightarrow> ret q | None \<Rightarrow> throw (Error ''Invalid URL''))"

definition request_token :: "'r gate_env \<Rightarrow> http_request \<Rightarrow> string \<Rightarrow> ('r, string option) api_act" where
  "request_token e req url =
     (case given (extractAuthToken req) of
        Some t \<Rightarrow> ret (Some t)
      | None \<Rightarrow> bindA (query_of e url) (\<lambda>q. ret (given (getQueryParam q ''token''))))"

text \<open>The role of an admin token: a live session, or the configured key.\<close>

definition admin_role :: "'r gate_env \<Rightarrow> api_config \<Rightarrow> string \<Rightarrow> ('r, key_role option) api_act" where
  "admin_role e cfg token =
     (if js_startsWith token ''nk_sess_''
      then bindA (getAdminSession (ge_redis e) (ge_now e) token) (\<lambda>s. ret
             (map_option (\<lambda>session. sessionKeyRole (session_field session ''role'')) s))
      else ret (if isAdminApiKey cfg token then Some KeyAdmin else None))"

definition AUTH_CACHE_TTL_MS :: ms where
  "AUTH_CACHE_TTL_MS = 60000"

definition new_auth_cache :: "(string, CachedAuthKey) lru" where
  "new_auth_cache = lru_new 1000 AUTH_CACHE_TTL_MS"

definition cached_key :: "ms \<Rightarrow> string \<Rightarrow> ('r, CachedAuthKey option) api_act" where
  "cached_key now token w = (case lru_get now token (aw_authCache w) of
     (hit, c) \<Rightarrow> (Inr hit, w\<lparr>aw_authCache := c\<rparr>))"

text \<open>After a lookup: the entry, its token by hash, and both dropped when the index outgrows 2000.\<close>

definition remember_key :: "ms \<Rightarrow> string \<Rightarrow> CachedAuthKey \<Rightarrow> 'r api_world \<Rightarrow> 'r api_world" where
  "remember_key now token entry w =
     (let cache = lru_set now token entry None (aw_authCache w);
          hashes = jm_set (ca_tokenHash entry) token (aw_tokenHashes w)
      in if length hashes > 2000
         then w\<lparr>aw_authCache := lru_clear cache, aw_tokenHashes := []\<rparr>
         else w\<lparr>aw_authCache := cache, aw_tokenHashes := hashes\<rparr>)"

definition key_entry :: "string \<Rightarrow> project_row \<times> key_role \<Rightarrow> CachedAuthKey" where
  "key_entry tokenHash pk = (case pk of (p, role) \<Rightarrow> \<lparr>ca_projectId = pj_id p,
     ca_rateLimitRpm = (case pj_rateLimitRpm p of Some n \<Rightarrow> n | None \<Rightarrow> 600),
     ca_keyRole = role, ca_tokenHash = tokenHash\<rparr>)"

definition key_auth :: "'r gate_env \<Rightarrow> string \<Rightarrow> ('r, CachedAuthKey option) api_act" where
  "key_auth e token =
     bindA (cached_key (ge_now e) token) (\<lambda>hit. case hit of
       Some v \<Rightarrow> ret (Some v)
     | None \<Rightarrow>
         (let tokenHash = ge_sha256 e token
          in bindA (select (key_of_hash tokenHash)) (\<lambda>row. case row of
               None \<Rightarrow> ret None
             | Some pk \<Rightarrow> thenA (modify (remember_key (ge_now e) token (key_entry tokenHash pk)))
                 (ret (Some (key_entry tokenHash pk))))))"

section \<open>The checks in their order\<close>

record api_auth =
  au_projectId :: "string option"
  au_rpm :: int
  au_keyRole :: key_role
  au_isAdmin :: bool

definition open_auth :: api_auth where
  "open_auth = \<lparr>au_projectId = None, au_rpm = 600, au_keyRole = KeyAdmin, au_isAdmin = False\<rparr>"

definition method_of :: "http_request \<Rightarrow> string" where
  "method_of req = (case rq_method req of Some m \<Rightarrow> m | None \<Rightarrow> ''GET'')"

definition unauthorized :: "string \<Rightarrow> http_reply" where
  "unauthorized message = reply_message 401 ''unauthorized'' message"

definition retry_later :: "http_reply \<Rightarrow> http_reply" where
  "retry_later r = r\<lparr>rp_headers := (''Retry-After'', ''60'') # rp_headers r\<rparr>"

text \<open>Who the token is, for a path that takes project keys.\<close>

definition key_identity ::
  "'r gate_env \<Rightarrow> api_config \<Rightarrow> http_request \<Rightarrow> string \<Rightarrow> string \<Rightarrow> string \<Rightarrow> ('r, http_reply + api_auth) api_act" where
  "key_identity e cfg req path url token =
     bindA (admin_role e cfg token) (\<lambda>role. case role of
       Some keyRole \<Rightarrow>
         bindA (case given (header_string ''x-project-id'' req) of
                  Some p \<Rightarrow> ret (Some p)
                | None \<Rightarrow> bindA (query_of e url) (\<lambda>q. ret (given (getQueryParam q ''projectId''))))
           (\<lambda>headerProjectId.
             if headerProjectId = None \<and> \<not> isProjectAgnostic path
             then ret (Inl (reply_message 400 ''bad_request''
                    ''x-project-id header or projectId query param required when using admin token''))
             else ret (Inr \<lparr>au_projectId = headerProjectId, au_rpm = 6000, au_keyRole = keyRole, au_isAdmin = True\<rparr>))
     | None \<Rightarrow>
         bindA (key_auth e token) (\<lambda>k. case k of
           None \<Rightarrow> ret (Inl (unauthorized ''Invalid or missing API key''))
         | Some v \<Rightarrow> ret (Inr \<lparr>au_projectId = Some (ca_projectId v), au_rpm = ca_rateLimitRpm v,
                             au_keyRole = ca_keyRole v, au_isAdmin = False\<rparr>)))"

definition read_only_refuses :: "http_request \<Rightarrow> string \<Rightarrow> key_role \<Rightarrow> bool" where
  "read_only_refuses req path role = (role = KeyReadOnly \<and> path \<noteq> ''/v1/auth/logout''
     \<and> rq_method req \<noteq> Some ''GET'' \<and> rq_method req \<noteq> Some ''OPTIONS'')"

definition limiter_key :: "string option \<Rightarrow> string" where
  "limiter_key projectId = (case given projectId of Some p \<Rightarrow> p | None \<Rightarrow> ''global'')"

definition key_checks ::
  "'r gate_env \<Rightarrow> http_request \<Rightarrow> string \<Rightarrow> api_auth \<Rightarrow> ('r, http_reply + api_auth) api_act" where
  "key_checks e req path auth =
     (if read_only_refuses req path (au_keyRole auth)
      then ret (Inl (reply_message 403 ''forbidden'' ''API key is read-only''))
      else bindA (awaited (ge_limiter e (limiter_key (au_projectId auth)) (au_rpm auth))) (\<lambda>ok.
        if ok then ret (Inr auth)
        else ret (Inl (retry_later (reply_message 429 ''too_many_requests''
               (''Project rate limit exceeded (max '' @ show_int (au_rpm auth) @ '' req/min)''))))))"

definition management_auth :: "'r gate_env \<Rightarrow> api_config \<Rightarrow> http_request \<Rightarrow> ('r, http_reply + api_auth) api_act" where
  "management_auth e cfg req =
     (case given (extractAuthToken req) of
        None \<Rightarrow> ret (Inl (unauthorized ''Missing admin token''))
      | Some token \<Rightarrow>
          bindA (admin_role e cfg token) (\<lambda>role. case role of
            None \<Rightarrow> ret (Inl (unauthorized ''Invalid admin token''))
          | Some keyRole \<Rightarrow>
              if keyRole = KeyReadOnly \<and> rq_method req \<noteq> Some ''GET''
              then ret (Inl (reply_message 403 ''forbidden'' ''Session is read-only''))
              else ret (Inr (open_auth\<lparr>au_isAdmin := True\<rparr>))))"

definition authorise ::
  "'r gate_env \<Rightarrow> api_config \<Rightarrow> http_request \<Rightarrow> string \<Rightarrow> string \<Rightarrow> ('r, http_reply + api_auth) api_act" where
  "authorise e cfg req path url =
     (if needs_key path
      then bindA (request_token e req url) (\<lambda>t. case t of
             None \<Rightarrow> ret (Inl (unauthorized ''Invalid or missing API key''))
           | Some token \<Rightarrow> bindA (key_identity e cfg req path url token) (\<lambda>i. case i of
               Inl reply \<Rightarrow> ret (Inl reply) | Inr auth \<Rightarrow> key_checks e req path auth))
      else if isProjectManagement path then management_auth e cfg req
      else ret (Inr open_auth))"

text \<open>The caps of the public routes; an unreachable store lets the request through.\<close>

definition ip_cap :: "'r gate_env \<Rightarrow> string \<Rightarrow> int \<Rightarrow> http_reply \<Rightarrow> ('r, http_reply option) api_act" where
  "ip_cap e key cap reply =
     catchA (bindA (on_redis (lua_count_request (ge_redis e) key 60)) (\<lambda>count.
        ret (if cap < count then Some (retry_later reply) else None))) (\<lambda>_. ret None)"

definition public_caps ::
  "'r gate_env \<Rightarrow> api_config \<Rightarrow> http_request \<Rightarrow> string \<Rightarrow> ('r, http_reply option) api_act" where
  "public_caps e cfg req path =
     (let clientIp = getClientIp req (cf_TRUST_PROXY cfg)
      in if isPublicUnsubscribe path
         then ip_cap e (''rate-limit:api:unsub:'' @ clientIp) 60 (reply_error 429 ''too_many_requests'')
         else if isPublicAuth path
         then ip_cap e (''rate-limit:api:auth:'' @ clientIp) 10 (reply_message 429 ''too_many_requests''
                ''Too many login attempts. Please try again later.'')
         else ret None)"

definition static_handled :: "'r gate_env \<Rightarrow> string \<Rightarrow> string \<Rightarrow> ('r, bool) api_act" where
  "static_handled e path url =
     (if path = ''/admin'' \<or> js_startsWith path ''/admin/''
      then bindA (query_of e url) (\<lambda>_. awaited (ge_static e)) else ret False)"

definition route_request ::
  "'r gate_env \<Rightarrow> api_config \<Rightarrow> 'h Router \<Rightarrow> http_request \<Rightarrow> string \<Rightarrow> string \<Rightarrow> api_auth
    \<Rightarrow> ('r, 'h gate_outcome) api_act" where
  "route_request e cfg router req path url auth =
     bindA (public_caps e cfg req path) (\<lambda>capped. case capped of
       Some reply \<Rightarrow> ret (Replied reply)
     | None \<Rightarrow> (case router_match (method_of req) path router of
           None \<Rightarrow> ret (Replied (reply_error 404 ''not_found''))
         | Some (h, params) \<Rightarrow> bindA (query_of e url) (\<lambda>q.
             ret (Routed h \<lparr>rc_params = params, rc_query = q, rc_projectId = au_projectId auth,
               rc_role = au_keyRole auth, rc_isAdmin = au_isAdmin auth\<rparr>))))"

definition url_of :: "http_request \<Rightarrow> string" where
  "url_of req = (case rq_url req of Some u \<Rightarrow> u | None \<Rightarrow> ''/'')"

definition path_name :: "http_request \<Rightarrow> string" where
  "path_name req = takeWhile ((\<noteq>) CHR ''?'') (url_of req)"

definition handleRequest ::
  "'r gate_env \<Rightarrow> api_config \<Rightarrow> 'h Router \<Rightarrow> http_request \<Rightarrow> ('r, 'h gate_outcome) api_act" where
  "handleRequest e cfg router req =
     (if rq_method req = Some ''OPTIONS'' then ret (Replied \<lparr>rp_status = 204, rp_headers = [], rp_body = NoBody\<rparr>)
      else bindA (static_handled e (path_name req) (url_of req)) (\<lambda>handled.
        if handled then ret ServedStatic
        else bindA (authorise e cfg req (path_name req) (url_of req)) (\<lambda>r. case r of
          Inl reply \<Rightarrow> ret (Replied reply)
        | Inr auth \<Rightarrow> route_request e cfg router req (path_name req) (url_of req) auth)))"

text \<open>The subscriber of the invalidation channel.\<close>

definition invalidate_keys :: "string \<Rightarrow> 'r api_world \<Rightarrow> 'r api_world" where
  "invalidate_keys message w =
     (if message = ''*'' then w\<lparr>aw_authCache := lru_clear (aw_authCache w), aw_tokenHashes := []\<rparr>
      else
        let w = (case jm_get (aw_tokenHashes w) message of
              Some token \<Rightarrow> if token = [] then w
                 else w\<lparr>aw_authCache := lru_delete token (aw_authCache w),
                        aw_tokenHashes := jm_delete message (aw_tokenHashes w)\<rparr>
            | None \<Rightarrow> w)
        in w\<lparr>aw_authCache := lru_delete message (aw_authCache w)\<rparr>)"


section \<open>What a token is worth\<close>

text \<open>The specification of the checks: what a token stands for in a world.\<close>

datatype grant = AdminGrant key_role | KeyGrant CachedAuthKey

definition admin_grant :: "'r gate_env \<Rightarrow> api_config \<Rightarrow> 'r api_world \<Rightarrow> string \<Rightarrow> key_role option" where
  "admin_grant e cfg w token =
     (if js_startsWith token ''nk_sess_''
      then map_option (\<lambda>session. sessionKeyRole (session_field session ''role''))
             (live_session (ge_now e) (GET (ge_redis e) (SESSION_PREFIX @ token) (w_redis w)))
      else if isAdminApiKey cfg token then Some KeyAdmin else None)"

definition key_grant :: "'r gate_env \<Rightarrow> 'r api_world \<Rightarrow> string \<Rightarrow> CachedAuthKey option" where
  "key_grant e w token =
     (case fst (lru_get (ge_now e) token (aw_authCache w)) of
        Some v \<Rightarrow> Some v
      | None \<Rightarrow> map_option (key_entry (ge_sha256 e token)) (key_of_hash (ge_sha256 e token) w))"

definition token_grant :: "'r gate_env \<Rightarrow> api_config \<Rightarrow> 'r api_world \<Rightarrow> string \<Rightarrow> grant option" where
  "token_grant e cfg w token =
     (case admin_grant e cfg w token of
        Some role \<Rightarrow> Some (AdminGrant role)
      | None \<Rightarrow> map_option KeyGrant (key_grant e w token))"

fun grant_role :: "grant \<Rightarrow> key_role" where
  "grant_role (AdminGrant role) = role"
| "grant_role (KeyGrant v) = ca_keyRole v"

definition token_of :: "'r gate_env \<Rightarrow> http_request \<Rightarrow> string \<Rightarrow> string option" where
  "token_of e req url =
     (case given (extractAuthToken req) of
        Some t \<Rightarrow> Some t
      | None \<Rightarrow> (case search_params (ge_url_ok e) url of
            Some q \<Rightarrow> given (getQueryParam q ''token'') | None \<Rightarrow> None))"

text \<open>The context a handler is given fits the grant of the caller's token.\<close>

definition context_fits :: "string \<Rightarrow> grant \<Rightarrow> RouteContext \<Rightarrow> bool" where
  "context_fits path g ctx \<longleftrightarrow> rc_role ctx = grant_role g
     \<and> (case g of
          AdminGrant _ \<Rightarrow> rc_isAdmin ctx \<and> (rc_projectId ctx \<noteq> None \<or> isProjectAgnostic path)
        | KeyGrant v \<Rightarrow> \<not> rc_isAdmin ctx \<and> rc_projectId ctx = Some (ca_projectId v))"

section \<open>The steps of the checks\<close>

lemma bindA_Inr:
  assumes "bindA m f w = (Inr b, w'')"
  obtains a w' where "m w = (Inr a, w')" "f a w' = (Inr b, w'')"
  using assms by (cases "m w") (auto simp: bindA_def split: sum.splits)

lemma same_api_refl [simp]: "same_api w w"
  by (simp add: same_api_def)

lemma ret_run [simp]: "ret a w = (r, w') \<longleftrightarrow> r = Inr a \<and> w' = w"
  by (auto simp: ret_def)

lemma query_of_run: "query_of e url w = (Inr q, w') \<longleftrightarrow> search_params (ge_url_ok e) url = Some q \<and> w' = w"
  by (auto simp: query_of_def throw_def split: option.split)

lemma request_token_run: "request_token e req url w = (Inr t, w') \<Longrightarrow> t = token_of e req url \<and> w' = w"
  by (auto simp: request_token_def token_of_def query_of_run elim!: bindA_Inr split: option.splits)

lemma admin_role_run:
  assumes "admin_role e cfg token w = (Inr role, w')"
  shows "role = admin_grant e cfg w token" "same_api w w'"
  using assms
  by (auto simp: admin_role_def admin_grant_def elim!: bindA_Inr split: if_splits
      dest: getAdminSession_answer getAdminSession_frame)

lemma key_of_hash_same: "same_api w w' \<Longrightarrow> key_of_hash h w' = key_of_hash h w"
  by (simp add: key_of_hash_def same_api_def cong: option.case_cong)

lemma key_grant_same:
  assumes "same_api w w'"
  shows "key_grant e w' token = key_grant e w token"
proof -
  have "aw_authCache w' = aw_authCache w" using assms by (simp add: same_api_def)
  then show ?thesis by (simp add: key_grant_def key_of_hash_same [OF assms] cong: option.case_cong)
qed

lemma key_auth_run: "key_auth e token w = (Inr k, w') \<Longrightarrow> key_grant e w token = k"
  by (auto simp: key_auth_def key_grant_def cached_key_def select_def attempt_def bindA_def thenA_def modify_def
      key_of_hash_def Let_def ret_def split: prod.splits option.splits)

lemma key_identity_run:
  assumes "key_identity e cfg req path url token w = (Inr (Inr auth), w')"
  obtains g where "token_grant e cfg w token = Some g" "au_keyRole auth = grant_role g"
    "case g of AdminGrant _ \<Rightarrow> au_isAdmin auth \<and> (au_projectId auth \<noteq> None \<or> isProjectAgnostic path)
       | KeyGrant v \<Rightarrow> \<not> au_isAdmin auth \<and> au_projectId auth = Some (ca_projectId v)"
proof -
  from assms obtain role w1 where r: "admin_role e cfg token w = (Inr role, w1)" by (auto simp: key_identity_def elim: bindA_Inr)
  note role = admin_role_run [OF r]
  show ?thesis
  proof (cases role)
    case None
    with assms r obtain v where "key_auth e token w1 = (Inr (Some v), w')"
      and auth: "auth = \<lparr>au_projectId = Some (ca_projectId v), au_rpm = ca_rateLimitRpm v,
        au_keyRole = ca_keyRole v, au_isAdmin = False\<rparr>"
      by (simp add: key_identity_def bindA_def split: prod.splits sum.splits option.splits)
    then have "key_grant e w1 token = Some v" by (auto dest: key_auth_run)
    with role None auth show ?thesis
      by (intro that [of "KeyGrant v"]) (simp_all add: token_grant_def key_grant_same)
  next
    case (Some k)
    with assms r role show ?thesis
      by (intro that [of "AdminGrant k"])
         (auto simp: key_identity_def token_grant_def query_of_run elim!: bindA_Inr split: option.splits if_splits)
  qed
qed

lemma key_checks_run:
  "key_checks e req path auth w = (Inr (Inr auth'), w') \<Longrightarrow>
     auth' = auth \<and> \<not> read_only_refuses req path (au_keyRole auth)"
  by (auto simp: key_checks_def elim!: bindA_Inr split: if_splits)

lemma management_auth_run:
  assumes "management_auth e cfg req w = (Inr (Inr auth), w')"
  obtains token role where "given (extractAuthToken req) = Some token"
    "admin_grant e cfg w token = Some role" "role = KeyAdmin \<or> rq_method req = Some ''GET''"
    "auth = open_auth\<lparr>au_isAdmin := True\<rparr>"
  using assms
  by (auto simp: management_auth_def elim!: bindA_Inr dest!: admin_role_run(1) split: option.splits if_splits)
     (metis key_role.exhaust)+

text \<open>A routed request was authorised, and its context holds what the checks established.\<close>

lemma static_handled_run: "static_handled e path url w = (Inr b, w') \<Longrightarrow> w' = w"
  by (auto simp: static_handled_def query_of_run awaited_def elim!: bindA_Inr split: if_splits)

lemma route_request_run:
  assumes "route_request e cfg router req path url auth w = (Inr (Routed h ctx), w')"
  shows "rc_projectId ctx = au_projectId auth \<and> rc_role ctx = au_keyRole auth \<and> rc_isAdmin ctx = au_isAdmin auth"
    and "router_match (method_of req) path router = Some (h, rc_params ctx)"
    and "search_params (ge_url_ok e) url = Some (rc_query ctx)"
  using assms by (auto simp: route_request_def query_of_run elim!: bindA_Inr split: option.splits)

lemma handleRequest_run:
  assumes "handleRequest e cfg router req w = (Inr (Routed h ctx), w')"
  obtains auth w1 where "authorise e cfg req (path_name req) (url_of req) w = (Inr (Inr auth), w1)"
    "route_request e cfg router req (path_name req) (url_of req) auth w1 = (Inr (Routed h ctx), w')"
    "rq_method req \<noteq> Some ''OPTIONS''"
  using assms
  by (auto simp: handleRequest_def elim!: bindA_Inr dest!: static_handled_run split: if_splits sum.splits)

end
