(* ===== verification/Api_Access.thy ===== *)
theory Api_Access
  imports Api_Gate
begin

text \<open>
  What the entry of the API guarantees: who reaches a route, with which context, and how long a
  revoked key is remembered; and the route table of \<open>startApiServer\<close>.
\<close>

section \<open>The routes\<close>

datatype api_handler =
    Login | Logout | GetMe
  | SyncTemplates | ListTemplates | GetTemplate | DeleteTemplate
  | AddUser | ListUsers | GetUser | GetUserDetails | UpdateUser | DeleteUser
  | AddContact | GetUserContacts | DeleteContact | GetUserPreferences | UpdateUserPreferences
  | Notify | GetScheduledMessages | GetNotificationLogs | GetNotificationStatus | CancelNotification
  | UnsubscribePage | UnsubscribePost
  | ListCampaigns | GetCampaignStats
  | ListSuppressions | CreateSuppression | DeleteSuppression
  | GetSystemHealth | GetSystemMetrics | GetDLQMessages | ReplayDLQMessage | DeleteDLQMessage
  | CreateWorkflow | ListWorkflows | GetWorkflow | CancelWorkflow | TriggerWorkflow
  | ListSegments | IngestEvent | GetEventsStream
  | ListProjects | CreateProject | DeleteProject | UpdateProject | CreateProjectKey | ListProjectKeys | DeleteProjectKey
  | Health | Metrics | Live | Ready

definition api_routes :: "api_handler route_entry list" where
  "api_routes =
     [(''POST'', ''/v1/auth/login'', Login), (''POST'', ''/v1/auth/logout'', Logout), (''GET'', ''/v1/auth/me'', GetMe),
      (''PUT'', ''/v1/templates'', SyncTemplates), (''GET'', ''/v1/templates'', ListTemplates),
      (''GET'', ''/v1/templates/:id'', GetTemplate), (''DELETE'', ''/v1/templates/:id'', DeleteTemplate),
      (''POST'', ''/v1/users'', AddUser), (''GET'', ''/v1/users'', ListUsers), (''GET'', ''/v1/users/:id'', GetUser),
      (''GET'', ''/v1/users/:id/details'', GetUserDetails), (''PATCH'', ''/v1/users/:id'', UpdateUser),
      (''DELETE'', ''/v1/users/:id'', DeleteUser), (''POST'', ''/v1/users/:id/contacts'', AddContact),
      (''GET'', ''/v1/users/:id/contacts'', GetUserContacts),
      (''DELETE'', ''/v1/users/:id/contacts/:channel/:target'', DeleteContact),
      (''GET'', ''/v1/users/:id/preferences'', GetUserPreferences),
      (''PATCH'', ''/v1/users/:id/preferences'', UpdateUserPreferences),
      (''POST'', ''/v1/notify'', Notify), (''GET'', ''/v1/notifications/scheduled'', GetScheduledMessages),
      (''GET'', ''/v1/notifications/logs'', GetNotificationLogs),
      (''GET'', ''/v1/notifications/:taskId'', GetNotificationStatus),
      (''DELETE'', ''/v1/notifications/:taskId'', CancelNotification),
      (''GET'', ''/v1/unsubscribe'', UnsubscribePage), (''POST'', ''/v1/unsubscribe'', UnsubscribePost),
      (''GET'', ''/v1/campaigns'', ListCampaigns), (''GET'', ''/v1/campaigns/:campaign/stats'', GetCampaignStats),
      (''GET'', ''/v1/suppressions'', ListSuppressions), (''POST'', ''/v1/suppressions'', CreateSuppression),
      (''DELETE'', ''/v1/suppressions/:channel/:target'', DeleteSuppression),
      (''GET'', ''/v1/system/health'', GetSystemHealth), (''GET'', ''/v1/system/metrics'', GetSystemMetrics),
      (''GET'', ''/v1/dlq'', GetDLQMessages), (''POST'', ''/v1/dlq/replay'', ReplayDLQMessage),
      (''DELETE'', ''/v1/dlq/:id'', DeleteDLQMessage),
      (''POST'', ''/v1/workflows'', CreateWorkflow), (''GET'', ''/v1/workflows'', ListWorkflows),
      (''GET'', ''/v1/workflows/instances/:id'', GetWorkflow),
      (''DELETE'', ''/v1/workflows/instances/:id'', CancelWorkflow),
      (''POST'', ''/v1/workflows/trigger'', TriggerWorkflow), (''GET'', ''/v1/segments'', ListSegments),
      (''POST'', ''/v1/events'', IngestEvent), (''GET'', ''/v1/events/stream'', GetEventsStream),
      (''GET'', ''/v1/projects'', ListProjects), (''POST'', ''/v1/projects'', CreateProject),
      (''DELETE'', ''/v1/projects/:id'', DeleteProject), (''PATCH'', ''/v1/projects/:id'', UpdateProject),
      (''POST'', ''/v1/projects/:id/keys'', CreateProjectKey), (''GET'', ''/v1/projects/:id/keys'', ListProjectKeys),
      (''DELETE'', ''/v1/projects/:id/keys/:keyId'', DeleteProjectKey),
      (''GET'', ''/health'', Health), (''GET'', ''/metrics'', Metrics), (''GET'', ''/live'', Live), (''GET'', ''/ready'', Ready)]"

definition api_router :: "api_handler Router" where
  "api_router = router_of api_routes"

section \<open>Who reaches a route\<close>

lemma routed_grant:
  assumes "handleRequest e cfg router req w = (Inr (Routed h ctx), w')"
    and "needs_key (path_name req)"
  shows "\<exists>token g. token_of e req (url_of req) = Some token \<and> token_grant e cfg w token = Some g
      \<and> context_fits (path_name req) g ctx"
proof -
  from assms(1) obtain auth w1 where
    "authorise e cfg req (path_name req) (url_of req) w = (Inr (Inr auth), w1)"
    and ctx: "route_request e cfg router req (path_name req) (url_of req) auth w1 = (Inr (Routed h ctx), w')"
    by (rule handleRequest_run)
  with assms(2) obtain token w2 where "token_of e req (url_of req) = Some token"
    and i: "key_identity e cfg req (path_name req) (url_of req) token w = (Inr (Inr auth), w2)"
    by (auto simp: authorise_def elim!: bindA_Inr dest!: request_token_run key_checks_run
        split: option.splits sum.splits)
  moreover from i obtain g where "token_grant e cfg w token = Some g" "au_keyRole auth = grant_role g"
    "case g of AdminGrant _ \<Rightarrow> au_isAdmin auth \<and> (au_projectId auth \<noteq> None \<or> isProjectAgnostic (path_name req))
       | KeyGrant v \<Rightarrow> \<not> au_isAdmin auth \<and> au_projectId auth = Some (ca_projectId v)"
    by (rule key_identity_run)
  ultimately show ?thesis using route_request_run(1) [OF ctx]
    by (auto simp: context_fits_def split: grant.splits)
qed

text \<open>
  C5: Whatever calls fail, a request under \<open>/v1/\<close> that reaches a route (other than the login,
  the unsubscribe page and the project routes) carried a token that stands for something at that
  moment, a live session, the admin key or a project's key, and its handler works with that
  token's role and, for a project key, on that key's own project only.
\<close>

theorem api_route_needs_credential:
  assumes "handleRequest e cfg router req w = (Inr (Routed h ctx), w')"
    and "needs_key (path_name req)"
  shows "\<exists>token g. token_of e req (url_of req) = Some token \<and> token_grant e cfg w token = Some g
      \<and> context_fits (path_name req) g ctx"
  by (rule routed_grant [OF assms])


text \<open>The contexts that the handlers of a path may rely on.\<close>

definition wf_context :: "string \<Rightarrow> RouteContext \<Rightarrow> bool" where
  "wf_context path ctx \<longleftrightarrow>
     (needs_key path \<and> \<not> isProjectAgnostic path \<longrightarrow> rc_projectId ctx \<noteq> None)
     \<and> (isProjectManagement path \<longrightarrow> rc_isAdmin ctx)
     \<and> (\<not> needs_key path \<longrightarrow> rc_projectId ctx = None)
     \<and> (rc_role ctx = KeyReadOnly \<longrightarrow> needs_key path)"


section \<open>A doubled slash\<close>

text \<open>
  C6: The checks compare the path as it was sent, the router drops empty segments. So a path
  under \<open>/v1/\<close> with one more slash in front is refused by no check, whatever the request
  carries: its route runs, without a project, as an admin in the role of its context, and nothing
  was counted or looked up.
\<close>

theorem doubled_slash_skips_authentication:
  assumes "rq_url req = Some (CHR ''/'' # p)" "js_startsWith p ''/v1/''" "ge_url_ok e (CHR ''/'' # p)"
    and "rq_method req \<noteq> Some ''OPTIONS''"
    and "router_match (method_of req) (takeWhile ((\<noteq>) CHR ''?'') p) router = Some (h, params)"
  shows "\<exists>query. handleRequest e cfg router req w =
    (Inr (Routed h \<lparr>rc_params = params, rc_query = query, rc_projectId = None, rc_role = KeyAdmin, rc_isAdmin = False\<rparr>), w)"
proof -
  from assms(2) obtain q where q: "p = ''/v1/'' @ q" by (auto simp: js_startsWith_def prefix_def)
  let ?path = "CHR ''/'' # takeWhile ((\<noteq>) CHR ''?'') p"
  have path: "path_name req = ?path" "url_of req = CHR ''/'' # p" using assms(1) by (simp_all add: path_name_def url_of_def)
  have open_path: "\<not> needs_key ?path" "\<not> isProjectManagement ?path" "\<not> isPublicUnsubscribe ?path"
      "\<not> isPublicAuth ?path" "?path \<noteq> ''/admin''" "\<not> js_startsWith ?path ''/admin/''"
    by (simp_all add: q needs_key_def isProjectManagement_def isPublicUnsubscribe_def isPublicAuth_def js_startsWith_def)
  have "router_match (method_of req) ?path router = Some (h, params)" using assms(5) by (simp add: router_match_slash)
  then show ?thesis
    using assms(3,4) open_path
    by (simp add: handleRequest_def path static_handled_def authorise_def route_request_def public_caps_def
        query_of_def search_params_def open_auth_def)
qed

section \<open>Remembered keys\<close>

text \<open>
  The turns of the event loop that touch the cached keys: a request asks the cache, the lookup of
  a request returns a row, a message arrives. The lookup of a request may return after any number
  of other turns.
\<close>

datatype auth_event =
    AuthRead ms string
  | AuthStored ms string "project_row \<times> key_role"
  | AuthInvalidated string

fun auth_step :: "(string \<Rightarrow> string) \<Rightarrow> auth_event \<Rightarrow> 'r api_world \<Rightarrow> 'r api_world" where
  "auth_step sha (AuthRead now token) w = snd (cached_key now token w)"
| "auth_step sha (AuthStored now token pk) w = remember_key now token (key_entry (sha token) pk) w"
| "auth_step sha (AuthInvalidated message) w = invalidate_keys message w"

fun auth_tokens :: "auth_event \<Rightarrow> string set" where
  "auth_tokens (AuthStored now token pk) = {token}"
| "auth_tokens _ = {}"

definition auth_run :: "(string \<Rightarrow> string) \<Rightarrow> auth_event list \<Rightarrow> 'r api_world \<Rightarrow> 'r api_world" where
  "auth_run sha evs w = foldl (\<lambda>w ev. auth_step sha ev w) w evs"

definition known :: "('k, 'v) lru \<Rightarrow> 'k \<Rightarrow> bool" where
  "known c k \<longleftrightarrow> lru_stored c k \<noteq> None"

lemma known_get: "known (snd (lru_get now k c)) t \<Longrightarrow> known c t"
  by (auto simp: known_def lru_get_def jm_get_delete jm_get_set split: option.splits if_splits)

lemma known_set: "lru_ok c \<Longrightarrow> known (lru_set now k v ttl c) t \<Longrightarrow> t = k \<or> known c t"
  using lru_make_room_stored [of c k t] by (auto simp: known_def lru_set_stored split: if_splits)

lemma known_delete [simp]: "known (lru_delete k c) t \<longleftrightarrow> t \<noteq> k \<and> known c t"
  by (simp add: known_def lru_delete_def jm_get_delete)

lemma known_clear [simp]: "\<not> known (lru_clear c) t" "\<not> known (lru_new n ttl) t"
  by (simp_all add: known_def lru_clear_def lru_new_def)

text \<open>Every remembered token is found by its hash.\<close>

definition revocable ::
  "(string \<Rightarrow> string) \<Rightarrow> string set \<Rightarrow> (string, CachedAuthKey) lru \<Rightarrow> (string, string) jsmap \<Rightarrow> bool" where
  "revocable sha T c hashes \<longleftrightarrow> lru_ok c \<and> length hashes \<le> 2000
     \<and> (\<forall>t. known c t \<longrightarrow> t \<in> T \<and> jm_get hashes (sha t) = Some t)"

lemma revocable_read: "revocable sha T c hashes \<Longrightarrow> revocable sha T (snd (lru_get now token c)) hashes"
  by (auto simp: revocable_def lru_ok_get dest: known_get)

lemma revocable_set:
  assumes "revocable sha T c hashes" "inj_on sha T" "token \<in> T" "length (jm_set (sha token) token hashes) \<le> 2000"
  shows "revocable sha T (lru_set now token v ttl c) (jm_set (sha token) token hashes)"
  unfolding revocable_def
proof (intro conjI allI impI)
  fix t assume "known (lru_set now token v ttl c) t"
  with assms(1) have t: "t = token \<or> known c t" by (auto simp: revocable_def dest: known_set)
  with assms(1,3) show T: "t \<in> T" by (auto simp: revocable_def)
  have "sha t = sha token \<Longrightarrow> t = token" using inj_onD [OF assms(2)] T assms(3) by blast
  with t assms(1) show "jm_get (jm_set (sha token) token hashes) (sha t) = Some t"
    by (auto simp: revocable_def jm_get_set)
qed (use assms in \<open>auto simp: revocable_def lru_ok_set\<close>)

lemma revocable_empty: "lru_ok c \<Longrightarrow> revocable sha T (lru_clear c) []"
  by (simp add: revocable_def lru_ok_clear)

lemma revocable_delete: "revocable sha T c hashes \<Longrightarrow> revocable sha T (lru_delete t c) hashes"
  by (simp add: revocable_def lru_ok_delete)

lemma revocable_revoke:
  assumes "revocable sha T c hashes" "jm_get hashes m = Some token"
  shows "revocable sha T (lru_delete token c) (jm_delete m hashes)"
  using assms length_jm_delete_le [of m hashes]
  by (auto simp: revocable_def lru_ok_delete jm_get_delete simp del: length_delete_le)

definition api_revocable :: "(string \<Rightarrow> string) \<Rightarrow> string set \<Rightarrow> 'r api_world \<Rightarrow> bool" where
  "api_revocable sha T w = revocable sha T (aw_authCache w) (aw_tokenHashes w)"

lemma api_revocable_step:
  assumes "api_revocable sha T w" "inj_on sha T" "auth_tokens ev \<subseteq> T"
  shows "api_revocable sha T (auth_step sha ev w)"
proof (cases ev)
  case (AuthRead now token)
  then show ?thesis using assms(1) revocable_read [of sha T "aw_authCache w" "aw_tokenHashes w" now token]
    by (cases "lru_get now token (aw_authCache w)") (simp add: api_revocable_def cached_key_def)
next
  case (AuthStored now token pk)
  have hash: "ca_tokenHash (key_entry (sha token) pk) = sha token" by (simp add: key_entry_def split: prod.split)
  have "lru_ok (aw_authCache w)" using assms(1) by (simp add: api_revocable_def revocable_def)
  with AuthStored show ?thesis using assms
    by (auto simp: api_revocable_def remember_key_def hash Let_def lru_ok_set intro: revocable_set revocable_empty)
next
  case (AuthInvalidated m)
  have "lru_ok (aw_authCache w)" using assms(1) by (simp add: api_revocable_def revocable_def)
  with AuthInvalidated show ?thesis using assms(1)
    by (auto simp: api_revocable_def invalidate_keys_def Let_def split: option.split
        intro: revocable_empty revocable_delete revocable_revoke)
qed

lemma api_revocable_run:
  assumes "inj_on sha T" "\<forall>ev \<in> set evs. auth_tokens ev \<subseteq> T" "api_revocable sha T w"
  shows "api_revocable sha T (auth_run sha evs w)"
  using assms(2,3)
proof (induction evs arbitrary: w)
  case (Cons ev evs)
  then show ?case using api_revocable_step [OF Cons.prems(2) assms(1), of ev] by (simp add: auth_run_def)
qed (simp add: auth_run_def)

lemma invalidated_forgotten:
  assumes "api_revocable sha T w" "[] \<notin> T" "m = ''*'' \<or> m = sha token"
  shows "\<not> known (aw_authCache (invalidate_keys m w)) token"
proof (cases "m = ''*''")
  case False
  then have m: "m = sha token" using assms(3) by simp
  show ?thesis
  proof (cases "known (aw_authCache w) token")
    case True
    with assms(1) have "token \<in> T" "jm_get (aw_tokenHashes w) m = Some token"
      by (auto simp: api_revocable_def revocable_def m)
    moreover from this(1) assms(2) have "token \<noteq> []" by auto
    ultimately show ?thesis using False by (simp add: invalidate_keys_def Let_def)
  next
    case False
    then show ?thesis by (auto simp: invalidate_keys_def Let_def split: option.split)
  qed
qed (simp add: invalidate_keys_def)

text \<open>
  C33: However requests, their lookups and invalidations interleave, every key that is remembered
  can be revoked: the message with its hash, or the one that drops everything, makes the API
  forget it, although the cache evicts entries that its index of hashes keeps, and the index is
  cleared when it has more than 2000.
\<close>

theorem remembered_keys_are_revocable:
  assumes "inj_on sha (\<Union>ev \<in> set evs. auth_tokens ev)" "[] \<notin> (\<Union>ev \<in> set evs. auth_tokens ev)"
    and "aw_authCache w = new_auth_cache" "aw_tokenHashes w = []" "m = ''*'' \<or> m = sha token"
  shows "length (aw_tokenHashes (auth_run sha evs w)) \<le> 2000
    \<and> lru_stored (aw_authCache (auth_run sha (evs @ [AuthInvalidated m]) w)) token = None"
proof -
  let ?T = "\<Union>ev \<in> set evs. auth_tokens ev"
  have "api_revocable sha ?T w"
    using assms(3,4) by (simp add: api_revocable_def revocable_def new_auth_cache_def lru_ok_new)
  then have r: "api_revocable sha ?T (auth_run sha evs w)"
    by (intro api_revocable_run [OF assms(1)]) auto
  then show ?thesis using invalidated_forgotten [OF r assms(2,5)]
    by (simp add: api_revocable_def revocable_def auth_run_def known_def del: not_None_eq)
qed

text \<open>
  A lookup that was under way when the message came stores the revoked key afterwards: nothing
  marks lookups in flight.
\<close>

lemma revoked_key_remembered_again:
  assumes "lru_ok (aw_authCache w)" "length (aw_tokenHashes w) < 2000" "0 \<le> defaultTtlMs (aw_authCache w)"
  shows "fst (cached_key now token (auth_run sha [AuthInvalidated ''*'', AuthStored now token pk] w))
    = Inr (Some (key_entry (sha token) pk))"
  using assms
  by (simp add: auth_run_def invalidate_keys_def remember_key_def cached_key_def lru_get_def lru_set_stored
      lru_clear_def key_entry_def split: prod.split)

section \<open>Witnesses\<close>

definition ex_env :: "mem_store gate_env" where
  "ex_env = \<lparr>ge_redis = mem_redis, ge_sha256 = (\<lambda>t. ''#'' @ t), ge_now = 0, ge_url_ok = (\<lambda>_. True),
     ge_limiter = (\<lambda>_ _. Inr True), ge_static = Inr False\<rparr>"

definition ex_config :: api_config where
  "ex_config = \<lparr>cf_ADMIN_API_KEY = Some ''root'', cf_TRUST_PROXY = 0, cf_CORS_ORIGIN = None\<rparr>"

definition ex_project :: project_row where
  "ex_project = \<lparr>pj_id = ''p1'', pj_name = ''shop'', pj_rateLimitRpm = None, pj_throttleLimit = None,
     pj_throttleWindowHours = None, pj_createdAt = 0\<rparr>"

definition ex_api_world :: "mem_store api_world" where
  "ex_api_world = (empty_api_world mem_empty)\<lparr>aw_projects := [ex_project],
     aw_keys := [\<lparr>ak_id = ''k1'', ak_projectId = ''p1'', ak_keyHash = ''#key'', ak_role = KeyReadOnly, ak_createdAt = 0\<rparr>]\<rparr>"

definition ex_http :: "string \<Rightarrow> string \<Rightarrow> string option \<Rightarrow> http_request" where
  "ex_http mth url token = \<lparr>rq_method = Some mth, rq_url = Some url,
     rq_headers = (case token of Some t \<Rightarrow> [(''x-api-key'', HeaderOne t)] | None \<Rightarrow> []), rq_remoteAddress = None\<rparr>"

definition ex_get :: http_request where
  "ex_get = ex_http ''GET'' ''/v1/users?limit=2'' (Some ''key'')"

definition ex_post :: http_request where
  "ex_post = ex_http ''POST'' ''/v1/notify?projectId=p1'' (Some ''root'')"

definition ex_get_context :: RouteContext where
  "ex_get_context = \<lparr>rc_params = [], rc_query = [(''limit'', ''2'')], rc_projectId = Some ''p1'',
     rc_role = KeyReadOnly, rc_isAdmin = False\<rparr>"

definition ex_post_context :: RouteContext where
  "ex_post_context = \<lparr>rc_params = [], rc_query = [(''projectId'', ''p1'')], rc_projectId = Some ''p1'',
     rc_role = KeyAdmin, rc_isAdmin = True\<rparr>"

lemma run_of_fst: "fst (m w) = r \<Longrightarrow> m w = (r, snd (m w))"
  by (metis prod.collapse)

lemma ex_get_run: "handleRequest ex_env ex_config api_router ex_get ex_api_world
    = (Inr (Routed ListUsers ex_get_context), snd (handleRequest ex_env ex_config api_router ex_get ex_api_world))"
  by (rule run_of_fst) code_simp

lemma ex_post_run: "handleRequest ex_env ex_config api_router ex_post ex_api_world
    = (Inr (Routed Notify ex_post_context), snd (handleRequest ex_env ex_config api_router ex_post ex_api_world))"
  by (rule run_of_fst) code_simp

lemma ex_get_path: "path_name ex_get = ''/v1/users''" "needs_key ''/v1/users''" by code_simp+

lemma ex_post_path: "path_name ex_post = ''/v1/notify''" "js_startsWith ''/v1/notify'' ''/v1/''" by code_simp+

theorem api_route_needs_credential_witness:
  "\<exists>token g. token_of ex_env ex_get (url_of ex_get) = Some token \<and> token_grant ex_env ex_config ex_api_world token = Some g
      \<and> context_fits ''/v1/users'' g ex_get_context"
  using api_route_needs_credential [OF ex_get_run] unfolding ex_get_path(1) by (simp add: ex_get_path(2))



text \<open>Nobody, asking for a new project.\<close>

definition ex_open :: http_request where
  "ex_open = ex_http ''POST'' ''//v1/projects'' None"

theorem doubled_slash_skips_authentication_witness:
  "\<exists>query. handleRequest ex_env ex_config api_router ex_open ex_api_world =
     (Inr (Routed CreateProject \<lparr>rc_params = [], rc_query = query, rc_projectId = None, rc_role = KeyAdmin,
        rc_isAdmin = False\<rparr>), ex_api_world)"
proof (rule doubled_slash_skips_authentication [where p = "''/v1/projects''"])
  show "router_match (method_of ex_open) (takeWhile ((\<noteq>) CHR ''?'') ''/v1/projects'') api_router = Some (CreateProject, [])"
    by code_simp
qed (simp_all add: ex_open_def ex_http_def ex_env_def js_startsWith_def)

theorem remembered_keys_are_revocable_witness:
  "length (aw_tokenHashes (auth_run ((@) ''#'') [AuthStored 0 ''key'' (ex_project, KeyAdmin)] ex_api_world)) \<le> 2000
    \<and> lru_stored (aw_authCache (auth_run ((@) ''#'') ([AuthStored 0 ''key'' (ex_project, KeyAdmin)] @ [AuthInvalidated ''#key''])
         ex_api_world)) ''key'' = None"
  by (rule remembered_keys_are_revocable)
     (simp_all add: ex_api_world_def empty_api_world_def new_auth_cache_def AUTH_CACHE_TTL_MS_def)

end
