(* ===== verification/Api_Projects.thy ===== *)
theory Api_Projects
  imports Api_Access
begin

text \<open>
  The project routes (\<open>src/src/services/api/handlers/projects.ts\<close> and
  \<open>handleCreateProject\<close> of \<open>main.ts\<close>). A handler is given its context and what the
  body reader and the schema made of the body; it gives its reply. Instants are integers in the
  replies.
\<close>

section \<open>Bodies and ids\<close>

type_synonym 'b parsed_body = "(http_error + exn) + issue list + 'b"

definition with_body :: "'b parsed_body \<Rightarrow> ('b \<Rightarrow> ('r, http_reply) api_act) \<Rightarrow> ('r, http_reply) api_act" where
  "with_body body f =
     (case body of
        Inl e \<Rightarrow> ret (error_reply e)
      | Inr (Inl issues) \<Rightarrow> ret (sendValidationError issues)
      | Inr (Inr b) \<Rightarrow> f b)"

text \<open>The catch of the dispatcher.\<close>

definition reply_or_error :: "('r, http_reply) api_act \<Rightarrow> ('r, http_reply) api_act" where
  "reply_or_error m = catchA m (\<lambda>x. ret (error_reply (Inr x)))"

definition isUuid :: "string \<Rightarrow> bool" where
  "isUuid v = (map length (js_split (CHR ''-'') v) = [8, 4, 4, 4, 12]
     \<and> list_all (list_all (\<lambda>c. hex_val c \<noteq> None)) (js_split (CHR ''-'') v))"

definition param :: "RouteContext \<Rightarrow> string \<Rightarrow> string" where
  "param ctx k = (case jm_get (rc_params ctx) k of Some v \<Rightarrow> v | None \<Rightarrow> '''')"

definition API_KEY_INVALIDATED :: string where
  "API_KEY_INVALIDATED = ''apikey.invalidated''"

definition PROJECT_INVALIDATED :: string where
  "PROJECT_INVALIDATED = ''project.invalidated''"

definition opt_int :: "int option \<Rightarrow> json" where
  "opt_int n = (case n of Some i \<Rightarrow> JInt i | None \<Rightarrow> JNull)"

section \<open>The handlers\<close>

definition handleCreateProject ::
  "(string \<Rightarrow> string) \<Rightarrow> string \<Rightarrow> string \<Rightarrow> string \<Rightarrow> ms \<Rightarrow> string parsed_body \<Rightarrow> ('r, http_reply) api_act" where
  "handleCreateProject sha randomHex projectId keyId now body =
     (case body of
        Inl e \<Rightarrow> ret (error_reply e)
      | Inr (Inl issues) \<Rightarrow> ret (sendJson 400 (JObj [(''error'', JStr ''validation_error''),
          (''issues'', JArr (map (\<lambda>(path, message).
             JObj [(''path'', JArr (map JStr path)), (''message'', JStr message)]) issues))]))
      | Inr (Inr name) \<Rightarrow>
          let apiKey = ''nk_live_'' @ randomHex
          in thenA (project_insert projectId name now)
               (bindA (createApiKey keyId projectId (sha apiKey) KeyAdmin now) (\<lambda>_.
                  ret (sendJson 201 (JObj [(''id'', JStr projectId), (''apiKey'', JStr apiKey)])))))"

definition project_json :: "project_row \<Rightarrow> json" where
  "project_json p = JObj [(''id'', JStr (pj_id p)), (''name'', JStr (pj_name p)),
     (''rateLimitRpm'', opt_int (pj_rateLimitRpm p)), (''throttleLimit'', opt_int (pj_throttleLimit p)),
     (''throttleWindowHours'', opt_int (pj_throttleWindowHours p)), (''createdAt'', JInt (pj_createdAt p))]"

definition listProjects :: "('r, http_reply) api_act" where
  "listProjects = bindA project_list (\<lambda>ps. ret (sendJson 200 (JObj [(''projects'', JArr (map project_json ps))])))"

definition deleteProject :: "RouteContext \<Rightarrow> ('r, http_reply) api_act" where
  "deleteProject ctx =
     (let i = param ctx ''id''
      in bindA (if isUuid i then project_delete i else ret False) (\<lambda>deleted.
           ret (if deleted then sendNoContent else reply_error 404 ''project_not_found'')))"

definition updateProject :: "RouteContext \<Rightarrow> project_settings parsed_body \<Rightarrow> ('r, http_reply) api_act" where
  "updateProject ctx body = with_body body (\<lambda>settings.
     let i = param ctx ''id''
     in bindA (if isUuid i then updateSettings i settings else ret False) (\<lambda>updated.
          if \<not> updated then ret (reply_error 404 ''project_not_found'')
          else thenA (redis_publish PROJECT_INVALIDATED i)
            (thenA (if ps_rateLimitRpm settings \<noteq> None then redis_publish API_KEY_INVALIDATED ''*'' else ret ())
              (ret (sendJson 200 (JObj [(''id'', JStr i)]))))))"

text \<open>A body whose role does not parse counts as no role.\<close>

definition createProjectKey ::
  "(string \<Rightarrow> string) \<Rightarrow> string \<Rightarrow> string \<Rightarrow> ms \<Rightarrow> RouteContext \<Rightarrow> key_role parsed_body \<Rightarrow> ('r, http_reply) api_act" where
  "createProjectKey sha randomHex keyId now ctx body =
     (case body of
        Inl e \<Rightarrow> ret (error_reply e)
      | Inr parsed \<Rightarrow>
          let role = (case parsed of Inr r \<Rightarrow> r | Inl _ \<Rightarrow> KeyAdmin); i = param ctx ''id''
          in bindA (if isUuid i then bindA (findThrottleSettings i) (\<lambda>s. ret (s \<noteq> None)) else ret False) (\<lambda>exists.
               if \<not> exists then ret (reply_error 404 ''project_not_found'')
               else
                 let apiKey = ''nk_live_'' @ randomHex
                 in bindA (createApiKey keyId i (sha apiKey) role now) (\<lambda>key.
                      ret (sendJson 201 (JObj [(''id'', JStr key), (''apiKey'', JStr apiKey), (''role'', JStr (role_text role))])))))"

definition key_json :: "api_key_row \<Rightarrow> json" where
  "key_json k = JObj [(''id'', JStr (ak_id k)), (''role'', JStr (role_text (ak_role k))), (''createdAt'', JInt (ak_createdAt k))]"

definition listProjectKeys :: "RouteContext \<Rightarrow> ('r, http_reply) api_act" where
  "listProjectKeys ctx =
     (if \<not> isUuid (param ctx ''id'') then ret (reply_error 404 ''project_not_found'')
      else bindA (listApiKeys (param ctx ''id'')) (\<lambda>keys. ret (sendJson 200 (JObj [(''keys'', JArr (map key_json keys))]))))"

definition deleteProjectKey :: "RouteContext \<Rightarrow> ('r, http_reply) api_act" where
  "deleteProjectKey ctx =
     (let i = param ctx ''id''; keyId = param ctx ''keyId''
      in bindA (if isUuid i \<and> isUuid keyId then deleteApiKey i keyId else ret False) (\<lambda>deleted.
           if \<not> deleted then ret (reply_error 404 ''key_not_found'')
           else thenA (redis_publish API_KEY_INVALIDATED ''*'') (ret sendNoContent)))"

section \<open>Deleting a project\<close>

lemma same_db_refs: "references_kept (w\<lparr>w_step := n\<rparr>) = references_kept w" "project_traces i (w\<lparr>w_step := n\<rparr>) = project_traces i w"
  by (simp_all add: references_kept_def project_traces_def)

lemma deleteProject_run:
  assumes "no_faults w" "isUuid (param ctx ''id'')" "list_ex (\<lambda>p. pj_id p = param ctx ''id'') (aw_projects w)"
  shows "deleteProject ctx w = (Inr sendNoContent, drop_project (param ctx ''id'') (w\<lparr>w_step := Suc (w_step w)\<rparr>))"
  using assms by (simp add: deleteProject_def project_delete_def bindA_def attempt_ok ret_def Let_def)


definition ex_uuid :: string where
  "ex_uuid = ''00000000-0000-0000-0000-00000000000a''"

definition ex_delete_context :: RouteContext where
  "ex_delete_context = \<lparr>rc_params = [(''id'', ex_uuid)], rc_query = [], rc_projectId = None, rc_role = KeyAdmin, rc_isAdmin = True\<rparr>"

definition ex_project_world :: "mem_store api_world" where
  "ex_project_world = (empty_api_world mem_empty)\<lparr>aw_projects := [ex_project\<lparr>pj_id := ex_uuid\<rparr>, ex_project],
     aw_keys := [\<lparr>ak_id = ''k1'', ak_projectId = ex_uuid, ak_keyHash = ''#key'', ak_role = KeyAdmin, ak_createdAt = 0\<rparr>]\<rparr>"

lemma ex_project_world_ok: "no_faults ex_project_world" "references_kept ex_project_world" "isUuid ex_uuid"
    "param ex_delete_context ''id'' = ex_uuid" "list_ex (\<lambda>p. pj_id p = ex_uuid) (aw_projects ex_project_world)"
  by (simp add: no_faults_def ex_project_world_def empty_api_world_def,
      simp add: references_kept_def user_references_def ex_project_world_def empty_api_world_def empty_database_def Let_def,
      code_simp, code_simp, simp add: ex_project_world_def)


lemma drop_project_frame: "aw_authCache (drop_project i w) = aw_authCache w" "w_log (drop_project i w) = w_log w"
  by (simp_all add: drop_project_def Let_def)

text \<open>Nothing tells the API to forget the project's keys: a remembered one goes on working.\<close>

lemma deleted_project_keys_still_work:
  assumes "no_faults w" "isUuid (param ctx ''id'')" "list_ex (\<lambda>p. pj_id p = param ctx ''id'') (aw_projects w)"
    and "fst (lru_get (ge_now e) token (aw_authCache w)) = Some v" "ca_projectId v = param ctx ''id''"
  shows "key_grant e (snd (deleteProject ctx w)) token = Some v
    \<and> w_log (snd (deleteProject ctx w)) = w_log w \<and> \<not> project_traces (ca_projectId v) (snd (deleteProject ctx w))"
  using assms by (simp add: deleteProject_run key_grant_def drop_project_frame drop_project_traces)

section \<open>An open door\<close>

text \<open>The entry and the handler it routes to.\<close>

definition create_project_request ::
  "'r gate_env \<Rightarrow> api_config \<Rightarrow> http_request \<Rightarrow> string \<Rightarrow> string \<Rightarrow> string \<Rightarrow> string parsed_body \<Rightarrow> ('r, http_reply) api_act" where
  "create_project_request e cfg req randomHex projectId keyId body =
     bindA (handleRequest e cfg api_router req) (\<lambda>outcome. case outcome of
       Replied reply \<Rightarrow> ret reply
     | Routed CreateProject ctx \<Rightarrow>
         reply_or_error (handleCreateProject (ge_sha256 e) randomHex projectId keyId (ge_now e) body)
     | _ \<Rightarrow> ret (reply_error 404 ''not_found''))"

text \<open>A request without any credential is given a project and an admin key that the API accepts.\<close>

lemma anyone_gets_an_admin_key:
  "let w = snd (create_project_request ex_env ex_config ex_open ''00'' ''p9'' ''k9'' (Inr (Inr ''mine'')) ex_api_world)
   in map_option rp_status (case fst (create_project_request ex_env ex_config ex_open ''00'' ''p9'' ''k9'' (Inr (Inr ''mine'')) ex_api_world) of
        Inr r \<Rightarrow> Some r | Inl _ \<Rightarrow> None) = Some 201
      \<and> extractAuthToken ex_open = None
      \<and> map_option ca_keyRole (key_grant ex_env w ''nk_live_00'') = Some KeyAdmin"
  by code_simp

end
