(* ===== verification/Paging.thy ===== *)
theory Paging
  imports NK_Prelude
begin

text \<open>
  Listings over a table: the patterns of \<open>LIKE\<close> with the escaping of a search term
  (\<open>contains\<close> of \<open>handlers/shared.ts\<close>), and what it means that a client that follows
  \<open>nextCursor\<close> from page to page sees the whole listing. The contract of a paged listing is the
  locale \<open>paged_listing\<close>, which the listings of the API are shown to keep.
\<close>

section \<open>LIKE\<close>

text \<open>
  The pattern language of SQL as Postgres has it: \<open>%\<close> stands for any text, \<open>_\<close> for any character,
  and a backslash takes the character after it as it is. A pattern that ends in a lone backslash,
  which Postgres refuses, matches nothing here.
\<close>

fun tails_match :: "(string \<Rightarrow> bool) \<Rightarrow> string \<Rightarrow> bool" where
  "tails_match f [] = f []"
| "tails_match f (c # s) = (f (c # s) \<or> tails_match f s)"

fun like_match :: "string \<Rightarrow> string \<Rightarrow> bool" where
  "like_match [] s = (s = [])"
| "like_match (c # p) s =
     (if c = CHR ''%'' then tails_match (like_match p) s
      else case s of
        [] \<Rightarrow> False
      | d # s' \<Rightarrow>
          if c = CHR ''_'' then like_match p s'
          else if c = CHR 0x5C then (case p of [] \<Rightarrow> False | e # p' \<Rightarrow> d = e \<and> like_match p' s')
          else c = d \<and> like_match p s')"

definition like_escape :: "char \<Rightarrow> string" where
  "like_escape c = (if c = CHR 0x5C \<or> c = CHR ''%'' \<or> c = CHR ''_'' then [CHR 0x5C, c] else [c])"

definition contains :: "string \<Rightarrow> string" where
  "contains t = ''%'' @ concat (map like_escape t) @ ''%''"

lemma tails_match_suffixes: "tails_match f s \<longleftrightarrow> (\<exists>u v. s = u @ v \<and> f v)"
proof (induction s)
  case (Cons c s)
  have "(\<exists>u v. c # s = u @ v \<and> f v) \<longleftrightarrow> f (c # s) \<or> (\<exists>u v. s = u @ v \<and> f v)"
    by (metis append_Cons append_Nil list.exhaust list.inject)
  with Cons.IH show ?case by simp
qed simp

lemma like_any: "like_match ''%'' s"
  by (auto simp: tails_match_suffixes intro: exI [of _ s])

lemma like_literal: "like_match (concat (map like_escape t) @ p) s \<longleftrightarrow> (\<exists>v. s = t @ v \<and> like_match p v)"
proof (induction t arbitrary: s)
  case (Cons c t)
  show ?case
  proof (cases s)
    case Nil
    then show ?thesis by (simp add: like_escape_def)
  next
    case (Cons d s')
    then show ?thesis using Cons.IH [of s'] by (auto simp: like_escape_def)
  qed
qed simp

lemma js_includes_split: "js_includes s t \<longleftrightarrow> (\<exists>u v. s = u @ t @ v)"
proof -
  have "js_includes s t \<longleftrightarrow> (\<exists>ys. suffix ys s \<and> prefix t ys)"
    by (auto simp: js_includes_def list_ex_iff)
  then show ?thesis unfolding prefix_def suffix_def by blast
qed

text \<open>The wildcards of a search term are literal.\<close>

lemma like_contains: "like_match (contains t) s \<longleftrightarrow> js_includes s t"
proof -
  have "like_match (contains t) s \<longleftrightarrow> tails_match (like_match (concat (map like_escape t) @ ''%'')) s"
    by (simp add: contains_def del: append.simps) simp
  also have "\<dots> \<longleftrightarrow> (\<exists>u v w. s = u @ t @ w)"
    unfolding tails_match_suffixes like_literal using like_any by blast
  finally show ?thesis by (simp add: js_includes_split)
qed

section \<open>Following the cursor\<close>

fun walk_pages :: "nat \<Rightarrow> ('c option \<Rightarrow> 'a list \<times> 'c option) \<Rightarrow> 'c option \<Rightarrow> 'a list" where
  "walk_pages 0 f c = []"
| "walk_pages (Suc n) f c = (case f c of (xs, None) \<Rightarrow> xs | (xs, Some d) \<Rightarrow> xs @ walk_pages n f (Some d))"

text \<open>
  \<open>rest s c\<close> is what the listing of the state \<open>s\<close> holds past the cursor \<open>c\<close>, and \<open>at s c\<close> says
  that \<open>c\<close> is a cursor a page can have handed out.
\<close>

locale paged_listing =
  fixes ok :: "'s \<Rightarrow> bool"
    and page :: "'s \<Rightarrow> 'c option \<Rightarrow> 'a list \<times> 'c option"
    and rest :: "'s \<Rightarrow> 'c option \<Rightarrow> 'a list"
    and known :: "'s \<Rightarrow> 'c option \<Rightarrow> bool"
  assumes known_start: "ok s \<Longrightarrow> known s None"
    and page_last: "ok s \<Longrightarrow> known s c \<Longrightarrow> page s c = (xs, None) \<Longrightarrow> rest s c = xs"
    and page_more: "ok s \<Longrightarrow> known s c \<Longrightarrow> page s c = (xs, Some d) \<Longrightarrow>
      xs \<noteq> [] \<and> rest s c = xs @ rest s (Some d) \<and> known s (Some d)"
begin

lemma walk_from: "ok s \<Longrightarrow> known s c \<Longrightarrow> length (rest s c) < n \<Longrightarrow> walk_pages n (page s) c = rest s c"
proof (induction n arbitrary: c)
  case (Suc n)
  obtain xs d where pg: "page s c = (xs, d)" by fastforce
  show ?case
  proof (cases d)
    case None
    with pg Suc.prems page_last show ?thesis by simp
  next
    case (Some d')
    with pg Suc.prems page_more [of s c xs d']
    have more: "xs \<noteq> []" "rest s c = xs @ rest s (Some d')" "known s (Some d')" by auto
    then have "length (rest s (Some d')) < n" using Suc.prems(3) by (cases xs) auto
    with Suc.IH Suc.prems(1) more(3) have "walk_pages n (page s) (Some d') = rest s (Some d')" by blast
    with pg Some more(2) show ?thesis by simp
  qed
qed simp

lemma walk_all: "ok s \<Longrightarrow> length (rest s None) < n \<Longrightarrow> walk_pages n (page s) None = rest s None"
  using walk_from known_start by blast

end

section \<open>Paging by the key of the last row\<close>

text \<open>The rows past \<open>c\<close> of a table in the strict order \<open>P\<close>.\<close>

definition rest_from :: "('a \<Rightarrow> 'a \<Rightarrow> bool) \<Rightarrow> 'a option \<Rightarrow> 'a list \<Rightarrow> 'a list" where
  "rest_from P c rows = (case c of None \<Rightarrow> rows | Some x \<Rightarrow> filter (P x) rows)"

lemma sorted_split:
  assumes "sorted_wrt P (ys @ x # zs)" "asymp P"
  shows "filter (P x) (ys @ x # zs) = zs"
proof -
  have "\<not> P x y" if "y \<in> set ys" for y using assms that by (auto simp: sorted_wrt_append dest: asympD)
  moreover have "\<not> P x x" using assms(2) by (meson asympD)
  moreover have "P x z" if "z \<in> set zs" for z using assms(1) that by (auto simp: sorted_wrt_append)
  ultimately show ?thesis by simp
qed

lemma rest_from_next:
  assumes sorted: "sorted_wrt P rows" and "asymp P" "transp P"
    and "xs = take n (rest_from P c rows)" "xs \<noteq> []"
  shows "rest_from P c rows = xs @ rest_from P (Some (last xs)) rows"
proof -
  let ?R = "rest_from P c rows" and ?l = "last xs"
  have parts: "?R = butlast xs @ ?l # drop n ?R"
    using assms(4,5) by (metis append.assoc append_Cons append_Nil append_butlast_last_id append_take_drop_id)
  have "sorted_wrt P ?R" using sorted by (auto simp: rest_from_def sorted_wrt_filter split: option.split)
  then have next_rows: "filter (P ?l) ?R = drop n ?R" using sorted_split assms(2) parts by metis
  have "?l \<in> set ?R" using parts by (metis in_set_conv_decomp)
  then have "filter (P ?l) rows = filter (P ?l) ?R"
    using assms(3) by (auto simp: rest_from_def intro!: filter_cong split: option.splits dest: transpD)
  with next_rows assms(4) show ?thesis by (simp add: rest_from_def)
qed

end
