(* ===== verification/Api_Users.thy ===== *)
theory Api_Users
  imports Api_Projects Paging "HOL-Library.List_Lexorder" "HOL-Library.Char_ord" "HOL-Library.Product_Lexorder"
begin

text \<open>
  The user routes (\<open>src/src/services/api/handlers/users.ts\<close>) over the repositories of
  \<open>User_Store\<close>, the inline users of \<open>handlers/shared.ts\<close>, and the paged listing
  (\<open>UserRepository.list\<close>). A write inside a transaction goes through copies of the
  repositories that have caches of their own.
\<close>

section \<open>Inline users\<close>

record UserContactInput =
  ct_channel :: NotificationChannel
  ct_target :: string
  ct_label :: "string option"
  ct_isPrimary :: "bool option"
  ct_enabled :: "bool option"
  ct_preferences :: "Preferences option"

record InlineUserLike =
  iu_id :: string
  iu_language :: "string option"
  iu_timezone :: "string option"
  iu_contacts :: "UserContactInput list option"
  iu_email :: "string list option"
  iu_phone :: "string list option"
  iu_pushToken :: "string list option"
  iu_segments :: "string list option"
  iu_preferences :: "Preferences option"

definition bare_contact :: "NotificationChannel \<Rightarrow> string \<Rightarrow> UserContactInput" where
  "bare_contact ch target = \<lparr>ct_channel = ch, ct_target = target, ct_label = None, ct_isPrimary = None,
     ct_enabled = None, ct_preferences = None\<rparr>"

definition contactsOf :: "InlineUserLike \<Rightarrow> UserContactInput list" where
  "contactsOf user = or_empty (iu_contacts user) @ map (bare_contact Email) (or_empty (iu_email user))
     @ map (bare_contact Sms) (or_empty (iu_phone user)) @ map (bare_contact Push) (or_empty (iu_pushToken user))"

definition primary_email :: "string list option \<Rightarrow> UserContactInput list option \<Rightarrow> string option" where
  "primary_email email contacts =
     (case email of
        Some (e # _) \<Rightarrow> Some e
      | _ \<Rightarrow> map_option ct_target (find (\<lambda>c. ct_channel c = Email) (or_empty contacts)))"

definition no_preferences :: Preferences where
  "no_preferences = \<lparr>pr_channels = None, pr_topics = None, pr_quietHours = None\<rparr>"

definition inline_input :: "InlineUserLike \<Rightarrow> user_input" where
  "inline_input u = \<lparr>in_userId = iu_id u, in_language = iu_language u, in_timezone = iu_timezone u,
     in_email = map_option Some (primary_email (iu_email u) (iu_contacts u)),
     in_segments = or_empty (iu_segments u),
     in_preferences = (case iu_preferences u of Some p \<Rightarrow> p | None \<Rightarrow> no_preferences)\<rparr>"

definition contact_entry :: "string \<Rightarrow> UserContactInput \<Rightarrow> contact_input" where
  "contact_entry userId c = \<lparr>ci_userId = userId, ci_channel = ct_channel c, ci_target = ct_target c,
     ci_topics = (case ct_preferences c of Some p \<Rightarrow> pr_topics p | None \<Rightarrow> None)\<rparr>"

definition inline_contacts :: "InlineUserLike list \<Rightarrow> contact_input list" where
  "inline_contacts users = concat (map (\<lambda>u. map (contact_entry (iu_id u)) (contactsOf u)) users)"

text \<open>Ids the database draws for users and contacts, and the failures of its transactions.\<close>

record user_env =
  ue_now :: ms
  ue_userId :: "string \<Rightarrow> string"
  ue_contactId :: "address \<Rightarrow> string"
  ue_failures :: "nat \<Rightarrow> (string \<times> exn) option"

text \<open>A statement or transaction that can itself fail, and then changes nothing.\<close>

definition transact :: "('r api_world \<Rightarrow> exn + 'a \<times> 'r api_world) \<Rightarrow> ('r, 'a) api_act" where
  "transact f = bindA (attempt (\<lambda>w. case f w of Inl x \<Rightarrow> (Inl x, w) | Inr (a, w') \<Rightarrow> (Inr a, w'))) awaited"

definition persist_tx :: "user_env \<Rightarrow> InlineUserLike list \<Rightarrow> string \<Rightarrow> database \<Rightarrow> exn + database" where
  "persist_tx e users projectId db =
     (case upsertManyFull (ue_userId e) (ue_failures e) projectId (map inline_input users) (db, new_repo_cache) of
        Inl x \<Rightarrow> Inl x
      | Inr (db, _) \<Rightarrow> (case contact_upsertMany (ue_contactId e) projectId (inline_contacts users) (db, new_repo_cache) of
          Inl x \<Rightarrow> Inl x | Inr (db, _) \<Rightarrow> Inr db))"

definition persistUsers :: "user_env \<Rightarrow> InlineUserLike list \<Rightarrow> string \<Rightarrow> ('r, unit) api_act" where
  "persistUsers e users projectId = transact (\<lambda>w.
     case persist_tx e users projectId (aw_db w) of Inl x \<Rightarrow> Inl x | Inr db \<Rightarrow> Inr ((), w\<lparr>aw_db := db\<rparr>))"

section \<open>The repositories of the API process\<close>

definition with_users ::
  "(database \<times> UserRecord repo_cache \<Rightarrow> exn + 'a \<times> database \<times> UserRecord repo_cache) \<Rightarrow> ('r, 'a) api_act" where
  "with_users f = transact (\<lambda>w. case f (aw_db w, aw_userCache w) of
     Inl x \<Rightarrow> Inl x | Inr (a, db, c) \<Rightarrow> Inr (a, w\<lparr>aw_db := db, aw_userCache := c\<rparr>))"

definition with_contacts ::
  "(database \<times> UserContact list repo_cache \<Rightarrow> exn + 'a \<times> database \<times> UserContact list repo_cache) \<Rightarrow> ('r, 'a) api_act" where
  "with_contacts f = transact (\<lambda>w. case f (aw_db w, aw_contactCache w) of
     Inl x \<Rightarrow> Inl x | Inr (a, db, c) \<Rightarrow> Inr (a, w\<lparr>aw_db := db, aw_contactCache := c\<rparr>))"

definition find_record :: "user_env \<Rightarrow> string \<Rightarrow> string \<Rightarrow> ('r, UserRecord option) api_act" where
  "find_record e projectId userId = with_users (\<lambda>(db, c).
     case findRecordById (ue_now e) db projectId userId c of (u, c) \<Rightarrow> Inr (u, db, c))"

definition find_contacts :: "string \<Rightarrow> string \<Rightarrow> ('r, UserContact list) api_act" where
  "find_contacts projectId userId = select (\<lambda>w. contact_findByUserId (aw_db w) projectId userId)"

definition ctx_project :: "RouteContext \<Rightarrow> string" where
  "ctx_project ctx = (case rc_projectId ctx of Some p \<Rightarrow> p | None \<Rightarrow> ''undefined'')"

definition user_not_found :: "string \<Rightarrow> http_reply" where
  "user_not_found userId = sendJson 404 (JObj [(''error'', JStr ''user_not_found''), (''id'', JStr userId)])"

definition reply_id :: "nat \<Rightarrow> string \<Rightarrow> http_reply" where
  "reply_id status userId = sendJson status (JObj [(''id'', JStr userId)])"

section \<open>Replies\<close>

definition bool_map :: "(string \<times> bool) list option \<Rightarrow> json option" where
  "bool_map m = map_option (\<lambda>kvs. JObj (map (\<lambda>(k, b). (k, JBool b)) kvs)) m"

definition preferences_json :: "Preferences \<Rightarrow> json" where
  "preferences_json p = json_fields [(''channels'', bool_map (pr_channels p)), (''topics'', bool_map (pr_topics p)),
     (''quietHours'', map_option (\<lambda>ws. JArr (map (\<lambda>w. JObj [(''start'', JStr (qw_start w)), (''end'', JStr (qw_end w))]) ws))
        (pr_quietHours p))]"

definition profile_fields :: "('z UserProfile_scheme) \<Rightarrow> (string \<times> json option) list" where
  "profile_fields u = [(''userId'', Some (JStr (up_userId u))), (''language'', Some (JStr (up_language u))),
     (''timezone'', Some (JStr (up_timezone u))), (''email'', map_option nullable (up_email u))]"

definition record_fields :: "UserRecord \<Rightarrow> (string \<times> json option) list" where
  "record_fields u = profile_fields u @ [(''segments'', Some (JArr (map JStr (ur_segments u)))),
     (''preferences'', Some (preferences_json (ur_preferences u)))]"

definition contact_json :: "UserContact \<Rightarrow> json" where
  "contact_json c = JObj [(''id'', JStr (cn_id c)), (''userId'', JStr (cn_userId c)),
     (''channel'', JStr (channel_text (cn_channel c))), (''target'', JStr (cn_target c)),
     (''preferences'', json_fields [(''topics'', bool_map (cn_topics c))]), (''active'', JBool (cn_active c))]"

definition log_json :: "message_log \<Rightarrow> json" where
  "log_json l = (let r = ml_row l in JObj [(''id'', JStr (ml_id l)), (''projectId'', JStr (lr_projectId r)),
     (''taskId'', JStr (lr_taskId r)), (''providerMessageId'', nullable (lr_providerMessageId r)),
     (''templateId'', nullable (lr_templateId r)), (''workflowInstanceId'', nullable (lr_workflowInstanceId r)),
     (''channel'', JStr (lr_channel r)), (''attempt'', JInt (lr_attempt r)), (''kind'', JStr (lr_kind r)),
     (''status'', JStr (lr_status r)), (''campaignId'', nullable (lr_campaignId r)),
     (''metadata'', case ml_metadata l of Some m \<Rightarrow> m | None \<Rightarrow> JNull), (''timestamp'', JInt (ml_time l))])"

section \<open>The handlers\<close>

definition addUser :: "user_env \<Rightarrow> RouteContext \<Rightarrow> InlineUserLike parsed_body \<Rightarrow> ('r, http_reply) api_act" where
  "addUser e ctx body = with_body body (\<lambda>u.
     thenA (persistUsers e [u] (ctx_project ctx)) (ret (reply_id 201 (iu_id u))))"

definition patch_of :: "InlineUserLike \<Rightarrow> user_patch" where
  "patch_of p = \<lparr>pt_language = iu_language p, pt_timezone = iu_timezone p,
     pt_email = map_option Some (primary_email (iu_email p) (iu_contacts p)), pt_segments = iu_segments p,
     pt_preferences = iu_preferences p\<rparr>"

definition updateUser :: "user_env \<Rightarrow> RouteContext \<Rightarrow> InlineUserLike parsed_body \<Rightarrow> ('r, http_reply) api_act" where
  "updateUser e ctx body = with_body body (\<lambda>patch.
     let userId = param ctx ''id''
     in bindA (with_users (updatePartial (ctx_project ctx) userId (patch_of patch))) (\<lambda>updated.
          if \<not> updated then ret (user_not_found userId)
          else thenA (for_each (contactsOf patch) (\<lambda>c.
                 with_contacts (\<lambda>s. map_sum id (Pair ()) (contact_upsert (ue_contactId e) (ctx_project ctx) (contact_entry userId c) s))))
               (ret (reply_id 200 userId))))"

definition deleteUser :: "RouteContext \<Rightarrow> ('r, http_reply) api_act" where
  "deleteUser ctx =
     (let userId = param ctx ''id''
      in bindA (with_users (\<lambda>s. Inr (user_delete (ctx_project ctx) userId s))) (\<lambda>deleted.
           ret (if deleted then sendNoContent else user_not_found userId)))"

text \<open>The body is one contact or a list of them.\<close>

definition addContact ::
  "user_env \<Rightarrow> RouteContext \<Rightarrow> (UserContactInput + UserContactInput list) parsed_body \<Rightarrow> ('r, http_reply) api_act" where
  "addContact e ctx body = with_body body (\<lambda>input.
     let userId = param ctx ''id''; p = ctx_project ctx
     in bindA (select (\<lambda>w. user_findById (aw_db w) p userId)) (\<lambda>user.
          if user = None then ret (user_not_found userId)
          else case input of
            Inr cs \<Rightarrow>
              thenA (with_contacts (\<lambda>s. map_sum id (Pair ()) (contact_upsertMany (ue_contactId e) p (map (contact_entry userId) cs) s)))
                (ret (sendJson 201 (JObj [(''userId'', JStr userId), (''contacts'', JArr (map (\<lambda>c.
                   JObj [(''channel'', JStr (channel_text (ct_channel c))), (''target'', JStr (ct_target c))]) cs))])))
          | Inl c \<Rightarrow>
              thenA (with_contacts (\<lambda>s. map_sum id (Pair ()) (contact_upsert (ue_contactId e) p (contact_entry userId c) s)))
                (ret (sendJson 201 (JObj [(''userId'', JStr userId), (''channel'', JStr (channel_text (ct_channel c))),
                   (''target'', JStr (ct_target c))])))))"

text \<open>\<open>channel\<close> is what the schema made of the parameter.\<close>

definition deleteContact :: "RouteContext \<Rightarrow> NotificationChannel option \<Rightarrow> ('r, http_reply) api_act" where
  "deleteContact ctx channel =
     (case channel of
        None \<Rightarrow> ret (sendJson 400 (JObj [(''error'', JStr ''invalid_channel''), (''channel'', JStr (param ctx ''channel''))]))
      | Some ch \<Rightarrow>
          bindA (with_contacts (\<lambda>s. Inr (contact_delete (ctx_project ctx) (param ctx ''id'') ch (param ctx ''target'') s))) (\<lambda>deleted.
            ret (if deleted then sendNoContent else reply_error 404 ''contact_not_found'')))"

definition getUser :: "user_env \<Rightarrow> RouteContext \<Rightarrow> ('r, http_reply) api_act" where
  "getUser e ctx =
     (let userId = param ctx ''id''
      in bindA (find_record e (ctx_project ctx) userId) (\<lambda>user. case user of
           None \<Rightarrow> ret (user_not_found userId)
         | Some u \<Rightarrow> bindA (find_contacts (ctx_project ctx) userId) (\<lambda>contacts.
             ret (sendJson 200 (json_fields (record_fields u @ [(''contacts'', Some (JArr (map contact_json contacts)))]))))))"

definition getUserPreferences :: "user_env \<Rightarrow> RouteContext \<Rightarrow> ('r, http_reply) api_act" where
  "getUserPreferences e ctx =
     bindA (find_record e (ctx_project ctx) (param ctx ''id'')) (\<lambda>user. ret (case user of
       None \<Rightarrow> user_not_found (param ctx ''id'')
     | Some u \<Rightarrow> sendJson 200 (preferences_json (ur_preferences u))))"

definition updateUserPreferences :: "RouteContext \<Rightarrow> Preferences parsed_body \<Rightarrow> ('r, http_reply) api_act" where
  "updateUserPreferences ctx body = with_body body (\<lambda>p.
     let userId = param ctx ''id''
     in bindA (with_users (updatePartial (ctx_project ctx) userId \<lparr>pt_language = None, pt_timezone = None,
          pt_email = None, pt_segments = None, pt_preferences = Some p\<rparr>)) (\<lambda>updated.
          ret (if \<not> updated then user_not_found userId
               else sendJson 200 (JObj [(''id'', JStr userId), (''preferences'', preferences_json p)]))))"

definition getUserContacts :: "RouteContext \<Rightarrow> ('r, http_reply) api_act" where
  "getUserContacts ctx = bindA (find_contacts (ctx_project ctx) (param ctx ''id'')) (\<lambda>contacts.
     ret (sendJson 200 (JObj [(''contacts'', JArr (map contact_json contacts))])))"

definition listSegmentsRoute :: "RouteContext \<Rightarrow> ('r, http_reply) api_act" where
  "listSegmentsRoute ctx = bindA (listSegments (ctx_project ctx)) (\<lambda>segments.
     ret (sendJson 200 (JObj [(''segments'', JArr (map JStr segments))])))"

definition logs_to :: "string list \<Rightarrow> string \<Rightarrow> 'r api_world \<Rightarrow> message_log list" where
  "logs_to targets projectId w =
     (let sentTo = map fst (filter (\<lambda>(t, ch, d). d \<in> set targets) (aw_outbox w))
      in take 50 (newest_first ml_time (filter (\<lambda>l. lr_projectId (ml_row l) = projectId \<and> lr_taskId (ml_row l) \<in> set sentTo)
           (aw_logs w))))"

definition getUserDetails :: "user_env \<Rightarrow> RouteContext \<Rightarrow> ('r, http_reply) api_act" where
  "getUserDetails e ctx =
     (let userId = param ctx ''id''; p = ctx_project ctx
      in bindA (find_record e p userId) (\<lambda>user. case user of
           None \<Rightarrow> ret (user_not_found userId)
         | Some u \<Rightarrow> bindA (find_contacts p userId) (\<lambda>contacts.
             bindA (if contacts = [] then ret [] else select (logs_to (map cn_target contacts) p)) (\<lambda>logs.
               ret (sendJson 200 (json_fields (record_fields u @ [(''contacts'', Some (JArr (map contact_json contacts))),
                 (''logs'', Some (JArr (map log_json logs)))])))))))"

section \<open>Listing users\<close>

record user_filters =
  uf_search :: "string option"
  uf_segment :: "string option"
  uf_language :: "string option"
  uf_timezone :: "string option"
  uf_channel :: "string option"

text \<open>A filter that is empty is not applied. \<open>ILIKE\<close> is \<open>LIKE\<close> without regard to case.\<close>

definition ilike :: "string \<Rightarrow> string \<Rightarrow> bool" where
  "ilike pattern s = like_match (js_lower pattern) (js_lower s)"

definition attr_text :: "string \<Rightarrow> (string, json) jsmap \<Rightarrow> string option" where
  "attr_text k attrs = (case jm_get attrs k of Some (JStr s) \<Rightarrow> Some s | _ \<Rightarrow> None)"

definition filtered :: "string option \<Rightarrow> (string \<Rightarrow> bool) \<Rightarrow> bool" where
  "filtered q f = (case q of None \<Rightarrow> True | Some v \<Rightarrow> v = [] \<or> f v)"

definition user_matches :: "database \<Rightarrow> string \<Rightarrow> user_filters \<Rightarrow> user_row \<Rightarrow> bool" where
  "user_matches db projectId f r \<longleftrightarrow> us_projectId r = projectId
     \<and> filtered (uf_language f) (\<lambda>v. attr_text ''language'' (us_attributes r) = Some v)
     \<and> filtered (uf_timezone f) (\<lambda>v. attr_text ''timezone'' (us_attributes r) = Some v)
     \<and> filtered (uf_search f) (\<lambda>v. ilike (contains (js_trim v)) (us_externalId r)
          \<or> (case attr_text ''email'' (us_attributes r) of Some m \<Rightarrow> ilike (contains (js_trim v)) m | None \<Rightarrow> False))
     \<and> filtered (uf_segment f) (\<lambda>v. (us_id r, v) \<in> set (db_segments db))
     \<and> filtered (uf_channel f) (\<lambda>v. list_ex (\<lambda>c. contact_row.uc_userId c = us_id r \<and> channel_text (contact_row.uc_channel c) = v) (db_contacts db))"

definition user_key :: "'r api_world \<Rightarrow> user_row \<Rightarrow> int \<times> string" where
  "user_key w r = (aw_userCreatedAt w (us_id r), us_id r)"

text \<open>\<open>ORDER BY created_at DESC, id DESC\<close>, and what is past the row of the cursor, if there is one.\<close>

definition user_listing :: "'r api_world \<Rightarrow> string \<Rightarrow> user_filters \<Rightarrow> user_row list" where
  "user_listing w projectId f =
     rev (sort_key (user_key w) (filter (user_matches (aw_db w) projectId f) (db_users (aw_db w))))"

definition older_user :: "'r api_world \<Rightarrow> user_row \<Rightarrow> user_row \<Rightarrow> bool" where
  "older_user w x r \<longleftrightarrow> user_key w r < user_key w x"

definition past_user :: "'r api_world \<Rightarrow> string option \<Rightarrow> user_row list \<Rightarrow> user_row list" where
  "past_user w cursor rows =
     (case cursor of
        None \<Rightarrow> rows
      | Some c \<Rightarrow>
          if \<not> isUuid c then rows
          else case find (\<lambda>r. us_id r = js_lower c) (db_users (aw_db w)) of
            None \<Rightarrow> []
          | Some x \<Rightarrow> rest_from (older_user w) (Some x) rows)"

definition user_page ::
  "string \<Rightarrow> nat \<Rightarrow> user_filters \<Rightarrow> 'r api_world \<Rightarrow> string option \<Rightarrow> user_row list \<times> string option" where
  "user_page projectId n f w cursor =
     (let rows = take n (past_user w cursor (user_listing w projectId f))
      in (rows, if length rows = n then Some (us_id (last rows)) else None))"

text \<open>A channel that is no value of the enumeration is an error of the query.\<close>

definition user_list ::
  "string \<Rightarrow> nat \<Rightarrow> string option \<Rightarrow> user_filters \<Rightarrow> ('r, user_row list \<times> string option) api_act" where
  "user_list projectId n cursor f =
     (if filtered (uf_channel f) (\<lambda>v. list_ex (\<lambda>c. channel_text c = v)
           [Email, Sms, Push, Webhook, InApp, Telegram, Discord, Whatsapp, Slack])
      then select (\<lambda>w. user_page projectId n f w cursor)
      else throw (Error ''invalid input value for enum''))"

definition listed_json :: "'r api_world \<Rightarrow> user_row \<Rightarrow> json" where
  "listed_json w r = json_fields (profile_fields (user_profile r)
     @ [(''createdAt'', Some (JInt (aw_userCreatedAt w (us_id r) div 1000)))])"

definition listUsers :: "RouteContext \<Rightarrow> ('r, http_reply) api_act" where
  "listUsers ctx =
     (let q = getQueryParam (rc_query ctx)
      in bindA (user_list (ctx_project ctx) (nat (parseLimit (rc_query ctx) 50 id 100)) (q ''cursor'')
             \<lparr>uf_search = q ''search'', uf_segment = q ''segment'', uf_language = q ''language'',
              uf_timezone = q ''timezone'', uf_channel = q ''channel''\<rparr>) (\<lambda>(rows, nextCursor).
           bindA (gets (\<lambda>w. map (listed_json w) rows)) (\<lambda>users.
             ret (sendJson 200 (JObj [(''users'', JArr users), (''nextCursor'', nullable nextCursor)])))))"

section \<open>The pages of the listing\<close>

definition user_ids_ok :: "'r api_world \<Rightarrow> bool" where
  "user_ids_ok w \<longleftrightarrow> distinct (map us_id (db_users (aw_db w)))
     \<and> (\<forall>r \<in> set (db_users (aw_db w)). isUuid (us_id r) \<and> js_lower (us_id r) = us_id r)"

definition user_cursor :: "'r api_world \<Rightarrow> string option \<Rightarrow> bool" where
  "user_cursor w c \<longleftrightarrow> (case c of None \<Rightarrow> True | Some i \<Rightarrow> i \<in> us_id ` set (db_users (aw_db w)))"

lemma older_user_order: "asymp (older_user w)" "transp (older_user w)"
  by (auto intro!: asympI transpI simp: older_user_def)

lemma user_listing_set: "set (user_listing w p f) = {r \<in> set (db_users (aw_db w)). user_matches (aw_db w) p f r}"
  by (auto simp: user_listing_def)

lemma sorted_desc:
  assumes "distinct (map k xs)"
  shows "sorted_wrt (\<lambda>x y. k y < k x) (rev (sort_key k xs))"
proof -
  have "distinct (map k (sort_key k xs))"
    using assms by (simp add: distinct_map)
  then have "sorted_wrt (<) (map k (sort_key k xs))"
    by (simp add: strict_sorted_iff)
  then show ?thesis by (simp add: sorted_wrt_rev sorted_wrt_map)
qed

lemma distinct_map_fine:
  assumes "distinct (map f xs)" "\<And>x y. k x = k y \<Longrightarrow> f x = f y"
  shows "distinct (map k (filter P xs))"
proof -
  have "inj_on k (set (filter P xs))"
    using assms(1) by (intro inj_onI) (use assms(2) in \<open>auto simp: distinct_map dest: inj_onD\<close>)
  with assms(1) show ?thesis by (simp add: distinct_map)
qed

lemma user_listing_sorted:
  assumes "user_ids_ok w"
  shows "sorted_wrt (older_user w) (user_listing w p f)"
proof -
  have "distinct (map (user_key w) (filter (user_matches (aw_db w) p f) (db_users (aw_db w))))"
    by (rule distinct_map_fine [of us_id]) (use assms in \<open>auto simp: user_ids_ok_def user_key_def\<close>)
  then show ?thesis unfolding user_listing_def older_user_def by (rule sorted_desc)
qed

lemma find_by_key: "distinct (map k xs) \<Longrightarrow> r \<in> set xs \<Longrightarrow> find (\<lambda>x. k x = k r) xs = Some r"
  by (induction xs) (auto simp: image_iff)

lemma cursor_row:
  assumes "user_ids_ok w" "r \<in> set (db_users (aw_db w))"
  shows "past_user w (Some (us_id r)) rows = rest_from (older_user w) (Some r) rows"
proof -
  have "find (\<lambda>x. us_id x = js_lower (us_id r)) (db_users (aw_db w)) = Some r"
    using assms find_by_key [of us_id] by (auto simp: user_ids_ok_def)
  then show ?thesis using assms by (auto simp: user_ids_ok_def past_user_def)
qed

lemma past_user_known:
  assumes "user_ids_ok w" "user_cursor w c"
  shows "\<exists>x. past_user w c rows = rest_from (older_user w) x rows"
proof (cases c)
  case None
  then have "past_user w c rows = rest_from (older_user w) None rows" by (simp add: past_user_def rest_from_def)
  then show ?thesis by blast
next
  case (Some i)
  with assms(2) obtain r where "r \<in> set (db_users (aw_db w))" "c = Some (us_id r)" by (auto simp: user_cursor_def)
  with assms(1) show ?thesis using cursor_row by blast
qed

lemma page_full:
  "user_page projectId n f w c = (xs, Some d) \<Longrightarrow>
     xs = take n (past_user w c (user_listing w projectId f)) \<and> length xs = n \<and> d = us_id (last xs)"
  by (auto simp: user_page_def Let_def split: if_splits)

interpretation users: paged_listing
  "\<lambda>w. user_ids_ok w \<and> 0 < n"
  "user_page projectId n f"
  "\<lambda>w c. past_user w c (user_listing w projectId f)"
  user_cursor
proof
  show "user_cursor s None" for s :: "'a api_world" by (simp add: user_cursor_def)
next
  fix s :: "'a api_world" and c xs
  assume "user_ids_ok s \<and> 0 < n" "user_page projectId n f s c = (xs, None)"
  then show "past_user s c (user_listing s projectId f) = xs"
    by (auto simp: user_page_def Let_def split: if_splits)
next
  fix s :: "'a api_world" and c xs d
  assume s: "user_ids_ok s \<and> 0 < n" "user_cursor s c" "user_page projectId n f s c = (xs, Some d)"
  let ?rows = "user_listing s projectId f"
  obtain x where x: "past_user s c ?rows = rest_from (older_user s) x ?rows"
    using s(1,2) past_user_known by blast
  have full: "xs = take n (past_user s c ?rows)" "length xs = n" "d = us_id (last xs)"
    using page_full [OF s(3)] by blast+
  have some: "xs \<noteq> []" using full(2) s(1) by auto
  have taken: "xs = take n (rest_from (older_user s) x ?rows)" using full(1) unfolding x .
  have "last xs \<in> set (rest_from (older_user s) x ?rows)" using taken some by (metis in_set_takeD last_in_set)
  then have "last xs \<in> set ?rows" by (auto simp: rest_from_def split: option.splits)
  then have row: "last xs \<in> set (db_users (aw_db s))" by (simp add: user_listing_set)
  have "rest_from (older_user s) x ?rows = xs @ rest_from (older_user s) (Some (last xs)) ?rows"
    by (rule rest_from_next [OF user_listing_sorted older_user_order taken some]) (use s(1) in simp)
  moreover have "past_user s (Some d) ?rows = rest_from (older_user s) (Some (last xs)) ?rows"
    using s(1) row cursor_row full(3) by blast
  moreover have "user_cursor s (Some d)" using row full(3) by (simp add: user_cursor_def)
  ultimately show "xs \<noteq> [] \<and> past_user s c ?rows = xs @ past_user s (Some d) ?rows \<and> user_cursor s (Some d)"
    using some x by presburger
qed

lemma user_listing_short: "length (user_listing w p f) \<le> length (db_users (aw_db w))"
  by (simp add: user_listing_def)

lemma user_listing_distinct: "user_ids_ok w \<Longrightarrow> distinct (map us_id (user_listing w p f))"
  by (auto simp: user_ids_ok_def user_listing_def rev_map [symmetric] distinct_map intro: inj_on_subset)

definition no_filters :: user_filters where
  "no_filters = \<lparr>uf_search = None, uf_segment = None, uf_language = None, uf_timezone = None, uf_channel = None\<rparr>"

definition ex_user_row :: "char \<Rightarrow> user_row" where
  "ex_user_row c = \<lparr>us_id = ''01234567-89ab-cdef-0123-456789abcde'' @ [c], us_projectId = ''p1'',
     us_externalId = ''u'' @ [c], us_attributes = []\<rparr>"

definition ex_users_world :: "mem_store api_world" where
  "ex_users_world = (empty_api_world mem_empty)\<lparr>aw_db := empty_database\<lparr>db_users :=
     [ex_user_row (CHR ''1''), ex_user_row (CHR ''3''), ex_user_row (CHR ''2'')]\<rparr>\<rparr>"

text \<open>
  C31: A client that follows the cursor of the user listing, with any page size and any filters, is
  shown every user of the project that passes the filters exactly once, newest first, although a
  bulk import gives many users the same time of creation.
\<close>

theorem user_pages_list_everyone_once:
  assumes "user_ids_ok w" "0 < n" "length (db_users (aw_db w)) < k"
  shows "walk_pages k (user_page projectId n f w) None = user_listing w projectId f
    \<and> set (user_listing w projectId f) = {r \<in> set (db_users (aw_db w)). user_matches (aw_db w) projectId f r}
    \<and> distinct (map us_id (user_listing w projectId f))
    \<and> sorted_wrt (older_user w) (user_listing w projectId f)"
proof -
  have "walk_pages k (user_page projectId n f w) None = past_user w None (user_listing w projectId f)"
    by (rule users.walk_all) (use assms user_listing_short [of w projectId f] in \<open>auto simp: past_user_def\<close>)
  then show ?thesis
    using assms(1) by (simp add: past_user_def user_listing_set user_listing_distinct user_listing_sorted)
qed

lemma ex_users_world_ok: "user_ids_ok ex_users_world" "length (db_users (aw_db ex_users_world)) < 4"
  by code_simp+

theorem user_pages_list_everyone_once_witness:
  "walk_pages 4 (user_page ''p1'' 2 no_filters ex_users_world) None = user_listing ex_users_world ''p1'' no_filters
    \<and> length (user_listing ex_users_world ''p1'' no_filters) \<le> 3"
  using user_pages_list_everyone_once [of ex_users_world 2 4 "''p1''" no_filters] ex_users_world_ok
    user_listing_short [of ex_users_world "''p1''" no_filters] by simp

section \<open>What the listing and the writes do not see\<close>

text \<open>
  A cursor whose user was deleted since the page before ends the listing, as if there were no more
  users.
\<close>

lemma deleted_cursor_ends_listing:
  assumes "isUuid c" "js_lower c \<notin> us_id ` set (db_users (aw_db w))" "0 < n"
  shows "user_page projectId n f w (Some c) = ([], None)"
proof -
  have "find (\<lambda>r. us_id r = js_lower c) (db_users (aw_db w)) = None"
    using assms(2) by (auto simp: find_None_iff image_def)
  with assms(1,3) show ?thesis by (simp add: user_page_def past_user_def)
qed

text \<open>A transaction writes through repositories with caches of their own, so what the process remembers stays.\<close>

lemma persistUsers_keeps_cache:
  "aw_userCache (snd (persistUsers e us p w)) = aw_userCache w \<and> aw_contactCache (snd (persistUsers e us p w)) = aw_contactCache w"
  by (cases "persist_tx e us p (aw_db w)"; cases "w_faults w (w_step w)")
    (simp_all add: persistUsers_def transact_def bindA_def attempt_def awaited_def Let_def ret_def throw_def)

definition ex_inline :: InlineUserLike where
  "ex_inline = \<lparr>iu_id = ''u1'', iu_language = Some ''fr'', iu_timezone = None, iu_contacts = Some
     [\<lparr>ct_channel = Sms, ct_target = ''+1'', ct_label = None, ct_isPrimary = None, ct_enabled = Some False,
       ct_preferences = None\<rparr>], iu_email = None, iu_phone = None, iu_pushToken = None, iu_segments = None,
     iu_preferences = None\<rparr>"

definition ex_user_env :: user_env where
  "ex_user_env = \<lparr>ue_now = 5, ue_userId = (\<lambda>_. ''id-u''), ue_contactId = (\<lambda>_. ''id-c''), ue_failures = (\<lambda>_. None)\<rparr>"

definition ex_user_context :: RouteContext where
  "ex_user_context = ex_delete_context\<lparr>rc_params := [(''id'', ''u1'')], rc_projectId := Some ''p1''\<rparr>"

text \<open>
  A user that was read before and is then written by \<open>POST /v1/users\<close> is read as it was, and a
  contact the caller switched off is stored as one that is on.
\<close>

definition ex_read_world :: "mem_store api_world" where
  "ex_read_world = snd (find_record ex_user_env ''p1'' ''u1'' ex_users_world)"

definition ex_written_world :: "mem_store api_world" where
  "ex_written_world = snd (addUser ex_user_env ex_user_context (Inr (Inr ex_inline)) ex_read_world)"

lemma ex_written: "map_option up_language (user_findById (aw_db ex_written_world) ''p1'' ''u1'') = Some ''fr''"
  by code_simp

lemma ex_written_contact: "map cn_active (contact_findByUserId (aw_db ex_written_world) ''p1'' ''u1'') = [True]"
  by code_simp

lemma ex_status: "map_sum id rp_status (fst (addUser ex_user_env ex_user_context (Inr (Inr ex_inline)) ex_read_world)) = Inr 201"
  by code_simp

lemma ex_stale: "map_sum id (map_option up_language) (fst (find_record ex_user_env ''p1'' ''u1'' ex_written_world)) = Inr (Some ''en'')"
  by code_simp

lemma ex_contacts: "map ct_enabled (contactsOf ex_inline) = [Some False]"
  by code_simp

lemma written_user_read_stale:
  "map_option up_language (user_findById (aw_db ex_written_world) ''p1'' ''u1'') = Some ''fr''
    \<and> map_sum id (map_option up_language) (fst (find_record ex_user_env ''p1'' ''u1'' ex_written_world)) = Inr (Some ''en'')
    \<and> map ct_enabled (contactsOf ex_inline) = [Some False]
    \<and> map cn_active (contact_findByUserId (aw_db ex_written_world) ''p1'' ''u1'') = [True]"
  using ex_written ex_stale ex_written_contact ex_contacts by (intro conjI)

end
