(* ===== verification/Api_Notifications.thy ===== *)
theory Api_Notifications
  imports Api_Users Enricher
begin

text \<open>
  The notification routes (\<open>src/src/services/api/handlers/notifications.ts\<close>): a notify call
  becomes one request per target on the inbound stream of its priority; a parked send can be
  cancelled; the delivery log and the parked sends are listed in pages.
\<close>

section \<open>Notify\<close>

record notify_request =
  nq_user :: "(string + InlineUserLike) list option"
  nq_segment :: "string option"
  nq_topic :: string
  nq_template :: string
  nq_priority :: "NotificationPriority option"
  nq_channels :: "NotificationChannel list option"
  nq_data :: "(string \<times> json) list option"
  nq_aiPrompts :: "(string \<times> string) list option"
  nq_fallback :: "bool option"
  nq_sendAt :: "ms option"
  nq_campaign :: "string option"

definition user_target :: "string + InlineUserLike \<Rightarrow> NotificationTarget" where
  "user_target u = TUser (case u of Inl i \<Rightarrow> i | Inr v \<Rightarrow> iu_id v)"

definition notify_targets :: "notify_request \<Rightarrow> NotificationTarget list" where
  "notify_targets body =
     (case nq_user body of
        Some users \<Rightarrow> map user_target users
      | None \<Rightarrow> (case nq_segment body of Some s \<Rightarrow> [TSegment s] | None \<Rightarrow> [TTopic (nq_topic body)]))"

definition inline_users :: "notify_request \<Rightarrow> InlineUserLike list" where
  "inline_users body = concat (map (case_sum (\<lambda>_. []) (\<lambda>u. [u])) (or_empty (nq_user body)))"

text \<open>An empty header counts as none.\<close>

definition idempotency_key :: "http_request \<Rightarrow> string option" where
  "idempotency_key req = (case header_string ''x-idempotency-key'' req of Some k \<Rightarrow> if k = [] then None else Some k | None \<Rightarrow> None)"

definition notification_id :: "string \<Rightarrow> nat \<Rightarrow> nat \<Rightarrow> string" where
  "notification_id base targets i = (if targets > 1 then base @ ''-'' @ show_nat i else base)"

definition notify_payload ::
  "notify_request \<Rightarrow> string \<Rightarrow> string option \<Rightarrow> string \<Rightarrow> NotificationTarget \<Rightarrow> NotificationRequestedPayload" where
  "notify_payload body projectId key notificationId target =
     \<lparr>nr_projectId = projectId, nr_target = target, nr_templateId = nq_template body,
      nr_priority = (case nq_priority body of Some p \<Rightarrow> p | None \<Rightarrow> PNormal),
      nr_channels = nq_channels body, nr_data = or_empty (nq_data body),
      nr_fallback = (nq_fallback body = Some True), nr_aiPrompts = nq_aiPrompts body,
      nr_scheduledAt = nq_sendAt body,
      nr_idempotencyKey = map_option (\<lambda>_. notificationId) key,
      nr_campaignId = nq_campaign body, nr_workflowInstanceId = None\<rparr>"

definition notify_event ::
  "notify_request \<Rightarrow> string \<Rightarrow> string option \<Rightarrow> string \<Rightarrow> nat \<Rightarrow> nat \<times> NotificationTarget \<Rightarrow> new_event" where
  "notify_event body projectId key base targets it =
     (let notificationId = notification_id base targets (fst it)
      in buildStreamEvent (Requested (notify_payload body projectId key notificationId (snd it)))
           ''api'' (Some notificationId) [])"

definition target_json :: "NotificationTarget \<Rightarrow> json" where
  "target_json t = JObj (case t of
     TUser i \<Rightarrow> [(''type'', JStr ''user''), (''userId'', JStr i)]
   | TSegment s \<Rightarrow> [(''type'', JStr ''segment''), (''segment'', JStr s)]
   | TTopic s \<Rightarrow> [(''type'', JStr ''topic''), (''topic'', JStr s)])"

definition campaign_field :: "notify_request \<Rightarrow> (string \<times> json option) list" where
  "campaign_field body = [(''campaign'', case nq_campaign body of Some c \<Rightarrow> if c = [] then None else Some (JStr c) | None \<Rightarrow> None)]"

definition publish_requests :: "string \<Rightarrow> new_event list \<Rightarrow> ('r, unit) api_act" where
  "publish_requests bucket events = perform (PublishRequests bucket events)"

text \<open>
  \<open>uuid\<close> is what \<open>randomUUID()\<close> drew, \<open>messageId i\<close> the id Redis gives the request of the
  \<open>i\<close>-th target. The requests are published in chunks of a thousand.
\<close>

definition notify ::
  "user_env \<Rightarrow> string \<Rightarrow> (nat \<Rightarrow> string) \<Rightarrow> RouteContext \<Rightarrow> http_request \<Rightarrow> notify_request parsed_body
    \<Rightarrow> ('r, http_reply) api_act" where
  "notify e uuid messageId ctx req body = with_body body (\<lambda>body.
     let targets = notify_targets body; inline = inline_users body; n = length targets;
         key = idempotency_key req;
         base = (case key of Some k \<Rightarrow> k | None \<Rightarrow> uuid);
         bucket = bucket_text (payload_bucket (case nq_priority body of Some p \<Rightarrow> p | None \<Rightarrow> PNormal))
     in thenA (if inline = [] then ret () else persistUsers e inline (ctx_project ctx))
         (thenA (for_each (chunk_array 1000 (enumerate 0 targets)) (\<lambda>chunk.
                   publish_requests bucket (map (notify_event body (ctx_project ctx) key base n) chunk)))
           (ret (case targets of
              [target] \<Rightarrow> sendJson 202 (json_fields ([(''messageId'', Some (JStr (messageId 0))),
                  (''notificationId'', Some (JStr base)), (''target'', Some (target_json target))] @ campaign_field body))
            | _ \<Rightarrow> sendJson 202 (json_fields ([(''messageIds'', Some (JArr (map (JStr \<circ> messageId) [0..<n]))),
                  (''notificationIdsBase'', Some (JStr base)), (''batchSize'', Some (JInt (int n)))] @ campaign_field body))))))"

section \<open>Cancelling a parked send\<close>

definition task_not_found :: http_reply where
  "task_not_found = reply_message 404 ''not_found'' ''Task not found or already processed''"

text \<open>
  A payload of the table is an object. \<open>others\<close> is what other processes do between the query and
  the delete, such as the scheduler's release.
\<close>

definition cancelNotification :: "('r api_world \<Rightarrow> 'r api_world) \<Rightarrow> RouteContext \<Rightarrow> ('r, http_reply) api_act" where
  "cancelNotification others ctx =
     (let taskId = param ctx ''taskId''
      in if taskId = [] then ret (reply_error 400 ''missing_task_id'')
         else bindA (select (\<lambda>w. jm_get (aw_parked w) taskId)) (\<lambda>row. case row of
           None \<Rightarrow> ret task_not_found
         | Some payload \<Rightarrow>
             if session_field payload ''projectId'' \<noteq> map_option JStr (rc_projectId ctx) then ret task_not_found
             else thenA (modify others)
               (bindA (attempt (\<lambda>w. (jm_get (aw_parked w) taskId \<noteq> None, w\<lparr>aw_parked := jm_delete taskId (aw_parked w)\<rparr>))) (\<lambda>deleted.
                  if deleted then thenA (emit (EmitCanceled (rc_projectId ctx) taskId))
                      (ret (sendJson 200 (JObj [(''success'', JBool True)])))
                  else ret task_not_found))))"

section \<open>The state of a task\<close>

definition getNotificationStatus :: "RouteContext \<Rightarrow> ('r, http_reply) api_act" where
  "getNotificationStatus ctx =
     (let taskId = param ctx ''taskId''
      in if taskId = [] then ret (reply_error 400 ''missing_task_id'')
         else bindA (select (\<lambda>w. newest_first ml_time (filter (\<lambda>l. lr_taskId (ml_row l) = taskId
                \<and> lr_projectId (ml_row l) = ctx_project ctx) (aw_logs w)))) (\<lambda>logs.
           ret (case logs of
             [] \<Rightarrow> reply_message 404 ''not_found'' ''Task not found or not processed yet''
           | l # _ \<Rightarrow> sendJson 200 (JObj [(''status'', JStr (lr_status (ml_row l))), (''logs'', JArr (map log_json logs))]))))"

section \<open>The parked sends of a project\<close>

text \<open>The texts of task ids are compared by their code units (the C collation of Postgres).\<close>

definition scheduled_matches :: "string \<Rightarrow> string option \<Rightarrow> string \<times> json \<Rightarrow> bool" where
  "scheduled_matches projectId channel row \<longleftrightarrow>
     session_field (snd row) ''projectId'' = Some (JStr projectId)
     \<and> filtered channel (\<lambda>c. session_field (snd row) ''channel'' = Some (JStr c))"

definition scheduled_listing :: "string \<Rightarrow> string option \<Rightarrow> 'r api_world \<Rightarrow> (string \<times> json) list" where
  "scheduled_listing projectId channel w = sort_key fst (filter (scheduled_matches projectId channel) (aw_parked w))"

definition past_task :: "string option \<Rightarrow> (string \<times> json) list \<Rightarrow> (string \<times> json) list" where
  "past_task cursor rows = (case cursor of None \<Rightarrow> rows | Some c \<Rightarrow> if c = [] then rows else filter (\<lambda>r. c < fst r) rows)"

definition scheduled_page ::
  "string \<Rightarrow> nat \<Rightarrow> string option \<Rightarrow> 'r api_world \<Rightarrow> string option \<Rightarrow> (string \<times> json) list \<times> string option" where
  "scheduled_page projectId n channel w cursor =
     (let rows = take (n + 1) (past_task cursor (scheduled_listing projectId channel w));
          hasNext = length rows > n;
          scheduled = (if hasNext then take n rows else rows)
      in (scheduled, if hasNext \<and> scheduled \<noteq> [] then Some (fst (last scheduled)) else None))"

definition getScheduledMessages :: "RouteContext \<Rightarrow> ('r, http_reply) api_act" where
  "getScheduledMessages ctx =
     bindA (select (\<lambda>w. case scheduled_page (ctx_project ctx) (nat (parseLimit (rc_query ctx) 50 id 100))
                (getQueryParam (rc_query ctx) ''channel'') w (getQueryParam (rc_query ctx) ''cursor'') of
              (rows, c) \<Rightarrow> (map (\<lambda>(t, p). JObj [(''taskId'', JStr t), (''payload'', p),
                 (''createdAt'', JInt (aw_parkedAt w t))]) rows, c))) (\<lambda>(scheduled, nextCursor).
       ret (sendJson 200 (JObj [(''scheduled'', JArr scheduled), (''nextCursor'', nullable nextCursor)])))"

section \<open>Every target has its request\<close>

definition notify_events :: "notify_request \<Rightarrow> string \<Rightarrow> string option \<Rightarrow> string \<Rightarrow> new_event list" where
  "notify_events body projectId key uuid =
     (let targets = notify_targets body
      in map (notify_event body projectId key (case key of Some k \<Rightarrow> k | None \<Rightarrow> uuid) (length targets)) (enumerate 0 targets))"

definition published_requests :: "api_effect list \<Rightarrow> new_event list" where
  "published_requests log = concat (map (\<lambda>x. case x of PublishRequests _ es \<Rightarrow> es | _ \<Rightarrow> []) log)"

lemma persistUsers_silent: "w_log (snd (persistUsers e us p w)) = w_log w"
  by (cases "persist_tx e us p (aw_db w)"; cases "w_faults w (w_step w)")
    (simp_all add: persistUsers_def transact_def bindA_def attempt_def awaited_def Let_def ret_def throw_def)

lemma publish_requests_run:
  "publish_requests l es w = (case w_faults w (w_step w) of
     Some x \<Rightarrow> (Inl x, w\<lparr>w_step := Suc (w_step w)\<rparr>)
   | None \<Rightarrow> (Inr (), record_effect (PublishRequests l es) (w\<lparr>w_step := Suc (w_step w)\<rparr>)))"
  by (cases "w_faults w (w_step w)") (simp_all add: publish_requests_def perform_def attempt_def Let_def)

lemma for_each_publish:
  assumes "for_each cs (\<lambda>c. publish_requests l (f c)) w = (r, w')"
  shows "\<exists>k. w_log w' = w_log w @ map (\<lambda>c. PublishRequests l (f c)) (take k cs) \<and> (r = Inr () \<longrightarrow> length cs \<le> k)"
  using assms
proof (induction cs arbitrary: w)
  case Nil
  then show ?case by (auto simp: ret_def)
next
  case (Cons c cs)
  show ?case
  proof (cases "w_faults w (w_step w)")
    case (Some x)
    with Cons.prems have "w_log w' = w_log w" "r = Inl x"
      by (auto simp: thenA_def bindA_def publish_requests_run [of l "f c" w])
    then show ?thesis by (intro exI [of _ 0]) simp
  next
    case None
    let ?w = "record_effect (PublishRequests l (f c)) (w\<lparr>w_step := Suc (w_step w)\<rparr>)"
    from None Cons.prems have "for_each cs (\<lambda>c. publish_requests l (f c)) ?w = (r, w')"
      by (simp add: thenA_def bindA_def publish_requests_run [of l "f c" w])
    from Cons.IH [OF this] obtain k where
      "w_log w' = w_log ?w @ map (\<lambda>c. PublishRequests l (f c)) (take k cs)" "r = Inr () \<longrightarrow> length cs \<le> k" by blast
    then show ?thesis by (intro exI [of _ "Suc k"]) (simp add: record_effect_def)
  qed
qed

lemma concat_take_prefix: "prefix (concat (take k xss)) (concat xss)"
  by (metis append_take_drop_id concat_append prefixI)

lemma notification_id_inj:
  "i < n \<Longrightarrow> j < n \<Longrightarrow> notification_id base n i = notification_id base n j \<longleftrightarrow> i = j"
  by (auto simp: notification_id_def show_nat_inj)

lemma notify_run:
  assumes "notify e uuid mid ctx req (Inr (Inr body)) w = (r, w')"
  shows "\<exists>k. w_log w' = w_log w @ map (\<lambda>c. PublishRequests (bucket_text (payload_bucket
            (case nq_priority body of Some p \<Rightarrow> p | None \<Rightarrow> PNormal)))
            (map (notify_event body (ctx_project ctx) (idempotency_key req) (case idempotency_key req of Some k \<Rightarrow> k | None \<Rightarrow> uuid)
               (length (notify_targets body))) c)) (take k (chunk_array 1000 (enumerate 0 (notify_targets body))))
      \<and> (\<forall>reply. r = Inr reply \<longrightarrow> length (chunk_array 1000 (enumerate 0 (notify_targets body))) \<le> k)"
    (is "\<exists>k. w_log w' = w_log w @ map (\<lambda>c. PublishRequests ?l (?f c)) (take k ?cs) \<and> _")
proof -
  let ?persist = "if inline_users body = [] then ret () else persistUsers e (inline_users body) (ctx_project ctx)"
  let ?publish = "for_each ?cs (\<lambda>c. publish_requests ?l (?f c))"
  obtain r0 w0 where p: "?persist w = (r0, w0)" by fastforce
  have quiet: "w_log w0 = w_log w"
    using p persistUsers_silent [of e "inline_users body" "ctx_project ctx" w] by (auto simp: ret_def split: if_splits)
  show ?thesis
  proof (cases r0)
    case (Inl x)
    with p assms have "r = Inl x" "w' = w0"
      by (simp_all add: notify_def with_body_def Let_def thenA_def bindA_def)
    with quiet show ?thesis by (intro exI [of _ 0]) simp
  next
    case (Inr u)
    obtain r1 w1 where q: "?publish w0 = (r1, w1)" by fastforce
    from for_each_publish [OF q] obtain k where
      k: "w_log w1 = w_log w0 @ map (\<lambda>c. PublishRequests ?l (?f c)) (take k ?cs)" "r1 = Inr () \<longrightarrow> length ?cs \<le> k" by blast
    have "w' = w1" "(\<forall>reply. r \<noteq> Inr reply) \<or> r1 = Inr ()"
      using assms p q Inr by (auto simp: notify_def with_body_def Let_def thenA_def bindA_def ret_def split: sum.splits)
    with k quiet show ?thesis by (intro exI [of _ k]) auto
  qed
qed

lemma published_chunks:
  "published_requests (map (\<lambda>c. PublishRequests l (map f c)) cs) = map f (concat cs)"
  by (induction cs) (simp_all add: published_requests_def)


definition ex_notify_call :: notify_request where
  "ex_notify_call = \<lparr>nq_user = Some [Inl ''a'', Inl ''b''], nq_segment = None, nq_topic = [], nq_template = ''t'',
     nq_priority = None, nq_channels = None, nq_data = None, nq_aiPrompts = None, nq_fallback = None,
     nq_sendAt = None, nq_campaign = None\<rparr>"

definition ex_notify_run :: "(exn + http_reply) \<times> mem_store api_world" where
  "ex_notify_run = notify ex_user_env ''uuid'' (\<lambda>_. ''1-0'') ex_user_context
     \<lparr>rq_method = None, rq_url = None, rq_headers = [], rq_remoteAddress = None\<rparr> (Inr (Inr ex_notify_call)) (empty_api_world mem_empty)"

lemma ex_notify_run_ok: "\<not> isl (fst ex_notify_run)"
  by code_simp

lemma ex_notify_events: "length (notify_events ex_notify_call p key uuid) = 2"
  by (simp add: notify_events_def notify_targets_def ex_notify_call_def Let_def)


text \<open>
  The key of a batch with the number of a target may be the key of another call: the enricher
  cannot tell the two requests apart, and drops the one that comes second.
\<close>

lemma batch_key_is_another_key:
  assumes "1 < n"
  shows "request_key opts (notify_payload b1 p (Some k) (notification_id k n i) t1) m1
       = request_key opts (notify_payload b2 p (Some (k @ ''-'' @ show_nat i)) (notification_id (k @ ''-'' @ show_nat i) 1 0) t2) m2"
  using assms by (simp add: request_key_def dedupe_id_def notify_payload_def notification_id_def)

section \<open>The pages of the parked sends\<close>

lemma scheduled_listing_sorted:
  assumes "jm_wf (aw_parked w)"
  shows "sorted_wrt (\<lambda>x y. fst x < fst y) (scheduled_listing projectId channel w)"
proof -
  let ?rows = "filter (scheduled_matches projectId channel) (aw_parked w)"
  have "distinct (map fst ?rows)" using assms by (simp add: distinct_map_filter)
  then have "distinct (map fst (sort_key fst ?rows))" by (simp add: distinct_map)
  then have "sorted_wrt (<) (map fst (sort_key fst ?rows))" by (simp add: strict_sorted_iff)
  then show ?thesis by (simp add: scheduled_listing_def sorted_wrt_map)
qed

lemma past_task_rest:
  "past_task c rows = rest_from (\<lambda>x y. fst x < fst y) (case c of None \<Rightarrow> None | Some t \<Rightarrow> if t = [] then None else Some (t, JNull)) rows"
  by (simp add: past_task_def rest_from_def split: option.split)

lemma task_order: "asymp (\<lambda>x y. fst x < (fst y :: string))" "transp (\<lambda>x y. fst x < (fst y :: string))"
  by (auto intro!: asympI transpI)

lemma rest_from_key:
  "rest_from (\<lambda>x y. fst x < fst y) (Some x) rows = rest_from (\<lambda>x y. fst x < fst y) (Some (fst x, b)) rows"
  by (simp add: rest_from_def)

text \<open>A task has an id that is not empty.\<close>

interpretation scheduled: paged_listing
  "\<lambda>w. jm_wf (aw_parked w) \<and> jm_get (aw_parked w) [] = None \<and> 0 < n"
  "scheduled_page projectId n channel"
  "\<lambda>w c. past_task c (scheduled_listing projectId channel w)"
  "\<lambda>w c. True"
proof
  fix s :: "'a api_world" and c xs
  assume "scheduled_page projectId n channel s c = (xs, None)" "jm_wf (aw_parked s) \<and> jm_get (aw_parked s) [] = None \<and> 0 < n"
  then show "past_task c (scheduled_listing projectId channel s) = xs"
    by (auto simp: scheduled_page_def Let_def split: if_splits)
next
  fix s :: "'a api_world" and c xs d
  assume s: "jm_wf (aw_parked s) \<and> jm_get (aw_parked s) [] = None \<and> 0 < n"
    and pg: "scheduled_page projectId n channel s c = (xs, Some d)"
  let ?rows = "scheduled_listing projectId channel s" and ?P = "\<lambda>x y :: string \<times> json. fst x < fst y"
  define x where "x = (case c of None \<Rightarrow> None | Some t \<Rightarrow> if t = [] then None else Some (t, JNull))"
  have rest: "past_task c ?rows = rest_from ?P x ?rows" by (simp add: past_task_rest x_def)
  have full: "xs = take n (rest_from ?P x ?rows)" "xs \<noteq> []" "d = fst (last xs)"
    using pg s unfolding rest [symmetric] scheduled_page_def Let_def by (auto split: if_splits)
  have "last xs \<in> set (rest_from ?P x ?rows)" using full(1,2) by (metis in_set_takeD last_in_set)
  then have "last xs \<in> set (aw_parked s)"
    by (auto simp: rest_from_def scheduled_listing_def split: option.splits)
  then have "d \<in> fst ` set (aw_parked s)" using full(3) by simp
  then have "d \<noteq> []" using s by (metis map_of_eq_None_iff)
  then have next_rows: "past_task (Some d) ?rows = rest_from ?P (Some (last xs)) ?rows"
    by (simp add: past_task_def rest_from_def full(3))
  have "rest_from ?P x ?rows = xs @ rest_from ?P (Some (last xs)) ?rows"
    by (rule rest_from_next [OF scheduled_listing_sorted task_order full(1,2)]) (use s in simp)
  with rest next_rows full(2) show "xs \<noteq> [] \<and> past_task c ?rows = xs @ past_task (Some d) ?rows \<and> True" by simp
qed simp

end
