(* ===== verification/Api_Logs.thy ===== *)
theory Api_Logs
  imports Api_Notifications
begin

text \<open>
  The delivery log as \<open>GET /v1/logs\<close> lists it (\<open>getNotificationLogs\<close> of
  \<open>src/src/services/api/handlers/notifications.ts\<close>): one entry per task, at its newest row, in
  pages whose cursor is the position of a row. A log has several rows for a task, so a page scans
  batches of rows and leaves out the tasks of earlier pages.
\<close>

section \<open>Cursors\<close>

text \<open>
  What Postgres and \<open>Date\<close> make of a time and an id: the text of a timestamp, the instant of a
  text (\<open>None\<close> is an error of the cast), whether \<open>Date.parse\<close> reads it, \<open>toISOString\<close> of
  milliseconds (\<open>None\<close> is a RangeError), and the cast of a text to a uuid.
\<close>

record log_env =
  lv_text :: "int \<Rightarrow> string"
  lv_time :: "string \<Rightarrow> int option"
  lv_date_ok :: "string \<Rightarrow> bool"
  lv_iso :: "nat \<Rightarrow> string option"
  lv_uuid :: "string \<Rightarrow> string option"

definition encodeLogCursor :: "string \<Rightarrow> string \<Rightarrow> string" where
  "encodeLogCursor ts i = base64url_encode (utf8_encode (json_stringify (JArr [JStr ts, JStr i])))"

definition log_id_text :: "string \<Rightarrow> bool" where
  "log_id_text i \<longleftrightarrow> length i = 36 \<and> list_all (\<lambda>c. hex_val c \<noteq> None \<or> c = CHR ''-'') i"

definition decodeLogCursor :: "log_env \<Rightarrow> string option \<Rightarrow> exn + (string \<times> string) option" where
  "decodeLogCursor e cursor =
     (case cursor of
        None \<Rightarrow> Inr None
      | Some c \<Rightarrow>
          if c = [] then Inr None
          else if list_all js_digit c then
            (case lv_iso e (digits_val 0 c) of
               None \<Rightarrow> Inl (Error ''Invalid time value'')
             | Some ts \<Rightarrow> Inr (Some (ts, ''ffffffff-ffff-ffff-ffff-ffffffffffff'')))
          else case json_parse (utf8_decode (base64url_decode c)) of
            Some (JArr (JStr ts # JStr i # _)) \<Rightarrow>
              Inr (if lv_date_ok e ts \<and> log_id_text i then Some (ts, i) else None)
          | _ \<Rightarrow> Inr None)"

text \<open>The position a cursor stands for, with the casts of the query.\<close>

definition log_position :: "log_env \<Rightarrow> (string \<times> string) option \<Rightarrow> exn + (int \<times> string) option" where
  "log_position e p =
     (case p of
        None \<Rightarrow> Inr None
      | Some (ts, i) \<Rightarrow> (case (lv_time e ts, lv_uuid e i) of
          (Some t, Some u) \<Rightarrow> Inr (Some (t, u))
        | _ \<Rightarrow> Inl (Error ''invalid input syntax'')))"

section \<open>Which rows\<close>

record log_filter =
  lf_templateId :: "string option"
  lf_workflowInstanceId :: "string option"
  lf_channel :: "string option"
  lf_status :: "string option"
  lf_taskId :: "string option"
  lf_campaign :: "string option"
  lf_search :: "string option"

abbreviation log_task :: "message_log \<Rightarrow> string" where
  "log_task l \<equiv> lr_taskId (ml_row l)"

text \<open>A null column is like nothing.\<close>

definition like_column :: "string \<Rightarrow> string option \<Rightarrow> bool" where
  "like_column pattern v = (case v of Some s \<Rightarrow> like_match pattern s | None \<Rightarrow> False)"

definition log_matches :: "string \<Rightarrow> log_filter \<Rightarrow> message_log \<Rightarrow> bool" where
  "log_matches projectId f l \<longleftrightarrow>
     (let r = ml_row l
      in lr_projectId r = projectId
         \<and> filtered (lf_templateId f) (\<lambda>v. lr_templateId r = Some v)
         \<and> filtered (lf_workflowInstanceId f) (\<lambda>v. lr_workflowInstanceId r = Some v)
         \<and> filtered (lf_channel f) (\<lambda>v. lr_channel r = v)
         \<and> filtered (lf_status f) (\<lambda>v. lr_status r = v)
         \<and> filtered (lf_taskId f) (\<lambda>v. lr_taskId r = v)
         \<and> filtered (lf_campaign f) (\<lambda>v. lr_campaignId r = Some v)
         \<and> filtered (lf_search f) (\<lambda>v. list_ex (like_column (contains v))
              [Some (lr_taskId r), lr_templateId r, lr_providerMessageId r, lr_campaignId r]))"

definition log_key :: "message_log \<Rightarrow> int \<times> string" where
  "log_key l = (ml_time l, ml_id l)"

definition log_listing :: "(message_log \<Rightarrow> bool) \<Rightarrow> 'r api_world \<Rightarrow> message_log list" where
  "log_listing P w = rev (sort_key log_key (filter P (aw_logs w)))"

definition log_from :: "(int \<times> string) option \<Rightarrow> bool \<Rightarrow> message_log \<Rightarrow> bool" where
  "log_from pos inclusive l =
     (case pos of None \<Rightarrow> True | Some k \<Rightarrow> if inclusive then log_key l \<le> k else log_key l < k)"

section \<open>The scan\<close>

type_synonym task_rows = "(string, message_log list) jsmap"

text \<open>The rows of a batch, up to the first one of a task the page has no room for.\<close>

fun take_rows :: "nat \<Rightarrow> string set \<Rightarrow> message_log list \<Rightarrow> task_rows \<Rightarrow> task_rows \<times> message_log option" where
  "take_rows n listed [] acc = (acc, None)"
| "take_rows n listed (l # ls) acc =
     (if log_task l \<in> listed then take_rows n listed ls acc
      else case jm_get acc (log_task l) of
        Some rows \<Rightarrow> take_rows n listed ls (jm_set (log_task l) (rows @ [l]) acc)
      | None \<Rightarrow>
          if length acc = n then (acc, Some l)
          else take_rows n listed ls (jm_set (log_task l) [l] acc))"

definition log_batch ::
  "(message_log \<Rightarrow> bool) \<Rightarrow> (int \<times> string) option \<Rightarrow> bool \<Rightarrow> nat \<Rightarrow> ('r, message_log list) api_act" where
  "log_batch P scanFrom inclusive batchSize =
     select (\<lambda>w. take batchSize (filter (log_from scanFrom inclusive) (log_listing P w)))"

text \<open>The tasks among \<open>fresh\<close> that have a row newer than the cursor.\<close>

definition listed_earlier ::
  "(message_log \<Rightarrow> bool) \<Rightarrow> (int \<times> string) option \<Rightarrow> string list \<Rightarrow> ('r, string list) api_act" where
  "listed_earlier P since fresh =
     (case since of
        None \<Rightarrow> ret []
      | Some k \<Rightarrow>
          if fresh = [] then ret []
          else select (\<lambda>w. remdups (map log_task (filter (\<lambda>l. log_task l \<in> set fresh \<and> k < log_key l) (log_listing P w)))))"

fun scan_logs ::
  "nat \<Rightarrow> (message_log \<Rightarrow> bool) \<Rightarrow> (int \<times> string) option \<Rightarrow> nat \<Rightarrow> nat \<Rightarrow> (int \<times> string) option \<Rightarrow> bool \<Rightarrow> task_rows
    \<Rightarrow> ('r, task_rows \<times> message_log option) api_act" where
  "scan_logs 0 P since n batchSize scanFrom inclusive acc = ret (acc, None)"
| "scan_logs (Suc rounds) P since n batchSize scanFrom inclusive acc =
     bindA (log_batch P scanFrom inclusive batchSize) (\<lambda>batch.
       bindA (listed_earlier P since (filter (\<lambda>t. jm_get acc t = None) (remdups (map log_task batch)))) (\<lambda>listed.
         case take_rows n (set listed) batch acc of (acc, next_row) \<Rightarrow>
           if next_row \<noteq> None \<or> length batch < batchSize then ret (acc, next_row)
           else scan_logs rounds P since n batchSize (Some (log_key (last batch))) False acc))"

text \<open>At most fifty batches are read for a page.\<close>

definition scan_rounds :: nat where
  "scan_rounds = 50"

definition log_page_rows ::
  "(message_log \<Rightarrow> bool) \<Rightarrow> nat \<Rightarrow> (int \<times> string) option \<Rightarrow> ('r, task_rows \<times> message_log option) api_act" where
  "log_page_rows P n since = scan_logs scan_rounds P since n (max (n * 4) 50) since True []"

text \<open>The latest outcome of a task, rather than the dispatch that preceded it.\<close>

definition shown_row :: "string \<times> message_log list \<Rightarrow> message_log" where
  "shown_row e = (case find (\<lambda>l. lr_status (ml_row l) \<noteq> ''dispatched'') (snd e) of Some l \<Rightarrow> l | None \<Rightarrow> hd (snd e))"

text \<open>
  The columns of the workflow instance and of the channel have types of their own: a text that is
  no value of the type is an error of the query.
\<close>

definition uuid_param :: "log_env \<Rightarrow> string option \<Rightarrow> string option" where
  "uuid_param e v = (case v of Some s \<Rightarrow> if s = [] then None else lv_uuid e s | None \<Rightarrow> None)"

definition log_query_ok :: "log_env \<Rightarrow> query_params \<Rightarrow> bool" where
  "log_query_ok e params \<longleftrightarrow>
     filtered (getQueryParam params ''workflowInstanceId'') (\<lambda>v. lv_uuid e v \<noteq> None)
     \<and> filtered (getQueryParam params ''channel'') (\<lambda>v. channel_of_text v \<noteq> None)"

definition query_filter :: "log_env \<Rightarrow> query_params \<Rightarrow> log_filter" where
  "query_filter e params =
     (let q = getQueryParam params
      in \<lparr>lf_templateId = q ''templateId'', lf_workflowInstanceId = uuid_param e (q ''workflowInstanceId''),
          lf_channel = q ''channel'', lf_status = q ''status'', lf_taskId = q ''taskId'',
          lf_campaign = (case q ''campaign'' of Some c \<Rightarrow> if c = [] then q ''campaignId'' else Some c | None \<Rightarrow> q ''campaignId''),
          lf_search = q ''search''\<rparr>)"

definition getNotificationLogs :: "log_env \<Rightarrow> RouteContext \<Rightarrow> ('r, http_reply) api_act" where
  "getNotificationLogs e ctx =
     (let n = nat (parseLimit (rc_query ctx) 50 id 100)
      in bindA (awaited (decodeLogCursor e (getQueryParam (rc_query ctx) ''cursor''))) (\<lambda>cursor.
           bindA (awaited (log_position e cursor)) (\<lambda>since.
             if \<not> log_query_ok e (rc_query ctx) then throw (Error ''invalid input syntax'')
             else bindA (log_page_rows (log_matches (ctx_project ctx) (query_filter e (rc_query ctx))) n since) (\<lambda>(acc, next_row).
               ret (sendJson 200 (JObj [(''logs'', JArr (map (log_json \<circ> shown_row) acc)),
                 (''nextCursor'', nullable (map_option (\<lambda>l. encodeLogCursor (lv_text e (ml_time l)) (ml_id l)) next_row))]))))))"

section \<open>A cursor reads back\<close>

lemma encoded_cursor_start: "\<exists>r. encodeLogCursor ts i = CHR ''W'' # r"
proof -
  obtain x where "json_stringify (JArr [JStr ts, JStr i]) = CHR ''['' # CHR 0x22 # x"
    by (simp add: json_quote_def)
  then have "encodeLogCursor ts i = map b64_digit (sextets (91 # 34 # map of_char (utf8_encode x)))"
    by (simp add: encodeLogCursor_def base64url_encode_def)
  moreover have "char_of (87::nat) = CHR ''W''" by code_simp
  ultimately show ?thesis by (cases "map of_char (utf8_encode x) :: nat list") (simp_all add: b64_digit_def)
qed

lemma encoded_cursor_not_digits: "\<not> list_all js_digit (encodeLogCursor ts i)" "encodeLogCursor ts i \<noteq> []"
  using encoded_cursor_start [of ts i] by (auto simp: js_digit_def)

lemma log_cursor_roundtrip:
  assumes "lv_date_ok e ts" "log_id_text i"
  shows "decodeLogCursor e (Some (encodeLogCursor ts i)) = Inr (Some (ts, i))"
proof -
  have "json_parse (utf8_decode (base64url_decode (encodeLogCursor ts i))) = Some (JArr [JStr ts, JStr i])"
    by (simp add: encodeLogCursor_def json_parse_stringify del: json_stringify.simps)
  then show ?thesis using assms encoded_cursor_not_digits by (simp add: decodeLogCursor_def)
qed

section \<open>What a page holds\<close>

text \<open>The scan without its batches: the rows past the cursor, all at once.\<close>

fun scan_rows :: "nat \<Rightarrow> nat \<Rightarrow> nat \<Rightarrow> string set \<Rightarrow> message_log list \<Rightarrow> task_rows \<Rightarrow> task_rows \<times> message_log option" where
  "scan_rows 0 n b listed rows acc = (acc, None)"
| "scan_rows (Suc k) n b listed rows acc =
     (case take_rows n listed (take b rows) acc of (acc, next_row) \<Rightarrow>
        if next_row \<noteq> None \<or> length (take b rows) < b then (acc, next_row)
        else scan_rows k n b listed (drop b rows) acc)"

lemma take_rows_append:
  "take_rows n listed (xs @ ys) acc = (case take_rows n listed xs acc of
     (a, Some l) \<Rightarrow> (a, Some l) | (a, None) \<Rightarrow> take_rows n listed ys a)"
  by (induction xs arbitrary: acc) (auto split: option.split)

lemma scan_rows_take: "scan_rows k n b listed rows acc = take_rows n listed (take (k * b) rows) acc"
proof (induction k arbitrary: rows acc)
  case (Suc k)
  obtain a x where t: "take_rows n listed (take b rows) acc = (a, x)" by fastforce
  have whole: "take_rows n listed (take (Suc k * b) rows) acc =
      (case x of Some l \<Rightarrow> (a, Some l) | None \<Rightarrow> take_rows n listed (take (k * b) (drop b rows)) a)"
    using take_rows_append [of n listed "take b rows" "take (k * b) (drop b rows)" acc] t by (simp add: take_add)
  show ?case
  proof (cases "x \<noteq> None \<or> length (take b rows) < b")
    case True
    then show ?thesis using t whole by (cases x) auto
  next
    case False
    then show ?thesis using t whole Suc.IH by simp
  qed
qed simp

section \<open>The scan over the table\<close>

definition listed_set :: "message_log list \<Rightarrow> (int \<times> string) option \<Rightarrow> string set" where
  "listed_set rows since = (case since of None \<Rightarrow> {} | Some k \<Rightarrow> log_task ` {l \<in> set rows. k < log_key l})"

lemma take_rows_same_listed:
  "(\<And>l. l \<in> set rows \<Longrightarrow> jm_get acc (log_task l) = None \<Longrightarrow> log_task l \<in> A \<longleftrightarrow> log_task l \<in> B)
     \<Longrightarrow> (\<And>t. jm_get acc t \<noteq> None \<Longrightarrow> t \<notin> A \<and> t \<notin> B) \<Longrightarrow> take_rows n A rows acc = take_rows n B rows acc"
proof (induction rows arbitrary: acc)
  case (Cons l ls)
  have same: "log_task l \<in> A \<longleftrightarrow> log_task l \<in> B"
    using Cons.prems by (cases "jm_get acc (log_task l)") auto
  have "take_rows n A ls (jm_set (log_task l) rows acc) = take_rows n B ls (jm_set (log_task l) rows acc)"
    if "log_task l \<notin> A" for rows
    by (rule Cons.IH) (use that same Cons.prems in \<open>auto simp: update_conv split: if_splits\<close>)
  moreover have "take_rows n A ls acc = take_rows n B ls acc"
    by (rule Cons.IH) (use Cons.prems in auto)
  ultimately show ?case using same by (auto split: option.split)
qed simp

lemma take_rows_unlisted:
  "take_rows n listed rows acc = (acc', x) \<Longrightarrow> (\<And>t. jm_get acc t \<noteq> None \<Longrightarrow> t \<notin> listed)
     \<Longrightarrow> jm_get acc' t \<noteq> None \<Longrightarrow> t \<notin> listed"
proof (induction rows arbitrary: acc)
  case (Cons l ls)
  consider (skip) "take_rows n listed ls acc = (acc', x)"
    | (stop) "acc' = acc"
    | (put) rows where "log_task l \<notin> listed" "take_rows n listed ls (jm_set (log_task l) rows acc) = (acc', x)"
    using Cons.prems(1) by (auto split: if_splits option.splits)
  then show ?case
  proof cases
    case skip
    then show ?thesis using Cons.IH Cons.prems(2,3) by blast
  next
    case stop
    then show ?thesis using Cons.prems(2,3) by blast
  next
    case put
    have "\<And>t. jm_get (jm_set (log_task l) rows acc) t \<noteq> None \<Longrightarrow> t \<notin> listed"
      using put(1) Cons.prems(2) by (auto simp: update_conv split: if_splits)
    then show ?thesis using Cons.IH [OF put(2)] Cons.prems(3) by blast
  qed
qed simp

definition log_ids_ok :: "'r api_world \<Rightarrow> bool" where
  "log_ids_ok w \<longleftrightarrow> distinct (map ml_id (aw_logs w))"

lemma log_listing_sorted: "log_ids_ok w \<Longrightarrow> sorted_wrt (\<lambda>x y. log_key y < log_key x) (log_listing P w)"
  unfolding log_listing_def by (rule sorted_desc, rule distinct_map_fine [of ml_id]) (auto simp: log_ids_ok_def log_key_def)

lemma log_order: "asymp (\<lambda>x y. log_key y < log_key x)" "transp (\<lambda>x y. log_key y < log_key x)"
  by (auto intro!: asympI transpI)

lemma log_listing_step: "log_listing P (w\<lparr>w_step := k\<rparr>) = log_listing P w"
  by (simp add: log_listing_def)

lemma log_next_batch:
  assumes "sorted_wrt (\<lambda>x y. log_key y < log_key x) rows" "xs = take b (filter (log_from pos inclusive) rows)" "xs \<noteq> []"
  shows "filter (log_from (Some (log_key (last xs))) False) rows = drop b (filter (log_from pos inclusive) rows)"
proof -
  let ?R = "filter (log_from pos inclusive) rows" and ?P = "\<lambda>x y. log_key y < log_key x"
  have parts: "?R = butlast xs @ last xs # drop b ?R"
    using assms(2,3) by (metis append.assoc append_Cons append_Nil append_butlast_last_id append_take_drop_id)
  have "sorted_wrt ?P ?R" using assms(1) by (rule sorted_wrt_filter)
  then have split: "filter (?P (last xs)) ?R = drop b ?R" using sorted_split log_order(1) parts by metis
  have "last xs \<in> set ?R" using parts by (metis in_set_conv_decomp)
  then have "log_from pos inclusive (last xs)" by simp
  then have below: "log_from pos inclusive l" if "log_key l < log_key (last xs)" for l
    using that by (auto simp: log_from_def split: option.splits if_splits)
  have "filter (log_from (Some (log_key (last xs))) False) rows = filter (?P (last xs)) ?R"
    unfolding filter_filter by (rule filter_cong [OF refl]) (use below in \<open>auto simp: log_from_def [of "Some _"]\<close>)
  with split show ?thesis by simp
qed

lemma select_run: "no_faults w \<Longrightarrow> select f w = (Inr (f (w\<lparr>w_step := Suc (w_step w)\<rparr>)), w\<lparr>w_step := Suc (w_step w)\<rparr>)"
  by (simp add: select_def attempt_ok)

lemma no_faults_step [simp]: "no_faults (w\<lparr>w_step := k\<rparr>) = no_faults w"
  by (simp add: no_faults_def)

lemma log_ids_step [simp]: "log_ids_ok (w\<lparr>w_step := k\<rparr>) = log_ids_ok w"
  by (simp add: log_ids_ok_def)

lemma listed_earlier_run:
  assumes "no_faults w"
  shows "\<exists>w' listed. listed_earlier P since fresh w = (Inr listed, w')
    \<and> set listed = {t \<in> listed_set (log_listing P w) since. t \<in> set fresh}
    \<and> no_faults w' \<and> (log_ids_ok w \<longrightarrow> log_ids_ok w') \<and> log_listing P w' = log_listing P w"
  using assms
  by (auto simp: listed_earlier_def ret_def select_run listed_set_def log_listing_step split: option.split)

lemma scan_logs_rows:
  assumes "no_faults w" "log_ids_ok w" "0 < b"
    and "\<And>t. jm_get acc t \<noteq> None \<Longrightarrow> t \<notin> listed_set (log_listing P w) since"
  shows "fst (scan_logs k P since n b pos inclusive acc w) =
    Inr (scan_rows k n b (listed_set (log_listing P w) since) (filter (log_from pos inclusive) (log_listing P w)) acc)"
  using assms
proof (induction k arbitrary: pos inclusive acc w)
  case 0
  then show ?case by (simp add: ret_def)
next
  case (Suc k)
  let ?S = "log_listing P w" and ?L = "listed_set (log_listing P w) since"
  let ?R = "filter (log_from pos inclusive) ?S"
  let ?batch = "take b ?R" and ?w1 = "w\<lparr>w_step := Suc (w_step w)\<rparr>"
  let ?fresh = "filter (\<lambda>t. jm_get acc t = None) (remdups (map log_task ?batch))"
  have batch: "log_batch P pos inclusive b w = (Inr ?batch, ?w1)"
    using Suc.prems(1) by (simp add: log_batch_def select_run log_listing_step)
  obtain w2 listed where earlier: "listed_earlier P since ?fresh ?w1 = (Inr listed, w2)"
      "set listed = {t \<in> ?L. t \<in> set ?fresh}" "no_faults w2" "log_ids_ok w2" "log_listing P w2 = ?S"
    using listed_earlier_run [of ?w1 P since ?fresh] Suc.prems(1,2) by (auto simp: log_listing_step)
  have "take_rows n (set listed) ?batch acc = take_rows n ?L ?batch acc"
    by (rule take_rows_same_listed) (use earlier(2) Suc.prems(4) in auto)
  moreover obtain acc' x where t: "take_rows n ?L ?batch acc = (acc', x)" by fastforce
  ultimately have t': "take_rows n (set listed) ?batch acc = (acc', x)" by simp
  show ?case
  proof (cases "x \<noteq> None \<or> length ?batch < b")
    case True
    then have "fst (scan_logs (Suc k) P since n b pos inclusive acc w) = Inr (acc', x)"
      using batch earlier(1) t' by (simp add: bindA_def ret_def del: remdups_filter)
    with True t show ?thesis by simp
  next
    case False
    then have some: "?batch \<noteq> []" using Suc.prems(3) by auto
    have "fst (scan_logs (Suc k) P since n b pos inclusive acc w)
        = fst (scan_logs k P since n b (Some (log_key (last ?batch))) False acc' w2)"
      using batch earlier(1) t' False by (simp add: bindA_def)
    also have "\<dots> = Inr (scan_rows k n b ?L (filter (log_from (Some (log_key (last ?batch))) False) ?S) acc')"
      using Suc.IH [OF earlier(3,4) Suc.prems(3), of acc' "Some (log_key (last ?batch))" False]
        take_rows_unlisted [OF t] Suc.prems(4) earlier(5) by simp
    also have "filter (log_from (Some (log_key (last ?batch))) False) ?S = drop b ?R"
      by (rule log_next_batch [OF log_listing_sorted [OF Suc.prems(2)] refl some])
    finally show ?thesis using False t by simp
  qed
qed

section \<open>The tasks of a page\<close>

text \<open>The tasks of the rows, each at its first row.\<close>

fun first_seen :: "'a list \<Rightarrow> 'a list" where
  "first_seen [] = []"
| "first_seen (x # xs) = x # removeAll x (first_seen xs)"

lemma set_first_seen [simp]: "set (first_seen xs) = set xs"
  by (induction xs) auto

lemma distinct_first_seen: "distinct (first_seen xs)"
  by (induction xs) (auto simp: distinct_removeAll)

lemma first_seen_append: "first_seen (xs @ ys) = first_seen xs @ filter (\<lambda>y. y \<notin> set xs) (first_seen ys)"
  by (induction xs) (auto simp: removeAll_filter_not_eq conj_commute intro!: filter_cong)

definition new_tasks :: "string set \<Rightarrow> task_rows \<Rightarrow> message_log list \<Rightarrow> string list" where
  "new_tasks listed acc rows = filter (\<lambda>t. t \<notin> listed \<and> jm_get acc t = None) (first_seen (map log_task rows))"

lemma new_tasks_Cons:
  "new_tasks listed acc (l # ls) =
     (if log_task l \<in> listed \<or> jm_get acc (log_task l) \<noteq> None then new_tasks listed acc ls
      else log_task l # filter (\<lambda>t. t \<noteq> log_task l) (new_tasks listed acc ls))"
  by (auto simp: new_tasks_def removeAll_filter_not_eq conj_ac intro!: filter_cong)

lemma new_tasks_set:
  "new_tasks listed (jm_set t v acc) ls = filter (\<lambda>u. u \<noteq> t) (new_tasks listed acc ls)"
  by (auto simp: new_tasks_def update_conv intro!: filter_cong)

lemma keys_set_old: "jm_get acc t \<noteq> None \<Longrightarrow> map fst (jm_set t v acc) = map fst acc"
  by (induction acc) auto

lemma take_rows_stop:
  "take_rows n listed rows acc = (acc', Some m) \<Longrightarrow> log_task m \<notin> listed \<and> jm_get acc (log_task m) = None"
proof (induction rows arbitrary: acc)
  case (Cons l ls)
  consider (skip) "take_rows n listed ls acc = (acc', Some m)"
    | (stop) "m = l" "log_task l \<notin> listed" "jm_get acc (log_task l) = None"
    | (put) rows where "take_rows n listed ls (jm_set (log_task l) rows acc) = (acc', Some m)"
    using Cons.prems by (auto split: if_splits option.splits)
  then show ?case
  proof cases
    case put
    from Cons.IH [OF this] show ?thesis by (auto simp: update_conv split: if_splits)
  qed (use Cons.IH in auto)
qed simp

lemma take_rows_tasks:
  assumes "take_rows n listed rows acc = (acc', x)" "length acc \<le> n"
  shows "map fst acc' = take n (map fst acc @ new_tasks listed acc rows)
    \<and> (case x of
         None \<Rightarrow> length acc + length (new_tasks listed acc rows) \<le> n
       | Some l \<Rightarrow> n < length acc + length (new_tasks listed acc rows)
           \<and> (map fst acc @ new_tasks listed acc rows) ! n = log_task l
           \<and> find (\<lambda>r. log_task r = log_task l) rows = Some l)"
  using assms
proof (induction rows arbitrary: acc)
  case Nil
  then show ?case by (auto simp: new_tasks_def)
next
  case (Cons l ls)
  have later: "log_task m \<noteq> log_task l" if "log_task l \<in> listed \<or> jm_get acc (log_task l) \<noteq> None" "x = Some m" for m
    using take_rows_stop [of n listed "l # ls" acc acc' m] Cons.prems(1) that by metis
  consider (skip) "log_task l \<in> listed" | (old) rs where "log_task l \<notin> listed" "jm_get acc (log_task l) = Some rs"
    | (stop) "log_task l \<notin> listed" "jm_get acc (log_task l) = None" "length acc = n"
    | (new) "log_task l \<notin> listed" "jm_get acc (log_task l) = None" "length acc < n"
    using Cons.prems(2) by fastforce
  then show ?case
  proof cases
    case skip
    with Cons later show ?thesis by (auto simp: new_tasks_Cons split: option.splits)
  next
    case old
    let ?acc = "jm_set (log_task l) (rs @ [l]) acc"
    have "map fst ?acc = map fst acc" using old(2) by (intro keys_set_old) simp
    then have keys: "map fst ?acc = map fst acc" "length ?acc = length acc" by (simp, metis length_map)
    have "filter (\<lambda>u. u \<noteq> log_task l) (new_tasks listed acc ls) = new_tasks listed acc ls"
      using old(2) by (auto simp: new_tasks_def intro!: filter_cong)
    then have "new_tasks listed ?acc ls = new_tasks listed acc (l # ls)" using old by (simp add: new_tasks_set new_tasks_Cons)
    moreover have "take_rows n listed ls ?acc = (acc', x)" using Cons.prems(1) old by simp
    ultimately show ?thesis using Cons.IH [of ?acc] Cons.prems(2) keys later old(2) by (auto split: option.splits)
  next
    case stop
    with Cons.prems show ?thesis by (auto simp: new_tasks_Cons nth_append)
  next
    case new
    let ?acc = "jm_set (log_task l) [l] acc"
    have acc: "?acc = acc @ [(log_task l, [l])]" using new(2) by (intro jm_set_new) (simp add: map_of_eq_None_iff)
    have tasks: "new_tasks listed acc (l # ls) = log_task l # new_tasks listed ?acc ls"
      using new by (simp add: new_tasks_set new_tasks_Cons)
    have run: "take_rows n listed ls ?acc = (acc', x)" using Cons.prems(1) new by simp
    have other: "log_task m \<noteq> log_task l" if "x = Some m" for m
      using take_rows_stop [of n listed ls ?acc acc' m] run that by (auto simp: update_conv split: if_splits)
    show ?thesis using Cons.IH [OF run] new(3) tasks other by (auto simp: acc split: option.splits)
  qed
qed

section \<open>The pages of the log\<close>

definition newest :: "message_log list \<Rightarrow> string \<Rightarrow> int \<times> string" where
  "newest rows t = log_key (the (find (\<lambda>l. log_task l = t) rows))"

text \<open>The tasks of a log at their newest rows, from a position on.\<close>

definition tasks_from :: "message_log list \<Rightarrow> (int \<times> string) option \<Rightarrow> string list" where
  "tasks_from rows pos = filter (\<lambda>t. log_from pos True (the (find (\<lambda>l. log_task l = t) rows))) (first_seen (map log_task rows))"

lemma find_task: "t \<in> log_task ` set rows \<Longrightarrow> \<exists>l \<in> set rows. find (\<lambda>l. log_task l = t) rows = Some l \<and> log_task l = t"
  by (induction rows) auto

lemma find_filter: "find Q rows = Some a \<Longrightarrow> R a \<Longrightarrow> find Q (filter R rows) = Some a"
  by (induction rows) (auto split: if_splits)

lemma log_from_below: "log_from pos True x \<Longrightarrow> log_key y < log_key x \<Longrightarrow> log_from pos True y"
  by (auto simp: log_from_def split: option.splits)

lemma tasks_from_Cons:
  "tasks_from (l # ls) pos = (if log_from pos True l then [log_task l] else []) @ removeAll (log_task l) (tasks_from ls pos)"
  by (auto simp: tasks_from_def removeAll_filter_not_eq intro!: filter_cong)

lemma new_tasks_from:
  "sorted_wrt (\<lambda>x y. log_key y < log_key x) rows \<Longrightarrow>
     new_tasks (listed_set rows pos) [] (filter (log_from pos True) rows) = tasks_from rows pos"
proof (induction rows)
  case Nil
  then show ?case by (simp add: new_tasks_def tasks_from_def)
next
  case (Cons l ls)
  show ?case
  proof (cases "log_from pos True l")
    case True
    then have all: "log_from pos True m" if "m \<in> set (l # ls)" for m
      using Cons.prems log_from_below that by auto
    have "\<not> k < log_key m" if "pos = Some k" "m \<in> set (l # ls)" for k m
      using all [OF that(2)] that(1) by (simp add: log_from_def leD)
    then have "listed_set (l # ls) pos = {}"
      unfolding listed_set_def by (cases pos) auto
    moreover have "filter (log_from pos True) (l # ls) = l # ls" using all by simp
    moreover have "tasks_from (l # ls) pos = first_seen (map log_task (l # ls))"
      unfolding tasks_from_def by (rule filter_True) (use find_task [of _ "l # ls"] all in fastforce)
    ultimately show ?thesis by (simp add: new_tasks_def)
  next
    case False
    then have "listed_set (l # ls) pos = insert (log_task l) (listed_set ls pos)"
      by (auto simp: listed_set_def log_from_def split: option.splits)
    then have "new_tasks (listed_set (l # ls) pos) [] (filter (log_from pos True) (l # ls))
        = filter (\<lambda>t. t \<noteq> log_task l) (new_tasks (listed_set ls pos) [] (filter (log_from pos True) ls))"
      using False by (auto simp: new_tasks_def intro!: filter_cong)
    also have "\<dots> = tasks_from (l # ls) pos"
      using False Cons by (auto simp: tasks_from_Cons removeAll_filter_not_eq intro!: filter_cong)
    finally show ?thesis .
  qed
qed

lemma newest_sorted:
  "sorted_wrt (\<lambda>x y. log_key y < log_key x) rows \<Longrightarrow> sorted_wrt (\<lambda>t u. newest rows u < newest rows t) (first_seen (map log_task rows))"
proof (induction rows)
  case (Cons l ls)
  have same: "newest (l # ls) u = newest ls u" if "u \<noteq> log_task l" for u using that by (simp add: newest_def)
  have "newest (l # ls) u < newest (l # ls) (log_task l)" if "u \<noteq> log_task l" "u \<in> log_task ` set ls" for u
    using find_task [OF that(2)] Cons.prems that(1) by (auto simp: newest_def)
  moreover have "sorted_wrt (\<lambda>t u. newest (l # ls) u < newest (l # ls) t) (removeAll (log_task l) (first_seen (map log_task ls)))"
  proof -
    have "sorted_wrt (\<lambda>t u. newest ls u < newest ls t) (removeAll (log_task l) (first_seen (map log_task ls)))"
      unfolding removeAll_filter_not_eq using Cons by (intro sorted_wrt_filter) auto
    then show ?thesis by (rule sorted_wrt_mono_rel [rotated]) (use same in auto)
  qed
  ultimately show ?case by auto
qed simp

lemma tasks_from_next:
  assumes sorted: "sorted_wrt (\<lambda>x y. log_key y < log_key x) rows"
    and l: "n < length (tasks_from rows pos)" "find (\<lambda>r. log_task r = tasks_from rows pos ! n) (filter (log_from pos True) rows) = Some l"
  shows "tasks_from rows (Some (log_key l)) = drop n (tasks_from rows pos)"
proof -
  let ?T = "first_seen (map log_task rows)" and ?N = "tasks_from rows pos"
  let ?P = "\<lambda>t u. newest rows u < newest rows t"
  let ?t = "?N ! n"
  have "?t \<in> set ?N" using l(1) by simp
  then have t: "?t \<in> log_task ` set rows" "log_from pos True (the (find (\<lambda>l. log_task l = ?t) rows))"
    by (auto simp: tasks_from_def)
  then obtain m where m: "find (\<lambda>l. log_task l = ?t) rows = Some m" using find_task by blast
  then have "find (\<lambda>r. log_task r = ?t) (filter (log_from pos True) rows) = Some m" using t(2) by (intro find_filter) auto
  with l(2) m have key: "newest rows ?t = log_key l" by (simp add: newest_def)
  have sortedN: "sorted_wrt ?P ?N" using newest_sorted [OF sorted] unfolding tasks_from_def by (rule sorted_wrt_filter)
  have from_key: "log_from q True (the (find (\<lambda>l. log_task l = u) rows)) \<longleftrightarrow> (case q of None \<Rightarrow> True | Some k \<Rightarrow> newest rows u \<le> k)" for q u
    by (simp add: log_from_def newest_def split: option.split)
  have "newest rows u \<le> k" if "pos = Some k" "newest rows u \<le> log_key l" for u k
    using t(2) key that unfolding from_key by simp
  then have "filter (\<lambda>u. newest rows u \<le> log_key l) ?T = filter (\<lambda>u. newest rows u \<le> log_key l) ?N"
    unfolding tasks_from_def filter_filter from_key by (intro filter_cong [OF refl]) (auto split: option.split)
  then have "tasks_from rows (Some (log_key l)) = filter (\<lambda>u. newest rows u \<le> newest rows ?t) ?N"
    unfolding key by (simp add: tasks_from_def from_key)
  also have "\<dots> = filter (\<lambda>u. newest rows u \<le> newest rows ?t) (take n ?N @ ?t # drop (Suc n) ?N)"
    using l(1) by (simp add: id_take_nth_drop [symmetric])
  also have "\<dots> = ?t # drop (Suc n) ?N"
  proof -
    have "sorted_wrt ?P (take n ?N @ ?t # drop (Suc n) ?N)" using sortedN l(1) by (simp add: id_take_nth_drop [symmetric])
    then have "\<forall>u \<in> set (take n ?N). \<not> newest rows u \<le> newest rows ?t" "\<forall>u \<in> set (drop (Suc n) ?N). newest rows u \<le> newest rows ?t"
      by (simp_all add: sorted_wrt_append not_le less_imp_le)
    then show ?thesis by (simp add: filter_empty_conv)
  qed
  also have "\<dots> = drop n ?N" using l(1) by (simp add: Cons_nth_drop_Suc)
  finally show ?thesis .
qed

definition log_page ::
  "(message_log \<Rightarrow> bool) \<Rightarrow> nat \<Rightarrow> 'r api_world \<Rightarrow> (int \<times> string) option \<Rightarrow> string list \<times> (int \<times> string) option" where
  "log_page P n w pos =
     (case fst (log_page_rows P n pos w) of
        Inr (acc, next_row) \<Rightarrow> (map fst acc, map_option log_key next_row)
      | Inl _ \<Rightarrow> ([], None))"

text \<open>The log fits into the batches that are read for one page.\<close>

definition log_scannable :: "(message_log \<Rightarrow> bool) \<Rightarrow> nat \<Rightarrow> 'r api_world \<Rightarrow> bool" where
  "log_scannable P n w \<longleftrightarrow> no_faults w \<and> log_ids_ok w \<and> 0 < n
     \<and> length (filter P (aw_logs w)) \<le> scan_rounds * max (n * 4) 50"

lemma log_page_tasks:
  assumes "log_scannable P n w" "log_page P n w pos = (ts, nxt)"
  shows "ts = take n (tasks_from (log_listing P w) pos)
    \<and> (case nxt of
         None \<Rightarrow> length (tasks_from (log_listing P w) pos) \<le> n
       | Some k \<Rightarrow> n < length (tasks_from (log_listing P w) pos)
           \<and> tasks_from (log_listing P w) (Some k) = drop n (tasks_from (log_listing P w) pos))"
proof -
  let ?S = "log_listing P w" and ?b = "max (n * 4) 50"
  let ?R = "filter (log_from pos True) ?S" and ?L = "listed_set ?S pos"
  have sorted: "sorted_wrt (\<lambda>x y. log_key y < log_key x) ?S"
    using assms(1) by (intro log_listing_sorted) (simp add: log_scannable_def)
  have "length ?R \<le> length ?S" by (rule length_filter_le)
  then have rows: "scan_rows scan_rounds n ?b ?L ?R [] = take_rows n ?L ?R []"
    using assms(1) by (simp add: scan_rows_take log_scannable_def log_listing_def)
  obtain acc x where t: "take_rows n ?L ?R [] = (acc, x)" by fastforce
  have "fst (log_page_rows P n pos w) = Inr (acc, x)"
    using scan_logs_rows [of w ?b "[]" P pos scan_rounds n pos True] assms(1) rows t
    by (simp add: log_page_rows_def log_scannable_def)
  then have page: "ts = map fst acc" "nxt = map_option log_key x" using assms(2) by (simp_all add: log_page_def)
  have tasks: "new_tasks ?L [] ?R = tasks_from ?S pos" using sorted by (rule new_tasks_from)
  show ?thesis
    using take_rows_tasks [OF t] tasks page tasks_from_next [OF sorted]
    by (cases x) auto
qed

interpretation log: paged_listing
  "log_scannable P n"
  "log_page P n"
  "\<lambda>w pos. tasks_from (log_listing P w) pos"
  "\<lambda>w pos. True"
proof
  fix s :: "'a api_world" and c xs
  assume "log_scannable P n s" "log_page P n s c = (xs, None)"
  from log_page_tasks [OF this] show "tasks_from (log_listing P s) c = xs" by simp
next
  fix s :: "'a api_world" and c xs d
  assume ok: "log_scannable P n s" and pg: "log_page P n s c = (xs, Some d)"
  from log_page_tasks [OF this]
  have "xs = take n (tasks_from (log_listing P s) c)" "n < length (tasks_from (log_listing P s) c)"
    "tasks_from (log_listing P s) (Some d) = drop n (tasks_from (log_listing P s) c)" by simp_all
  moreover have "0 < n" using ok by (simp add: log_scannable_def)
  ultimately show "xs \<noteq> [] \<and> tasks_from (log_listing P s) c = xs @ tasks_from (log_listing P s) (Some d) \<and> True"
    by auto
qed simp

lemma tasks_from_None: "tasks_from rows None = first_seen (map log_task rows)"
  by (simp add: tasks_from_def log_from_def)

lemma first_seen_short: "length (first_seen xs) \<le> length xs"
  by (induction xs) (auto intro: le_trans [OF length_removeAll_less_eq])

text \<open>
  C26: A client that follows the cursor of the delivery log, with any page size and any filters, is
  shown every task with a matching row exactly once, the task with the newest row first, as long as
  the matching rows fit into the fifty batches that are read for one page.
\<close>

theorem log_pages_list_each_task_once:
  assumes "log_scannable P n w" "length (aw_logs w) < k"
  shows "walk_pages k (log_page P n w) None = first_seen (map log_task (log_listing P w))
    \<and> distinct (first_seen (map log_task (log_listing P w)))
    \<and> set (first_seen (map log_task (log_listing P w))) = log_task ` {l \<in> set (aw_logs w). P l}
    \<and> sorted_wrt (\<lambda>t u. newest (log_listing P w) u < newest (log_listing P w) t) (first_seen (map log_task (log_listing P w)))"
proof -
  have "length (log_listing P w) \<le> length (aw_logs w)" by (simp add: log_listing_def)
  then have "length (tasks_from (log_listing P w) None) < k"
    using first_seen_short [of "map log_task (log_listing P w)"] assms(2) by (simp add: tasks_from_None)
  then have "walk_pages k (log_page P n w) None = tasks_from (log_listing P w) None"
    by (rule log.walk_all [OF assms(1)])
  moreover have "log_task ` set (log_listing P w) = log_task ` {l \<in> set (aw_logs w). P l}"
    by (simp add: log_listing_def)
  ultimately show ?thesis
    using assms(1) by (simp add: tasks_from_None distinct_first_seen newest_sorted log_listing_sorted log_scannable_def)
qed

definition ex_log_row :: "nat \<Rightarrow> string \<Rightarrow> message_log" where
  "ex_log_row i task = \<lparr>ml_id = show_nat i, ml_time = int i, ml_row = \<lparr>lr_projectId = ''p1'', lr_taskId = task,
     lr_providerMessageId = None, lr_channel = ''email'', lr_attempt = 0, lr_kind = ''opened'', lr_status = ''opened'',
     lr_templateId = None, lr_workflowInstanceId = None, lr_campaignId = None, lr_timestamp = None\<rparr>, ml_metadata = None\<rparr>"

definition ex_logs_world :: "message_log list \<Rightarrow> mem_store api_world" where
  "ex_logs_world rows = (empty_api_world mem_empty)\<lparr>aw_logs := rows\<rparr>"

lemma ex_log_listing:
  "sorted (map log_key rows) \<Longrightarrow> log_listing (\<lambda>_. True) (ex_logs_world rows) = rev rows"
  by (simp add: log_listing_def ex_logs_world_def sort_key_id_if_sorted)

lemma ex_logs_world_ok: "no_faults (ex_logs_world rows)" "aw_logs (ex_logs_world rows) = rows"
  by (simp_all add: ex_logs_world_def no_faults_def empty_api_world_def)

lemma ex_log_row_sel [simp]: "ml_id (ex_log_row i t) = show_nat i" "log_task (ex_log_row i t) = t"
    "log_key (ex_log_row i t) = (int i, show_nat i)"
  by (simp_all add: ex_log_row_def log_key_def)

theorem log_pages_list_each_task_once_witness:
  "walk_pages 4 (log_page (\<lambda>_. True) 1 (ex_logs_world [ex_log_row 1 ''a'', ex_log_row 2 ''b'', ex_log_row 3 ''a''])) None = [''a'', ''b'']"
proof -
  let ?rows = "[ex_log_row 1 ''a'', ex_log_row 2 ''b'', ex_log_row 3 ''a'']"
  have ok: "log_scannable (\<lambda>_. True) 1 (ex_logs_world ?rows)" "length (aw_logs (ex_logs_world ?rows)) < 4"
    by (simp_all add: log_scannable_def ex_logs_world_ok log_ids_ok_def show_nat_inj scan_rounds_def)
  have "log_listing (\<lambda>_. True) (ex_logs_world ?rows) = rev ?rows" by (rule ex_log_listing) simp
  with log_pages_list_each_task_once [OF ok] show ?thesis by simp
qed

section \<open>A long log\<close>

text \<open>
  When the rows read for the first page are of no more tasks than the page holds, the listing ends
  there, and what is older is never shown.
\<close>

lemma log_first_page:
  assumes "no_faults w" "log_ids_ok w"
    and "length (first_seen (map log_task (take (scan_rounds * max (n * 4) 50) (log_listing P w)))) \<le> n"
  shows "log_page P n w None = (first_seen (map log_task (take (scan_rounds * max (n * 4) 50) (log_listing P w))), None)"
proof -
  let ?rows = "take (scan_rounds * max (n * 4) 50) (log_listing P w)"
  obtain acc x where t: "take_rows n {} ?rows [] = (acc, x)" by fastforce
  have "fst (log_page_rows P n None w) = Inr (acc, x)"
    using scan_logs_rows [of w "max (n * 4) 50" "[]" P None scan_rounds n None True] assms(1,2) t
    by (simp add: log_page_rows_def scan_rows_take listed_set_def log_from_def)
  moreover have "map fst acc = first_seen (map log_task ?rows) \<and> x = None"
    using take_rows_tasks [OF t] assms(3) by (cases x) (auto simp: new_tasks_def)
  ultimately show ?thesis by (simp add: log_page_def)
qed

text \<open>
  C28: When the newest matching rows, as many as the fifty batches of one page hold, belong to no
  more tasks than the page has room for, the page says that the listing is complete: a task whose
  rows are all older is never shown, however often the client asks on.
\<close>

theorem log_listing_ends_early:
  assumes "no_faults w" "log_ids_ok w"
    and "length (first_seen (map log_task (take (scan_rounds * max (n * 4) 50) (log_listing P w)))) \<le> n"
    and "t \<notin> set (map log_task (take (scan_rounds * max (n * 4) 50) (log_listing P w)))"
  shows "snd (log_page P n w None) = None \<and> t \<notin> set (walk_pages k (log_page P n w) None)"
  using log_first_page [OF assms(1-3)] assms(4) by (cases k) auto

definition ex_long_log :: "message_log list" where
  "ex_long_log = ex_log_row 0 ''b'' # map (\<lambda>i. ex_log_row (Suc i) ''a'') [0..<2500]"

lemma ex_long_log_listing: "log_listing (\<lambda>_. True) (ex_logs_world ex_long_log) = rev ex_long_log"
proof (rule ex_log_listing)
  have "sorted_wrt (\<lambda>i j. log_key (ex_log_row (Suc i) ''a'') \<le> log_key (ex_log_row (Suc j) ''a'')) [0..<2500]"
    by (rule sorted_wrt_mono_rel [OF _ sorted_wrt_upt]) simp
  then show "sorted (map log_key ex_long_log)"
    by (simp add: ex_long_log_def sorted_map sorted_wrt_map comp_def del: upt_conv_Cons)
qed

lemma first_seen_replicate: "first_seen (replicate (Suc k) x) = [x]"
  by (induction k) auto

lemma ex_long_log_tasks:
  "map log_task (take (scan_rounds * max (1 * 4) 50) (log_listing (\<lambda>_. True) (ex_logs_world ex_long_log))) = replicate 2500 ''a''"
proof -
  have "take 2500 (rev ex_long_log) = rev (map (\<lambda>i. ex_log_row (Suc i) ''a'') [0..<2500])"
    by (simp add: ex_long_log_def del: upt_conv_Cons)
  then show ?thesis unfolding ex_long_log_listing
    by (simp add: scan_rounds_def rev_map comp_def map_replicate_const del: upt_conv_Cons)
qed

theorem log_listing_ends_early_witness:
  "snd (log_page (\<lambda>_. True) 1 (ex_logs_world ex_long_log) None) = None
    \<and> ''b'' \<notin> set (walk_pages 9 (log_page (\<lambda>_. True) 1 (ex_logs_world ex_long_log)) None)
    \<and> ''b'' \<in> log_task ` set (aw_logs (ex_logs_world ex_long_log))"
proof -
  have ids: "log_ids_ok (ex_logs_world ex_long_log)"
    by (auto simp: log_ids_ok_def ex_logs_world_ok ex_long_log_def comp_def distinct_map inj_on_def show_nat_inj simp del: upt_conv_Cons)
  have one: "first_seen (replicate 2500 ''a'') = [''a'']" using first_seen_replicate [of 2499 "''a''"] by simp
  let ?rows = "take (scan_rounds * max (1 * 4) 50) (log_listing (\<lambda>_. True) (ex_logs_world ex_long_log))"
  have "length (first_seen (map log_task ?rows)) \<le> 1" "''b'' \<notin> set (map log_task ?rows)"
    unfolding ex_long_log_tasks one by simp_all
  from log_listing_ends_early [OF ex_logs_world_ok(1) ids this, of 9] show ?thesis
    by (simp add: ex_logs_world_ok) (simp add: ex_long_log_def)
qed

end
