(* ===== verification/Api_Suppressions.thy ===== *)
theory Api_Suppressions
  imports Api_Logs Unsubscribe
begin

text \<open>
  Who must not be contacted: the suppression routes
  (\<open>src/src/services/api/handlers/suppressions.ts\<close>), the provider webhooks that suppress an
  address by themselves (\<open>services/api/webhooks.ts\<close>), and the public unsubscribe routes
  (\<open>handlers/unsubscribe.ts\<close>). What a transport makes of a webhook's signature and body is an
  argument.
\<close>

section \<open>Inserts that keep the row that is there\<close>

definition insert_new :: "('a \<Rightarrow> 'k) \<Rightarrow> 'a list \<Rightarrow> 'a list \<Rightarrow> 'a list" where
  "insert_new key rows t = foldl (\<lambda>t r. if key r \<in> key ` set t then t else t @ [r]) t rows"

lemma insert_new_prefix: "\<exists>new. insert_new key rows t = t @ new \<and> set new \<subseteq> set rows"
proof (induction rows arbitrary: t)
  case (Cons r rows)
  from Cons.IH [of "if key r \<in> key ` set t then t else t @ [r]"] show ?case
    by (fastforce simp: insert_new_def split: if_splits)
qed (simp add: insert_new_def)

lemma insert_new_keys: "key ` set (insert_new key rows t) = key ` set t \<union> key ` set rows"
  by (induction rows arbitrary: t) (auto simp: insert_new_def)

lemma insert_new_idle: "key ` set rows \<subseteq> key ` set t \<Longrightarrow> insert_new key rows t = t"
  by (induction rows) (auto simp: insert_new_def)

lemma insert_new_distinct: "distinct (map key t) \<Longrightarrow> distinct (map key (insert_new key rows t))"
  by (induction rows arbitrary: t) (auto simp: insert_new_def)

definition suppression_unique :: "suppression_row \<Rightarrow> string \<times> NotificationChannel \<times> string" where
  "suppression_unique s = (sp_projectId s, sp_channel s, sp_target s)"

definition log_unique :: "message_log \<Rightarrow> string \<times> string \<times> int \<times> string" where
  "log_unique l = (let r = ml_row l in (lr_taskId r, lr_channel r, lr_attempt r, lr_kind r))"

definition suppress :: "suppression_row list \<Rightarrow> ('r, unit) api_act" where
  "suppress rows = attempt (\<lambda>w. ((), w\<lparr>aw_suppressions := insert_new suppression_unique rows (aw_suppressions w)\<rparr>))"

section \<open>The suppression routes\<close>

record suppression_input =
  si_channel :: NotificationChannel
  si_target :: string
  si_reason :: string

definition suppression_json :: "suppression_row \<Rightarrow> json" where
  "suppression_json s = JObj [(''projectId'', JStr (sp_projectId s)), (''channel'', JStr (channel_text (sp_channel s))),
     (''target'', JStr (sp_target s)), (''reason'', JStr (sp_reason s)), (''source'', nullable (sp_source s)),
     (''taskId'', nullable (sp_taskId s)), (''createdAt'', JInt (sp_createdAt s))]"

definition listSuppressions :: "RouteContext \<Rightarrow> ('r, http_reply) api_act" where
  "listSuppressions ctx =
     (let q = getQueryParam (rc_query ctx)
      in if \<not> filtered (q ''channel'') (\<lambda>v. channel_of_text v \<noteq> None) then throw (Error ''invalid input value for enum'')
         else bindA (select (\<lambda>w. take (nat (parseLimit (rc_query ctx) 100 id 500))
             (newest_first sp_createdAt (filter (\<lambda>s. sp_projectId s = ctx_project ctx
                \<and> filtered (q ''channel'') (\<lambda>v. channel_text (sp_channel s) = v)
                \<and> filtered (q ''reason'') (\<lambda>v. sp_reason s = v)
                \<and> filtered (q ''target'') (\<lambda>v. like_match (contains (js_trim (js_lower v))) (sp_target s))) (aw_suppressions w))))) (\<lambda>rows.
           ret (sendJson 200 (JObj [(''suppressions'', JArr (map suppression_json rows))]))))"

definition createSuppression :: "ms \<Rightarrow> RouteContext \<Rightarrow> suppression_input parsed_body \<Rightarrow> ('r, http_reply) api_act" where
  "createSuppression now ctx body = with_body body (\<lambda>b.
     let target = normaliseTarget (si_target b)
     in thenA (suppress [\<lparr>sp_projectId = ctx_project ctx, sp_channel = si_channel b, sp_target = target,
                  sp_reason = si_reason b, sp_source = Some ''api'', sp_taskId = None, sp_createdAt = now\<rparr>])
          (ret (sendJson 201 (JObj [(''channel'', JStr (channel_text (si_channel b))), (''target'', JStr target),
             (''reason'', JStr (si_reason b))]))))"

definition deleteSuppression :: "RouteContext \<Rightarrow> ('r, http_reply) api_act" where
  "deleteSuppression ctx =
     (let channel = param ctx ''channel''; target = param ctx ''target''
      in if channel = [] \<or> target = [] then ret (reply_error 400 ''missing_channel_or_target'')
         else if channel_of_text channel = None then throw (Error ''invalid input value for enum'')
         else thenA (attempt (\<lambda>w. ((), w\<lparr>aw_suppressions := filter (\<lambda>s. \<not> (sp_projectId s = ctx_project ctx
                  \<and> channel_text (sp_channel s) = channel \<and> sp_target s = normaliseTarget target)) (aw_suppressions w)\<rparr>)))
           (ret sendNoContent))"

section \<open>Provider webhooks\<close>

datatype engagement = WOpened | WClicked | WBounced | WComplained | WUnsubscribed

fun engagement_text :: "engagement \<Rightarrow> string" where
  "engagement_text WOpened = ''opened''"
| "engagement_text WClicked = ''clicked''"
| "engagement_text WBounced = ''bounced''"
| "engagement_text WComplained = ''complained''"
| "engagement_text WUnsubscribed = ''unsubscribed''"

record WebhookEvent =
  we_providerMessageId :: string
  we_status :: engagement
  we_recipient :: "string option"
  we_hard :: bool
  we_metadata :: "json option"

text \<open>
  The transport: its channel, the verdict on the signature (\<open>None\<close> when it cannot verify), and
  the events it reads from the body and its text.
\<close>

record webhook_transport =
  wt_channel :: NotificationChannel
  wt_verify :: "(string \<Rightarrow> exn + bool) option"
  wt_parse :: "json \<Rightarrow> string \<Rightarrow> exn + WebhookEvent list"

text \<open>The last row with the message id wins, in the order the database gives the rows.\<close>

definition attribution :: "message_log list \<Rightarrow> string \<Rightarrow> log_row option" where
  "attribution logs pid =
     (if pid = [] then None
      else map_option ml_row (find (\<lambda>l. lr_providerMessageId (ml_row l) = Some pid) (rev logs)))"

definition attributable :: "message_log list \<Rightarrow> WebhookEvent list \<Rightarrow> (WebhookEvent \<times> log_row) list" where
  "attributable logs events =
     List.map_filter (\<lambda>e. map_option (Pair e) (attribution logs (we_providerMessageId e))) events"

text \<open>\<open>rowId\<close> and the time are what the database fills in.\<close>

definition engagement_row :: "(WebhookEvent \<Rightarrow> string) \<Rightarrow> ms \<Rightarrow> NotificationChannel \<Rightarrow> WebhookEvent \<times> log_row \<Rightarrow> message_log" where
  "engagement_row rowId now ch er =
     (case er of (e, r) \<Rightarrow> \<lparr>ml_id = rowId e, ml_time = now * 1000,
        ml_row = \<lparr>lr_projectId = lr_projectId r, lr_taskId = lr_taskId r, lr_providerMessageId = Some (we_providerMessageId e),
          lr_channel = channel_text ch, lr_attempt = 0, lr_kind = engagement_text (we_status e),
          lr_status = engagement_text (we_status e), lr_templateId = None, lr_workflowInstanceId = None,
          lr_campaignId = lr_campaignId r, lr_timestamp = None\<rparr>,
        ml_metadata = we_metadata e\<rparr>)"

definition stops_sending :: "WebhookEvent \<Rightarrow> bool" where
  "stops_sending e \<longleftrightarrow> (case we_recipient e of None \<Rightarrow> False | Some t \<Rightarrow> t \<noteq> [])
     \<and> (we_status e = WUnsubscribed \<or> we_status e = WComplained \<or> (we_status e = WBounced \<and> we_hard e))"

definition webhook_suppression :: "ms \<Rightarrow> string \<Rightarrow> NotificationChannel \<Rightarrow> WebhookEvent \<times> log_row \<Rightarrow> suppression_row" where
  "webhook_suppression now source ch er =
     (case er of (e, r) \<Rightarrow> \<lparr>sp_projectId = lr_projectId r, sp_channel = ch, sp_target = normaliseTarget (the (we_recipient e)),
        sp_reason = engagement_text (we_status e), sp_source = Some source, sp_taskId = Some (lr_taskId r), sp_createdAt = now\<rparr>)"

definition insert_logs :: "message_log list \<Rightarrow> ('r, unit) api_act" where
  "insert_logs rows = attempt (\<lambda>w. ((), w\<lparr>aw_logs := insert_new log_unique rows (aw_logs w)\<rparr>))"

definition apply_events ::
  "(WebhookEvent \<Rightarrow> string) \<Rightarrow> ms \<Rightarrow> string \<Rightarrow> NotificationChannel \<Rightarrow> WebhookEvent list \<Rightarrow> ('r, unit) api_act" where
  "apply_events rowId now source ch events =
     (if events = [] then ret ()
      else let ids = filter (\<lambda>i. i \<noteq> []) (map we_providerMessageId events)
        in bindA (if ids = [] then ret [] else select (\<lambda>w. filter (\<lambda>l. \<exists>i \<in> set ids. lr_providerMessageId (ml_row l) = Some i) (aw_logs w))) (\<lambda>existing.
             let known = attributable existing events; stops = filter (\<lambda>(e, r). stops_sending e) known
             in thenA (if known = [] then ret () else insert_logs (map (engagement_row rowId now ch) known))
                  (if stops = [] then ret () else suppress (map (webhook_suppression now source ch) stops))))"

text \<open>A body that is not JSON counts as an empty object.\<close>

definition body_object :: "string \<Rightarrow> json" where
  "body_object raw = (if raw = [] then JObj [] else case json_parse raw of Some j \<Rightarrow> j | None \<Rightarrow> JObj [])"

definition webhook_body ::
  "(WebhookEvent \<Rightarrow> string) \<Rightarrow> ms \<Rightarrow> webhook_transport \<Rightarrow> string \<Rightarrow> exn + string \<Rightarrow> ('r, http_reply) api_act" where
  "webhook_body rowId now transport source body =
     bindA (awaited body) (\<lambda>rawBody.
       case wt_verify transport of
         None \<Rightarrow> ret (reply_message 501 ''not_implemented'' ''Webhook signature verification is not implemented for this provider'')
       | Some verify \<Rightarrow> bindA (awaited (verify rawBody)) (\<lambda>isValid.
           if \<not> isValid then ret (reply_message 401 ''unauthorized'' ''Invalid webhook signature'')
           else bindA (awaited (wt_parse transport (body_object rawBody) rawBody)) (\<lambda>events.
             thenA (apply_events rowId now source (wt_channel transport) events)
               (ret (sendJson 200 (JObj [(''success'', JBool True)]))))))"

text \<open>
  When the fifteen seconds are over first (\<open>late\<close>), the reply is an error, but the work that is
  under way goes on.
\<close>

definition createWebhookHandler ::
  "bool \<Rightarrow> (WebhookEvent \<Rightarrow> string) \<Rightarrow> ms \<Rightarrow> webhook_transport \<Rightarrow> string \<Rightarrow> exn + string \<Rightarrow> ('r, http_reply) api_act" where
  "createWebhookHandler late rowId now transport source body w =
     (case webhook_body rowId now transport source body w of
        (Inr reply, w') \<Rightarrow> (Inr (if late then reply_error 500 ''internal_error'' else reply), w')
      | (Inl x, w') \<Rightarrow> (Inr (reply_error 500 ''internal_error''), w'))"

section \<open>What a webhook does\<close>

definition webhook_events :: "webhook_transport \<Rightarrow> exn + string \<Rightarrow> WebhookEvent list option" where
  "webhook_events transport body =
     (case body of
        Inl _ \<Rightarrow> None
      | Inr raw \<Rightarrow> (case wt_verify transport of
          Some verify \<Rightarrow>
            if verify raw \<noteq> Inr True then None
            else (case wt_parse transport (body_object raw) raw of
              Inr events \<Rightarrow> Some events | Inl _ \<Rightarrow> None)
        | None \<Rightarrow> None))"

definition logged_events where
  "logged_events rowId now ch events logs =
     insert_new log_unique (map (engagement_row rowId now ch) (attributable logs events)) logs"

definition suppressed_by where
  "suppressed_by now source ch events logs t =
     insert_new suppression_unique (map (webhook_suppression now source ch) (filter (\<lambda>(e, r). stops_sending e) (attributable logs events))) t"

lemma find_cong: "(\<And>x. x \<in> set xs \<Longrightarrow> P x = Q x) \<Longrightarrow> find P xs = find Q xs"
  by (induction xs) auto

lemma find_filter_eq: "(\<And>x. x \<in> set xs \<Longrightarrow> P x \<Longrightarrow> Q x) \<Longrightarrow> find P (filter Q xs) = find P xs"
  by (induction xs) auto

lemma attribution_filter:
  "pid \<in> set ids \<Longrightarrow> attribution (filter (\<lambda>l. \<exists>i \<in> set ids. lr_providerMessageId (ml_row l) = Some i) logs) pid = attribution logs pid"
  by (auto simp: attribution_def rev_filter intro!: arg_cong [where f = "map_option ml_row"] find_filter_eq)

lemma map_filter_cong: "(\<And>x. x \<in> set xs \<Longrightarrow> f x = g x) \<Longrightarrow> List.map_filter f xs = List.map_filter g xs"
proof (induction xs)
  case (Cons a xs)
  then have "List.map_filter f xs = List.map_filter g xs" "f a = g a" by simp_all
  then show ?case by (cases "g a") (simp_all add: List.map_filter_simps)
qed (simp add: List.map_filter_simps)

lemma attributable_filter:
  assumes "ids = filter (\<lambda>i. i \<noteq> []) (map we_providerMessageId events)"
  shows "attributable (filter (\<lambda>l. \<exists>i \<in> set ids. lr_providerMessageId (ml_row l) = Some i) logs) events = attributable logs events"
  unfolding attributable_def
proof (rule map_filter_cong)
  fix e assume "e \<in> set events"
  then have "we_providerMessageId e = [] \<or> we_providerMessageId e \<in> set ids" using assms by auto
  then show "map_option (Pair e) (attribution (filter (\<lambda>l. \<exists>i \<in> set ids. lr_providerMessageId (ml_row l) = Some i) logs) (we_providerMessageId e))
      = map_option (Pair e) (attribution logs (we_providerMessageId e))"
  proof (cases "we_providerMessageId e = []")
    case True
    then show ?thesis by (simp add: attribution_def)
  next
    case False
    then have "we_providerMessageId e \<in> set ids" using \<open>we_providerMessageId e = [] \<or> we_providerMessageId e \<in> set ids\<close> by blast
    then show ?thesis by (simp only: attribution_filter)
  qed
qed

lemma attributable_no_ids:
  "filter (\<lambda>i. i \<noteq> []) (map we_providerMessageId events) = [] \<Longrightarrow> attributable logs events = []"
  by (induction events) (auto simp: attributable_def List.map_filter_simps attribution_def split: if_splits)

lemma attempt_cases:
  "attempt f w = (r, w') \<Longrightarrow> (\<exists>x. r = Inl x \<and> w' = w\<lparr>w_step := Suc (w_step w)\<rparr>)
     \<or> (r = Inr (fst (f (w\<lparr>w_step := Suc (w_step w)\<rparr>))) \<and> w' = snd (f (w\<lparr>w_step := Suc (w_step w)\<rparr>)))"
  by (auto simp: attempt_def Let_def split: option.splits prod.splits)

lemma insert_new_Nil [simp]: "insert_new key [] t = t"
  by (simp add: insert_new_def)

lemma insert_logs_run:
  assumes "(if rows = [] then ret () else insert_logs rows) w = (r, w')"
  shows "aw_suppressions w' = aw_suppressions w
    \<and> (aw_logs w' = aw_logs w \<and> isl r \<or> aw_logs w' = insert_new log_unique rows (aw_logs w) \<and> r = Inr ())"
  using assms by (auto simp: insert_logs_def ret_def split: if_splits dest!: attempt_cases)

lemma suppress_run:
  assumes "(if rows = [] then ret () else suppress rows) w = (r, w')"
  shows "aw_logs w' = aw_logs w
    \<and> (aw_suppressions w' = aw_suppressions w \<and> isl r \<or> aw_suppressions w' = insert_new suppression_unique rows (aw_suppressions w) \<and> r = Inr ())"
  using assms by (auto simp: suppress_def ret_def split: if_splits dest!: attempt_cases)

lemma known_events:
  assumes "(if ids = [] then ret [] else select (\<lambda>w. filter (\<lambda>l. \<exists>i \<in> set ids. lr_providerMessageId (ml_row l) = Some i) (aw_logs w))) w = (Inr existing, w1)"
    and "ids = filter (\<lambda>i. i \<noteq> []) (map we_providerMessageId events)"
  shows "attributable existing events = attributable (aw_logs w) events
    \<and> aw_logs w1 = aw_logs w \<and> aw_suppressions w1 = aw_suppressions w"
proof (cases "ids = []")
  case True
  with assms(2) have "filter (\<lambda>i. i \<noteq> []) (map we_providerMessageId events) = []" by simp
  then show ?thesis using assms(1) True by (simp add: attributable_no_ids ret_def)
next
  case False
  then have "existing = filter (\<lambda>l. \<exists>i \<in> set ids. lr_providerMessageId (ml_row l) = Some i) (aw_logs w)"
    "aw_logs w1 = aw_logs w" "aw_suppressions w1 = aw_suppressions w"
    using assms(1) by (auto simp: select_def dest!: attempt_cases)
  then show ?thesis using attributable_filter [OF assms(2)] by simp
qed

lemma apply_events_run:
  assumes "apply_events rowId now source ch events w = (r, w')"
  shows "(isl r \<and> aw_logs w' = aw_logs w \<and> aw_suppressions w' = aw_suppressions w)
    \<or> (aw_logs w' = logged_events rowId now ch events (aw_logs w)
       \<and> (isl r \<and> aw_suppressions w' = aw_suppressions w
          \<or> aw_suppressions w' = suppressed_by now source ch events (aw_logs w) (aw_suppressions w)))"
proof (cases "events = []")
  case True
  then show ?thesis using assms
    by (simp add: apply_events_def ret_def logged_events_def suppressed_by_def attributable_def List.map_filter_simps)
next
  case False
  define ids where "ids = filter (\<lambda>i. i \<noteq> []) (map we_providerMessageId events)"
  let ?query = "if ids = [] then ret [] else select (\<lambda>w. filter (\<lambda>l. \<exists>i \<in> set ids. lr_providerMessageId (ml_row l) = Some i) (aw_logs w))"
  obtain q w1 where q: "?query w = (q, w1)" by fastforce
  show ?thesis
  proof (cases q)
    case (Inl x)
    then have "aw_logs w1 = aw_logs w \<and> aw_suppressions w1 = aw_suppressions w"
      using q by (auto simp: ret_def select_def split: if_splits dest!: attempt_cases)
    moreover have "r = Inl x" "w' = w1"
      using assms False q Inl unfolding apply_events_def ids_def [symmetric] by (simp_all add: Let_def bindA_def)
    ultimately show ?thesis by simp
  next
    case (Inr existing)
    let ?known = "attributable (aw_logs w) events"
    let ?rows = "map (engagement_row rowId now ch) ?known"
    let ?stops = "map (webhook_suppression now source ch) (filter (\<lambda>(e, r). stops_sending e) ?known)"
    have known: "attributable existing events = ?known" "aw_logs w1 = aw_logs w" "aw_suppressions w1 = aw_suppressions w"
      using known_events [OF q [unfolded Inr] ids_def] by simp_all
    have run: "thenA (if ?rows = [] then ret () else insert_logs ?rows) (if ?stops = [] then ret () else suppress ?stops) w1 = (r, w')"
    proof -
      have "apply_events rowId now source ch events w =
          thenA (if attributable existing events = [] then ret () else insert_logs (map (engagement_row rowId now ch) (attributable existing events)))
            (if filter (\<lambda>(e, r). stops_sending e) (attributable existing events) = [] then ret ()
             else suppress (map (webhook_suppression now source ch) (filter (\<lambda>(e, r). stops_sending e) (attributable existing events)))) w1"
        using False q Inr unfolding apply_events_def ids_def [symmetric] by (simp add: Let_def bindA_def)
      then show ?thesis using assms unfolding known(1) map_is_Nil_conv by simp
    qed
    obtain r2 w2 where i: "(if ?rows = [] then ret () else insert_logs ?rows) w1 = (r2, w2)" by fastforce
    from insert_logs_run [OF i] known
    have logs: "aw_suppressions w2 = aw_suppressions w"
      "aw_logs w2 = aw_logs w \<and> isl r2 \<or> aw_logs w2 = logged_events rowId now ch events (aw_logs w) \<and> r2 = Inr ()"
      by (simp_all add: logged_events_def)
    show ?thesis
    proof (cases r2)
      case (Inl x)
      then have "r = Inl x" "w' = w2" using run i by (simp_all add: thenA_def bindA_def)
      then show ?thesis using logs Inl by auto
    next
      case (Inr u)
      then have "(if ?stops = [] then ret () else suppress ?stops) w2 = (r, w')"
        using run i by (simp add: thenA_def bindA_def)
      from suppress_run [OF this] logs Inr show ?thesis by (auto simp: suppressed_by_def)
    qed
  qed
qed

lemma webhook_run:
  assumes "createWebhookHandler late rowId now transport source body w = (r, w')"
  shows "\<exists>reply. r = Inr reply \<and>
    ((rp_status reply \<noteq> 200 \<and> aw_logs w' = aw_logs w \<and> aw_suppressions w' = aw_suppressions w)
     \<or> (\<exists>events. webhook_events transport body = Some events
          \<and> ((rp_status reply \<noteq> 200 \<and> aw_logs w' = aw_logs w \<and> aw_suppressions w' = aw_suppressions w)
            \<or> aw_logs w' = logged_events rowId now (wt_channel transport) events (aw_logs w)
              \<and> (rp_status reply \<noteq> 200 \<and> aw_suppressions w' = aw_suppressions w
                 \<or> aw_suppressions w' = suppressed_by now source (wt_channel transport) events (aw_logs w) (aw_suppressions w)))))"
proof (cases "webhook_events transport body")
  case None
  then show ?thesis
    using assms
    by (auto simp: createWebhookHandler_def webhook_body_def webhook_events_def bindA_def awaited_def ret_def throw_def
        reply_error_def reply_message_def sendJson_def Let_def split: sum.splits option.splits if_splits prod.splits)
next
  case (Some events)
  then obtain raw verify where b: "body = Inr raw" "wt_verify transport = Some verify" "verify raw = Inr True"
      "wt_parse transport (body_object raw) raw = Inr events"
    by (auto simp: webhook_events_def split: sum.splits option.splits if_splits)
  obtain r1 w1 where a: "apply_events rowId now source (wt_channel transport) events w = (r1, w1)" by fastforce
  have "webhook_body rowId now transport source body w =
      (case r1 of Inl x \<Rightarrow> (Inl x, w1) | Inr u \<Rightarrow> (Inr (sendJson 200 (JObj [(''success'', JBool True)])), w1))"
    using b a by (simp add: webhook_body_def bindA_def thenA_def awaited_def ret_def Let_def split: sum.split)
  then have "w' = w1" "\<exists>reply. r = Inr reply \<and> (rp_status reply = 200 \<longrightarrow> \<not> isl r1)"
    using assms by (cases r1; force simp: createWebhookHandler_def reply_error_def sendJson_def)+
  then show ?thesis using apply_events_run [OF a] Some by auto
qed

lemma attributable_iff:
  "(e, r) \<in> set (attributable logs events) \<longleftrightarrow> e \<in> set events \<and> attribution logs (we_providerMessageId e) = Some r"
  by (induction events) (auto simp: attributable_def List.map_filter_simps split: option.splits)

lemma suppressed_by_covers:
  assumes "e \<in> set events" "stops_sending e" "attribution logs (we_providerMessageId e) = Some r"
  shows "(lr_projectId r, ch, normaliseTarget (the (we_recipient e))) \<in> suppression_unique ` set (suppressed_by now source ch events logs t)"
proof -
  have "webhook_suppression now source ch (e, r) \<in>
      set (map (webhook_suppression now source ch) (filter (\<lambda>(e, r). stops_sending e) (attributable logs events)))"
    using assms attributable_iff by fastforce
  then have "suppression_unique (webhook_suppression now source ch (e, r)) \<in> suppression_unique ` set (suppressed_by now source ch events logs t)"
    unfolding suppressed_by_def insert_new_keys by blast
  then show ?thesis by (simp add: suppression_unique_def webhook_suppression_def)
qed

lemma suppressed_by_adds:
  "\<exists>new. suppressed_by now source ch events logs t = t @ new
     \<and> (\<forall>s \<in> set new. \<exists>e \<in> set events. \<exists>r. stops_sending e \<and> attribution logs (we_providerMessageId e) = Some r
          \<and> suppression_unique s = (lr_projectId r, ch, normaliseTarget (the (we_recipient e))))"
proof -
  let ?rows = "map (webhook_suppression now source ch) (filter (\<lambda>(e, r). stops_sending e) (attributable logs events))"
  from insert_new_prefix [of suppression_unique ?rows t] obtain new where
    new: "suppressed_by now source ch events logs t = t @ new" "set new \<subseteq> set ?rows" unfolding suppressed_by_def by blast
  have "\<exists>e \<in> set events. \<exists>r. stops_sending e \<and> attribution logs (we_providerMessageId e) = Some r
          \<and> suppression_unique s = (lr_projectId r, ch, normaliseTarget (the (we_recipient e)))" if "s \<in> set new" for s
  proof -
    from that new(2) obtain e r where "(e, r) \<in> set (attributable logs events)" "stops_sending e" "s = webhook_suppression now source ch (e, r)"
      by auto
    then show ?thesis unfolding attributable_iff by (auto simp: suppression_unique_def webhook_suppression_def)
  qed
  with new(1) show ?thesis by blast
qed

text \<open>
  C20: A webhook that is answered with success had a valid signature, and each of its unsubscribes,
  complaints and hard bounces whose message is in the delivery log has suppressed the normalised
  address for the project of that message. A suppression that was there keeps its reason, and no
  address is suppressed for another cause.
\<close>

theorem webhook_suppresses_what_it_reports:
  assumes "createWebhookHandler late rowId now transport source body w = (Inr reply, w')" "rp_status reply = 200"
  shows "\<exists>events new. webhook_events transport body = Some events
    \<and> aw_suppressions w' = aw_suppressions w @ new
    \<and> (\<forall>e \<in> set events. \<forall>r. stops_sending e \<longrightarrow> attribution (aw_logs w) (we_providerMessageId e) = Some r \<longrightarrow>
         (lr_projectId r, wt_channel transport, normaliseTarget (the (we_recipient e))) \<in> suppression_unique ` set (aw_suppressions w'))
    \<and> (\<forall>s \<in> set new. \<exists>e \<in> set events. \<exists>r. stops_sending e \<and> attribution (aw_logs w) (we_providerMessageId e) = Some r
         \<and> suppression_unique s = (lr_projectId r, wt_channel transport, normaliseTarget (the (we_recipient e))))"
proof -
  from webhook_run [OF assms(1)] assms(2) obtain events where
    events: "webhook_events transport body = Some events"
      "aw_suppressions w' = suppressed_by now source (wt_channel transport) events (aw_logs w) (aw_suppressions w)" by auto
  moreover from suppressed_by_adds [of now source "wt_channel transport" events "aw_logs w" "aw_suppressions w"] obtain new where
    "aw_suppressions w' = aw_suppressions w @ new"
    "\<forall>s \<in> set new. \<exists>e \<in> set events. \<exists>r. stops_sending e \<and> attribution (aw_logs w) (we_providerMessageId e) = Some r
         \<and> suppression_unique s = (lr_projectId r, wt_channel transport, normaliseTarget (the (we_recipient e)))"
    unfolding events(2) by blast
  moreover have "(lr_projectId r, wt_channel transport, normaliseTarget (the (we_recipient e))) \<in> suppression_unique ` set (aw_suppressions w')"
    if "e \<in> set events" "stops_sending e" "attribution (aw_logs w) (we_providerMessageId e) = Some r" for e r
    unfolding events(2) by (rule suppressed_by_covers [OF that])
  ultimately show ?thesis by blast
qed

section \<open>A redelivered webhook\<close>

text \<open>What an engagement row says of its message is what the log said before.\<close>

definition same_message :: "log_row \<Rightarrow> log_row \<Rightarrow> bool" where
  "same_message r r' \<longleftrightarrow> lr_projectId r = lr_projectId r' \<and> lr_taskId r = lr_taskId r'"

lemma attribution_stable:
  assumes "attribution (logged_events rowId now ch events logs) pid = Some r'"
  shows "\<exists>r. attribution logs pid = Some r \<and> same_message r r'"
proof -
  let ?rows = "map (engagement_row rowId now ch) (attributable logs events)"
  let ?P = "\<lambda>l. lr_providerMessageId (ml_row l) = Some pid"
  from insert_new_prefix [of log_unique ?rows logs] obtain new where
    new: "logged_events rowId now ch events logs = logs @ new" "set new \<subseteq> set ?rows" unfolding logged_events_def by blast
  have pid: "pid \<noteq> []" using assms by (auto simp: attribution_def split: if_splits)
  show ?thesis
  proof (cases "find ?P (rev new)")
    case None
    then have "attribution logs pid = Some r'"
      using assms pid by (simp add: new(1) attribution_def find_append)
    then show ?thesis by (simp add: same_message_def)
  next
    case (Some l)
    then have "r' = ml_row l" using assms pid by (simp add: new(1) attribution_def find_append)
    moreover have "l \<in> set new" "?P l" using Some by (auto simp: find_Some_iff) (metis nth_mem rev_nth length_rev set_rev)
    moreover from this(1) new(2) obtain e r where "(e, r) \<in> set (attributable logs events)" "l = engagement_row rowId now ch (e, r)"
      by auto
    ultimately show ?thesis unfolding attributable_iff by (auto simp: engagement_row_def same_message_def)
  qed
qed


definition ex_transport :: webhook_transport where
  "ex_transport = \<lparr>wt_channel = Email, wt_verify = Some (\<lambda>_. Inr True), wt_parse = (\<lambda>_ _. Inr
     [\<lparr>we_providerMessageId = ''m1'', we_status = WComplained, we_recipient = Some '' Ann@X.org '', we_hard = False, we_metadata = None\<rparr>])\<rparr>"

definition ex_sent :: message_log where
  "ex_sent = (ex_log_row 1 ''t1'')\<lparr>ml_row := (ml_row (ex_log_row 1 ''t1''))\<lparr>lr_providerMessageId := Some ''m1'', lr_kind := ''attempt''\<rparr>\<rparr>"

definition ex_webhook where
  "ex_webhook w = createWebhookHandler False (\<lambda>_. ''x1'') 7 ex_transport ''resend'' (Inr []) (w :: mem_store api_world)"

lemma ex_webhook_ok: "map_sum id rp_status (fst (ex_webhook (ex_logs_world [ex_sent]))) = Inr 200"
  by code_simp

lemma ex_webhook_reply:
  "\<exists>reply. createWebhookHandler False (\<lambda>_. ''x1'') 7 ex_transport ''resend'' (Inr []) (ex_logs_world [ex_sent])
      = (Inr reply, snd (ex_webhook (ex_logs_world [ex_sent]))) \<and> rp_status reply = 200"
  using ex_webhook_ok by (cases "fst (ex_webhook (ex_logs_world [ex_sent]))") (auto simp: ex_webhook_def prod_eq_iff)

lemma ex_webhook_events: "webhook_events ex_transport (Inr []) = Some
    [\<lparr>we_providerMessageId = ''m1'', we_status = WComplained, we_recipient = Some '' Ann@X.org '', we_hard = False, we_metadata = None\<rparr>]"
  by code_simp

lemma ex_attribution: "attribution (aw_logs (ex_logs_world [ex_sent])) ''m1'' = Some (ml_row ex_sent)" "lr_projectId (ml_row ex_sent) = ''p1''"
    "normaliseTarget '' Ann@X.org '' = ''ann@x.org''"
  by code_simp+

theorem webhook_suppresses_what_it_reports_witness:
  "(''p1'', Email, ''ann@x.org'') \<in> suppression_unique ` set (aw_suppressions (snd (ex_webhook (ex_logs_world [ex_sent]))))"
proof -
  from ex_webhook_reply obtain reply where
    run: "createWebhookHandler False (\<lambda>_. ''x1'') 7 ex_transport ''resend'' (Inr []) (ex_logs_world [ex_sent])
      = (Inr reply, snd (ex_webhook (ex_logs_world [ex_sent])))" "rp_status reply = 200" by blast
  from webhook_suppresses_what_it_reports [OF run] ex_webhook_events ex_attribution show ?thesis
    by (auto simp: stops_sending_def ex_transport_def)
qed


section \<open>Unsubscribe links\<close>

definition sendHtml :: "nat \<Rightarrow> string \<Rightarrow> http_reply" where
  "sendHtml status body = \<lparr>rp_status = status,
     rp_headers = [(''Content-Type'', ''text/html; charset=utf-8''), (''Cache-Control'', ''no-store''),
       (''X-Content-Type-Options'', ''nosniff''), (''Referrer-Policy'', ''no-referrer'')],
     rp_body = HtmlBody body\<rparr>"

text \<open>The four replacements in turn: the first is of the ampersand, so none touches what another wrote.\<close>

definition escape_char :: "char \<Rightarrow> string" where
  "escape_char c =
     (if c = CHR ''&'' then ''&amp;'' else if c = CHR ''<'' then ''&lt;'' else if c = CHR ''>'' then ''&gt;''
      else if c = CHR 0x22 then ''&quot;'' else [c])"

definition page_escape :: "string \<Rightarrow> string" where
  "page_escape s = concat (map escape_char s)"

definition nl :: string where
  "nl = [CHR 0x0A]"

definition dq :: string where
  "dq = [CHR 0x22]"

definition unsubscribe_html :: "string \<Rightarrow> string \<Rightarrow> string" where
  "unsubscribe_html title message =
     ''<!doctype html><html lang='' @ dq @ ''en'' @ dq @ ''><head><meta charset='' @ dq @ ''utf-8'' @ dq @ ''>'' @ nl
     @ ''<meta name='' @ dq @ ''viewport'' @ dq @ '' content='' @ dq @ ''width=device-width,initial-scale=1'' @ dq @ ''>'' @ nl
     @ ''<title>'' @ page_escape title @ ''</title>'' @ nl
     @ ''<style>body{font:16px/1.6 system-ui,sans-serif;max-width:34rem;margin:12vh auto;padding:0 1.5rem;color:#111}'' @ nl
     @ ''h1{font-size:1.4rem;margin:0 0 .75rem}p{margin:0 0 1rem;color:#444}'' @ nl
     @ ''button{font:inherit;padding:.6rem 1.2rem;border:0;border-radius:6px;background:#111;color:#fff;cursor:pointer}'' @ nl
     @ ''code{background:#f4f4f5;padding:.1rem .35rem;border-radius:4px}</style>'' @ nl
     @ ''</head><body><h1>'' @ page_escape title @ ''</h1>'' @ message @ ''</body></html>''"

definition query_token :: "query_params \<Rightarrow> string" where
  "query_token params = (case getQueryParam params ''token'' of Some t \<Rightarrow> t | None \<Rightarrow> '''')"

text \<open>An empty secret is none: no token verifies.\<close>

definition token_claim :: "mac \<Rightarrow> string \<Rightarrow> string \<Rightarrow> UnsubscribeClaim option" where
  "token_claim hmac secret token = (if secret = [] then None else verifyUnsubscribeToken hmac token secret)"

definition claim_what :: "UnsubscribeClaim \<Rightarrow> string" where
  "claim_what claim =
     (if uc_topics claim = [] then ''all messages''
      else ''<code>'' @ join ''</code>, <code>'' (map page_escape (uc_topics claim)) @ ''</code> messages'')"

definition unsubscribePage :: "mac \<Rightarrow> string \<Rightarrow> query_params \<Rightarrow> http_reply" where
  "unsubscribePage hmac secret params =
     (let token = query_token params
      in case token_claim hmac secret token of
        None \<Rightarrow> sendHtml 400 (unsubscribe_html ''This link is not valid''
          ''<p>It may have been altered in transit, or this server may have been reconfigured since the message was sent. Replying to the message and asking to be removed will still work.</p>'')
      | Some claim \<Rightarrow> sendHtml 200 (unsubscribe_html ''Unsubscribe''
          (''<p>Stop sending '' @ claim_what claim @ '' to <code>'' @ page_escape (UnsubscribeClaim.uc_target claim) @ ''</code>?</p>'' @ nl
           @ ''<form method='' @ dq @ ''post'' @ dq @ '' action='' @ dq @ ''/v1/unsubscribe?token='' @ encodeURIComponent token @ dq @ ''>'' @ nl
           @ ''<button type='' @ dq @ ''submit'' @ dq @ ''>Unsubscribe</button></form>'')))"

text \<open>The database refuses a statement that names a topic twice.\<close>

definition opt_out_topics :: "string \<Rightarrow> string list \<Rightarrow> ('r, unit) api_act" where
  "opt_out_topics internalId topics = transact (\<lambda>w.
     case put_topics (map (\<lambda>t. ((internalId, t), False)) topics) (aw_db w) of
       Inl x \<Rightarrow> Inl x | Inr db \<Rightarrow> Inr ((), w\<lparr>aw_db := db\<rparr>))"

definition suppress_claim :: "ms \<Rightarrow> UnsubscribeClaim \<Rightarrow> ('r, unit) api_act" where
  "suppress_claim now claim =
     (case channel_of_text (UnsubscribeClaim.uc_channel claim) of
        None \<Rightarrow> throw (Error ''invalid input value for enum'')
      | Some ch \<Rightarrow> suppress [\<lparr>sp_projectId = uc_projectId claim, sp_channel = ch,
          sp_target = normaliseTarget (UnsubscribeClaim.uc_target claim), sp_reason = ''unsubscribed'',
          sp_source = Some ''unsubscribe-link'', sp_taskId = None, sp_createdAt = now\<rparr>])"

definition claim_user :: "UnsubscribeClaim \<Rightarrow> 'r api_world \<Rightarrow> string option" where
  "claim_user claim w = map_option us_id (find (\<lambda>r. us_projectId r = uc_projectId claim
     \<and> us_externalId r = UnsubscribeClaim.uc_userId claim) (db_users (aw_db w)))"

definition honour_claim :: "ms \<Rightarrow> UnsubscribeClaim \<Rightarrow> ('r, unit) api_act" where
  "honour_claim now claim =
     bindA (select (claim_user claim)) (\<lambda>internalId. case internalId of
       Some i \<Rightarrow> if uc_topics claim \<noteq> [] then opt_out_topics i (uc_topics claim) else suppress_claim now claim
     | None \<Rightarrow> suppress_claim now claim)"

definition unsubscribe :: "mac \<Rightarrow> string \<Rightarrow> ms \<Rightarrow> query_params \<Rightarrow> ('r, http_reply) api_act" where
  "unsubscribe hmac secret now params =
     (case token_claim hmac secret (query_token params) of
        None \<Rightarrow> ret (sendHtml 400 (unsubscribe_html ''This link is not valid''
          ''<p>It may have been altered in transit, or this server may have been reconfigured since the message was sent.</p>''))
      | Some claim \<Rightarrow>
          catchA (thenA (honour_claim now claim)
              (ret (sendHtml 200 (unsubscribe_html (''You'' @ [CHR 0x27] @ ''re unsubscribed'')
                 (''<p>We'' @ [CHR 0x27] @ ''ve stopped sending '' @ (if uc_topics claim = [] then ''messages'' else ''these messages'')
                  @ '' to <code>'' @ page_escape (UnsubscribeClaim.uc_target claim)
                  @ ''</code>. It may take a few minutes to take effect for mail already on its way.</p>'')))))
            (\<lambda>x. ret (sendHtml 500 (unsubscribe_html ''Something went wrong''
               ''<p>We could not record that just now. Please try again in a moment.</p>''))))"

section \<open>What an unsubscribe link does\<close>

lemma upsert_false_get:
  "jm_get (foldl (\<lambda>t (k, v). jm_set k v t) t (map (\<lambda>x. (f x, False)) xs)) k = (if k \<in> f ` set xs then Some False else jm_get t k)"
  by (induction xs arbitrary: t) (auto simp: update_conv)

lemma put_topics_run:
  "put_topics (map (\<lambda>t. ((i, t), False)) topics) db =
     (if distinct topics then Inr (db\<lparr>db_topics := foldl (\<lambda>t (k, v). jm_set k v t) (db_topics db) (map (\<lambda>t. ((i, t), False)) topics)\<rparr>)
      else Inl (Error ''ON CONFLICT DO UPDATE command cannot affect row a second time''))"
  by (auto simp: put_topics_def sql_upsert_def comp_def distinct_map inj_on_def)

text \<open>The effect that a claim asks for.\<close>

definition claim_suppressed :: "UnsubscribeClaim \<Rightarrow> 'r api_world \<Rightarrow> 'r api_world \<Rightarrow> bool" where
  "claim_suppressed claim w w' \<longleftrightarrow> aw_db w' = aw_db w
     \<and> (\<exists>ch. channel_of_text (UnsubscribeClaim.uc_channel claim) = Some ch
          \<and> suppression_unique ` set (aw_suppressions w')
             = insert (uc_projectId claim, ch, normaliseTarget (UnsubscribeClaim.uc_target claim)) (suppression_unique ` set (aw_suppressions w)))"

definition topics_off :: "string \<Rightarrow> string list \<Rightarrow> 'r api_world \<Rightarrow> 'r api_world \<Rightarrow> bool" where
  "topics_off i topics w w' \<longleftrightarrow> aw_suppressions w' = aw_suppressions w
     \<and> (\<forall>u t. jm_get (db_topics (aw_db w')) (u, t) =
          (if u = i \<and> t \<in> set topics then Some False else jm_get (db_topics (aw_db w)) (u, t)))"

definition claim_honoured :: "UnsubscribeClaim \<Rightarrow> 'r api_world \<Rightarrow> 'r api_world \<Rightarrow> bool" where
  "claim_honoured claim w w' \<longleftrightarrow>
     (case claim_user claim w of
        Some i \<Rightarrow> if uc_topics claim \<noteq> [] then topics_off i (uc_topics claim) w w' else claim_suppressed claim w w'
      | None \<Rightarrow> claim_suppressed claim w w')"

lemma suppress_keys:
  assumes "suppress rows w = (r, w')"
  shows "aw_db w' = aw_db w \<and> (isl r \<and> aw_suppressions w' = aw_suppressions w
    \<or> \<not> isl r \<and> suppression_unique ` set (aw_suppressions w') = suppression_unique ` set (aw_suppressions w) \<union> suppression_unique ` set rows)"
  using attempt_cases [OF assms [unfolded suppress_def]] by (elim disjE exE conjE) (simp_all add: insert_new_keys)

lemma suppress_claim_run:
  assumes "suppress_claim now claim w = (r, w')"
  shows "isl r \<and> aw_db w' = aw_db w \<and> aw_suppressions w' = aw_suppressions w \<or> \<not> isl r \<and> claim_suppressed claim w w'"
proof (cases "channel_of_text (UnsubscribeClaim.uc_channel claim)")
  case None
  then show ?thesis using assms by (auto simp: suppress_claim_def throw_def)
next
  case (Some ch)
  define row where "row = \<lparr>sp_projectId = uc_projectId claim, sp_channel = ch,
          sp_target = normaliseTarget (UnsubscribeClaim.uc_target claim), sp_reason = ''unsubscribed'',
          sp_source = Some ''unsubscribe-link'', sp_taskId = None, sp_createdAt = now\<rparr>"
  have "suppress [row] w = (r, w')" using assms Some by (simp add: suppress_claim_def row_def)
  moreover have "suppression_unique row = (uc_projectId claim, ch, normaliseTarget (UnsubscribeClaim.uc_target claim))"
    by (simp add: suppression_unique_def row_def)
  ultimately show ?thesis using suppress_keys [of "[row]" w r w'] Some by (auto simp: claim_suppressed_def simp del: split_paired_Ex)
qed

lemma opt_out_run:
  assumes "opt_out_topics i topics w = (r, w')"
  shows "isl r \<and> aw_db w' = aw_db w \<and> aw_suppressions w' = aw_suppressions w \<or> \<not> isl r \<and> topics_off i topics w w'"
proof (cases "w_faults w (w_step w)")
  case None
  then show ?thesis using assms
    by (auto simp: opt_out_topics_def topics_off_def transact_def bindA_def attempt_def awaited_def put_topics_run upsert_false_get Let_def ret_def throw_def split: if_splits)
next
  case (Some x)
  then show ?thesis using assms
    by (auto simp: opt_out_topics_def transact_def bindA_def attempt_def Let_def)
qed

lemma honour_claim_run:
  assumes "honour_claim now claim w = (r, w')"
  shows "isl r \<and> aw_db w' = aw_db w \<and> aw_suppressions w' = aw_suppressions w \<or> \<not> isl r \<and> claim_honoured claim w w'"
proof -
  obtain q w1 where q: "select (claim_user claim) w = (q, w1)" by fastforce
  then have same: "aw_db w1 = aw_db w" "aw_suppressions w1 = aw_suppressions w" "isl q \<or> q = Inr (claim_user claim w)"
    by (auto simp: select_def claim_user_def dest!: attempt_cases)
  show ?thesis
  proof (cases q)
    case (Inl x)
    then have "r = Inl x" "w' = w1" using assms q by (simp_all add: honour_claim_def bindA_def)
    then show ?thesis using same by simp
  next
    case (Inr i)
    with same have i: "i = claim_user claim w" by simp
    have other: "claim_suppressed claim w1 w' = claim_suppressed claim w w'" "topics_off j ts w1 w' = topics_off j ts w w'" for j ts
      using same(1,2) by (simp_all add: claim_suppressed_def topics_off_def)
    have run: "(case i of Some i \<Rightarrow> if uc_topics claim \<noteq> [] then opt_out_topics i (uc_topics claim) else suppress_claim now claim
       | None \<Rightarrow> suppress_claim now claim) w1 = (r, w')"
      using assms q Inr by (simp add: honour_claim_def bindA_def)
    show ?thesis
    proof (cases "\<exists>j. i = Some j \<and> uc_topics claim \<noteq> []")
      case True
      then obtain j where j: "claim_user claim w = Some j" "uc_topics claim \<noteq> []" using i by auto
      with run i have "opt_out_topics j (uc_topics claim) w1 = (r, w')" by simp
      from opt_out_run [OF this] same(1,2) j show ?thesis by (simp add: claim_honoured_def other)
    next
      case False
      with run have "suppress_claim now claim w1 = (r, w')" by (auto split: option.splits)
      from suppress_claim_run [OF this] have "isl r \<and> aw_db w' = aw_db w \<and> aw_suppressions w' = aw_suppressions w
          \<or> \<not> isl r \<and> claim_suppressed claim w w'" by (simp add: same(1,2) other)
      moreover have "claim_honoured claim w w' = claim_suppressed claim w w'"
        using False i by (cases "claim_user claim w") (simp_all add: claim_honoured_def)
      ultimately show ?thesis by simp
    qed
  qed
qed

text \<open>
  C22: An unsubscribe link acts only for a token that verifies. Then it answers success only when the
  topics of the claim are off for that user, or, without topics or without the user, when the
  normalised address is suppressed for the project of the claim; nobody else is touched, and any
  other answer leaves both tables as they were.
\<close>

theorem unsubscribe_honours_its_claim:
  assumes "unsubscribe hmac secret now params w = (Inr reply, w')"
  shows "(rp_status reply \<noteq> 200 \<and> aw_db w' = aw_db w \<and> aw_suppressions w' = aw_suppressions w)
    \<or> (\<exists>claim. secret \<noteq> [] \<and> verifyUnsubscribeToken hmac (query_token params) secret = Some claim
         \<and> rp_status reply = 200 \<and> claim_honoured claim w w')"
proof (cases "token_claim hmac secret (query_token params)")
  case None
  then show ?thesis using assms by (auto simp: unsubscribe_def ret_def sendHtml_def)
next
  case (Some claim)
  then have claim: "secret \<noteq> []" "verifyUnsubscribeToken hmac (query_token params) secret = Some claim"
    by (auto simp: token_claim_def split: if_splits)
  obtain r1 w1 where h: "honour_claim now claim w = (r1, w1)" by fastforce
  then have "w' = w1" "rp_status reply = (if isl r1 then 500 else 200)"
    using assms Some by (cases r1; auto simp: unsubscribe_def catchA_def thenA_def bindA_def ret_def sendHtml_def)+
  then show ?thesis using honour_claim_run [OF h] claim by (auto split: if_splits)
qed

definition ex_mac :: mac where
  "ex_mac k d = replicate 32 (CHR ''x'')"

definition ex_claim :: UnsubscribeClaim where
  "ex_claim = \<lparr>uc_projectId = ''p1'', uc_userId = ''u'', uc_channel = ''email'', uc_target = ''a@b.c'', uc_topics = [''n'']\<rparr>"

definition ex_unsubscribe where
  "ex_unsubscribe w = unsubscribe ex_mac ''s'' 7 [(''token'', signUnsubscribeToken ex_mac ex_claim ''s'')] (w :: mem_store api_world)"

lemma ex_unsubscribe_ok: "map_sum id rp_status (fst (ex_unsubscribe (empty_api_world mem_empty))) = Inr 200"
  by code_simp

lemma ex_unsubscribe_claim: "verifyUnsubscribeToken ex_mac (query_token [(''token'', signUnsubscribeToken ex_mac ex_claim ''s'')]) ''s'' = Some ex_claim"
  by code_simp

lemma ex_unsubscribe_reply:
  "\<exists>reply. unsubscribe ex_mac ''s'' 7 [(''token'', signUnsubscribeToken ex_mac ex_claim ''s'')] (empty_api_world mem_empty)
      = (Inr reply, snd (ex_unsubscribe (empty_api_world mem_empty))) \<and> rp_status reply = 200"
  using ex_unsubscribe_ok by (cases "fst (ex_unsubscribe (empty_api_world mem_empty))") (auto simp: ex_unsubscribe_def prod_eq_iff)

theorem unsubscribe_honours_its_claim_witness:
  "(''p1'', Email, ''a@b.c'') \<in> suppression_unique ` set (aw_suppressions (snd (ex_unsubscribe (empty_api_world mem_empty))))"
proof -
  from ex_unsubscribe_reply obtain reply where
    run: "unsubscribe ex_mac ''s'' 7 [(''token'', signUnsubscribeToken ex_mac ex_claim ''s'')] (empty_api_world mem_empty)
      = (Inr reply, snd (ex_unsubscribe (empty_api_world mem_empty)))" "rp_status reply = 200" by blast
  have "claim_honoured ex_claim (empty_api_world mem_empty) (snd (ex_unsubscribe (empty_api_world mem_empty)))"
    using unsubscribe_honours_its_claim [OF run(1)] run(2) ex_unsubscribe_claim by auto
  moreover have "claim_user ex_claim (empty_api_world mem_empty) = None" "normaliseTarget ''a@b.c'' = ''a@b.c''" by code_simp+
  ultimately show ?thesis by (auto simp: claim_honoured_def claim_suppressed_def ex_claim_def)
qed

text \<open>
  A claim that names a topic twice is never honoured: the statement names one row twice, which the
  database refuses, on every attempt.
\<close>

lemma doubled_topic_never_honoured:
  assumes "token_claim hmac secret (query_token params) = Some claim" "\<not> distinct (uc_topics claim)" "claim_user claim w \<noteq> None"
    and "no_faults w" "unsubscribe hmac secret now params w = (Inr reply, w')"
  shows "rp_status reply = 500 \<and> aw_db w' = aw_db w \<and> aw_suppressions w' = aw_suppressions w"
proof -
  obtain i where i: "claim_user claim w = Some i" using assms(3) by blast
  have some: "uc_topics claim \<noteq> []" using assms(2) by auto
  let ?w1 = "w\<lparr>w_step := Suc (w_step w)\<rparr>"
  have "claim_user claim ?w1 = Some i" using i by (simp add: claim_user_def)
  then have run: "honour_claim now claim w = opt_out_topics i (uc_topics claim) ?w1"
    using assms(4) some by (simp add: honour_claim_def bindA_def select_run)
  obtain r1 w1 where o: "opt_out_topics i (uc_topics claim) ?w1 = (r1, w1)" by fastforce
  have "isl r1" using o assms(2,4)
    by (auto simp: opt_out_topics_def transact_def bindA_def attempt_ok awaited_def put_topics_run throw_def ret_def)
  moreover from opt_out_run [OF o] this have "aw_db w1 = aw_db w" "aw_suppressions w1 = aw_suppressions w" by simp_all
  ultimately show ?thesis using assms(1,5) run o
    by (cases r1) (auto simp: unsubscribe_def catchA_def thenA_def bindA_def ret_def sendHtml_def)
qed

end
