(* ===== verification/Api_System.thy ===== *)
theory Api_System
  imports Api_Logs Stream_Queue
begin

text \<open>
  The dead letters, the health of the parts and the metrics
  (\<open>src/src/services/api/handlers/system.ts\<close>, with \<open>parseDlqEntry\<close> of
  \<open>handlers/shared.ts\<close>). The dead-letter stream is a list of entries, oldest first; an entry that
  is put back onto another stream is an effect. What Redis answers of its consumer groups is an
  argument.
\<close>

section \<open>Reading a dead letter\<close>

fun pairs_of :: "string list \<Rightarrow> (string \<times> string) list" where
  "pairs_of (k # v # fs) = (k, v) # pairs_of fs"
| "pairs_of _ = []"

definition entry_fields :: "string list \<Rightarrow> (string, string) jsmap" where
  "entry_fields fs = foldl (\<lambda>m (k, v). jm_set k v m) [] (pairs_of fs)"

text \<open>\<open>a ?? b\<close> on a value read from JSON, and \<open>a && \<dots>\<close>.\<close>

definition json_nullish :: "json option \<Rightarrow> json option" where
  "json_nullish v = (if v = Some JNull then None else v)"

definition or_else :: "'a option \<Rightarrow> 'a option \<Rightarrow> 'a option" where
  "or_else a b = (case a of None \<Rightarrow> b | Some v \<Rightarrow> Some v)"

definition json_truthy :: "json \<Rightarrow> bool" where
  "json_truthy v = (case v of JNull \<Rightarrow> False | JBool b \<Rightarrow> b | JInt i \<Rightarrow> i \<noteq> 0 | JStr s \<Rightarrow> s \<noteq> [] | _ \<Rightarrow> True)"

definition non_empty :: "string option \<Rightarrow> string option" where
  "non_empty v = (case v of Some s \<Rightarrow> if s = [] then None else Some s | None \<Rightarrow> None)"

record DlqEntry =
  dq_id :: string
  dq_eventType :: json
  dq_payload :: "json option"
  dq_projectId :: "json option"
  dq_error :: json
  dq_timestamp :: json
  dq_event :: "(string \<times> json) list option"
  dq_originalStream :: "json option"
  dq_fields :: "(string, string) jsmap"

definition payload_project :: "json option \<Rightarrow> (string, string) jsmap \<Rightarrow> json option" where
  "payload_project payload flat =
     (let of_payload = (\<lambda>k. json_nullish (case payload of Some p \<Rightarrow> session_field p k | None \<Rightarrow> None))
      in or_else (of_payload ''projectId'') (or_else (of_payload ''project_id'') (map_option JStr (jm_get flat ''projectId''))))"

text \<open>
  \<open>entryTime\<close> is the time of an entry id, or the current time when it has none. A text or a list in
  place of the event has no fields here.
\<close>

definition parseDlqEntry :: "(string \<Rightarrow> string) \<Rightarrow> string \<Rightarrow> string list \<Rightarrow> DlqEntry" where
  "parseDlqEntry entryTime i raw =
     (let fields = entry_fields raw; field = (\<lambda>k. map_option JStr (jm_get fields k));
          parsed = (case non_empty (jm_get fields ''data'') of Some d \<Rightarrow> json_parse d | None \<Rightarrow> None);
          present = (case parsed of Some v \<Rightarrow> json_truthy v | None \<Rightarrow> False);
          whole = (case parsed of Some (JObj kvs) \<Rightarrow> kvs | _ \<Rightarrow> []);
          dlq = jm_get whole ''dlq''; event = filter (\<lambda>(k, v). k \<noteq> ''dlq'') whole;
          block = (\<lambda>k. json_nullish (case dlq of Some d \<Rightarrow> session_field d k | None \<Rightarrow> None));
          payload = (if present then jm_get event ''payload''
             else case non_empty (jm_get fields ''payload'') of
               Some p \<Rightarrow> Some (case json_parse p of Some v \<Rightarrow> v | None \<Rightarrow> JStr p)
             | None \<Rightarrow> Some (JObj (map (\<lambda>(k, v). (k, JStr v)) fields)))
      in \<lparr>dq_id = i,
          dq_eventType = the (or_else (json_nullish (jm_get event ''type'')) (or_else (field ''eventType'')
             (or_else (field ''event_type'') (Some (JStr ''unknown''))))),
          dq_payload = payload,
          dq_projectId = payload_project payload fields,
          dq_error = the (or_else (block ''reason'') (or_else (field ''error'') (or_else (field ''reason'')
             (Some (JStr ''Dead letter payload''))))),
          dq_timestamp = the (or_else (block ''ackedAt'') (or_else (field ''timestamp'') (Some (JStr (entryTime i))))),
          dq_event = (if present then Some event else None),
          dq_originalStream = (case dlq of Some d \<Rightarrow> session_field d ''originalStream'' | None \<Rightarrow> None),
          dq_fields = fields\<rparr>)"

section \<open>The dead-letter routes\<close>

text \<open>\<open>ctx.projectId\<close> is falsy for a caller who acts for no project.\<close>

definition foreign_entry :: "RouteContext \<Rightarrow> DlqEntry \<Rightarrow> bool" where
  "foreign_entry ctx m = (case non_empty (rc_projectId ctx) of None \<Rightarrow> False | Some p \<Rightarrow> dq_projectId m \<noteq> Some (JStr p))"

definition dlq_json :: "DlqEntry \<Rightarrow> json" where
  "dlq_json m = json_fields [(''id'', Some (JStr (dq_id m))), (''eventType'', Some (dq_eventType m)),
     (''payload'', dq_payload m), (''error'', Some (dq_error m)), (''timestamp'', Some (dq_timestamp m)),
     (''originalStream'', dq_originalStream m)]"

definition getDLQMessages :: "(string \<Rightarrow> string) \<Rightarrow> RouteContext \<Rightarrow> ('r, http_reply) api_act" where
  "getDLQMessages entryTime ctx =
     catchA (bindA (select (\<lambda>w. take 100 (rev (aw_deadLetters w)))) (\<lambda>raw.
         let messages = filter (\<lambda>m. \<not> foreign_entry ctx m) (map (\<lambda>(i, fs). parseDlqEntry entryTime i fs) raw)
         in ret (sendJson 200 (JObj [(''messages'', JArr (map dlq_json (take 50 messages)))]))))
       (\<lambda>_. ret (sendJson 200 (JObj [(''messages'', JArr [])])))"

definition stream_id :: "string \<Rightarrow> bool" where
  "stream_id i = (case js_split (CHR ''-'') i of [a, b] \<Rightarrow> a \<noteq> [] \<and> b \<noteq> [] \<and> list_all js_digit a \<and> list_all js_digit b | _ \<Rightarrow> False)"

definition findDlqEntry :: "(string \<Rightarrow> string) \<Rightarrow> RouteContext \<Rightarrow> string \<Rightarrow> ('r, DlqEntry option) api_act" where
  "findDlqEntry entryTime ctx messageId =
     (if \<not> stream_id messageId then ret None
      else bindA (select (\<lambda>w. find (\<lambda>(i, fs). i = messageId) (aw_deadLetters w))) (\<lambda>raw. ret (case raw of
        None \<Rightarrow> None
      | Some (i, fs) \<Rightarrow> let entry = parseDlqEntry entryTime i fs in if foreign_entry ctx entry then None else Some entry)))"

definition all_streams :: "StreamName list" where
  "all_streams = [INBOUND Critical, INBOUND Normal, INBOUND Low, ENRICHED Critical, ENRICHED Normal, ENRICHED Low,
     AI_PENDING, SCHEDULED, OUTBOUND Critical, OUTBOUND Normal, OUTBOUND Low, WORKFLOW_INBOUND, EVENTS_INBOUND]"

definition replay_bucket :: "DlqEntry \<Rightarrow> priority_bucket" where
  "replay_bucket m =
     (let of_payload = json_nullish (case dq_payload m of Some p \<Rightarrow> session_field p ''priority'' | None \<Rightarrow> None)
      in getPriorityBucket (case of_payload of Some (JStr s) \<Rightarrow> Some s | Some _ \<Rightarrow> None | None \<Rightarrow> jm_get (dq_fields m) ''priority''))"

definition replay_stream :: "DlqEntry \<Rightarrow> string" where
  "replay_stream m =
     (case dq_originalStream m of
        Some (JStr s) \<Rightarrow> if s \<in> set (map STREAMS all_streams) then s else STREAMS (INBOUND (replay_bucket m))
      | _ \<Rightarrow> STREAMS (INBOUND (replay_bucket m)))"

definition replay_args :: "DlqEntry \<Rightarrow> string list" where
  "replay_args m = (case dq_event m of
     Some event \<Rightarrow> [''data'', json_stringify (JObj event)]
   | None \<Rightarrow> concat (map (\<lambda>(k, v). [k, v]) (dq_fields m)))"

definition drop_entry :: "string \<Rightarrow> ('r, unit) api_act" where
  "drop_entry i = attempt (\<lambda>w. ((), w\<lparr>aw_deadLetters := filter (\<lambda>(j, fs). j \<noteq> i) (aw_deadLetters w)\<rparr>))"

text \<open>\<open>messageId\<close> is the id in the body: absent or falsy, a text, or another value, which is no stream id.\<close>

definition replayDLQMessage ::
  "(string \<Rightarrow> string) \<Rightarrow> RouteContext \<Rightarrow> (http_error + exn) + json option \<Rightarrow> ('r, http_reply) api_act" where
  "replayDLQMessage entryTime ctx body =
     (case body of
        Inl e \<Rightarrow> ret (error_reply e)
      | Inr b \<Rightarrow>
          let messageId = (case b of Some v \<Rightarrow> session_field v ''id'' | None \<Rightarrow> None)
          in case messageId of
            None \<Rightarrow> ret (reply_error 400 ''missing_message_id'')
          | Some v \<Rightarrow>
              if \<not> json_truthy v then ret (reply_error 400 ''missing_message_id'')
              else let i = (case v of JStr s \<Rightarrow> s | _ \<Rightarrow> '''')
                in catchA (bindA (findDlqEntry entryTime ctx i) (\<lambda>entry. case entry of
                       None \<Rightarrow> ret (reply_error 404 ''dlq_message_not_found'')
                     | Some m \<Rightarrow> thenA (perform (StreamAdd (replay_stream m) (replay_args m)))
                         (thenA (drop_entry i)
                           (ret (sendJson 200 (JObj [(''success'', JBool True), (''replayedId'', JStr i), (''stream'', JStr (replay_stream m))]))))))
                     (\<lambda>_. ret (reply_error 500 ''replay_failed'')))"

definition deleteDLQMessage :: "(string \<Rightarrow> string) \<Rightarrow> RouteContext \<Rightarrow> ('r, http_reply) api_act" where
  "deleteDLQMessage entryTime ctx =
     (let i = param ctx ''id''
      in if i = [] then ret (reply_error 400 ''missing_id'')
         else catchA (bindA (findDlqEntry entryTime ctx i) (\<lambda>entry. case entry of
             None \<Rightarrow> ret (reply_error 404 ''dlq_message_not_found'')
           | Some m \<Rightarrow> thenA (drop_entry i) (ret (sendJson 200 (JObj [(''success'', JBool True)])))))
           (\<lambda>_. ret (reply_error 500 ''delete_failed'')))"

section \<open>A dead letter replayed\<close>

definition dlq_block :: "string \<Rightarrow> string \<Rightarrow> string option \<Rightarrow> json" where
  "dlq_block s t reason = JObj ([(''originalStream'', JStr s), (''ackedAt'', JStr t)]
     @ (case reason of Some m \<Rightarrow> [(''reason'', JStr m)] | None \<Rightarrow> []))"

lemma dlq_data_text: "dlq_data e s t reason = [''data'', json_stringify (JObj (event_fields e @ [(''dlq'', dlq_block s t reason)]))]"
  by (simp add: dlq_data_def dlq_block_def)

lemma dlq_plain:
  "json_plain (JObj (event_fields e)) \<Longrightarrow> json_plain (JObj (event_fields e @ [(''dlq'', dlq_block s t reason)]))"
  by (auto simp: event_fields_def dlq_block_def split: option.split)

lemma stringified_object: "json_stringify (JObj kvs) \<noteq> []"
  by simp

lemma parse_dead_letter:
  assumes "json_plain (JObj (event_fields e))"
  shows "dq_event (parseDlqEntry entryTime i (dlq_data e s t reason)) = Some (event_fields e)"
    "dq_originalStream (parseDlqEntry entryTime i (dlq_data e s t reason)) = Some (JStr s)"
    "dq_projectId (parseDlqEntry entryTime i (dlq_data e s t reason)) =
       or_else (json_nullish (jm_get (se_payload e) ''projectId'')) (json_nullish (jm_get (se_payload e) ''project_id''))"
proof -
  let ?whole = "event_fields e @ [(''dlq'', dlq_block s t reason)]"
  have fields: "entry_fields (dlq_data e s t reason) = [(''data'', json_stringify (JObj ?whole))]"
    by (simp add: dlq_data_text entry_fields_def del: json_stringify.simps)
  have parsed: "json_parse (json_stringify (JObj ?whole)) = Some (JObj ?whole)"
    by (rule json_parse_stringify [OF dlq_plain [OF assms]])
  have data: "non_empty (jm_get (entry_fields (dlq_data e s t reason)) ''data'') = Some (json_stringify (JObj ?whole))"
    using stringified_object [of ?whole] by (simp add: fields non_empty_def del: json_stringify.simps)
  have parts: "filter (\<lambda>(k, v). k \<noteq> ''dlq'') (event_fields e) = event_fields e" "jm_get (event_fields e) ''dlq'' = None"
    "jm_get ?whole ''dlq'' = Some (dlq_block s t reason)" "filter (\<lambda>(k, v). k \<noteq> ''dlq'') ?whole = event_fields e"
    "jm_get (event_fields e) ''payload'' = Some (JObj (se_payload e))"
    "session_field (dlq_block s t reason) ''originalStream'' = Some (JStr s)"
    by (simp_all add: event_fields_def dlq_block_def session_field_def)
  show "dq_event (parseDlqEntry entryTime i (dlq_data e s t reason)) = Some (event_fields e)"
    "dq_originalStream (parseDlqEntry entryTime i (dlq_data e s t reason)) = Some (JStr s)"
    by (simp_all add: parseDlqEntry_def Let_def data parsed parts json_truthy_def map_add_def del: json_stringify.simps)
  have "dq_payload (parseDlqEntry entryTime i (dlq_data e s t reason)) = Some (JObj (se_payload e))"
    by (simp add: parseDlqEntry_def Let_def data parsed parts json_truthy_def del: json_stringify.simps)
  moreover have "dq_fields (parseDlqEntry entryTime i (dlq_data e s t reason)) = entry_fields (dlq_data e s t reason)"
    "dq_projectId (parseDlqEntry entryTime i (dlq_data e s t reason)) =
       payload_project (dq_payload (parseDlqEntry entryTime i (dlq_data e s t reason))) (dq_fields (parseDlqEntry entryTime i (dlq_data e s t reason)))"
    by (simp_all only: parseDlqEntry_def Let_def DlqEntry.simps)
  ultimately show "dq_projectId (parseDlqEntry entryTime i (dlq_data e s t reason)) =
       or_else (json_nullish (jm_get (se_payload e) ''projectId'')) (json_nullish (jm_get (se_payload e) ''project_id''))"
    by (simp add: payload_project_def session_field_def fields or_else_def split: option.split del: json_stringify.simps)
qed

lemma find_entry: "distinct (map fst rows) \<Longrightarrow> (i, fs) \<in> set rows \<Longrightarrow> find (\<lambda>(j, fs). j = i) rows = Some (i, fs)"
  by (induction rows) (force split: if_splits)+

lemma findDlqEntry_own:
  assumes "no_faults w" "distinct (map fst (aw_deadLetters w))" "(i, fs) \<in> set (aw_deadLetters w)" "stream_id i"
    and "\<not> foreign_entry ctx (parseDlqEntry entryTime i fs)"
  shows "findDlqEntry entryTime ctx i w = (Inr (Some (parseDlqEntry entryTime i fs)), w\<lparr>w_step := Suc (w_step w)\<rparr>)"
  using assms find_entry [OF assms(2,3)]
  by (simp add: findDlqEntry_def bindA_def select_run ret_def)

text \<open>
  C32: The dead letter that a consumer wrote for an event is replayed, by a caller of its project or
  by one who acts for no project, as that event: it goes back onto the stream it failed on, with the
  very data of its first publication, so that the worker reads it as the same event; and it leaves
  the dead letters, which otherwise stay as they are.
\<close>

theorem dead_letter_replays_as_published:
  assumes "no_faults w" "distinct (map fst (aw_deadLetters w))" "(i, dlq_data e s t reason) \<in> set (aw_deadLetters w)" "stream_id i"
    and "json_plain (JObj (event_fields e))" "schema (JObj (event_fields e)) = Inr e" "s \<in> set (map STREAMS all_streams)"
    and "case non_empty (rc_projectId ctx) of None \<Rightarrow> True | Some p \<Rightarrow> jm_get (se_payload e) ''projectId'' = Some (JStr p)"
    and "replayDLQMessage entryTime ctx (Inr (Some (JObj [(''id'', JStr i)]))) w = (r, w')"
  shows "map_sum id rp_status r = Inr 200
    \<and> w_log w' = w_log w @ [StreamAdd s (entry_data e)]
    \<and> map_option sm_event (parseMessage schema j (Some (entry_data e))) = Some e
    \<and> aw_deadLetters w' = filter (\<lambda>(k, fs). k \<noteq> i) (aw_deadLetters w)"
proof -
  let ?m = "parseDlqEntry entryTime i (dlq_data e s t reason)"
  have own: "\<not> foreign_entry ctx ?m"
    using assms(8) by (auto simp: foreign_entry_def parse_dead_letter [OF assms(5)] or_else_def json_nullish_def split: option.splits)
  have "replay_stream ?m = s" "replay_args ?m = entry_data e"
    using assms(7) by (simp_all add: replay_stream_def replay_args_def parse_dead_letter [OF assms(5)] entry_data_def)
  moreover have "json_truthy (JStr i)" using assms(4) by (auto simp: json_truthy_def stream_id_def split: list.splits)
  ultimately have run: "map_sum id rp_status r = Inr 200 \<and> w_log w' = w_log w @ [StreamAdd s (entry_data e)]
      \<and> aw_deadLetters w' = filter (\<lambda>(k, fs). k \<noteq> i) (aw_deadLetters w)"
    using assms(9,1) findDlqEntry_own [OF assms(1-4) own]
    by (auto simp: replayDLQMessage_def session_field_def Let_def catchA_def bindA_def thenA_def perform_def drop_entry_def
        attempt_ok ret_def sendJson_def record_effect_def no_faults_def attempt_def)
  then show ?thesis using parseMessage_entry_data [where schema = schema and e = e, OF assms(5,6)] by simp
qed

text \<open>
  Only the newest hundred dead letters are looked at, of whatever project: behind a hundred of
  others, those of a project are not listed.
\<close>

lemma dead_letters_hidden_by_others:
  assumes "no_faults w" "list_all (\<lambda>(i, fs). foreign_entry ctx (parseDlqEntry entryTime i fs)) (take 100 (rev (aw_deadLetters w)))"
  shows "fst (getDLQMessages entryTime ctx w) = Inr (sendJson 200 (JObj [(''messages'', JArr [])]))"
proof -
  have "filter (\<lambda>m. \<not> foreign_entry ctx m) (map (\<lambda>(i, fs). parseDlqEntry entryTime i fs) (take 100 (rev (aw_deadLetters w)))) = []"
    using assms(2) by (auto simp: filter_empty_conv list_all_iff)
  then show ?thesis using assms(1) by (simp add: getDLQMessages_def catchA_def bindA_def select_run ret_def Let_def)
qed

section \<open>Only one's own dead letters\<close>

lemma findDlqEntry_project:
  assumes "findDlqEntry entryTime ctx i w = (Inr (Some m), w1)" "non_empty (rc_projectId ctx) = Some p"
  shows "dq_projectId m = Some (JStr p)"
  using assms by (auto simp: findDlqEntry_def bindA_def select_def attempt_def ret_def foreign_entry_def Let_def
      split: if_splits option.splits)

definition ex_dlq_world :: "mem_store api_world" where
  "ex_dlq_world = (empty_api_world mem_empty)\<lparr>aw_deadLetters := [(''1-0'', dlq_data ex_queue_event (STREAMS (OUTBOUND Normal)) ''t'' None)]\<rparr>"

definition ex_dlq_run where
  "ex_dlq_run = replayDLQMessage (\<lambda>_. ''now'') (ex_user_context\<lparr>rc_projectId := None\<rparr>) (Inr (Some (JObj [(''id'', JStr ''1-0'')]))) ex_dlq_world"

theorem dead_letter_replays_as_published_witness:
  "w_log (snd ex_dlq_run) = [StreamAdd (STREAMS (OUTBOUND Normal)) (entry_data ex_queue_event)] \<and> aw_deadLetters (snd ex_dlq_run) = []"
proof -
  have hyps: "no_faults ex_dlq_world" "distinct (map fst (aw_deadLetters ex_dlq_world))"
      "(''1-0'', dlq_data ex_queue_event (STREAMS (OUTBOUND Normal)) ''t'' None) \<in> set (aw_deadLetters ex_dlq_world)"
    by (simp_all add: ex_dlq_world_def no_faults_def empty_api_world_def)
  have more_hyps: "stream_id ''1-0''" "json_plain (JObj (event_fields ex_queue_event))" "STREAMS (OUTBOUND Normal) \<in> set (map STREAMS all_streams)"
      "case non_empty (rc_projectId (ex_user_context\<lparr>rc_projectId := None\<rparr>)) of None \<Rightarrow> True
         | Some p \<Rightarrow> jm_get (se_payload ex_queue_event) ''projectId'' = Some (JStr p)"
    by code_simp+
  from dead_letter_replays_as_published [OF hyps more_hyps(1,2) refl [of "Inr ex_queue_event"] more_hyps(3,4)
      trans [OF ex_dlq_run_def [symmetric] prod.collapse [symmetric]]]
  show ?thesis by (simp add: ex_dlq_world_def empty_api_world_def)
qed

section \<open>Health\<close>

definition health_workers :: "string list" where
  "health_workers = [''enricher'', ''engine'', ''scheduler'', ''delivery'', ''ai'', ''workflow'', ''events'']"

text \<open>
  What the run met: whether the ping and the query answered, and how long they took, and the texts
  under the health keys. One text that is not JSON is the error of all.
\<close>

record health_env =
  he_ping :: "int option"
  he_query :: "int option"
  he_values :: "string + string option list"
  he_jsonError :: string

definition worker_health :: "health_env \<Rightarrow> (string \<times> json) list" where
  "worker_health e =
     (let failed = (\<lambda>m. map (\<lambda>k. (k, JObj [(''status'', JStr ''error''), (''error'', JStr m)])) health_workers)
      in case he_values e of
        Inl m \<Rightarrow> failed m
      | Inr vals \<Rightarrow>
          if list_ex (\<lambda>v. case non_empty v of Some s \<Rightarrow> json_parse s = None | None \<Rightarrow> False) vals then failed (he_jsonError e)
          else map (\<lambda>(k, v). (k, case non_empty v of Some s \<Rightarrow> the (json_parse s)
            | None \<Rightarrow> JObj [(''status'', JStr ''unknown''), (''message'', JStr ''No heartbeat'')])) (zip health_workers vals))"

definition part_health :: "int option \<Rightarrow> json" where
  "part_health t = JObj [(''ok'', JBool (t \<noteq> None)), (''latencyMs'', JInt (case t of Some ms \<Rightarrow> ms | None \<Rightarrow> 0))]"

definition getSystemHealth :: "health_env \<Rightarrow> http_reply" where
  "getSystemHealth e = sendJson 200 (JObj
     [(''status'', JStr (if he_ping e \<noteq> None \<and> he_query e \<noteq> None then ''healthy'' else ''degraded'')),
      (''redis'', part_health (he_ping e)), (''db'', part_health (he_query e)),
      (''workers'', JObj (if he_ping e \<noteq> None then worker_health e else []))])"

section \<open>Metrics\<close>

text \<open>
  A consumer group as \<open>XINFO GROUPS\<close> describes it; \<open>None\<close> is a field that is absent or no number.
  The command may reject, and so may \<open>XLEN\<close>.
\<close>

record group_info =
  gi_name :: string
  gi_pending :: "int option"
  gi_lag :: "int option"
  gi_lastDelivered :: string

definition getStreamBacklog :: "(string \<Rightarrow> exn + group_info list) \<Rightarrow> (string \<Rightarrow> exn + int) \<Rightarrow> string \<Rightarrow> string option \<Rightarrow> exn + int" where
  "getStreamBacklog xinfo xlen stream targetGroup =
     (case targetGroup of
        None \<Rightarrow> xlen stream
      | Some g \<Rightarrow> (case xinfo stream of
          Inl _ \<Rightarrow> xlen stream
        | Inr groups \<Rightarrow> (case find (\<lambda>x. gi_name x = g) groups of
            None \<Rightarrow> xlen stream
          | Some x \<Rightarrow>
              let pending = (case gi_pending x of Some n \<Rightarrow> n | None \<Rightarrow> 0)
              in case gi_lag x of
                Some lag \<Rightarrow> Inr (lag + pending)
              | None \<Rightarrow>
                  if gi_lastDelivered x = ''0-0'' then (case xlen stream of Inl _ \<Rightarrow> xlen stream | Inr n \<Rightarrow> Inr (n + pending))
                  else Inr pending)))"

definition metric_streams :: "(string \<times> StreamName \<times> string option) list" where
  "metric_streams =
     [(''INBOUND_CRITICAL'', INBOUND Critical, Some ''notifkit:group:enricher''), (''INBOUND_NORMAL'', INBOUND Normal, Some ''notifkit:group:enricher''),
      (''INBOUND_LOW'', INBOUND Low, Some ''notifkit:group:enricher''), (''ENRICHED_NORMAL'', ENRICHED Normal, Some ''notifkit:group:engine''),
      (''OUTBOUND_CRITICAL'', OUTBOUND Critical, Some ''notifkit:group:delivery''), (''OUTBOUND_NORMAL'', OUTBOUND Normal, Some ''notifkit:group:delivery''),
      (''OUTBOUND_LOW'', OUTBOUND Low, Some ''notifkit:group:delivery''), (''WORKFLOW_INBOUND'', WORKFLOW_INBOUND, Some ''notifkit:group:workflow''),
      (''EVENTS_INBOUND'', EVENTS_INBOUND, Some ''notifkit:group:events''), (''DEAD_LETTER'', DEAD_LETTER, None)]"

definition stream_depths :: "(string \<Rightarrow> exn + group_info list) \<Rightarrow> (string \<Rightarrow> exn + int) \<Rightarrow> bool \<Rightarrow> (string \<times> int) list" where
  "stream_depths xinfo xlen isAdmin =
     (if \<not> isAdmin then []
      else map (\<lambda>(name, s, g). (name, case getStreamBacklog xinfo xlen (STREAMS s) g of Inr n \<Rightarrow> n | Inl _ \<Rightarrow> 0)) metric_streams)"

definition count_tasks :: "(message_log \<Rightarrow> bool) \<Rightarrow> 'r api_world \<Rightarrow> int" where
  "count_tasks P w = int (card (log_task ` {l \<in> set (aw_logs w). P l}))"

text \<open>
  A percentage with two digits, in hundredths: the exact quotient, rounded half up.
\<close>

definition percent_hundredths :: "int \<Rightarrow> int \<Rightarrow> int" where
  "percent_hundredths n d = (20000 * n + d) div (2 * d)"

definition hundredths_text :: "int \<Rightarrow> string" where
  "hundredths_text h = show_int (h div 100) @ ''.'' @ show_int (h mod 100 div 10) @ (if h mod 10 = 0 then [] else show_int (h mod 10))"

definition percent_json :: "int \<Rightarrow> int \<Rightarrow> json" where
  "percent_json n d =
     (let h = percent_hundredths n d in if h mod 100 = 0 then JInt (h div 100) else JFrac (hundredths_text h))"

definition getSystemMetrics ::
  "(string \<Rightarrow> exn + group_info list) \<Rightarrow> (string \<Rightarrow> exn + int) \<Rightarrow> RouteContext \<Rightarrow> ('r, http_reply) api_act" where
  "getSystemMetrics xinfo xlen ctx =
     (let depths = stream_depths xinfo xlen (rc_isAdmin ctx); project = non_empty (rc_projectId ctx);
          mine = (\<lambda>l. case project of Some p \<Rightarrow> lr_projectId (ml_row l) = p | None \<Rightarrow> True)
      in bindA (select (count_tasks mine)) (\<lambda>total_tasks.
         bindA (select (count_tasks (\<lambda>l. mine l \<and> lr_status (ml_row l) = ''delivered''))) (\<lambda>delivered.
           let failed = (if project \<noteq> None then max 0 (total_tasks - delivered)
                 else case jm_get depths ''DEAD_LETTER'' of Some n \<Rightarrow> n | None \<Rightarrow> 0)
           in ret (sendJson 200 (JObj [(''streams'', JObj (map (\<lambda>(k, n). (k, JInt n)) depths)),
             (''deliveryStats'', JObj [(''total'', JInt total_tasks), (''delivered'', JInt delivered), (''failed'', JInt failed),
                (''successRate'', if total_tasks > 0 then percent_json delivered total_tasks else JInt 100)])])))))"

lemma count_tasks_mono: "(\<And>l. P l \<Longrightarrow> Q l) \<Longrightarrow> count_tasks P w \<le> count_tasks Q w"
  unfolding count_tasks_def by (intro of_nat_mono card_mono) auto

lemma percent_bounds:
  assumes "0 \<le> n" "n \<le> d" "0 < d"
  shows "0 \<le> percent_hundredths n d \<and> percent_hundredths n d \<le> 10000"
proof -
  have "(20000 * n + d) div (2 * d) \<le> (d + 10000 * (2 * d)) div (2 * d)"
    using assms by (intro zdiv_mono1) auto
  also have "\<dots> = 10000 + d div (2 * d)" using assms(3) by (intro div_mult_self1) simp
  also have "\<dots> = 10000" using assms(3) by (simp add: div_pos_pos_trivial)
  finally show ?thesis using assms by (simp add: percent_hundredths_def pos_imp_zdiv_nonneg_iff)
qed

end
