(* ===== verification/Spec2Isabelle.thy ===== *)
theory Spec2Isabelle
  imports NK_Prelude Json_Codec Buffer_Codec Shared_Utils LRU_Cache Cache_Clients Circuit_Breaker Semaphore Batch_Processor Data_Loader Redis_Scripts Rate_Limiter Throttle_Idempotency Template_Render Unsubscribe Calendar Quiet_Hours Effects Contracts Task_Dispatch Engine Delivery Stream_Queue Worker User_Store Send_Gate Scheduler Enricher Duration Workflow_Store Workflow Workflow_Timers Event_Worker AI_Worker Uri_Codec Api_Router Http Project_Store Admin_Session Api_Gate Api_Access Api_Projects Paging Api_Users Api_Notifications Api_Logs Api_Suppressions Api_System
begin

text \<open>
  notifkit: a notification platform in TypeScript. This development models the program under
  \<open>src/src/\<close> and proves what makes its parts correct. Theory and function names
  below are those of the files they stand for.

  \<^bold>\<open>The program.\<close> A client calls the HTTP API (\<open>services/api\<close>) with a project
  key; the API writes tables (Postgres) and publishes messages. Every stage after it is a worker
  process that consumes one Redis stream and publishes to the next:

    \<^item> API \<rightarrow> stream of requests \<rightarrow> enricher \<rightarrow> stream of enriched events \<rightarrow> engine;
    \<^item> engine \<rightarrow> AI worker \<rightarrow> dispatch, or engine \<rightarrow> dispatch: a task goes to the delivery stream,
      or is parked in the table \<open>scheduled_payloads\<close> until the scheduler releases it;
    \<^item> delivery \<rightarrow> provider, then an outcome event; a failure is parked again or falls back to the
      next channel;
    \<^item> event worker: writes the outcome log in batches, and wakes the workflows that wait for an
      event; workflow worker and timers: durable handlers that sleep, wait and notify.

  Redis is shared by all of them (streams, leases, counters, sorted sets); memory is not.

  \<^bold>\<open>The theories.\<close>

  Foundations. \<open>NK_Prelude\<close>: times, the JavaScript \<open>Map\<close>, strings. \<open>Json_Codec\<close>,
  \<open>Buffer_Codec\<close>, \<open>Uri_Codec\<close>, \<open>Calendar\<close>: the parts of the language's standard
  library the code calls. \<open>Effects\<close>: asynchronous code as actions that give a value or an
  error and the world they leave; an \<open>await\<close> of an outside service may reject by the world's
  fault schedule, and \<open>keeps P m\<close> says that an action preserves \<open>P\<close> on every path.

  Building blocks. \<open>Shared_Utils\<close> (\<open>shared/utils.ts\<close>), \<open>LRU_Cache\<close>
  (\<open>shared/cache.ts\<close>), \<open>Cache_Clients\<close> (\<open>templates/cache.ts\<close>,
  \<open>rate-limiter/project-settings-cache.ts\<close>), \<open>Circuit_Breaker\<close>, \<open>Semaphore\<close>,
  \<open>Batch_Processor\<close>, \<open>Data_Loader\<close> (the files of those names in \<open>shared/\<close>),
  \<open>Redis_Scripts\<close> (the Lua scripts of \<open>redis/index.ts\<close>), \<open>Rate_Limiter\<close>
  (\<open>rate-limiter/api-rate-limiter.ts\<close> and \<open>services/delivery/throttle.ts\<close>),
  \<open>Throttle_Idempotency\<close> (\<open>rate-limiter/user-throttle.ts\<close>, \<open>idempotency/index.ts\<close>),
  \<open>Template_Render\<close> (\<open>templates/render.ts\<close>), \<open>Unsubscribe\<close>
  (\<open>unsubscribe/index.ts\<close>). Code that runs between two awaits is one definition, so an
  interleaving of callers is a sequence of these segments, and the invariants hold for each of
  them: the cache is a map with expiries and a bounded size (\<open>lru_refines_ttl_map\<close>), a half-open
  breaker lets one probe through, leases of quota never add up to more than the limit of the
  window, a lease has one holder.

  The pipeline. \<open>Contracts\<close> (\<open>contracts/\<close>): the payloads, the envelope, the registry.
  \<open>Stream_Queue\<close> (\<open>queue/index.ts\<close>): producer, consumer, dead letters, the claim of
  stalled entries. \<open>Worker\<close> (\<open>workers/index.ts\<close>): what becomes of a message, and the life
  cycle of a worker as a step relation; no message is lost, each outcome settles it in its way,
  and a worker that reports itself stopped has drained the tasks of its own loop. \<open>User_Store\<close>
  (\<open>repositories/user.ts\<close>, \<open>contact.ts\<close>, \<open>template.ts\<close>): the tables and their
  statements. \<open>Enricher\<close>, \<open>Quiet_Hours\<close>, \<open>Task_Dispatch\<close>, \<open>Engine\<close>,
  \<open>AI_Worker\<close>, \<open>Send_Gate\<close>, \<open>Scheduler\<close>, \<open>Delivery\<close>, \<open>Event_Worker\<close>: the
  handler of each stage as the code has it, every await in its order. Their theorems say which
  recipient reaches the next stage and which gate held the others, that a second delivery of the
  same message neither sends nor bills again while the marks last, that a parked send is released
  once or stays parked, that fallbacks and retries end, and that a log entry is acknowledged only
  after its row was written.

  Workflows. \<open>Duration\<close>, \<open>Workflow_Store\<close>, \<open>Workflow\<close>, \<open>Workflow_Timers\<close>
  (\<open>services/workflow\<close>, \<open>workflows/\<close>, \<open>repositories/workflow.ts\<close>): a handler is the
  tree of the steps it takes and is replayed from its start on every resume. A step notifies
  once, a suspended instance keeps something that wakes it, a cancelled one stops.

  The API. \<open>Http\<close>, \<open>Api_Router\<close>, \<open>Project_Store\<close>, \<open>Admin_Session\<close>,
  \<open>Api_Gate\<close>, \<open>Api_Access\<close>, \<open>Api_Projects\<close> and the theories of the other
  handlers that follow them in the imports: \<open>handleRequest\<close> with its three kinds of credential
  (\<open>services/api/main.ts\<close>, \<open>router.ts\<close>, \<open>http.ts\<close>), and one theory per file of
  \<open>services/api/handlers/\<close> that is modelled. A route runs only for a credential it accepts, the
  router's index gives the first route that matches, a read-only credential changes nothing.

  \<^bold>\<open>Outside the program.\<close> What is not source code of the repository is an argument:

    \<^item> Redis: the records \<open>'s redis\<close> and \<open>'s stream_redis\<close> of commands on an unknown store,
      with the documented behaviour as laws (\<open>redis_string_laws\<close>, \<open>redis_counter_laws\<close>,
      \<open>redis_zset_laws\<close>, \<open>redis_member_laws\<close>, \<open>redis_separate_laws\<close>, \<open>stream_laws\<close>).
      \<open>mem_redis\<close> and \<open>mem_streams\<close> satisfy them, for the witnesses. Scripts are atomic.
    \<^item> Postgres: a table is the list of its rows or a map from its unique key; a statement does
      what its SQL says, a transaction commits or changes nothing.
    \<^item> HMAC-SHA-256, SHA-256, scrypt and random values, the \<open>Intl\<close> formatter, the zod schemas,
      the URL parser's verdict, the language model, the providers: functions or inputs of a run,
      without laws beyond those a theorem names.

  \<^bold>\<open>Fuel and bounds.\<close> \<open>json_parse\<close> has fuel for twice the length of its input
  (\<open>json_parse_stringify\<close>: enough for every printed value). The rebuild of the scheduler's queues
  runs on fuel; \<open>scheduler_rebuild_is_one_pass\<close> shows that one more than the number of parked
  rows is enough. Every other loop is a total recursion.

  \<^bold>\<open>Idealisations.\<close> Numbers are exact integers or fractions; the code's values stay far below
  \<open>2\<close>-to-the-53. A string is a list of code units up to 255. A date-time text is the instant it
  denotes. A run reads the clock once, except where a theory takes several readings. A call that
  rejects did nothing. A handler of the host language that catches the errors of a step is not a
  tree of steps. A task starts as soon as it has a permit. Publishing a batch is one call.
  Logging, metrics and traces are left out. The table of suppressions is \<open>db_suppressions\<close> for the
  stages that only read it and \<open>aw_suppressions\<close> in the API's world.

  \<^bold>\<open>Not modelled.\<close> The dashboard (React pages), the profiling harness, the examples and scripts:
  user interface and tooling around the program. The provider packages, \<open>packages/mcp\<close> and
  \<open>packages/create-notifkit\<close>: adapters that turn one call into an HTTP request or files; the
  delivery stage has the provider as a parameter. The process start-up (\<open>server.ts\<close>,
  \<open>workers/bootstrap.ts\<close>, configuration, logger, metrics, health endpoints), the HTTP server and
  its static files, the schema and migrations as SQL text. The API handlers that no theory names.
\<close>

end
